(* ===== verification/Etmem_Prelude.thy ===== *)
theory Etmem_Prelude
  imports Main "HOL-Library.Word"
begin

text \<open>
  Shared vocabulary of the development: the machine integer types, the faults that
  C code can run into, the allocator oracle, the operations on C doubles, and the
  generic list and word lemmas the component theories use.

  Conventions.
  \<^item> A C \<open>int\<close>, \<open>long\<close> or \<open>ssize_t\<close> is an \<open>int\<close>; where a conversion
    narrows it, the conversion is written out (\<open>cast_int\<close>). An unsigned integer
    is a word of its width.
  \<^item> A dereference of NULL, an access out of an array's bounds, a division by zero or
    an undefined shift, or a read of uninitialised memory, ends the computation with \<open>Inl\<close> of a \<open>c_fault\<close>.
  \<^item> A singly linked list is the list of its nodes. A \<open>struct x **\<close> cursor that walks
    such a list is a pair \<open>(visited, rest)\<close>: \<open>*cursor\<close> is NULL iff \<open>rest = []\<close>,
    and the list seen from its head is \<open>visited @ rest\<close>.
  \<^item> \<open>malloc\<close>/\<open>calloc\<close> consult an oracle: a finite list of outcomes, after which every
    allocation succeeds. A theorem quantified over the oracle covers every pattern
    of allocation failures.
\<close>

section \<open>Types\<close>

type_synonym u8 = "8 word"
type_synonym u32 = "32 word"
type_synonym u64 = "64 word"

datatype c_fault =
    Null_deref
  | Out_of_bounds
  | Div_by_zero
  | Bad_shift
  | Diverges
  | Uninitialised
  | Use_after_free

type_synonym 'a c_res = "c_fault + 'a"

type_synonym alloc = "bool list"

text \<open>One allocation: whether it succeeds, and the oracle for the later ones.\<close>

fun c_alloc :: "alloc \<Rightarrow> bool \<times> alloc" where
  "c_alloc [] = (True, [])"
| "c_alloc (b # bs) = (b, bs)"

text \<open>Sequencing of computations that may fault.\<close>

fun c_bind :: "'a c_res \<Rightarrow> ('a \<Rightarrow> 'b c_res) \<Rightarrow> 'b c_res" where
  "c_bind (Inl e) f = Inl e"
| "c_bind (Inr x) f = f x"

text \<open>An access to an array, and a computation on each entry.\<close>

definition c_nth :: "'a list \<Rightarrow> int \<Rightarrow> 'a c_res" where
  "c_nth xs i = (if 0 \<le> i \<and> i < int (length xs) then Inr (xs ! nat i) else Inl Out_of_bounds)"

fun c_map :: "('a \<Rightarrow> 'b c_res) \<Rightarrow> 'a list \<Rightarrow> 'b list c_res" where
  "c_map f [] = Inr []"
| "c_map f (x # xs) = c_bind (f x) (\<lambda>y. c_bind (c_map f xs) (\<lambda>ys. Inr (y # ys)))"

text \<open>Conversion of an integer to C \<open>int\<close> (two's complement truncation).\<close>

definition cast_int :: "int \<Rightarrow> int" where
  "cast_int x = signed_take_bit 31 x"

text \<open>
  Arithmetic of C doubles and the functions of \<open>libm\<close> the code calls. Rounding and
  the accuracy of \<open>log\<close>, \<open>erf\<close> and \<open>pow\<close> depend on the platform, so the
  operations are a parameter of every definition that computes with doubles;
  \<open>fp_lit n d\<close> is the double denoted by the literal \<open>n/d\<close>, and \<open>fp_trunc\<close> is
  the conversion of a double to \<open>int\<close>.
\<close>

record 'd fp =
  fp_lit :: "int \<Rightarrow> int \<Rightarrow> 'd"
  fp_plus :: "'d \<Rightarrow> 'd \<Rightarrow> 'd"
  fp_minus :: "'d \<Rightarrow> 'd \<Rightarrow> 'd"
  fp_times :: "'d \<Rightarrow> 'd \<Rightarrow> 'd"
  fp_divide :: "'d \<Rightarrow> 'd \<Rightarrow> 'd"
  fp_less :: "'d \<Rightarrow> 'd \<Rightarrow> bool"
  fp_eq :: "'d \<Rightarrow> 'd \<Rightarrow> bool"
  fp_log :: "'d \<Rightarrow> 'd"
  fp_sqrt :: "'d \<Rightarrow> 'd"
  fp_erf :: "'d \<Rightarrow> 'd"
  fp_pow :: "'d \<Rightarrow> 'd \<Rightarrow> 'd"
  fp_trunc :: "'d \<Rightarrow> int"

abbreviation fp_of_int :: "'d fp \<Rightarrow> int \<Rightarrow> 'd" where
  "fp_of_int F n \<equiv> fp_lit F n 1"

text \<open>
  What the scan code relies on of the comparisons of small literals: each literal equals
  itself, different small integers differ, the order of \<open>1\<close> and \<open>2\<close>, and no loop time
  \<open>k + 0.5\<close> with \<open>k \<ge> 0\<close> is the idle marker \<open>-1\<close>.
\<close>

definition fp_literals_ok :: "'d fp \<Rightarrow> bool" where
  "fp_literals_ok F \<longleftrightarrow>
     (\<forall>n. fp_eq F (fp_of_int F n) (fp_of_int F n))
     \<and> (\<forall>n\<in>{1, 2}. \<not> fp_eq F (fp_of_int F n) (fp_of_int F (-2)))
     \<and> \<not> fp_less F (fp_of_int F 2) (fp_of_int F 1)
     \<and> \<not> fp_less F (fp_of_int F 1) (fp_of_int F 1)
     \<and> (\<forall>v. fp_eq F v (fp_of_int F (-2)) \<longrightarrow> fp_less F v (fp_of_int F 1))
     \<and> (\<forall>k\<ge>0. \<not> fp_eq F (fp_plus F (fp_of_int F k) (fp_lit F 1 2)) (fp_of_int F (-1)))"

text \<open>
  A concrete instance: fixed point with three decimals on \<open>int\<close>. It is used only to
  evaluate the definitions on concrete inputs.
\<close>

definition milli_fp :: "int fp" where
  "milli_fp = \<lparr>
     fp_lit = (\<lambda>n d. (1000 * n) div d),
     fp_plus = (+), fp_minus = (-),
     fp_times = (\<lambda>a b. (a * b) div 1000),
     fp_divide = (\<lambda>a b. (1000 * a) div b),
     fp_less = (<), fp_eq = (=),
     fp_log = (\<lambda>x. x), fp_sqrt = (\<lambda>x. x), fp_erf = (\<lambda>x. x),
     fp_pow = (\<lambda>a b. (a * a) div 1000),
     fp_trunc = (\<lambda>a. sgn a * (\<bar>a\<bar> div 1000)) \<rparr>"

section \<open>Collections of simplification rules\<close>

named_theorems c_simps \<open>unfolding rules of small C helper functions\<close>
named_theorems inv_intros \<open>preservation of component invariants\<close>

section \<open>Generic lemmas\<close>

lemma c_bind_cong [fundef_cong]:
  "m = m' \<Longrightarrow> (\<And>x. m' = Inr x \<Longrightarrow> f x = f' x) \<Longrightarrow> c_bind m f = c_bind m' f'"
  by (cases m) auto

lemma c_bind_Inr [simp]: "c_bind m f = Inr y \<longleftrightarrow> (\<exists>x. m = Inr x \<and> f x = Inr y)"
  by (cases m) auto

lemma c_bind_Inl: "c_bind m f = Inl e \<longleftrightarrow> m = Inl e \<or> (\<exists>x. m = Inr x \<and> f x = Inl e)"
  by (cases m) auto

lemma c_nth_Inr [simp]: "c_nth xs i = Inr x \<longleftrightarrow> 0 \<le> i \<and> i < int (length xs) \<and> x = xs ! nat i"
  by (auto simp: c_nth_def)

lemma c_nth_in: "0 \<le> i \<Longrightarrow> i < int (length xs) \<Longrightarrow> c_nth xs i = Inr (xs ! nat i)"
  by simp

lemma c_map_Inr: "(\<And>x. x \<in> set xs \<Longrightarrow> f x = Inr (g x)) \<Longrightarrow> c_map f xs = Inr (map g xs)"
  by (induction xs) auto

lemma milli_fp_literals_ok: "fp_literals_ok milli_fp"
  by (auto simp: fp_literals_ok_def milli_fp_def)

lemma cast_int_id [simp]: "- (2 ^ 31) \<le> x \<Longrightarrow> x < 2 ^ 31 \<Longrightarrow> cast_int x = x"
  by (simp add: cast_int_def signed_take_bit_int_eq_self)

lemma cast_int_bounds: "- (2 ^ 31) \<le> cast_int x \<and> cast_int x < 2 ^ 31"
  using signed_take_bit_int_greater_eq_minus_exp [of 31 x] signed_take_bit_int_less_exp [of 31 x]
  by (simp add: cast_int_def)

lemma unat_u64: "unat (w :: u64) < 2 ^ 64"
  using unsigned_less [of w] by simp

lemma u64_Suc:
  fixes a b :: u64
  assumes "a < b"
  shows "unat (a + 1) = Suc (unat a)" "a + 1 \<le> b"
proof -
  have "unat a < unat b" using assms by (simp add: word_less_nat_alt)
  with unat_u64 [of b] have "Suc (unat a) < 2 ^ 64 \<and> Suc (unat a) \<le> unat b" by linarith
  then show "unat (a + 1) = Suc (unat a)" by (simp add: unat_word_ariths)
  with \<open>unat a < unat b\<close> show "a + 1 \<le> b" by (simp add: word_le_nat_alt)
qed

lemma sorted_wrt_less_appendI:
  "sorted_wrt (<) (xs :: 'a::order list) \<Longrightarrow> sorted_wrt (<) ys \<Longrightarrow>
   (\<And>x y. x \<in> set xs \<Longrightarrow> y \<in> set ys \<Longrightarrow> x < y) \<Longrightarrow> sorted_wrt (<) (xs @ ys)"
  by (auto simp: sorted_wrt_append)

lemma list_all2_in2: "list_all2 P xs ys \<Longrightarrow> y \<in> set ys \<Longrightarrow> \<exists>x\<in>set xs. P x y"
  by (metis in_set_conv_nth list_all2_conv_all_nth)

text \<open>A list cut into pieces of length \<open>n\<close>, the last one shorter.\<close>

function chunks :: "nat \<Rightarrow> 'a list \<Rightarrow> 'a list list" where
  "chunks n xs = (if n = 0 \<or> xs = [] then [] else take n xs # chunks n (drop n xs))"
  by pat_completeness auto
termination
  by (relation "measure (\<lambda>(n, xs). length xs)") auto

declare chunks.simps [simp del]

lemma chunks_Nil [simp]: "chunks n [] = []"
  by (simp add: chunks.simps [of n "[]"])

lemma chunks_step: "0 < n \<Longrightarrow> xs \<noteq> [] \<Longrightarrow> chunks n xs = take n xs # chunks n (drop n xs)"
  by (simp add: chunks.simps [of n xs])

lemma concat_chunks [simp]: "0 < n \<Longrightarrow> concat (chunks n xs) = xs"
proof (induction n xs rule: chunks.induct)
  case (1 n xs)
  then show ?case by (cases "xs = []") (simp_all add: chunks_step)
qed

lemma chunks_length: "c \<in> set (chunks n xs) \<Longrightarrow> 0 < length c \<and> length c \<le> n"
proof (induction n xs rule: chunks.induct)
  case (1 n xs)
  then show ?case by (cases "n = 0 \<or> xs = []") (auto simp: chunks.simps [of n xs])
qed

end
