(* ===== verification/Scan_Pages.thy ===== *)
theory Scan_Pages
  imports Etmem_Prelude
begin

unbundle bit_operations_syntax

text \<open>
  The page scanner of \<open>etmemd_scan.c\<close>: the page size table, the decoder of the bytes
  the kernel returns from \<open>/proc/<pid>/idle_pages\<close>, and the address-ordered list of
  \<open>struct page_refs\<close> that repeated scans build up.
\<close>

section \<open>Page sizes\<close>

datatype page_type = PTE_TYPE | PMD_TYPE | PUD_TYPE | PAGE_TYPE_INVAL

text \<open>
  \<open>enum page_idle_type\<close> is read from a four-bit field, so its values are the numbers
  0 to 15, of which 0 to 10 are enumerators.
\<close>

type_synonym page_idle_type = nat

abbreviation (input) PTE_DIRTY :: page_idle_type where "PTE_DIRTY \<equiv> 3"
abbreviation (input) PTE_IDLE :: page_idle_type where "PTE_IDLE \<equiv> 5"
abbreviation (input) PMD_IDLE_PTES :: page_idle_type where "PMD_IDLE_PTES \<equiv> 7"
abbreviation (input) PTE_HOLE :: page_idle_type where "PTE_HOLE \<equiv> 8"
abbreviation (input) PMD_HOLE :: page_idle_type where "PMD_HOLE \<equiv> 9"
abbreviation (input) PIP_CMD :: page_idle_type where "PIP_CMD \<equiv> 10"
abbreviation (input) PIP_CMD_SET_HVA :: u8 where "PIP_CMD_SET_HVA \<equiv> 0xA0"
abbreviation (input) PMD_IDLE_PTES_PARAMETER :: nat where "PMD_IDLE_PTES_PARAMETER \<equiv> 512"
abbreviation (input) EPT_IDLE_BUF_MIN :: u64 where "EPT_IDLE_BUF_MIN \<equiv> 20"

definition g_page_type_by_idle_kind :: "page_type list" where
  "g_page_type_by_idle_kind =
     [PTE_TYPE, PMD_TYPE, PUD_TYPE, PTE_TYPE, PMD_TYPE, PTE_TYPE, PMD_TYPE, PMD_TYPE,
      PTE_TYPE, PMD_TYPE, PAGE_TYPE_INVAL]"

fun page_type_index :: "page_type \<Rightarrow> nat" where
  "page_type_index PTE_TYPE = 0"
| "page_type_index PMD_TYPE = 1"
| "page_type_index PUD_TYPE = 2"
| "page_type_index PAGE_TYPE_INVAL = 3"

text \<open>\<open>gps\<close> is the table \<open>g_page_size[PAGE_TYPE_INVAL]\<close>; the result type of the C
  function is \<open>int\<close>, so the 64-bit entry is truncated.\<close>

definition page_type_to_size :: "u64 list \<Rightarrow> page_type \<Rightarrow> int c_res" where
  "page_type_to_size gps ty =
     (let i = page_type_index ty in
      if i < length gps then Inr (cast_int (uint (gps ! i))) else Inl Out_of_bounds)"

definition page_type_of_idle :: "page_idle_type \<Rightarrow> page_type c_res" where
  "page_type_of_idle ty =
     (if ty < length g_page_type_by_idle_kind then Inr (g_page_type_by_idle_kind ! ty)
      else Inl Out_of_bounds)"

definition idle_size :: "u64 list \<Rightarrow> page_idle_type \<Rightarrow> int c_res" where
  "idle_size gps ty = c_bind (page_type_of_idle ty) (page_type_to_size gps)"

text \<open>The loop of \<open>get_page_shift\<close> does not end on a negative argument.\<close>

partial_function (option) get_page_shift_loop :: "int \<Rightarrow> u32 \<Rightarrow> u32 option" where
  "get_page_shift_loop pagesize page_shift =
     (if pagesize \<noteq> 0 then get_page_shift_loop (drop_bit 1 pagesize) (page_shift + 1)
      else Some page_shift)"

definition get_page_shift :: "int \<Rightarrow> u32 option" where
  "get_page_shift pagesize = get_page_shift_loop (drop_bit 1 pagesize) 0"

text \<open>\<open>1 << n\<close> on \<open>int\<close>: undefined unless the result is representable.\<close>

definition int_one_shl :: "u32 \<Rightarrow> int c_res" where
  "int_one_shl n = (if unat n < 31 then Inr (2 ^ unat n) else Inl Bad_shift)"

definition init_g_page_size :: "int \<Rightarrow> (int \<times> u64 list option) c_res" where
  "init_g_page_size pagesize =
     (if pagesize = -1 then Inr (-1, None)
      else case get_page_shift pagesize of
        None \<Rightarrow> Inl Diverges
      | Some page_shift \<Rightarrow>
          c_bind (int_one_shl page_shift) (\<lambda>pte.
          c_bind (int_one_shl (((page_shift - 3) * (4 - 2)) + 3)) (\<lambda>pmd.
          c_bind (int_one_shl (((page_shift - 3) * (4 - 1)) + 3)) (\<lambda>pud.
            Inr (0, Some [word_of_int pte, word_of_int pmd, word_of_int pud])))))"

section \<open>Decoding the scan buffer\<close>

definition get_address_from_buf :: "u8 list \<Rightarrow> nat \<Rightarrow> u64 c_res" where
  "get_address_from_buf buf index =
     (if index + 8 < length buf then Inr (
        (push_bit 56 (ucast (buf ! (index + 1))) AND 0xFF00000000000000) +
        (push_bit 48 (ucast (buf ! (index + 2))) AND 0x00FF000000000000) +
        (push_bit 40 (ucast (buf ! (index + 3))) AND 0x0000FF0000000000) +
        (push_bit 32 (ucast (buf ! (index + 4))) AND 0x000000FF00000000) +
        (push_bit 24 (ucast (buf ! (index + 5))) AND 0x00000000FF000000) +
        (push_bit 16 (ucast (buf ! (index + 6))) AND 0x0000000000FF0000) +
        (push_bit 8 (ucast (buf ! (index + 7))) AND 0x000000000000FF00) +
        (ucast (buf ! (index + 8)) AND 0x00000000000000FF))
      else Inl Out_of_bounds)"

definition get_page_nr_from_buf :: "u8 \<Rightarrow> nat" where
  "get_page_nr_from_buf b = unat (b AND 0x0F)"

definition get_page_type_from_buf :: "u8 \<Rightarrow> page_idle_type" where
  "get_page_type_from_buf b = unat (drop_bit 4 b AND 0x0F)"

section \<open>The list of page references\<close>

record 'd page_refs =
  pr_addr :: u64
  pr_count :: int
  pr_type :: page_type
  pr_possibility :: 'd
  pr_m :: int
  pr_avg :: 'd
  pr_std :: 'd
  pr_last_time :: 'd

type_synonym 'd cursor = "'d page_refs list \<times> 'd page_refs list"

text \<open>\<open>calloc\<close> zeroes the node before the fields are set.\<close>

definition new_page_refs :: "'d fp \<Rightarrow> u64 \<Rightarrow> 'd \<Rightarrow> page_type \<Rightarrow> 'd page_refs" where
  "new_page_refs F addr est_time ty =
     \<lparr>pr_addr = addr, pr_count = 0, pr_type = ty, pr_possibility = fp_of_int F 0,
      pr_m = (if \<not> fp_eq F est_time (fp_of_int F (-1)) then -1 else -2),
      pr_avg = fp_of_int F 0, pr_std = fp_of_int F (-2), pr_last_time = est_time\<rparr>"

definition alloc_page_refs_node ::
  "'d fp \<Rightarrow> u64 \<Rightarrow> 'd \<Rightarrow> page_type \<Rightarrow> alloc \<Rightarrow> 'd page_refs option \<times> alloc" where
  "alloc_page_refs_node F addr est_time ty al =
     (case c_alloc al of
        (False, al') \<Rightarrow> (None, al')
      | (True, al') \<Rightarrow> (Some (new_page_refs F addr est_time ty), al'))"

text \<open>The running average and deviation of the logarithms of the visit intervals.\<close>

definition new_avg :: "'d fp \<Rightarrow> int \<Rightarrow> 'd \<Rightarrow> 'd \<Rightarrow> 'd" where
  "new_avg F m u x =
     fp_divide F (fp_plus F (fp_times F (fp_of_int F m) u) x) (fp_of_int F (m + 1))"

definition new_std :: "'d fp \<Rightarrow> int \<Rightarrow> 'd \<Rightarrow> 'd \<Rightarrow> 'd \<Rightarrow> 'd \<Rightarrow> 'd" where
  "new_std F m u v nu x =
     (let two = fp_of_int F 2;
          nv = fp_sqrt F (fp_divide F
                 (fp_plus F
                   (fp_times F (fp_of_int F m)
                     (fp_plus F (fp_pow F v two) (fp_pow F (fp_minus F nu u) two)))
                   (fp_pow F (fp_minus F nu x) two))
                 (fp_of_int F (m + 1)))
      in if fp_less F nv (fp_of_int F 1) then fp_of_int F 1 else nv)"

text \<open>What \<open>update_page_refs\<close> does to the node whose address it was given.\<close>

definition touch_page :: "'d fp \<Rightarrow> 'd \<Rightarrow> 'd page_refs \<Rightarrow> 'd page_refs" where
  "touch_page F est_time p =
     (if \<not> fp_eq F est_time (fp_of_int F (-1)) then
        let m = pr_m p + 1; p' = p\<lparr>pr_m := m\<rparr> in
        if m = -1 then p'\<lparr>pr_last_time := est_time\<rparr>
        else
          let u = pr_avg p; v = pr_std p;
              d = fp_minus F est_time (pr_last_time p);
              x = (if fp_less F (fp_of_int F 0) d then fp_log F d else fp_of_int F (-1))
          in if m = 0 then
               p'\<lparr>pr_last_time := est_time, pr_avg := x, pr_std := fp_of_int F 2\<rparr>
             else
               let nu = new_avg F m u x in
               p'\<lparr>pr_last_time := est_time, pr_avg := nu, pr_std := new_std F m u v nu x\<rparr>
      else p)"

text \<open>
  \<open>update_page_refs\<close> on the list \<open>*page_refs\<close>: the new list, the returned cursor as
  the number of nodes before it (None for NULL), and the allocator.
\<close>

fun update_page_refs ::
  "'d fp \<Rightarrow> u64 \<Rightarrow> 'd \<Rightarrow> page_type \<Rightarrow> 'd page_refs list \<Rightarrow> alloc \<Rightarrow>
   'd page_refs list \<times> nat option \<times> alloc" where
  "update_page_refs F addr est_time ty [] al =
     (case alloc_page_refs_node F addr est_time ty al of
        (None, al') \<Rightarrow> ([], None, al')
      | (Some p, al') \<Rightarrow> ([p], Some 1, al'))"
| "update_page_refs F addr est_time ty (p # ps) al =
     (if addr = pr_addr p then (touch_page F est_time p # ps, Some 1, al)
      else if addr > pr_addr p then
        (case update_page_refs F addr est_time ty ps al of
           (ps', r, al') \<Rightarrow> (p # ps', map_option Suc r, al'))
      else
        (case alloc_page_refs_node F addr est_time ty al of
           (None, al') \<Rightarrow> (p # ps, None, al')
         | (Some q, al') \<Rightarrow> (q # p # ps, Some 1, al')))"

definition update_possibility :: "'d fp \<Rightarrow> int \<Rightarrow> 'd page_refs \<Rightarrow> 'd page_refs" where
  "update_possibility F l p =
     (if fp_eq F (pr_std p) (fp_of_int F (-2)) then p\<lparr>pr_possibility := fp_of_int F 0\<rparr>
      else
        let log_time = fp_log F (fp_minus F (fp_of_int F l) (pr_last_time p));
            deviations = fp_minus F log_time (fp_divide F (pr_avg p) (pr_std p))
        in p\<lparr>pr_possibility :=
               fp_minus F (fp_of_int F 1)
                 (fp_divide F
                   (fp_plus F (fp_of_int F 1)
                     (fp_erf F (fp_divide F deviations (fp_sqrt F (fp_of_int F 2)))))
                   (fp_of_int F 2))\<rparr>)"

text \<open>\<open>update_possibility(pf, l)\<close> reads \<open>*pf\<close> before any check of \<open>pf\<close>.\<close>

definition update_possibility_at :: "'d fp \<Rightarrow> int \<Rightarrow> 'd cursor option \<Rightarrow> 'd cursor c_res" where
  "update_possibility_at F l pf =
     (case pf of
        None \<Rightarrow> Inl Null_deref
      | Some (visited, rest) \<Rightarrow>
          (case rest of
             [] \<Rightarrow> Inl Null_deref
           | p # ps \<Rightarrow> Inr (visited, update_possibility F l p # ps)))"

text \<open>One call of \<open>update_page_refs\<close> on a cursor.\<close>

definition update_at ::
  "'d fp \<Rightarrow> u64 \<Rightarrow> 'd \<Rightarrow> page_type \<Rightarrow> 'd cursor \<Rightarrow> alloc \<Rightarrow> 'd cursor option \<times> alloc" where
  "update_at F addr est_time ty pf al =
     (case update_page_refs F addr est_time ty (snd pf) al of
        (ps, None, al') \<Rightarrow> (None, al')
      | (ps, Some k, al') \<Rightarrow> (Some (fst pf @ take k ps, drop k ps), al'))"

text \<open>The time a page is taken to be visited at: \<open>-1\<close> for the idle kinds.\<close>

definition est_time_of :: "'d fp \<Rightarrow> page_idle_type \<Rightarrow> int \<Rightarrow> 'd" where
  "est_time_of F ty loop_index =
     (if ty \<ge> PTE_IDLE then fp_of_int F (-1)
      else fp_plus F (fp_of_int F loop_index) (fp_lit F 1 2))"

fun record_loop ::
  "'d fp \<Rightarrow> int \<Rightarrow> 'd \<Rightarrow> page_type \<Rightarrow> int \<Rightarrow> int \<Rightarrow> nat \<Rightarrow> u64 \<Rightarrow> 'd cursor \<Rightarrow> alloc \<Rightarrow>
   ('d cursor option \<times> alloc) c_res" where
  "record_loop F sz est_time ty loop_index loop_end 0 addr pf al = Inr (Some pf, al)"
| "record_loop F sz est_time ty loop_index loop_end (Suc n) addr pf al =
     (case update_at F addr est_time ty pf al of
        (pf', al') \<Rightarrow>
          if loop_index = loop_end then
            c_bind (update_possibility_at F loop_index pf')
              (\<lambda>c. record_loop F sz est_time ty loop_index loop_end n
                     (addr + word_of_int sz) c al')
          else
            (case pf' of
               None \<Rightarrow> Inr (None, al')
             | Some c \<Rightarrow> record_loop F sz est_time ty loop_index loop_end n
                           (addr + word_of_int sz) c al'))"

definition record_parse_result ::
  "'d fp \<Rightarrow> u64 list \<Rightarrow> u64 \<Rightarrow> page_idle_type \<Rightarrow> nat \<Rightarrow> 'd cursor \<Rightarrow> int \<Rightarrow> int \<Rightarrow> alloc \<Rightarrow>
   ('d cursor option \<times> alloc) c_res" where
  "record_parse_result F gps addr ty nr pf loop_index loop_end al =
     c_bind (page_type_of_idle ty) (\<lambda>pty.
     c_bind (page_type_to_size gps pty) (\<lambda>sz.
       if addr AND word_of_int (sz - 1) > 0 then Inr (Some pf, al)
       else record_loop F sz (est_time_of F ty loop_index) pty loop_index loop_end nr
              addr pf al))"

definition get_process_use_rss :: "nat \<Rightarrow> page_idle_type \<Rightarrow> nat" where
  "get_process_use_rss nr ty = (if ty \<ge> PTE_IDLE then 0 else nr)"

section \<open>Walking the areas of a process\<close>

text \<open>The bytes one \<open>read\<close> of the scan file returned are parsed up to the end \<open>*end\<close>.\<close>

record 'd parse_out =
  po_pf :: "'d cursor option"
  po_end :: u64
  po_rss :: "u64 option"
  po_al :: alloc

function parse_loop ::
  "'d fp \<Rightarrow> u64 list \<Rightarrow> u8 list \<Rightarrow> int \<Rightarrow> int \<Rightarrow> nat \<Rightarrow> u64 \<Rightarrow> 'd cursor \<Rightarrow> u64 \<Rightarrow>
   u64 option \<Rightarrow> alloc \<Rightarrow> 'd parse_out c_res" where
  "parse_loop F gps buf loop_index loop_end i address pf end0 rss al =
     (if i \<ge> length buf then Inr \<lparr>po_pf = Some pf, po_end = address, po_rss = rss, po_al = al\<rparr>
      else if buf ! i = PIP_CMD_SET_HVA then
        (if i + 8 \<ge> length buf
         then Inr \<lparr>po_pf = Some pf, po_end = address, po_rss = rss, po_al = al\<rparr>
         else c_bind (get_address_from_buf buf i) (\<lambda>a.
                parse_loop F gps buf loop_index loop_end (i + 8 + 1) a pf end0 rss al))
      else if address = 0
        then Inr \<lparr>po_pf = None, po_end = end0, po_rss = rss, po_al = al\<rparr>
      else
        (let nr = get_page_nr_from_buf (buf ! i);
             ty = get_page_type_from_buf (buf ! i);
             rss' = map_option (\<lambda>r. r + of_nat (get_process_use_rss nr ty)) rss
         in c_bind
              (if ty = PMD_IDLE_PTES then
                 record_parse_result F gps address PTE_IDLE (nr * PMD_IDLE_PTES_PARAMETER) pf
                   loop_index loop_end al
               else if ty < PMD_IDLE_PTES then
                 record_parse_result F gps address ty nr pf loop_index loop_end al
               else Inr (Some pf, al))
              (\<lambda>r. case r of
                 (None, al') \<Rightarrow>
                   Inr \<lparr>po_pf = None, po_end = end0, po_rss = rss', po_al = al'\<rparr>
               | (Some pf', al') \<Rightarrow>
                   c_bind (idle_size gps ty) (\<lambda>sz.
                     parse_loop F gps buf loop_index loop_end (i + 1)
                       (address + of_nat nr * word_of_int sz) pf' end0 rss' al'))))"
  by pat_completeness auto
termination
  by (relation "measure (\<lambda>(F, gps, buf, li, le, i, rest). length buf - i)") auto

declare parse_loop.simps [simp del]

definition parse_vma_result ::
  "'d fp \<Rightarrow> u64 list \<Rightarrow> u8 list \<Rightarrow> 'd cursor \<Rightarrow> u64 \<Rightarrow> u64 option \<Rightarrow> int \<Rightarrow> int \<Rightarrow> alloc \<Rightarrow>
   'd parse_out c_res" where
  "parse_vma_result F gps buf pf end0 rss loop_index loop_end al =
     parse_loop F gps buf loop_index loop_end 0 0 pf end0 rss al"

record walk_address =
  walk_start :: u64
  walk_end :: u64
  last_walk_end :: u64

text \<open>
  The scan file \<open>/proc/<pid>/idle_pages\<close> of one pass: whether it opens, whether the
  \<open>ioctl\<close> succeeds, whether \<open>lseek\<close> to an address succeeds, and the bytes that
  \<open>read\<close> returns at an address for a buffer size (empty for an error or end of file).
\<close>

record scan_io =
  io_open :: bool
  io_ioctl :: bool
  io_fileno :: bool
  io_lseek :: "u64 \<Rightarrow> bool"
  io_read :: "u64 \<Rightarrow> u64 \<Rightarrow> u8 list"

definition walk_buf_size :: "u64 list \<Rightarrow> walk_address \<Rightarrow> u64 c_res" where
  "walk_buf_size gps wa =
     c_bind (page_type_to_size gps PTE_TYPE) (\<lambda>sz.
       if word_of_int sz = (0 :: u64) then Inl Div_by_zero
       else
         let size = drop_bit 3 (walk_end wa - walk_start wa) div word_of_int sz in
         Inr (if size < EPT_IDLE_BUF_MIN then EPT_IDLE_BUF_MIN else size))"

definition walk_vmas ::
  "'d fp \<Rightarrow> u64 list \<Rightarrow> scan_io \<Rightarrow> walk_address \<Rightarrow> 'd cursor \<Rightarrow> u64 option \<Rightarrow> int \<Rightarrow> int \<Rightarrow>
   alloc \<Rightarrow> 'd parse_out c_res" where
  "walk_vmas F gps io wa pf rss loop_index loop_end al =
     c_bind (walk_buf_size gps wa) (\<lambda>size.
       case c_alloc al of
         (False, al') \<Rightarrow>
           Inr \<lparr>po_pf = None, po_end = last_walk_end wa, po_rss = rss, po_al = al'\<rparr>
       | (True, al') \<Rightarrow>
           if \<not> io_lseek io (walk_start wa) then
             Inr \<lparr>po_pf = None, po_end = last_walk_end wa, po_rss = rss, po_al = al'\<rparr>
           else
             let buf = take (unat size) (io_read io (walk_start wa) size) in
             if buf = [] then
               Inr \<lparr>po_pf = Some pf, po_end = last_walk_end wa, po_rss = rss, po_al = al'\<rparr>
             else parse_vma_result F gps buf pf (last_walk_end wa) rss loop_index loop_end al')"

section \<open>Page sizes: lemmas\<close>

lemma get_page_shift_4K: "get_page_shift 4096 = Some 12"
  by (simp add: get_page_shift_def get_page_shift_loop.simps)

lemma get_page_shift_16K: "get_page_shift 16384 = Some 14"
  by (simp add: get_page_shift_def get_page_shift_loop.simps)

lemma get_page_shift_64K: "get_page_shift 65536 = Some 16"
  by (simp add: get_page_shift_def get_page_shift_loop.simps)

lemma page_type_to_size_fault [simp]:
  "length gps = 3 \<Longrightarrow> page_type_to_size gps PAGE_TYPE_INVAL = Inl Out_of_bounds"
  by (simp add: page_type_to_size_def)

lemma page_type_to_size_InrD:
  "length gps = 3 \<Longrightarrow> page_type_to_size gps ty = Inr sz \<Longrightarrow> ty \<noteq> PAGE_TYPE_INVAL"
  by auto

section \<open>Updating the list\<close>

lemma touch_page_simps [simp]:
  "pr_addr (touch_page F t p) = pr_addr p"
  "pr_count (touch_page F t p) = pr_count p"
  "pr_type (touch_page F t p) = pr_type p"
  "pr_possibility (touch_page F t p) = pr_possibility p"
  by (simp_all add: touch_page_def Let_def)

lemma update_possibility_simps [simp]:
  "pr_addr (update_possibility F l p) = pr_addr p"
  "pr_count (update_possibility F l p) = pr_count p"
  "pr_type (update_possibility F l p) = pr_type p"
  "pr_m (update_possibility F l p) = pr_m p"
  "pr_std (update_possibility F l p) = pr_std p"
  by (simp_all add: update_possibility_def Let_def)

lemma new_page_refs_simps [simp]:
  "pr_addr (new_page_refs F a t ty) = a"
  "pr_count (new_page_refs F a t ty) = 0"
  "pr_type (new_page_refs F a t ty) = ty"
  by (simp_all add: new_page_refs_def)

lemma alloc_page_refs_node_Nil [simp]:
  "alloc_page_refs_node F a t ty [] = (Some (new_page_refs F a t ty), [])"
  by (simp add: alloc_page_refs_node_def)

lemma alloc_page_refs_node_SomeD:
  "alloc_page_refs_node F a t ty al = (Some p, al') \<Longrightarrow> p = new_page_refs F a t ty"
  by (auto simp: alloc_page_refs_node_def split: prod.splits bool.splits)

definition sorted_pages :: "'d page_refs list \<Rightarrow> bool" where
  "sorted_pages ps \<longleftrightarrow> sorted_wrt (<) (map pr_addr ps)"

definition page_map :: "'d page_refs list \<Rightarrow> u64 \<rightharpoonup> 'd page_refs" where
  "page_map ps = map_of (map (\<lambda>p. (pr_addr p, p)) ps)"

text \<open>The abstract operation: create the page, or record one more observation of it.\<close>

definition page_upd ::
  "'d fp \<Rightarrow> 'd \<Rightarrow> page_type \<Rightarrow> u64 \<Rightarrow> (u64 \<rightharpoonup> 'd page_refs) \<Rightarrow> (u64 \<rightharpoonup> 'd page_refs)" where
  "page_upd F t ty a m =
     m(a \<mapsto> (case m a of None \<Rightarrow> new_page_refs F a t ty | Some p \<Rightarrow> touch_page F t p))"

lemma sorted_pages_Nil [simp]: "sorted_pages []"
  by (simp add: sorted_pages_def)

lemma sorted_pages_Cons:
  "sorted_pages (p # ps) \<longleftrightarrow> (\<forall>q\<in>set ps. pr_addr p < pr_addr q) \<and> sorted_pages ps"
  by (auto simp: sorted_pages_def)

lemma sorted_pages_append:
  "sorted_pages (ps @ qs) \<longleftrightarrow>
     sorted_pages ps \<and> sorted_pages qs \<and> (\<forall>p\<in>set ps. \<forall>q\<in>set qs. pr_addr p < pr_addr q)"
  by (auto simp: sorted_pages_def sorted_wrt_append)

lemma page_map_Nil [simp]: "page_map [] = Map.empty"
  by (simp add: page_map_def)

lemma page_map_Cons [simp]: "page_map (p # ps) = (page_map ps)(pr_addr p \<mapsto> p)"
  by (simp add: page_map_def)

lemma page_map_append: "page_map (ps @ qs) = page_map qs ++ page_map ps"
  by (simp add: page_map_def)

lemma dom_page_map: "dom (page_map ps) = pr_addr ` set ps"
  by (simp add: page_map_def dom_map_of_conv_image_fst image_image)

lemma page_map_None: "page_map ps a = None \<longleftrightarrow> (\<forall>p\<in>set ps. pr_addr p \<noteq> a)"
  by (auto simp: page_map_def map_of_eq_None_iff image_image)

lemma update_page_refs_SomeD:
  "update_page_refs F a t ty ps al = (ps', Some k, al') \<Longrightarrow> sorted_pages ps \<Longrightarrow>
     sorted_pages ps' \<and> page_map ps' = page_upd F t ty a (page_map ps) \<and>
     0 < k \<and> k \<le> length ps' \<and> pr_addr (ps' ! (k - 1)) = a"
proof (induction ps arbitrary: ps' k al')
  case Nil
  then show ?case
    by (auto simp: page_upd_def sorted_pages_Cons alloc_page_refs_node_def
        split: prod.splits option.splits bool.splits)
next
  case (Cons p ps)
  consider (eq) "a = pr_addr p" | (gt) "pr_addr p < a" | (lt) "a < pr_addr p"
    by (rule linorder_cases [of a "pr_addr p"]) auto
  then show ?case
  proof cases
    case eq
    with Cons.prems show ?thesis
      by (auto simp: sorted_pages_Cons page_upd_def)
  next
    case gt
    then have ne: "a \<noteq> pr_addr p" by auto
    with Cons.prems(1) gt obtain qs j where u: "update_page_refs F a t ty ps al = (qs, Some j, al')"
      and ps': "ps' = p # qs" and k: "k = Suc j"
      by (cases "update_page_refs F a t ty ps al") auto
    from Cons.IH [OF u] Cons.prems(2)
    have IH: "sorted_pages qs" "page_map qs = page_upd F t ty a (page_map ps)"
      "0 < j" "j \<le> length qs" "pr_addr (qs ! (j - 1)) = a"
      by (simp_all add: sorted_pages_Cons)
    have "pr_addr ` set qs = insert a (pr_addr ` set ps)"
      using IH(2) dom_page_map [of qs] dom_page_map [of ps] by (simp add: page_upd_def)
    moreover have "\<forall>b\<in>insert a (pr_addr ` set ps). pr_addr p < b"
      using Cons.prems(2) gt by (auto simp: sorted_pages_Cons)
    ultimately have "\<forall>q\<in>set qs. pr_addr p < pr_addr q"
      by blast
    with IH gt ne show ?thesis
      by (auto simp: ps' k sorted_pages_Cons page_upd_def nth_Cons' fun_upd_twist)
  next
    case lt
    then have ne: "a \<noteq> pr_addr p" "\<not> pr_addr p < a" by auto
    with Cons.prems(1) have "ps' = new_page_refs F a t ty # p # ps" "k = 1"
      by (auto split: prod.splits option.splits dest!: alloc_page_refs_node_SomeD)
    moreover have "page_map ps a = None"
      using lt Cons.prems(2) by (auto simp: page_map_None sorted_pages_Cons)
    ultimately show ?thesis
      using lt Cons.prems(2) by (auto simp: sorted_pages_Cons page_upd_def)
  qed
qed

lemma update_page_refs_Nil_alloc:
  "\<exists>ps' k. update_page_refs F a t ty ps [] = (ps', Some k, [])"
  by (induction ps) (auto split: prod.splits)

subsection \<open>Cursors\<close>

definition cursor_list :: "'d cursor \<Rightarrow> 'd page_refs list" where
  "cursor_list pf = fst pf @ snd pf"

text \<open>The list is sorted and every node before the cursor is below the bound \<open>b\<close>.\<close>

definition cursor_below :: "int \<Rightarrow> 'd cursor \<Rightarrow> bool" where
  "cursor_below b pf \<longleftrightarrow>
     sorted_pages (cursor_list pf) \<and> (\<forall>p\<in>set (fst pf). uint (pr_addr p) < b)"

lemma cursor_list_pair [simp]: "cursor_list (xs, ys) = xs @ ys"
  by (simp add: cursor_list_def)

lemma sorted_pages_nth_less:
  "sorted_pages ps \<Longrightarrow> i < j \<Longrightarrow> j < length ps \<Longrightarrow> pr_addr (ps ! i) < pr_addr (ps ! j)"
  by (auto simp: sorted_pages_def dest!: sorted_wrt_nth_less [where i = i and j = j])

lemma sorted_pages_take_le:
  assumes "sorted_pages ps" "0 < k" "k \<le> length ps" "p \<in> set (take k ps)"
  shows "pr_addr p \<le> pr_addr (ps ! (k - 1))"
proof -
  from assms obtain i where i: "i < k" "p = ps ! i"
    by (auto simp: in_set_conv_nth)
  show ?thesis
  proof (cases "i = k - 1")
    case False
    with i assms have "i < k - 1" "k - 1 < length ps" by linarith+
    then have "pr_addr (ps ! i) < pr_addr (ps ! (k - 1))"
      by (rule sorted_pages_nth_less [OF assms(1)])
    then show ?thesis by (simp add: i(2) order_less_imp_le)
  qed (use i in simp)
qed

lemma sorted_pages_drop_gt:
  assumes "sorted_pages ps" "0 < k" "p \<in> set (drop k ps)"
  shows "pr_addr (ps ! (k - 1)) < pr_addr p"
proof -
  from assms obtain i where i: "i < length ps - k" "p = ps ! (k + i)"
    by (auto simp: in_set_conv_nth)
  with assms sorted_pages_nth_less [of ps "k - 1" "k + i"] show ?thesis by auto
qed

lemma page_upd_map_add:
  "xm a = None \<Longrightarrow> page_upd F t ty a (m ++ xm) = page_upd F t ty a m ++ xm"
  by (auto simp: page_upd_def fun_eq_iff map_add_def split: option.splits)

text \<open>
  One observation on a cursor: the list stays sorted, its contents change as the abstract
  operation says, and the new cursor stands right behind the node of the address.
\<close>

lemma update_at_Some:
  assumes u: "update_at F a t ty pf al = (Some pf', al')" and b: "cursor_below (uint a) pf"
  shows "sorted_pages (cursor_list pf')"
    and "page_map (cursor_list pf') = page_upd F t ty a (page_map (cursor_list pf))"
    and "\<forall>p\<in>set (fst pf'). pr_addr p \<le> a"
    and "\<forall>p\<in>set (snd pf'). a < pr_addr p"
proof -
  obtain xs ps where pf: "pf = (xs, ps)" by (cases pf)
  from u obtain qs k where q: "update_page_refs F a t ty ps al = (qs, Some k, al')"
    and pf': "pf' = (xs @ take k qs, drop k qs)"
    by (auto simp: update_at_def pf split: prod.splits option.splits)
  from b have sx: "sorted_pages xs" "sorted_pages ps" "\<forall>x\<in>set xs. pr_addr x < a"
    "\<forall>x\<in>set xs. \<forall>p\<in>set ps. pr_addr x < pr_addr p"
    by (auto simp: cursor_below_def pf sorted_pages_append word_less_def)
  from update_page_refs_SomeD [OF q sx(2)]
  have r: "sorted_pages qs" "page_map qs = page_upd F t ty a (page_map ps)" "0 < k"
    "k \<le> length qs" "pr_addr (qs ! (k - 1)) = a"
    by auto
  have l: "cursor_list pf' = xs @ qs" by (simp add: pf')
  have "pr_addr ` set qs = insert a (pr_addr ` set ps)"
    using r(2) dom_page_map [of qs] dom_page_map [of ps] by (simp add: page_upd_def)
  moreover have "\<forall>x\<in>set xs. \<forall>b\<in>insert a (pr_addr ` set ps). pr_addr x < b"
    using sx by auto
  ultimately have "\<forall>x\<in>set xs. \<forall>q\<in>set qs. pr_addr x < pr_addr q"
    by blast
  then show "sorted_pages (cursor_list pf')"
    using sx(1) r(1) by (simp add: l sorted_pages_append)
  have "page_map xs a = None"
    using sx(3) by (auto simp: page_map_None)
  then show "page_map (cursor_list pf') = page_upd F t ty a (page_map (cursor_list pf))"
    by (simp add: l pf page_map_append r(2) page_upd_map_add)
  show "\<forall>p\<in>set (fst pf'). pr_addr p \<le> a"
    using sx(3) sorted_pages_take_le [OF r(1,3,4)] r(5) by (auto simp: pf')
  show "\<forall>p\<in>set (snd pf'). a < pr_addr p"
    using sorted_pages_drop_gt [OF r(1,3)] r(5) by (auto simp: pf')
qed

lemma update_at_Nil_alloc: "\<exists>pf'. update_at F a t ty pf [] = (Some pf', [])"
  using update_page_refs_Nil_alloc [of F a t ty "snd pf"] by (auto simp: update_at_def)

text \<open>The addresses of \<open>n\<close> consecutive pages of size \<open>sz\<close>.\<close>

definition page_run :: "u64 \<Rightarrow> int \<Rightarrow> nat \<Rightarrow> u64 list" where
  "page_run a sz n = map (\<lambda>i. a + of_nat i * word_of_int sz) [0..<n]"

definition run_fits :: "u64 \<Rightarrow> int \<Rightarrow> nat \<Rightarrow> bool" where
  "run_fits a sz n \<longleftrightarrow> 0 < sz \<and> uint a + int n * sz \<le> 2 ^ 64"

lemma page_run_0 [simp]: "page_run a sz 0 = []"
  by (simp add: page_run_def)

lemma page_run_Suc: "page_run a sz (Suc n) = a # page_run (a + word_of_int sz) sz n"
  by (simp add: page_run_def upt_conv_Cons map_Suc_upt [symmetric] algebra_simps
      del: upt_Suc map_Suc_upt)

lemma run_fits_room:
  assumes "run_fits a sz (Suc n)"
  shows "0 < sz" "uint a + sz \<le> 2 ^ 64" "0 < n \<Longrightarrow> uint a + sz + sz \<le> 2 ^ 64"
proof -
  from assms show sz: "0 < sz" by (simp add: run_fits_def)
  from assms have le: "uint a + sz + int n * sz \<le> 2 ^ 64"
    by (simp add: run_fits_def algebra_simps)
  moreover have "0 \<le> int n * sz" using sz by simp
  ultimately show "uint a + sz \<le> 2 ^ 64" by linarith
  assume "0 < n"
  then have "1 * sz \<le> int n * sz" using sz by (intro mult_right_mono) auto
  with le show "uint a + sz + sz \<le> 2 ^ 64" by linarith
qed

lemma uint_next_page:
  assumes "0 < sz" "uint a + sz < 2 ^ 64"
  shows "uint (a + word_of_int sz :: u64) = uint a + sz"
proof -
  have "sz < 2 ^ 64" using assms uint_ge_0 [of a] by linarith
  then have "uint (word_of_int sz :: u64) = sz" using assms by (simp add: uint_word_of_int)
  with assms show ?thesis by (subst uint_add_lem [THEN iffD1]) simp_all
qed

lemma run_fits_step:
  assumes "run_fits a sz (Suc n)" "0 < n"
  shows "uint (a + word_of_int sz) = uint a + sz" "run_fits (a + word_of_int sz) sz n"
proof -
  note room = run_fits_room [OF assms(1)]
  have "uint a + sz < 2 ^ 64" using room(1) room(3) [OF assms(2)] by linarith
  with room(1) show u: "uint (a + word_of_int sz) = uint a + sz" by (rule uint_next_page)
  show "run_fits (a + word_of_int sz) sz n"
    using assms(1) by (simp add: run_fits_def u algebra_simps)
qed

lemma uint_page_run:
  "run_fits a sz (Suc n) \<Longrightarrow> uint (a + of_nat n * word_of_int sz) = uint a + int n * sz"
proof (induction n arbitrary: a)
  case (Suc n)
  note step = run_fits_step [OF Suc.prems zero_less_Suc]
  have "a + of_nat (Suc n) * word_of_int sz = a + word_of_int sz + of_nat n * word_of_int sz"
    by (simp add: algebra_simps)
  with Suc.IH [OF step(2)] step(1) show ?case by (simp add: algebra_simps)
qed simp

lemma cursor_below_mono: "cursor_below b pf \<Longrightarrow> b \<le> c \<Longrightarrow> cursor_below c pf"
  by (auto simp: cursor_below_def)

lemma update_at_below:
  "update_at F a t ty pf al = (Some pf', al') \<Longrightarrow> cursor_below (uint a) pf \<Longrightarrow> 0 < sz \<Longrightarrow>
   cursor_below (uint a + sz) pf'"
  using update_at_Some [of F a t ty pf al pf' al']
  by (fastforce simp: cursor_below_def word_le_def)

section \<open>Recording a run of pages\<close>

text \<open>Before the last pass, a run of pages is the fold of the abstract operation.\<close>

lemma record_loop_refines:
  assumes "loop_index \<noteq> loop_end"
  shows "record_loop F sz t ty loop_index loop_end n a pf al = Inr (Some pf', al') \<Longrightarrow>
    cursor_below (uint a) pf \<Longrightarrow> run_fits a sz n \<Longrightarrow>
    cursor_below (uint a + int n * sz) pf' \<and>
    page_map (cursor_list pf') = fold (page_upd F t ty) (page_run a sz n) (page_map (cursor_list pf))"
proof (induction n arbitrary: a pf al)
  case 0
  then show ?case by simp
next
  case (Suc n)
  from Suc.prems(1) assms obtain c al'' where u: "update_at F a t ty pf al = (Some c, al'')"
    and r: "record_loop F sz t ty loop_index loop_end n (a + word_of_int sz) c al''
              = Inr (Some pf', al')"
    by (auto split: prod.splits option.splits)
  have sz: "0 < sz" using Suc.prems(3) by (simp add: run_fits_def)
  note below = update_at_below [OF u Suc.prems(2) sz]
  note upd = update_at_Some(2) [OF u Suc.prems(2)]
  show ?case
  proof (cases "n = 0")
    case True
    with r below upd show ?thesis by (simp add: page_run_Suc)
  next
    case False
    with Suc.IH [OF r] below upd run_fits_step [OF Suc.prems(3)] show ?thesis
      by (simp add: page_run_Suc algebra_simps)
  qed
qed

lemma record_loop_total:
  "loop_index \<noteq> loop_end \<Longrightarrow>
   \<exists>pf'. record_loop F sz t ty loop_index loop_end n a pf [] = Inr (Some pf', [])"
proof (induction n arbitrary: a pf)
  case (Suc n)
  obtain c where "update_at F a t ty pf [] = (Some c, [])"
    using update_at_Nil_alloc [of F a t ty pf] by auto
  with Suc show ?case by simp
qed simp

text \<open>
  The last pass calls \<open>update_possibility\<close> on the node behind the recorded one, and
  there is none when the run reaches the end of the list.
\<close>

lemma above_of_union:
  "A \<union> B = insert a (C \<union> D) \<Longrightarrow> \<forall>x\<in>C. \<not> a < x \<Longrightarrow> \<forall>x\<in>A. \<not> a < x \<Longrightarrow> \<forall>x\<in>B. a < x \<Longrightarrow>
   B = {x \<in> D. a < (x :: 'a::order)}"
  by blast

lemma update_at_rest:
  assumes u: "update_at F a t ty pf al = (Some pf', al')" and b: "cursor_below (uint a) pf"
  shows "pr_addr ` set (snd pf') = {x \<in> pr_addr ` set (snd pf). a < x}"
proof -
  note upd = update_at_Some [OF u b]
  have "pr_addr ` set (cursor_list pf') = insert a (pr_addr ` set (cursor_list pf))"
    using upd(2) dom_page_map [of "cursor_list pf'"] dom_page_map [of "cursor_list pf"]
    by (simp add: page_upd_def)
  then have e: "pr_addr ` set (fst pf') \<union> pr_addr ` set (snd pf')
      = insert a (pr_addr ` set (fst pf) \<union> pr_addr ` set (snd pf))"
    by (simp add: cursor_list_def image_Un)
  have l: "\<forall>x\<in>pr_addr ` set (fst pf). \<not> a < x"
    using b by (auto simp: cursor_below_def word_less_def)
  have l': "\<forall>x\<in>pr_addr ` set (fst pf'). \<not> a < x"
    using upd(3) by auto
  have r: "\<forall>x\<in>pr_addr ` set (snd pf'). a < x"
    using upd(4) by auto
  from e l l' r show ?thesis by (rule above_of_union)
qed

lemma update_possibility_at_Inl:
  "update_possibility_at F l pf = Inl e \<longleftrightarrow>
     e = Null_deref \<and> (case pf of None \<Rightarrow> True | Some c \<Rightarrow> snd c = [])"
  by (auto simp: update_possibility_at_def split: option.splits prod.splits list.splits)

lemma update_possibility_at_InrD:
  "update_possibility_at F l (Some c) = Inr c' \<Longrightarrow>
     fst c' = fst c \<and> map pr_addr (snd c') = map pr_addr (snd c) \<and> snd c \<noteq> []"
  by (cases c) (auto simp: update_possibility_at_def split: list.splits)

lemma cursor_below_cong:
  "fst c' = fst c \<Longrightarrow> map pr_addr (snd c') = map pr_addr (snd c) \<Longrightarrow>
   cursor_below b c' = cursor_below b c"
  by (simp add: cursor_below_def cursor_list_def sorted_pages_def)

lemma record_loop_last_fault:
  "cursor_below (uint a) pf \<Longrightarrow> run_fits a sz (Suc n) \<Longrightarrow>
   record_loop F sz t ty l l (Suc n) a pf [] = Inl Null_deref \<longleftrightarrow>
     (\<forall>p\<in>set (snd pf). uint (pr_addr p) \<le> uint a + int n * sz)"
proof (induction n arbitrary: a pf)
  case 0
  obtain c where u: "update_at F a t ty pf [] = (Some c, [])"
    using update_at_Nil_alloc [of F a t ty pf] by auto
  have "snd c = [] \<longleftrightarrow> pr_addr ` set (snd c) = {}" by simp
  also have "\<dots> \<longleftrightarrow> (\<forall>p\<in>set (snd pf). uint (pr_addr p) \<le> uint a)"
    by (auto simp: update_at_rest [OF u 0(1)] word_less_def word_le_def)
  finally show ?case
    by (simp add: u c_bind_Inl update_possibility_at_Inl)
next
  case (Suc n)
  obtain c where u: "update_at F a t ty pf [] = (Some c, [])"
    using update_at_Nil_alloc [of F a t ty pf] by auto
  note room = run_fits_room [OF Suc.prems(2)]
  note step = run_fits_step [OF Suc.prems(2) zero_less_Suc]
  note rest = update_at_rest [OF u Suc.prems(1)]
  have mono: "uint a \<le> uint a + int (Suc n) * sz" using room(1) by simp
  show ?case
  proof (cases "snd c = []")
    case True
    then have "update_possibility_at F l (Some c) = Inl Null_deref"
      by (simp add: update_possibility_at_Inl)
    then have fault: "record_loop F sz t ty l l (Suc (Suc n)) a pf [] = Inl Null_deref"
      by (simp add: u)
    have "\<forall>p\<in>set (snd pf). \<not> a < pr_addr p"
      using rest True by auto
    with mono have "\<forall>p\<in>set (snd pf). uint (pr_addr p) \<le> uint a + int (Suc n) * sz"
      by (fastforce simp: word_less_def)
    with fault show ?thesis by simp
  next
    case False
    then obtain c' where c': "update_possibility_at F l (Some c) = Inr c'"
      by (cases "update_possibility_at F l (Some c)") (auto simp: update_possibility_at_Inl)
    note same = update_possibility_at_InrD [OF c']
    have "cursor_below (uint (a + word_of_int sz)) c'"
      using update_at_below [OF u Suc.prems(1) room(1)] same cursor_below_cong [of c' c]
      by (simp add: step(1))
    from Suc.IH [OF this step(2)]
    have "record_loop F sz t ty l l (Suc (Suc n)) a pf [] = Inl Null_deref \<longleftrightarrow>
        (\<forall>x\<in>pr_addr ` set (snd c'). uint x \<le> uint a + sz + int n * sz)"
      by (simp add: u c' step(1))
    also have "pr_addr ` set (snd c') = {x \<in> pr_addr ` set (snd pf). a < x}"
      using same rest by (metis list.set_map)
    also have "(\<forall>x\<in>{x \<in> pr_addr ` set (snd pf). a < x}. uint x \<le> uint a + sz + int n * sz)
        \<longleftrightarrow> (\<forall>p\<in>set (snd pf). uint (pr_addr p) \<le> uint a + int (Suc n) * sz)"
      using mono by (force simp: word_less_def algebra_simps)
    finally show ?thesis .
  qed
qed

section \<open>Properties every scan keeps\<close>

text \<open>
  The scan code touches the nodes of the list only by creating them, recording an
  observation and computing the possibility. A property of nodes that these three keep
  is kept by every layer of the scan.
\<close>

locale page_property =
  fixes F :: "'d fp" and P :: "'d page_refs \<Rightarrow> bool"
  assumes new_ok: "ty \<noteq> PAGE_TYPE_INVAL \<Longrightarrow> P (new_page_refs F a t ty)"
    and touch_ok: "P p \<Longrightarrow> P (touch_page F t p)"
    and poss_ok: "P p \<Longrightarrow> P (update_possibility F l p)"
begin

lemma update_page_refs_P:
  "update_page_refs F a t ty ps al = (ps', r, al') \<Longrightarrow> ty \<noteq> PAGE_TYPE_INVAL \<Longrightarrow>
   \<forall>p\<in>set ps. P p \<Longrightarrow> \<forall>p\<in>set ps'. P p"
proof (induction ps arbitrary: ps' r al')
  case Nil
  then show ?case
    by (auto split: prod.splits option.splits dest!: alloc_page_refs_node_SomeD intro: new_ok)
next
  case (Cons p ps)
  obtain qs q al2 where u: "update_page_refs F a t ty ps al = (qs, q, al2)"
    by (cases "update_page_refs F a t ty ps al")
  from Cons show ?case
    by (auto simp: u split: prod.splits option.splits if_splits
        dest!: alloc_page_refs_node_SomeD intro: new_ok touch_ok)
qed

lemma update_at_P:
  assumes "update_at F a t ty pf al = (Some pf', al')" "ty \<noteq> PAGE_TYPE_INVAL"
    "\<forall>p\<in>set (cursor_list pf). P p"
  shows "\<forall>p\<in>set (cursor_list pf'). P p"
proof -
  from assms(1) obtain ps k where u: "update_page_refs F a t ty (snd pf) al = (ps, Some k, al')"
    and pf': "pf' = (fst pf @ take k ps, drop k ps)"
    by (auto simp: update_at_def split: prod.splits option.splits)
  from update_page_refs_P [OF u assms(2)] assms(3) show ?thesis
    by (auto simp: pf' cursor_list_def)
qed

lemma update_possibility_at_P:
  "update_possibility_at F l pf = Inr pf' \<Longrightarrow> \<forall>c. pf = Some c \<longrightarrow> (\<forall>p\<in>set (cursor_list c). P p) \<Longrightarrow>
   \<forall>p\<in>set (cursor_list pf'). P p"
  by (auto simp: update_possibility_at_def intro: poss_ok
      split: option.splits prod.splits list.splits)

lemma record_loop_P:
  "record_loop F sz t ty li le n a pf al = Inr (Some pf', al') \<Longrightarrow> ty \<noteq> PAGE_TYPE_INVAL \<Longrightarrow>
   \<forall>p\<in>set (cursor_list pf). P p \<Longrightarrow> \<forall>p\<in>set (cursor_list pf'). P p"
proof (induction n arbitrary: a pf al)
  case (Suc n)
  obtain r al2 where u: "update_at F a t ty pf al = (r, al2)"
    by (cases "update_at F a t ty pf al")
  have r: "\<forall>c. r = Some c \<longrightarrow> (\<forall>p\<in>set (cursor_list c). P p)"
    using update_at_P u Suc.prems(2,3) by blast
  from Suc.prems(1) obtain c where
    c: "record_loop F sz t ty li le n (a + word_of_int sz) c al2 = Inr (Some pf', al')"
    and "update_possibility_at F li r = Inr c \<or> r = Some c"
    by (auto simp: u split: if_splits option.splits)
  with r have "\<forall>p\<in>set (cursor_list c). P p"
    using update_possibility_at_P by blast
  with Suc.IH [OF c Suc.prems(2)] show ?case by blast
qed simp

lemma record_parse_result_P:
  "record_parse_result F gps a ity nr pf li le al = Inr (Some pf', al') \<Longrightarrow> length gps = 3 \<Longrightarrow>
   \<forall>p\<in>set (cursor_list pf). P p \<Longrightarrow> \<forall>p\<in>set (cursor_list pf'). P p"
  by (auto simp: record_parse_result_def simp del: record_loop.simps split: if_splits
      dest: page_type_to_size_InrD record_loop_P)

lemma parse_loop_P:
  "parse_loop F gps buf li le i address pf end0 rss al = Inr out \<Longrightarrow> length gps = 3 \<Longrightarrow>
   \<forall>p\<in>set (cursor_list pf). P p \<Longrightarrow> po_pf out = Some pf' \<Longrightarrow>
   \<forall>p\<in>set (cursor_list pf'). P p"
proof (induction "length buf - i" arbitrary: i address pf rss al rule: less_induct)
  case less
  note IH = less.hyps [OF _ _ less.prems(2) _ less.prems(4)]
  note eq = parse_loop.simps [of F gps buf li le i address pf end0 rss al]
  show ?case
  proof (cases "i < length buf \<and> \<not> (buf ! i = PIP_CMD_SET_HVA \<and> i + 8 \<ge> length buf)")
    case False
    with less.prems show ?thesis by (auto simp: eq split: if_splits)
  next
    case True
    show ?thesis
    proof (cases "buf ! i = PIP_CMD_SET_HVA")
      case hva: True
      with True less.prems(1) obtain a where
        "parse_loop F gps buf li le (i + 8 + 1) a pf end0 rss al = Inr out"
        by (auto simp: eq)
      with True less.prems(3) show ?thesis by (intro IH [of "i + 8 + 1"]) auto
    next
      case page: False
      let ?nr = "get_page_nr_from_buf (buf ! i)" and ?ty = "get_page_type_from_buf (buf ! i)"
      let ?rec = "if ?ty = PMD_IDLE_PTES then
            record_parse_result F gps address PTE_IDLE (?nr * PMD_IDLE_PTES_PARAMETER) pf li le al
          else if ?ty < PMD_IDLE_PTES then record_parse_result F gps address ?ty ?nr pf li le al
          else Inr (Some pf, al)"
      from True page less.prems(1,4) obtain r where r: "?rec = Inr r" and
        out: "\<exists>rss2. (case r of (None, al') \<Rightarrow>
                 Inr \<lparr>po_pf = None, po_end = end0, po_rss = rss2, po_al = al'\<rparr>
               | (Some pf', al') \<Rightarrow> c_bind (idle_size gps ?ty) (\<lambda>sz.
                   parse_loop F gps buf li le (i + 1) (address + of_nat ?nr * word_of_int sz)
                     pf' end0 rss2 al')) = Inr out"
        unfolding eq Let_def by (cases "address = 0") (simp only: if_False c_bind_Inr not_le, auto)
      from out less.prems(4) obtain pf2 al2 a2 rss2 where r2: "r = (Some pf2, al2)" and
        "parse_loop F gps buf li le (i + 1) a2 pf2 end0 rss2 al2 = Inr out"
        by (cases r; cases "fst r") auto
      moreover have "pf2 = pf \<or>
          (\<exists>ity nr a. record_parse_result F gps a ity nr pf li le al = Inr (Some pf2, al2))"
        using r unfolding r2 by (metis (no_types) Inr_inject prod.inject option.inject)
      moreover from this have "\<forall>p\<in>set (cursor_list pf2). P p"
        using record_parse_result_P [OF _ less.prems(2,3)] less.prems(3) by blast
      ultimately show ?thesis using True by (intro IH [of "i + 1"]) auto
    qed
  qed
qed

lemma walk_vmas_P:
  "walk_vmas F gps io wa pf rss li le al = Inr out \<Longrightarrow> length gps = 3 \<Longrightarrow>
   \<forall>p\<in>set (cursor_list pf). P p \<Longrightarrow> po_pf out = Some pf' \<Longrightarrow>
   \<forall>p\<in>set (cursor_list pf'). P p"
  by (cases "c_alloc al"; cases "fst (c_alloc al)")
    (auto simp: walk_vmas_def parse_vma_result_def Let_def split: if_splits dest: parse_loop_P)

end

text \<open>
  The statistics invariant: \<open>m + 2\<close> counts the visits seen, and the deviation is the
  marker \<open>-2\<close> until the second visit and at least 1 from then on.
\<close>

definition stat_inv :: "'d fp \<Rightarrow> 'd page_refs \<Rightarrow> bool" where
  "stat_inv F p \<longleftrightarrow> -2 \<le> pr_m p \<and>
     (if pr_m p < 0 then fp_eq F (pr_std p) (fp_of_int F (-2))
      else \<not> fp_less F (pr_std p) (fp_of_int F 1))"

interpretation stat: page_property F "\<lambda>p. fp_literals_ok F \<longrightarrow> stat_inv F p" for F
proof
  fix p :: "'a page_refs" and t
  assume "fp_literals_ok F \<longrightarrow> stat_inv F p"
  then show "fp_literals_ok F \<longrightarrow> stat_inv F (touch_page F t p)"
    by (auto simp: stat_inv_def touch_page_def new_std_def fp_literals_ok_def Let_def)
qed (auto simp: stat_inv_def new_page_refs_def fp_literals_ok_def)

interpretation count: page_property F "\<lambda>p. pr_count p = 0" for F
  by unfold_locales simp_all

interpretation ptype: page_property F "\<lambda>p. pr_type p \<noteq> PAGE_TYPE_INVAL" for F
  by unfold_locales simp_all

section \<open>Decoding: lemmas\<close>

text \<open>The address bytes as the kernel writes them behind the command byte.\<close>

definition encode_address :: "u64 \<Rightarrow> u8 list" where
  "encode_address a = map (\<lambda>k. ucast (drop_bit (8 * k) a)) [7, 6, 5, 4, 3, 2, 1, 0]"

lemma bit_byte_field:
  "bit (push_bit k (ucast (ucast (drop_bit k a) :: u8) :: u64)) n \<longleftrightarrow>
     k \<le> n \<and> n < k + 8 \<and> n < 64 \<and> bit a n"
  by (auto simp: bit_simps)

lemma encode_address_nth [simp]:
  "encode_address a ! 0 = ucast (drop_bit 56 a)" "encode_address a ! Suc 0 = ucast (drop_bit 48 a)"
  "encode_address a ! 2 = ucast (drop_bit 40 a)" "encode_address a ! 3 = ucast (drop_bit 32 a)"
  "encode_address a ! 4 = ucast (drop_bit 24 a)" "encode_address a ! 5 = ucast (drop_bit 16 a)"
  "encode_address a ! 6 = ucast (drop_bit 8 a)" "encode_address a ! 7 = ucast a"
  "length (encode_address a) = 8"
  by (simp_all add: encode_address_def)

lemma byte_field:
  "push_bit k (ucast (ucast (drop_bit k a) :: u8) :: u64) = a AND push_bit k 0xFF"
proof -
  have m: "(0xFF :: u64) = mask 8" by (simp add: mask_eq_exp_minus_1)
  show ?thesis unfolding m by (rule bit_eqI) (auto simp: bit_simps bit_byte_field)
qed

lemma add_fields:
  assumes "M AND N = 0"
  shows "(a AND M) + (a AND N) = (a :: u64) AND (M OR N)"
proof -
  have "(a AND M) AND (a AND N) = a AND (M AND N)"
    by (simp add: ac_simps and.left_commute)
  with assms have "(a AND M) AND (a AND N) = 0" by simp
  then show ?thesis by (simp add: disjunctive_add_eq_or bit.conj_disj_distrib)
qed

lemma address_fields:
  fixes a :: u64
  shows "(a AND 0xFF00000000000000) + (a AND 0x00FF000000000000) + (a AND 0x0000FF0000000000)
    + (a AND 0x000000FF00000000) + (a AND 0x00000000FF000000) + (a AND 0x0000000000FF0000)
    + (a AND 0x000000000000FF00) + (a AND 0x00000000000000FF) = a"
proof -
  have full: "a AND 0xFFFFFFFFFFFFFFFF = a"
  proof -
    have "(0xFFFFFFFFFFFFFFFF :: u64) = -1" by simp
    then show ?thesis by (simp only: and.right_neutral)
  qed
  show ?thesis by (simp add: add_fields full)
qed

lemma masked_byte:
  "push_bit k (ucast (ucast (drop_bit k a) :: u8)) AND M = a AND push_bit k 0xFF AND (M :: u64)"
  by (simp add: byte_field ac_simps)

lemma nth_encoded:
  "j < 8 \<Longrightarrow> (pre @ c # encode_address a @ post) ! (length pre + Suc j) = encode_address a ! j"
  by (simp add: nth_append)

lemma get_address_from_buf_encode:
  "get_address_from_buf (pre @ c # encode_address a @ post) (length pre) = Inr a"
proof -
  let ?b = "pre @ c # encode_address a @ post"
  have n: "?b ! (length pre + 1) = ucast (drop_bit 56 a)" "?b ! (length pre + 2) = ucast (drop_bit 48 a)"
    "?b ! (length pre + 3) = ucast (drop_bit 40 a)" "?b ! (length pre + 4) = ucast (drop_bit 32 a)"
    "?b ! (length pre + 5) = ucast (drop_bit 24 a)" "?b ! (length pre + 6) = ucast (drop_bit 16 a)"
    "?b ! (length pre + 7) = ucast (drop_bit 8 a)" "?b ! (length pre + 8) = ucast a"
    using nth_encoded [of 0] nth_encoded [of 1] nth_encoded [of 2] nth_encoded [of 3]
      nth_encoded [of 4] nth_encoded [of 5] nth_encoded [of 6] nth_encoded [of 7]
    by simp_all
  have l: "length pre + 8 < length ?b" by simp
  have b: "ucast (ucast a :: u8) = a AND (0xFF :: u64)"
    using byte_field [of 0 a] by simp
  show ?thesis
    unfolding get_address_from_buf_def n using l
    by (simp only: if_True masked_byte b) (simp add: and.assoc address_fields)
qed

section \<open>Properties\<close>

text \<open>C1: recording one observation in the list of pages keeps the list strictly sorted by
  address, has exactly the effect of the abstract map operation (create the page, or update
  the statistics of the one page with this address), and returns a cursor right behind the
  node of the address.\<close>

theorem update_page_refs_correct:
  assumes "update_page_refs F a t ty ps al = (ps', Some k, al')" "sorted_pages ps"
  shows "sorted_pages ps' \<and> page_map ps' = page_upd F t ty a (page_map ps) \<and>
    0 < k \<and> k \<le> length ps' \<and> pr_addr (ps' ! (k - 1)) = a"
  using update_page_refs_SomeD [OF assms] by blast

definition sample_page :: "u64 \<Rightarrow> int page_refs" where
  "sample_page a = new_page_refs milli_fp a 500 PTE_TYPE"

lemma update_page_refs_correct_witness:
  "let ps' = [sample_page 0x1000, sample_page 0x2000] in
   sorted_pages ps' \<and> page_map ps' = page_upd milli_fp 500 PTE_TYPE 0x1000 (page_map [sample_page 0x2000]) \<and>
   0 < (1::nat) \<and> 1 \<le> length ps' \<and> pr_addr (ps' ! (1 - 1)) = 0x1000"
  unfolding Let_def
  by (rule update_page_refs_correct [where ps = "[sample_page 0x2000]" and al = "[]" and al' = "[]"])
    (simp_all add: sample_page_def sorted_pages_def)

text \<open>C2: before the last pass, a run of \<open>nr\<close> aligned pages of a known kind is recorded
  completely: the call succeeds, the list stays sorted, and its contents are those of the
  fold of the abstract operation over the addresses of the run.\<close>

theorem record_parse_result_refines:
  assumes "page_type_of_idle ity = Inr ty" "page_type_to_size gps ty = Inr sz"
    and "a AND word_of_int (sz - 1) = 0" "loop_index \<noteq> loop_end"
    and "cursor_below (uint a) pf" "run_fits a sz nr"
  shows "\<exists>pf'. record_parse_result F gps a ity nr pf loop_index loop_end [] = Inr (Some pf', [])
    \<and> cursor_below (uint a + int nr * sz) pf'
    \<and> page_map (cursor_list pf') =
        fold (page_upd F (est_time_of F ity loop_index) ty) (page_run a sz nr) (page_map (cursor_list pf))"
proof -
  obtain pf' where r: "record_loop F sz (est_time_of F ity loop_index) ty loop_index loop_end nr a pf []
      = Inr (Some pf', [])"
    using record_loop_total [OF assms(4), of F sz "est_time_of F ity loop_index" ty nr a pf] by blast
  with assms(1-3) have "record_parse_result F gps a ity nr pf loop_index loop_end [] = Inr (Some pf', [])"
    by (simp add: record_parse_result_def)
  with record_loop_refines [OF assms(4) r assms(5,6)] show ?thesis by blast
qed

definition std_page_size :: "u64 list" where
  "std_page_size = [4096, 2097152, 1073741824]"

lemma record_parse_result_refines_witness:
  "\<exists>pf'. record_parse_result milli_fp std_page_size 0x1000 0 2 ([], [sample_page 0x2000]) 0 1 []
       = Inr (Some pf', [])
    \<and> cursor_below (uint (0x1000 :: u64) + int 2 * 4096) pf'
    \<and> page_map (cursor_list pf') =
        fold (page_upd milli_fp (est_time_of milli_fp 0 0) PTE_TYPE) (page_run 0x1000 4096 2)
          (page_map (cursor_list ([], [sample_page 0x2000])))"
  by (rule record_parse_result_refines)
    (simp_all add: page_type_of_idle_def g_page_type_by_idle_kind_def page_type_to_size_def
      std_page_size_def cursor_below_def sorted_pages_def run_fits_def)

text \<open>in the last pass, recording a run of aligned pages dereferences NULL exactly when
  no page behind the cursor lies beyond the run: the possibility is computed on the node
  behind the recorded one, before the check for the end of the list.\<close>

theorem record_parse_result_last_pass:
  assumes "page_type_of_idle ity = Inr ty" "page_type_to_size gps ty = Inr sz"
    and "a AND word_of_int (sz - 1) = 0" "cursor_below (uint a) pf" "run_fits a sz (Suc n)"
  shows "record_parse_result F gps a ity (Suc n) pf l l [] = Inl Null_deref \<longleftrightarrow>
    (\<forall>p\<in>set (snd pf). uint (pr_addr p) \<le> uint a + int n * sz)"
  using record_loop_last_fault [OF assms(4,5)] assms(1-3)
  by (simp add: record_parse_result_def del: record_loop.simps)

lemma record_parse_result_last_pass_witness:
  "record_parse_result milli_fp std_page_size 0x1000 0 (Suc 0) ([], [sample_page 0x1000]) 3 3 []
     = Inl Null_deref"
  by (rule iffD2 [OF record_parse_result_last_pass [where ty = PTE_TYPE and sz = 4096]])
    (simp_all add: page_type_of_idle_def g_page_type_by_idle_kind_def page_type_to_size_def
      std_page_size_def cursor_below_def sorted_pages_def run_fits_def sample_page_def)

text \<open>with 4 KB pages the page size table is 4 KB, 2 MB and 1 GB; with 16 KB and
  64 KB pages, which the table is meant for as well, the shift of the \<open>int\<close> constant 1 by
  36 or 42 bits is undefined.\<close>

theorem init_g_page_size_cases:
  "init_g_page_size 4096 = Inr (0, Some [4096, 2097152, 1073741824]) \<and>
   init_g_page_size 16384 = Inl Bad_shift \<and> init_g_page_size 65536 = Inl Bad_shift"
  by (simp add: init_g_page_size_def get_page_shift_4K get_page_shift_16K get_page_shift_64K
      int_one_shl_def)

text \<open>The address decoder inverts the big-endian encoding of an address behind its
  command byte, at every position of the buffer.\<close>

theorem get_address_from_buf_round_trip:
  "get_address_from_buf (pre @ c # encode_address a @ post) (length pre) = Inr a"
  by (rule get_address_from_buf_encode)

end
