(* ===== verification/C_Library.thy ===== *)
theory C_Library
  imports Etmem_Prelude
begin

text \<open>
  The functions of the C library the sources call on strings and files, and the
  interface of the bounds-checked string library (\<open>securec.h\<close>), which is a separate
  package and therefore a parameter of the model.

  A C string is the list of its characters without the terminating NUL; a file opened
  for reading is the string of the bytes not yet read.
\<close>

section \<open>Characters\<close>

abbreviation (input) c_code :: "char \<Rightarrow> nat" where
  "c_code c \<equiv> of_char c"

definition c_isdigit :: "char \<Rightarrow> bool" where
  "c_isdigit c \<longleftrightarrow> 48 \<le> c_code c \<and> c_code c \<le> 57"

definition c_isalpha :: "char \<Rightarrow> bool" where
  "c_isalpha c \<longleftrightarrow> (65 \<le> c_code c \<and> c_code c \<le> 90) \<or> (97 \<le> c_code c \<and> c_code c \<le> 122)"

definition c_isspace :: "char \<Rightarrow> bool" where
  "c_isspace c \<longleftrightarrow> c_code c = 32 \<or> (9 \<le> c_code c \<and> c_code c \<le> 13)"

abbreviation (input) c_newline :: char where "c_newline \<equiv> CHR 0x0A"
abbreviation (input) c_nul :: char where "c_nul \<equiv> CHR 0x00"

text \<open>The value of a digit in bases up to 36, if it is one.\<close>

definition digit_value :: "char \<Rightarrow> nat option" where
  "digit_value c =
     (let n = c_code c in
      if 48 \<le> n \<and> n \<le> 57 then Some (n - 48)
      else if 97 \<le> n \<and> n \<le> 122 then Some (n - 87)
      else if 65 \<le> n \<and> n \<le> 90 then Some (n - 55)
      else None)"

definition is_digit_of :: "nat \<Rightarrow> char \<Rightarrow> bool" where
  "is_digit_of base c \<longleftrightarrow> (case digit_value c of None \<Rightarrow> False | Some v \<Rightarrow> v < base)"

fun digits_value :: "nat \<Rightarrow> nat \<Rightarrow> string \<Rightarrow> nat" where
  "digits_value base acc [] = acc"
| "digits_value base acc (c # cs) =
     digits_value base (acc * base + (case digit_value c of None \<Rightarrow> 0 | Some v \<Rightarrow> v)) cs"

section \<open>Conversion of numbers\<close>

text \<open>
  The common part of \<open>strtol\<close> and \<open>strtoul\<close>: white space, a sign, for base 16 the
  prefix \<open>0x\<close>, and the digits: whether there is a minus, the magnitude, and what
  follows. Without a digit the whole string is left.
\<close>

definition skip_prefix :: "nat \<Rightarrow> string \<Rightarrow> string" where
  "skip_prefix base s =
     (case s of
        z # x # d # _ \<Rightarrow>
          if base = 16 \<and> z = CHR ''0'' \<and> (x = CHR ''x'' \<or> x = CHR ''X'') \<and> is_digit_of 16 d
          then drop 2 s else s
      | _ \<Rightarrow> s)"

definition parse_number :: "nat \<Rightarrow> string \<Rightarrow> (bool \<times> nat \<times> string) option" where
  "parse_number base s =
     (let t = dropWhile c_isspace s;
          neg = (case t of c # _ \<Rightarrow> c = CHR ''-'' | [] \<Rightarrow> False);
          u = (case t of c # r \<Rightarrow> if c = CHR ''-'' \<or> c = CHR ''+'' then r else t | [] \<Rightarrow> t);
          v = skip_prefix base u;
          ds = takeWhile (is_digit_of base) v
      in if ds = [] then None
         else Some (neg, digits_value base 0 ds, dropWhile (is_digit_of base) v))"

text \<open>\<open>strtoul\<close> after \<open>errno = 0\<close>: the value, the string at \<open>endptr\<close>, and whether
  \<open>errno\<close> was set.\<close>

definition c_strtoul :: "string \<Rightarrow> nat \<Rightarrow> u64 \<times> string \<times> bool" where
  "c_strtoul s base =
     (case parse_number base s of
        None \<Rightarrow> (0, s, False)
      | Some (neg, n, r) \<Rightarrow>
          if n > 2 ^ 64 - 1 then (- 1, r, True)
          else (if neg then - of_nat n else of_nat n, r, False))"

definition c_strtol :: "string \<Rightarrow> nat \<Rightarrow> int \<times> string \<times> bool" where
  "c_strtol s base =
     (case parse_number base s of
        None \<Rightarrow> (0, s, False)
      | Some (neg, n, r) \<Rightarrow>
          if neg then (if int n > 2 ^ 63 then (- (2 ^ 63), r, True) else (- int n, r, False))
          else (if int n > 2 ^ 63 - 1 then (2 ^ 63 - 1, r, True) else (int n, r, False)))"

section \<open>Strings\<close>

text \<open>The character \<open>s[i]\<close>: the terminating NUL at the length, a fault beyond it.\<close>

definition c_char_at :: "string \<Rightarrow> nat \<Rightarrow> char c_res" where
  "c_char_at s i =
     (if i < length s then Inr (s ! i) else if i = length s then Inr c_nul else Inl Out_of_bounds)"

text \<open>\<open>strstr(s, t)\<close>: the suffix of \<open>s\<close> that starts with the first occurrence of \<open>t\<close>.\<close>

fun c_strstr :: "string \<Rightarrow> string \<Rightarrow> string option" where
  "c_strstr [] t = (if t = [] then Some [] else None)"
| "c_strstr (c # s) t = (if take (length t) (c # s) = t then Some (c # s) else c_strstr s t)"

definition c_strncmp_eq :: "string \<Rightarrow> string \<Rightarrow> nat \<Rightarrow> bool" where
  "c_strncmp_eq s t n \<longleftrightarrow> take n s = take n t"

text \<open>One call of \<open>strtok_r\<close>: the next token for a set of delimiters and the rest.\<close>

definition c_strtok :: "string \<Rightarrow> string \<Rightarrow> (string \<times> string) option" where
  "c_strtok delims s =
     (let t = dropWhile (\<lambda>c. c \<in> set delims) s in
      if t = [] then None
      else Some (takeWhile (\<lambda>c. c \<notin> set delims) t,
                 drop 1 (dropWhile (\<lambda>c. c \<notin> set delims) t)))"

text \<open>\<open>fgets(buf, n, fp)\<close>: at most \<open>n - 1\<close> characters, up to and with a newline.\<close>

fun c_line :: "nat \<Rightarrow> string \<Rightarrow> string \<times> string" where
  "c_line 0 s = ([], s)"
| "c_line (Suc n) [] = ([], [])"
| "c_line (Suc n) (c # s) =
     (if c = c_newline then ([c], s) else (let (l, r) = c_line n s in (c # l, r)))"

definition c_fgets :: "nat \<Rightarrow> string \<Rightarrow> (string \<times> string) option" where
  "c_fgets n s = (if s = [] then None else Some (c_line (n - 1) s))"

text \<open>The text \<open>printf\<close> produces for \<open>%u\<close> and \<open>%lx\<close>.\<close>

definition digit_char :: "nat \<Rightarrow> char" where
  "digit_char d = char_of (if d < 10 then d + 48 else d + 87)"

fun nat_to_base :: "nat \<Rightarrow> nat \<Rightarrow> string" where
  "nat_to_base base n =
     (if base < 2 \<or> n < base then [digit_char n]
      else nat_to_base base (n div base) @ [digit_char (n mod base)])"

declare nat_to_base.simps [simp del]

section \<open>The bounds-checked string library\<close>

text \<open>
  Each function with the destination size as the code passes it; \<open>None\<close> is the error
  return. \<open>sec_snprintf_s destMax count text\<close> formats to \<open>text\<close>;
  \<open>sec_sscanf2 sep n1 n2 s\<close> is \<open>sscanf_s\<close> with the format \<open>%[0-9;a-f]<sep>%[0-9;a-f]\<close>
  into two zeroed buffers, giving the return value and the two strings; its source string
  may be NULL. \<open>sec_sprintf_s destMax text\<close> is \<open>sprintf_s\<close> or \<open>vsprintf_s\<close>: its return value and the string
  it leaves in the destination.
\<close>

record securec =
  sec_strncpy_s :: "nat \<Rightarrow> string \<Rightarrow> nat \<Rightarrow> string option"
  sec_snprintf_s :: "nat \<Rightarrow> nat \<Rightarrow> string \<Rightarrow> string option"
  sec_strcat_s :: "nat \<Rightarrow> string \<Rightarrow> string \<Rightarrow> string option"
  sec_sscanf2 :: "char \<Rightarrow> nat \<Rightarrow> nat \<Rightarrow> string option \<Rightarrow> int \<times> string \<times> string"
  sec_sprintf_s :: "nat \<Rightarrow> string \<Rightarrow> int \<times> string"

definition in_scanset :: "char \<Rightarrow> bool" where
  "in_scanset c \<longleftrightarrow> c_isdigit c \<or> c = CHR '';'' \<or> (97 \<le> c_code c \<and> c_code c \<le> 102)"

text \<open>The documented behaviour on arguments that fit the destination.\<close>

definition securec_ok :: "securec \<Rightarrow> bool" where
  "securec_ok S \<longleftrightarrow>
     (\<forall>m s n. length (take n s) < m \<longrightarrow> sec_strncpy_s S m s n = Some (take n s)) \<and>
     (\<forall>m k s. length s \<le> k \<and> k < m \<longrightarrow> sec_snprintf_s S m k s = Some s) \<and>
     (\<forall>m d s. length d + length s < m \<longrightarrow> sec_strcat_s S m d s = Some (d @ s)) \<and>
     (\<forall>sep n1 n2 x y. x \<noteq> [] \<and> y \<noteq> [] \<and> length x < n1 \<and> length y < n2 \<and>
        list_all in_scanset x \<and> list_all in_scanset y \<and> \<not> in_scanset sep \<longrightarrow>
        sec_sscanf2 S sep n1 n2 (Some (x @ sep # y)) = (2, x, y)) \<and>
     (\<forall>sep n1 n2. fst (sec_sscanf2 S sep n1 n2 None) \<le> 0) \<and>
     (\<forall>m s. length s < m \<longrightarrow> sec_sprintf_s S m s = (int (length s), s))"

text \<open>An instance that behaves so; outside it, it reports an error.\<close>

definition securec_ref :: securec where
  "securec_ref = \<lparr>
     sec_strncpy_s = (\<lambda>m s n. if length (take n s) < m then Some (take n s) else None),
     sec_snprintf_s = (\<lambda>m k s. if length s \<le> k \<and> k < m then Some s else None),
     sec_strcat_s = (\<lambda>m d s. if length d + length s < m then Some (d @ s) else None),
     sec_sscanf2 = (\<lambda>sep n1 n2 s.
       case s of None \<Rightarrow> (-1, [], []) | Some s \<Rightarrow>
       let x = takeWhile in_scanset s; r = dropWhile in_scanset s in
       if x = [] \<or> length x \<ge> n1 then (-1, [], [])
       else case r of
         [] \<Rightarrow> (1, x, [])
       | c # r' \<Rightarrow>
           let y = takeWhile in_scanset r' in
           if c \<noteq> sep \<or> y = [] then (1, x, [])
           else if length y \<ge> n2 then (-1, x, []) else (2, x, y)),
     sec_sprintf_s = (\<lambda>m s. if length s < m then (int (length s), s) else (-1, [])) \<rparr>"

section \<open>Lemmas\<close>

lemma scanset_span:
  assumes "list_all in_scanset x" "\<not> in_scanset sep"
  shows "takeWhile in_scanset (x @ sep # y) = x" "dropWhile in_scanset (x @ sep # y) = sep # y"
  using assms by (induction x) simp_all

lemma securec_ref_sscanf2:
  "x \<noteq> [] \<Longrightarrow> y \<noteq> [] \<Longrightarrow> length x < n1 \<Longrightarrow> length y < n2 \<Longrightarrow> list_all in_scanset x \<Longrightarrow>
   list_all in_scanset y \<Longrightarrow> \<not> in_scanset sep \<Longrightarrow>
   sec_sscanf2 securec_ref sep n1 n2 (Some (x @ sep # y)) = (2, x, y)"
  by (simp add: securec_ref_def scanset_span Let_def takeWhile_eq_all_conv [THEN iffD2] list_all_iff)

lemma securec_ref_ok: "securec_ok securec_ref"
  unfolding securec_ok_def
  by (intro conjI allI impI; (elim conjE)?; (rule securec_ref_sscanf2)?)
    (simp_all add: securec_ref_def)

lemma c_line_append: "c_line n s = (l, r) \<Longrightarrow> s = l @ r"
  by (induction n s arbitrary: l r rule: c_line.induct) (auto split: if_splits prod.splits)

lemma c_line_length: "c_line n s = (l, r) \<Longrightarrow> length l \<le> n"
  by (induction n s arbitrary: l r rule: c_line.induct) (auto split: if_splits prod.splits)

lemma c_line_nonempty: "c_line (Suc n) (c # s) = (l, r) \<Longrightarrow> l \<noteq> []"
  by (auto split: if_splits prod.splits)

lemma c_fgets_shorter: "2 \<le> n \<Longrightarrow> c_fgets n s = Some (l, r) \<Longrightarrow> length r < length s"
proof -
  assume "2 \<le> n" "c_fgets n s = Some (l, r)"
  then obtain k c t where "n - 1 = Suc k" "s = c # t" "c_line (Suc k) (c # t) = (l, r)"
    by (cases s; cases "n - 1") (auto simp: c_fgets_def split: if_splits)
  with c_line_append [of "Suc k" "c # t" l r] c_line_nonempty [of k c t l r] show ?thesis
    by (cases l) auto
qed

lemma digit_value_char: "d < 16 \<Longrightarrow> digit_value (digit_char d) = Some d"
proof -
  assume "d < 16"
  then have "d \<in> {0..<16}" by simp
  then have "d \<in> set [0..<16]" by simp
  moreover have "\<forall>k\<in>set [0..<16]. digit_value (digit_char k) = Some k"
    by (simp add: digit_value_def digit_char_def upt_rec)
  ultimately show ?thesis by blast
qed

lemma digits_value_append:
  "digits_value b acc (xs @ ys) = digits_value b (digits_value b acc xs) ys"
  by (induction xs arbitrary: acc) auto

lemma nat_to_base_value:
  "2 \<le> b \<Longrightarrow> b \<le> 16 \<Longrightarrow> digits_value b 0 (nat_to_base b n) = n"
proof (induction n rule: less_induct)
  case (less n)
  show ?case
  proof (cases "n < b")
    case True
    with less.prems show ?thesis by (simp add: nat_to_base.simps [of b n] digit_value_char)
  next
    case False
    then have "n div b < n" using less.prems by (simp add: div_less_dividend)
    from less.IH [OF this less.prems] have "digits_value b 0 (nat_to_base b (n div b)) = n div b" .
    moreover have "n mod b < 16" using less.prems mod_less_divisor [of b n] by linarith
    ultimately show ?thesis
      using False less.prems
      by (simp add: nat_to_base.simps [of b n] digits_value_append digit_value_char)
  qed
qed

lemma nat_to_base_digits:
  "2 \<le> b \<Longrightarrow> b \<le> 16 \<Longrightarrow> c \<in> set (nat_to_base b n) \<Longrightarrow> \<exists>d<b. c = digit_char d"
proof (induction n rule: less_induct)
  case (less n)
  show ?case
  proof (cases "n < b")
    case True
    with less.prems show ?thesis by (auto simp: nat_to_base.simps [of b n])
  next
    case False
    then have "n div b < n" using less.prems by (simp add: div_less_dividend)
    with less.IH less.prems(1,2) have "c \<in> set (nat_to_base b (n div b)) \<Longrightarrow> \<exists>d<b. c = digit_char d"
      by blast
    moreover have "n mod b < b" using less.prems(1) by simp
    moreover have "c \<in> set (nat_to_base b (n div b)) \<or> c = digit_char (n mod b)"
      using less.prems False by (auto simp: nat_to_base.simps [of b n])
    ultimately show ?thesis by blast
  qed
qed

lemma nat_to_base_length:
  "2 \<le> b \<Longrightarrow> 0 < k \<Longrightarrow> n < b ^ k \<Longrightarrow> length (nat_to_base b n) \<le> k"
proof (induction k arbitrary: n)
  case (Suc k)
  show ?case
  proof (cases "n < b")
    case True
    then show ?thesis by (simp add: nat_to_base.simps [of b n])
  next
    case False
    with Suc.prems have "k \<noteq> 0" by (cases k) auto
    moreover have "n div b < b ^ k"
      using Suc.prems by (simp add: less_mult_imp_div_less mult.commute)
    ultimately have "length (nat_to_base b (n div b)) \<le> k" using Suc by simp
    with False show ?thesis by (simp add: nat_to_base.simps [of b n])
  qed
qed simp

lemma nat_to_base_nonempty: "nat_to_base b n \<noteq> []"
  by (simp add: nat_to_base.simps [of b n])

text \<open>A decimal numeral is read back as its value.\<close>

lemma digit_char_isdigit: "d < 10 \<Longrightarrow> c_isdigit (digit_char d)"
  by (simp add: c_isdigit_def digit_char_def)

lemma nat_to_base_decimal: "list_all c_isdigit (nat_to_base 10 n)"
  using nat_to_base_digits [of 10 _ n] digit_char_isdigit by (fastforce simp: list_all_iff)

lemma is_digit_of_10: "is_digit_of 10 c = c_isdigit c"
  by (auto simp: is_digit_of_def digit_value_def c_isdigit_def Let_def split: if_splits)

lemma c_isdigit_not_space:
  "c_isdigit c \<Longrightarrow> \<not> c_isspace c \<and> c \<noteq> CHR ''-'' \<and> c \<noteq> CHR ''+''"
  by (auto simp: c_isdigit_def c_isspace_def)

lemma skip_prefix_10 [simp]: "skip_prefix 10 s = s"
  by (simp add: skip_prefix_def split: list.splits)

lemma parse_number_digits:
  assumes "list_all c_isdigit ds"
  shows "parse_number 10 ds = (if ds = [] then None else Some (False, digits_value 10 0 ds, []))"
proof (cases ds)
  case (Cons d ds')
  with assms have d: "c_isdigit d" "list_all c_isdigit ds'" by auto
  have span: "takeWhile c_isdigit ds' = ds'" "dropWhile c_isdigit ds' = []"
    using d(2) by (simp_all add: list_all_iff takeWhile_eq_all_conv)
  have dig: "is_digit_of 10 = c_isdigit" using is_digit_of_10 by blast
  show ?thesis
    using c_isdigit_not_space [OF d(1)] d(1) by (simp add: parse_number_def Cons dig span)
qed (simp add: parse_number_def)

end
