(* ===== verification/Common.thy ===== *)
theory Common
  imports C_Library
begin

text \<open>
  The helpers of \<open>etmemd_common.c\<close>: conversion of configuration values, validity of
  names, reading of numbers from files under \<open>/proc\<close>, and the write loop of the
  status output. A function that returns \<open>-1\<close> and leaves its output parameter alone
  gives \<open>None\<close>. The file system is a parameter \<open>fs\<close> that maps a path to the contents of
  a file that can be opened.
\<close>

section \<open>Constants\<close>

abbreviation (input) FILE_LINE_MAX_LEN :: nat where "FILE_LINE_MAX_LEN \<equiv> 1024"
abbreviation (input) KEY_VALUE_MAX_LEN :: nat where "KEY_VALUE_MAX_LEN \<equiv> 64"
abbreviation (input) PID_STR_MAX_LEN :: nat where "PID_STR_MAX_LEN \<equiv> 10"
abbreviation (input) NAME_STR_MAX_LEN :: nat where "NAME_STR_MAX_LEN \<equiv> 15"
abbreviation (input) SWAP_THRESHOLD_MAX_LEN :: nat where "SWAP_THRESHOLD_MAX_LEN \<equiv> 10"

type_synonym fs = "string \<Rightarrow> string option"

section \<open>Numbers\<close>

text \<open>\<open>endptr[0]\<close> for the string at \<open>endptr\<close>.\<close>

definition end_char :: "string \<Rightarrow> char" where
  "end_char s = (case s of [] \<Rightarrow> c_nul | c # _ \<Rightarrow> c)"

definition check_str_format :: "bool \<Rightarrow> char \<Rightarrow> bool" where
  "check_str_format errno endptr \<longleftrightarrow> errno \<or> endptr \<noteq> c_nul"

definition get_int_value :: "string \<Rightarrow> int option" where
  "get_int_value val =
     (case c_strtol val 10 of
        (value_tmp, pos, errno) \<Rightarrow>
          if check_str_format errno (end_char pos) then None
          else if value_tmp < - (2 ^ 31) \<or> value_tmp > 2 ^ 31 - 1 then None
          else Some value_tmp)"

definition get_unsigned_int_value :: "string \<Rightarrow> u32 option" where
  "get_unsigned_int_value val =
     (case c_strtoul val 10 of
        (value_tmp, pos, errno) \<Rightarrow>
          if check_str_format errno (end_char pos) then None
          else if value_tmp > 0xFFFFFFFF then None
          else Some (ucast value_tmp))"

definition get_unsigned_long_value :: "string \<Rightarrow> u64 option" where
  "get_unsigned_long_value val =
     (case c_strtoul val 10 of
        (value_tmp, pos, errno) \<Rightarrow>
          if check_str_format errno (end_char pos) then None else Some value_tmp)"

section \<open>Files under /proc\<close>

text \<open>
  \<open>get_status_num\<close>: the loops look for the first digit and then for the first
  non-digit behind it; when there is none the end index stays at the start index.
\<close>

definition get_status_num :: "securec \<Rightarrow> string \<Rightarrow> nat \<Rightarrow> string option" where
  "get_status_num S line value_len =
     (let i = length (takeWhile (\<lambda>c. \<not> c_isdigit c) line);
          start_cp_index = (if i < length line then i else 0);
          j = i + length (takeWhile c_isdigit (drop i line));
          end_cp_index = (if j < length line then j - 1 else start_cp_index)
      in sec_strncpy_s S value_len (drop start_cp_index line)
           (end_cp_index - start_cp_index + 1))"

definition PROC_PATH :: string where "PROC_PATH = ''/proc/''"

definition etmemd_get_proc_file_str ::
  "securec \<Rightarrow> string option \<Rightarrow> string \<Rightarrow> alloc \<Rightarrow> string option \<times> alloc" where
  "etmemd_get_proc_file_str S pid file al =
     (let p = (case pid of None \<Rightarrow> [] | Some s \<Rightarrow> s);
          file_str_size = length PROC_PATH + length file + 1 + length p
      in case c_alloc al of
           (False, al') \<Rightarrow> (None, al')
         | (True, al') \<Rightarrow>
             (sec_snprintf_s S file_str_size (file_str_size - 1) (PROC_PATH @ p @ file), al'))"

definition etmemd_get_proc_file ::
  "securec \<Rightarrow> fs \<Rightarrow> string option \<Rightarrow> string \<Rightarrow> alloc \<Rightarrow> string option \<times> alloc" where
  "etmemd_get_proc_file S fs pid file al =
     (case etmemd_get_proc_file_str S pid file al of
        (None, al') \<Rightarrow> (None, al')
      | (Some file_name, al') \<Rightarrow> (fs file_name, al'))"

text \<open>The loop of \<open>get_mem_from_proc_file\<close> over the lines of the opened file.\<close>

function get_mem_loop :: "securec \<Rightarrow> string \<Rightarrow> string \<Rightarrow> u64 option" where
  "get_mem_loop S cmpstr file =
     (case c_fgets (FILE_LINE_MAX_LEN - 1) file of
        None \<Rightarrow> None
      | Some (line, rest) \<Rightarrow>
          if c_strstr line cmpstr = None then get_mem_loop S cmpstr rest
          else
            case get_status_num S line KEY_VALUE_MAX_LEN of
              None \<Rightarrow> None
            | Some value \<Rightarrow> get_unsigned_long_value value)"
  by pat_completeness auto
termination
  by (relation "measure (\<lambda>(S, c, f). length f)") (auto dest: c_fgets_shorter [rotated])

declare get_mem_loop.simps [simp del]

definition get_mem_from_proc_file ::
  "securec \<Rightarrow> fs \<Rightarrow> string option \<Rightarrow> string \<Rightarrow> string \<Rightarrow> alloc \<Rightarrow> u64 option \<times> alloc" where
  "get_mem_from_proc_file S fs pid file_name cmpstr al =
     (case etmemd_get_proc_file S fs pid file_name al of
        (None, al') \<Rightarrow> (None, al')
      | (Some file, al') \<Rightarrow> (get_mem_loop S cmpstr file, al'))"

section \<open>Names and thresholds\<close>

definition check_value_valid :: "string \<Rightarrow> char \<Rightarrow> bool" where
  "check_value_valid valid c \<longleftrightarrow> c_isalpha c \<or> c_isdigit c \<or> c \<in> set valid"

text \<open>The value of \<open>get_valid_conf_str\<close> from \<open>start_idx\<close> on, at most \<open>n\<close> characters.\<close>

fun get_valid_conf_str :: "string \<Rightarrow> nat \<Rightarrow> string \<Rightarrow> string" where
  "get_valid_conf_str valid 0 s = []"
| "get_valid_conf_str valid (Suc n) [] = []"
| "get_valid_conf_str valid (Suc n) (c # s) =
     (if check_value_valid valid c then c # get_valid_conf_str valid n s else [])"

definition check_str_valid :: "string option \<Rightarrow> int" where
  "check_str_valid str =
     (case str of
        None \<Rightarrow> -1
      | Some s \<Rightarrow>
          if length s = 0 \<or> length s > NAME_STR_MAX_LEN then -1
          else
            let val = get_valid_conf_str ''.%/_-'' (KEY_VALUE_MAX_LEN - 1) s in
            if length val = 0 then -1 else if length val \<noteq> length s then -1 else 0)"

definition get_swap_threshold_inKB :: "string option \<Rightarrow> alloc \<Rightarrow> u64 option \<times> alloc" where
  "get_swap_threshold_inKB string al =
     (case string of
        None \<Rightarrow> (None, al)
      | Some s \<Rightarrow>
          if length s = 0 \<or> length s > SWAP_THRESHOLD_MAX_LEN then (None, al)
          else case c_alloc al of
            (False, al') \<Rightarrow> (None, al')
          | (True, al') \<Rightarrow>
              if \<not> list_all c_isdigit (butlast s) then (None, al')
              else if last s \<noteq> CHR ''g'' \<and> last s \<noteq> CHR ''G'' then (None, al')
              else (map_option (push_bit 20) (get_unsigned_long_value (butlast s)), al'))"

section \<open>Checks of files\<close>

text \<open>What \<open>stat\<close> reports; \<open>None\<close> where \<open>access\<close> or \<open>stat\<close> fails.\<close>

record file_stat =
  st_is_dir :: bool
  st_uid :: nat
  st_gid :: nat
  st_perm :: nat
  st_size :: int

definition file_permission_check :: "(string \<Rightarrow> file_stat option) \<Rightarrow> string option \<Rightarrow> nat \<Rightarrow> int" where
  "file_permission_check stat file_path mode =
     (case file_path of
        None \<Rightarrow> -1
      | Some path \<Rightarrow>
          if mode mod 512 = 0 then -1
          else case stat path of
            None \<Rightarrow> -1
          | Some buf \<Rightarrow>
              if st_is_dir buf then -1
              else if st_uid buf \<noteq> 0 \<or> st_gid buf \<noteq> 0 then -1
              else if st_perm buf mod 512 \<noteq> mode then -1
              else 0)"

definition file_size_check :: "(string \<Rightarrow> file_stat option) \<Rightarrow> string option \<Rightarrow> int \<Rightarrow> int" where
  "file_size_check stat file_path sz =
     (case file_path of
        None \<Rightarrow> -1
      | Some path \<Rightarrow>
          if sz \<le> 0 then -1
          else case stat path of
            None \<Rightarrow> -1
          | Some buf \<Rightarrow> if st_size buf > sz then -1 else 0)"

section \<open>Writing the status output\<close>

text \<open>
  \<open>write_all\<close>: the results of the successive \<open>write\<close> calls are a list (after its
  end every \<open>write\<close> takes all bytes it is given); the value is the return code and
  the bytes that reached the descriptor. The code passes \<open>buf\<close> itself each time.
\<close>

fun write_loop :: "string \<Rightarrow> int \<Rightarrow> int list \<Rightarrow> string \<Rightarrow> int \<times> string" where
  "write_loop buf rest [] sent = (0, if rest > 0 then sent @ take (nat rest) buf else sent)"
| "write_loop buf rest (w # ws) sent =
     (if rest > 0 then
        if w < 0 then (-1, sent)
        else write_loop buf (rest - w) ws (sent @ take (nat w) (take (nat rest) buf))
      else (0, sent))"

definition write_all :: "string \<Rightarrow> int list \<Rightarrow> int \<times> string" where
  "write_all buf ws = write_loop buf (int (length buf)) ws []"

section \<open>Lemmas\<close>

lemma end_char_Nil [simp]: "end_char [] = c_nul"
  by (simp add: end_char_def)

lemma get_unsigned_long_value_digits:
  assumes "list_all c_isdigit ds" "digits_value 10 0 ds < 2 ^ 64"
  shows "get_unsigned_long_value ds = Some (of_nat (digits_value 10 0 ds))"
  using assms by (auto simp: get_unsigned_long_value_def c_strtoul_def parse_number_digits
      check_str_format_def split: option.splits)

lemma get_unsigned_long_value_decimal:
  "n < 2 ^ 64 \<Longrightarrow> get_unsigned_long_value (nat_to_base 10 n) = Some (of_nat n)"
  by (simp add: get_unsigned_long_value_digits nat_to_base_decimal nat_to_base_value)

lemma strtoul_decimal: "n < 2 ^ 64 \<Longrightarrow> c_strtoul (nat_to_base 10 n) 10 = (of_nat n, [], False)"
  by (simp add: c_strtoul_def parse_number_digits nat_to_base_decimal nat_to_base_nonempty
      nat_to_base_value)

lemma get_valid_conf_str_eq:
  "get_valid_conf_str v n s = takeWhile (check_value_valid v) (take n s)"
  by (induction v n s rule: get_valid_conf_str.induct) auto

lemma write_loop_sent: "snd (write_loop buf rest ws sent) = sent @ snd (write_loop buf rest ws [])"
proof (induction ws arbitrary: rest sent)
  case (Cons w ws)
  have "snd (write_loop buf r ws (s1 @ s2)) = s1 @ snd (write_loop buf r ws s2)" for r s1 s2
    using Cons.IH [of r "s1 @ s2"] Cons.IH [of r s2] by simp
  then show ?case by simp
qed simp

lemma digits_value_less:
  "list_all c_isdigit ds \<Longrightarrow> digits_value 10 acc ds < (acc + 1) * 10 ^ length ds"
proof (induction ds arbitrary: acc)
  case (Cons d ds)
  then obtain v where v: "digit_value d = Some v" "v < 10"
    by (auto simp: digit_value_def c_isdigit_def)
  have "digits_value 10 (acc * 10 + v) ds < (acc * 10 + v + 1) * 10 ^ length ds"
    using Cons by (simp add: v)
  also have "\<dots> \<le> (acc * 10 + 10) * 10 ^ length ds"
    using v by (intro mult_right_mono) auto
  finally show ?case by (simp add: v algebra_simps)
qed simp

lemma threshold_no_wrap:
  assumes "list_all c_isdigit ds" "length ds \<le> 9"
  shows "digits_value 10 0 ds * 2 ^ 20 < 2 ^ 64"
proof -
  have "digits_value 10 0 ds < 10 ^ length ds" using digits_value_less [OF assms(1), of 0] by simp
  also have "\<dots> \<le> 10 ^ 9" using assms(2) by (intro power_increasing) auto
  finally have "digits_value 10 0 ds < 10 ^ 9" .
  then show ?thesis by simp
qed

lemma get_threshold_shift:
  assumes "list_all c_isdigit ds" "length ds \<le> 9"
  shows "\<exists>w. get_unsigned_long_value ds = Some w \<and> unat (push_bit 20 w) = digits_value 10 0 ds * 2 ^ 20"
proof -
  let ?n = "digits_value 10 0 ds"
  have b: "?n * 2 ^ 20 < 2 ^ 64" by (rule threshold_no_wrap [OF assms])
  have "?n < 2 ^ 64" by (rule le_less_trans [OF _ b]) simp
  with assms(1) have "get_unsigned_long_value ds = Some (of_nat ?n)"
    by (rule get_unsigned_long_value_digits)
  moreover have "push_bit 20 (of_nat ?n :: u64) = of_nat (?n * 2 ^ 20)"
    by (simp add: push_bit_eq_mult)
  ultimately show ?thesis using b by (auto simp: unat_of_nat take_bit_nat_eq_self simp del: of_nat_mult)
qed

subsection \<open>Lines of a file\<close>

lemma c_line_newline:
  "c_newline \<notin> set l \<Longrightarrow> length l < n \<Longrightarrow> c_line n (l @ c_newline # r) = (l @ [c_newline], r)"
proof (induction l arbitrary: n)
  case Nil
  then show ?case by (cases n) auto
next
  case (Cons c l)
  then show ?case by (cases n) auto
qed

lemma c_fgets_newline:
  "c_newline \<notin> set l \<Longrightarrow> Suc (length l) < n \<Longrightarrow>
   c_fgets n (l @ c_newline # r) = Some (l @ [c_newline], r)"
  by (auto simp: c_fgets_def intro!: c_line_newline)

definition text_lines :: "string list \<Rightarrow> string" where
  "text_lines ls = concat (map (\<lambda>l. l @ [c_newline]) ls)"

definition short_line :: "string \<Rightarrow> bool" where
  "short_line l \<longleftrightarrow> c_newline \<notin> set l \<and> length l + 2 < FILE_LINE_MAX_LEN"

lemma get_mem_loop_skip:
  "\<forall>l\<in>set ls. short_line l \<and> c_strstr (l @ [c_newline]) key = None \<Longrightarrow>
   get_mem_loop S key (text_lines ls @ r) = get_mem_loop S key r"
proof (induction ls)
  case (Cons l ls)
  then have "get_mem_loop S key (l @ c_newline # text_lines ls @ r) = get_mem_loop S key (text_lines ls @ r)"
    by (subst get_mem_loop.simps) (simp add: c_fgets_newline short_line_def)
  with Cons show ?case by (simp add: text_lines_def)
qed (simp add: text_lines_def)

lemma get_status_num_span:
  assumes "securec_ok S" "list_all (\<lambda>c. \<not> c_isdigit c) pre" "list_all c_isdigit ds" "ds \<noteq> []"
    "length ds < n" "\<not> c_isdigit c"
  shows "get_status_num S (pre @ ds @ c # suf) n = Some ds"
proof -
  obtain d ds' where ds: "ds = d # ds'" using assms(4) by (cases ds) auto
  have pre: "takeWhile (\<lambda>c. \<not> c_isdigit c) (pre @ ds @ c # suf) = pre"
    using assms(2,3) by (induction pre) (simp_all add: ds)
  have dig: "takeWhile c_isdigit (ds @ c # suf) = ds"
    using assms(3,6) by (simp add: takeWhile_append list_all_iff)
  have "length (take (length ds) (ds @ c # suf)) < n" using assms(5) by simp
  then have "sec_strncpy_s S n (ds @ c # suf) (length ds) = Some ds"
    using assms(1) unfolding securec_ok_def by simp
  moreover have "Suc (length pre + length ds - Suc (length pre)) = length ds"
    by (simp add: ds)
  ultimately show ?thesis
    unfolding get_status_num_def Let_def pre by (simp add: dig)
qed

lemma get_mem_finds:
  assumes "securec_ok S"
    and "fs (''/proc/'' @ pid @ file) = Some (text_lines before @ line @ c_newline # after)"
    and "\<forall>l\<in>set before. short_line l \<and> c_strstr (l @ [c_newline]) key = None"
    and "short_line line" "c_strstr (line @ [c_newline]) key \<noteq> None"
    and "line = pre @ ds @ suf" "list_all (\<lambda>c. \<not> c_isdigit c) pre"
    and "list_all c_isdigit ds" "ds \<noteq> []" "length ds < 64" "digits_value 10 0 ds < 2 ^ 64"
    and "suf = [] \<or> \<not> c_isdigit (hd suf)"
  shows "get_mem_from_proc_file S fs (Some pid) file key []
           = (Some (of_nat (digits_value 10 0 ds)), [])"
proof -
  have "sec_snprintf_s S (Suc k) k s = Some s" if "length s \<le> k" for k s
    using assms(1) that unfolding securec_ok_def by simp
  then have open_ok: "etmemd_get_proc_file S fs (Some pid) file []
      = (Some (text_lines before @ line @ c_newline # after), [])"
    using assms(2)
    by (simp add: etmemd_get_proc_file_def etmemd_get_proc_file_str_def PROC_PATH_def)
  obtain c suf' where suf: "suf @ [c_newline] = c # suf'" "\<not> c_isdigit c"
    using assms(12) by (cases suf) (auto simp: c_isdigit_def)
  have "line @ [c_newline] = pre @ ds @ c # suf'" using assms(6) suf(1) by simp
  then have num: "get_status_num S (line @ [c_newline]) 64 = Some ds"
    using get_status_num_span [OF assms(1,7-9) _ suf(2)] assms(10) by simp
  have "get_mem_loop S key (line @ c_newline # after) = Some (of_nat (digits_value 10 0 ds))"
    using assms(4,5) get_unsigned_long_value_digits [OF assms(8,11)]
    by (subst get_mem_loop.simps) (auto simp: c_fgets_newline short_line_def num)
  with open_ok get_mem_loop_skip [OF assms(3)] show ?thesis
    by (simp add: get_mem_from_proc_file_def)
qed

section \<open>Properties\<close>

text \<open>a swap threshold is accepted exactly when it is at most nine decimal digits
  followed by \<open>g\<close> or \<open>G\<close>, and its value in KB is the number times \<open>2^20\<close> without
  wrap-around of the 64-bit result.\<close>

theorem swap_threshold_exact:
  "(\<exists>v. get_swap_threshold_inKB (Some s) [] = (Some v, []) \<and> unat v = k) \<longleftrightarrow>
   (\<exists>ds g. s = ds @ [g] \<and> list_all c_isdigit ds \<and> length ds \<le> 9 \<and>
      (g = CHR ''g'' \<or> g = CHR ''G'') \<and> k = digits_value 10 0 ds * 2 ^ 20)"
proof (cases s rule: rev_cases)
  case (snoc ds g)
  show ?thesis
  proof (cases "list_all c_isdigit ds \<and> length ds \<le> 9 \<and> (g = CHR ''g'' \<or> g = CHR ''G'')")
    case True
    then show ?thesis
      using get_threshold_shift [of ds] by (auto simp: get_swap_threshold_inKB_def snoc)
  next
    case False
    then show ?thesis by (auto simp: get_swap_threshold_inKB_def snoc split: if_splits)
  qed
qed (simp add: get_swap_threshold_inKB_def)

text \<open>a name is valid exactly when it has 1 to 15 characters, each a letter, a digit
  or one of \<open>.%/_-\<close>; the truncation at 63 characters plays no role.\<close>

theorem check_str_valid_iff:
  "check_str_valid (Some s) = 0 \<longleftrightarrow>
     1 \<le> length s \<and> length s \<le> 15 \<and> list_all (check_value_valid ''.%/_-'') s"
proof -
  have "length (takeWhile P s) = length s \<longleftrightarrow> list_all P s" for P
    by (induction s) auto
  moreover have "length s \<le> 15 \<Longrightarrow> take 63 s = s" by simp
  ultimately show ?thesis
    by (cases s) (auto simp: check_str_valid_def get_valid_conf_str_eq Let_def)
qed

text \<open>\<open>get_mem_from_proc_file\<close> returns the first number on the first line of the
  file that contains the key, whatever short lines come before it.\<close>

theorem get_mem_from_proc_file_finds:
  assumes "securec_ok S"
    and "fs (''/proc/'' @ pid @ file) = Some (text_lines before @ line @ c_newline # after)"
    and "\<forall>l\<in>set before. short_line l \<and> c_strstr (l @ [c_newline]) key = None"
    and "short_line line" "c_strstr (line @ [c_newline]) key \<noteq> None"
    and "line = pre @ ds @ suf" "list_all (\<lambda>c. \<not> c_isdigit c) pre"
    and "list_all c_isdigit ds" "ds \<noteq> []" "length ds < 64" "digits_value 10 0 ds < 2 ^ 64"
    and "suf = [] \<or> \<not> c_isdigit (hd suf)"
  shows "get_mem_from_proc_file S fs (Some pid) file key []
           = (Some (of_nat (digits_value 10 0 ds)), [])"
  by (rule get_mem_finds [where fs = fs, OF assms])

definition sample_status :: fs where
  "sample_status =
     [''/proc/7/status'' \<mapsto> text_lines [''Name: a1''] @ ''VmRSS:  42 kB'' @ c_newline # []]"

lemma get_mem_from_proc_file_finds_witness:
  "get_mem_from_proc_file securec_ref sample_status (Some ''7'') ''/status'' ''VmRSS'' []
     = (Some (of_nat (digits_value 10 0 ''42'')), [])"
proof (rule get_mem_from_proc_file_finds)
  show "sample_status (''/proc/'' @ ''7'' @ ''/status'')
      = Some (text_lines [''Name: a1''] @ ''VmRSS:  42 kB'' @ c_newline # [])"
    by (simp add: sample_status_def)
  show "''VmRSS:  42 kB'' = ''VmRSS:  '' @ ''42'' @ '' kB''" by simp
qed (simp_all add: securec_ref_ok short_line_def c_isdigit_def digit_value_def)

text \<open>after a partial \<open>write\<close>, \<open>write_all\<close> sends the beginning of the buffer again
  instead of the unsent rest, and reports success.\<close>

theorem write_all_resends_prefix:
  assumes "0 < n" "n < int (length buf)"
  shows "write_all buf [n] = (0, take (nat n) buf @ take (length buf - nat n) buf)"
  using assms by (simp add: write_all_def nat_diff_distrib' min_absorb1)

lemma write_all_resends_prefix_witness: "write_all ''abcd'' [1] = (0, ''aabc'')"
  using write_all_resends_prefix [of 1 "''abcd''"] by (simp add: numeral_eq_Suc)

end
