(* ===== verification/Scan_Vma.thy ===== *)
theory Scan_Vma
  imports Common
begin

text \<open>
  The parser of \<open>/proc/<pid>/maps\<close> and \<open>smaps\<close> in \<open>etmemd_scan.c\<close>: one line into a
  \<open>struct vma\<close>, the filters on flags and anonymous areas, and the list of areas of a
  process. A read of a segment of a line behind its terminating NUL is reported as a
  fault; the kernel always writes four permission characters.
\<close>

section \<open>Areas\<close>

text \<open>The array \<open>stat\<close> is the four booleans \<open>vm_read\<close> to \<open>vm_may_share\<close>.\<close>

record vma =
  vm_start :: u64
  vm_end :: u64
  vm_read :: bool
  vm_write :: bool
  vm_exec :: bool
  vm_may_share :: bool
  vm_offset :: u64
  vm_inode :: u64
  vm_path :: string
  vm_major :: string
  vm_minor :: string

record vmas =
  vma_cnt :: u64
  vma_list :: "vma list"

definition zero_vma :: vma where
  "zero_vma = \<lparr>vm_start = 0, vm_end = 0, vm_read = False, vm_write = False, vm_exec = False,
     vm_may_share = False, vm_offset = 0, vm_inode = 0, vm_path = [], vm_major = [], vm_minor = []\<rparr>"

definition is_anonymous :: "vma \<Rightarrow> bool" where
  "is_anonymous v =
     (if vm_may_share v \<or> vm_exec v then False
      else if vm_inode v = 0 \<or> vm_write v then True
      else False)"

section \<open>Segments of a line\<close>

abbreviation (input) VMA_ADDR_STR_LEN :: nat where "VMA_ADDR_STR_LEN \<equiv> 17"
abbreviation (input) VMA_MAJOR_MINOR_LEN :: nat where "VMA_MAJOR_MINOR_LEN \<equiv> 8"
abbreviation (input) VMA_PATH_STR_LEN :: nat where "VMA_PATH_STR_LEN \<equiv> 256"
abbreviation (input) VMA_SEG_CNT_MAX :: nat where "VMA_SEG_CNT_MAX \<equiv> 6"

text \<open>A segment parser gives the updated area, \<open>None\<close> for the return value \<open>false\<close>.
  \<open>errno\<close> is reset only before the first of the two conversions of \<open>parse_vma_seg0\<close>.\<close>

definition parse_vma_seg0 :: "securec \<Rightarrow> vma \<Rightarrow> string option \<Rightarrow> vma option" where
  "parse_vma_seg0 S v seg0 =
     (case sec_sscanf2 S (CHR ''-'') VMA_ADDR_STR_LEN VMA_ADDR_STR_LEN seg0 of
        (ret, st, en) \<Rightarrow>
          if ret \<le> 0 then None
          else case c_strtoul st 16 of (a, pos, errno) \<Rightarrow>
            if check_str_format errno (end_char pos) then None
            else case c_strtoul en 16 of (b, pos', errno') \<Rightarrow>
              if check_str_format errno' (end_char pos') then None
              else Some (v\<lparr>vm_start := a, vm_end := b\<rparr>))"

definition parse_vma_seg1 :: "vma \<Rightarrow> string option \<Rightarrow> vma c_res" where
  "parse_vma_seg1 v seg1 =
     (case seg1 of
        None \<Rightarrow> Inl Null_deref
      | Some s \<Rightarrow>
          c_bind (c_char_at s 0) (\<lambda>r. c_bind (c_char_at s 1) (\<lambda>w.
          c_bind (c_char_at s 2) (\<lambda>x. c_bind (c_char_at s 3) (\<lambda>p.
            Inr (v\<lparr>vm_read := (r = CHR ''r''), vm_write := (w = CHR ''w''),
                   vm_exec := (x = CHR ''x''), vm_may_share := (p \<noteq> CHR ''p'')\<rparr>))))))"

definition parse_vma_seg2 :: "vma \<Rightarrow> string option \<Rightarrow> vma option c_res" where
  "parse_vma_seg2 v seg2 =
     (case seg2 of
        None \<Rightarrow> Inl Null_deref
      | Some s \<Rightarrow>
          (case c_strtoul s 16 of (n, pos, errno) \<Rightarrow>
             Inr (if check_str_format errno (end_char pos) then None
                  else Some (v\<lparr>vm_offset := n\<rparr>))))"

definition parse_vma_seg3 :: "securec \<Rightarrow> vma \<Rightarrow> string option \<Rightarrow> vma option" where
  "parse_vma_seg3 S v seg3 =
     (case sec_sscanf2 S (CHR '':'') VMA_MAJOR_MINOR_LEN VMA_MAJOR_MINOR_LEN seg3 of
        (ret, mj, mn) \<Rightarrow> if ret \<le> 0 then None else Some (v\<lparr>vm_major := mj, vm_minor := mn\<rparr>))"

definition parse_vma_seg4 :: "vma \<Rightarrow> string option \<Rightarrow> vma option c_res" where
  "parse_vma_seg4 v seg4 =
     (case seg4 of
        None \<Rightarrow> Inl Null_deref
      | Some s \<Rightarrow>
          (case c_strtoul s 10 of (n, pos, errno) \<Rightarrow>
             Inr (if check_str_format errno (end_char pos) then None
                  else Some (v\<lparr>vm_inode := n\<rparr>))))"

definition parse_vma_seg5 :: "securec \<Rightarrow> vma \<Rightarrow> string option \<Rightarrow> vma option c_res" where
  "parse_vma_seg5 S v seg5 =
     (case seg5 of
        None \<Rightarrow> Inl Null_deref
      | Some s \<Rightarrow>
          Inr (if length s > VMA_PATH_STR_LEN - 1 then Some v
               else case sec_strncpy_s S VMA_PATH_STR_LEN s (length s) of
                 None \<Rightarrow> None
               | Some p \<Rightarrow> Some (v\<lparr>vm_path := p\<rparr>)))"

text \<open>At most \<open>n\<close> calls of \<open>strtok_r\<close> with the same delimiters.\<close>

fun strtok_n :: "nat \<Rightarrow> string \<Rightarrow> string \<Rightarrow> string list" where
  "strtok_n 0 delims s = []"
| "strtok_n (Suc n) delims s =
     (case c_strtok delims s of
        None \<Rightarrow> []
      | Some (t, r) \<Rightarrow> t # strtok_n n delims r)"

definition seg_at :: "string list \<Rightarrow> nat \<Rightarrow> string option" where
  "seg_at segs i = (if i < length segs then Some (segs ! i) else None)"

text \<open>Continue with an area, or leave with NULL (the label \<open>exit\<close>).\<close>

definition or_exit :: "alloc \<Rightarrow> vma option c_res \<Rightarrow> (vma \<Rightarrow> (vma option \<times> alloc) c_res) \<Rightarrow>
  (vma option \<times> alloc) c_res" where
  "or_exit al r k = c_bind r (\<lambda>o1. case o1 of None \<Rightarrow> Inr (None, al) | Some v \<Rightarrow> k v)"

definition get_vma :: "securec \<Rightarrow> string \<Rightarrow> alloc \<Rightarrow> (vma option \<times> alloc) c_res" where
  "get_vma S line al =
     (case c_alloc al of
        (False, al') \<Rightarrow> Inr (None, al')
      | (True, al') \<Rightarrow>
          let seg = strtok_n VMA_SEG_CNT_MAX '' '' line in
          or_exit al' (Inr (parse_vma_seg0 S zero_vma (seg_at seg 0))) (\<lambda>v0.
          c_bind (parse_vma_seg1 v0 (seg_at seg 1)) (\<lambda>v1.
          or_exit al' (parse_vma_seg2 v1 (seg_at seg 2)) (\<lambda>v2.
          or_exit al' (Inr (parse_vma_seg3 S v2 (seg_at seg 3))) (\<lambda>v3.
          or_exit al' (parse_vma_seg4 v3 (seg_at seg 4)) (\<lambda>v4.
          or_exit al' (parse_vma_seg5 S v4 (seg_at seg 5)) (\<lambda>v5.
            Inr (Some v5, al'))))))))"

section \<open>Filters\<close>

definition VMFLAG_HEAD :: string where "VMFLAG_HEAD = ''VmFlags''"

text \<open>Whether the next \<open>VmFlags\<close> line has every flag, and the rest of the file.\<close>

function is_vma_with_vmflags :: "string list \<Rightarrow> string \<Rightarrow> (bool \<times> string) c_res" where
  "is_vma_with_vmflags vmflags_array fp =
     (case c_fgets (FILE_LINE_MAX_LEN - 1) fp of
        None \<Rightarrow> Inr (False, fp)
      | Some (parse_line, fp') \<Rightarrow>
          if length parse_line \<le> length VMFLAG_HEAD then is_vma_with_vmflags vmflags_array fp'
          else if \<not> c_strncmp_eq VMFLAG_HEAD parse_line (length VMFLAG_HEAD) then
            is_vma_with_vmflags vmflags_array fp'
          else case c_strstr parse_line '':'' of
            None \<Rightarrow> if vmflags_array = [] then Inr (True, fp') else Inl Null_deref
          | Some flags_start \<Rightarrow>
              Inr (list_all (\<lambda>f. c_strstr (drop 1 flags_start) f \<noteq> None) vmflags_array, fp'))"
  by pat_completeness auto
termination
  by (relation "measure (\<lambda>(a, f). length f)") (auto dest: c_fgets_shorter [rotated])

declare is_vma_with_vmflags.simps [simp del]

definition is_vmflags_match :: "string list \<Rightarrow> string \<Rightarrow> (bool \<times> string) c_res" where
  "is_vmflags_match vmflags_array fp =
     (if vmflags_array = [] then Inr (True, fp) else is_vma_with_vmflags vmflags_array fp)"

definition is_anon_match :: "bool \<Rightarrow> vma \<Rightarrow> bool" where
  "is_anon_match is_anon_only v = (if \<not> is_anon_only then True else is_anonymous v)"

abbreviation (input) VMFLAG_MAX_NUM :: nat where "VMFLAG_MAX_NUM \<equiv> 30"

text \<open>\<open>split_vmflags\<close>: the first token ends at a space, the later ones at a space or a comma.\<close>

definition split_vmflags :: "string \<Rightarrow> alloc \<Rightarrow> (int \<times> string list) \<times> alloc" where
  "split_vmflags vmflags al =
     (let tmp_array =
            (case c_strtok '' '' vmflags of
               None \<Rightarrow> []
             | Some (t, r) \<Rightarrow> t # strtok_n (VMFLAG_MAX_NUM - 1) '' ,'' r)
      in case c_alloc al of
           (False, al') \<Rightarrow> ((-1, []), al')
         | (True, al') \<Rightarrow> ((int (length tmp_array), tmp_array), al'))"

section \<open>The areas of a process\<close>

text \<open>
  The inner loop reads on until a line ends with a newline; once the end of the file is
  reached without one, the buffer no longer changes and the loop does not end.
\<close>

function skip_line_rest :: "string \<Rightarrow> string \<Rightarrow> string c_res" where
  "skip_line_rest maps_line fp =
     (if maps_line \<noteq> [] \<and> last maps_line = c_newline then Inr fp
      else case c_fgets (FILE_LINE_MAX_LEN - 1) fp of
        None \<Rightarrow> Inl Diverges
      | Some (maps_line', fp') \<Rightarrow> skip_line_rest maps_line' fp')"
  by pat_completeness auto
termination
  by (relation "measure (\<lambda>(l, f). length f)") (auto dest: c_fgets_shorter [rotated])

declare skip_line_rest.simps [simp del]

lemma skip_line_rest_length: "skip_line_rest l fp = Inr fp' \<Longrightarrow> length fp' \<le> length fp"
proof (induction l fp rule: skip_line_rest.induct)
  case (1 l fp)
  show ?case
  proof (cases "l \<noteq> [] \<and> last l = c_newline")
    case True
    with 1(2) show ?thesis by (simp add: skip_line_rest.simps [of l fp])
  next
    case False
    with 1(2) obtain l2 r2 where g: "c_fgets 1023 fp = Some (l2, r2)" "skip_line_rest l2 r2 = Inr fp'"
      by (auto simp: skip_line_rest.simps [of l fp] split: option.splits prod.splits if_splits)
    from 1(1) [OF False] g have "length fp' \<le> length r2" by simp
    with c_fgets_shorter [OF _ g(1)] show ?thesis by simp
  qed
qed

lemma is_vma_with_vmflags_length: "is_vma_with_vmflags a fp = Inr (m, fp') \<Longrightarrow> length fp' \<le> length fp"
proof (induction a fp rule: is_vma_with_vmflags.induct)
  case (1 a fp)
  show ?case
  proof (cases "c_fgets 1023 fp")
    case None
    with 1(3) show ?thesis by (simp add: is_vma_with_vmflags.simps [of a fp])
  next
    case (Some lr)
    then obtain l r where lr: "c_fgets 1023 fp = Some (l, r)" by (cases lr) auto
    let ?short = "length l \<le> length VMFLAG_HEAD"
    let ?head = "c_strncmp_eq VMFLAG_HEAD l (length VMFLAG_HEAD)"
    from lr 1(3) have "fp' = r \<or> (?short \<or> \<not> ?head) \<and> is_vma_with_vmflags a r = Inr (m, fp')"
      by (auto simp: is_vma_with_vmflags.simps [of a fp] split: option.splits if_splits)
    then have "length fp' \<le> length r" using 1(1,2) lr by fastforce
    with c_fgets_shorter [OF _ lr] show ?thesis by simp
  qed
qed

lemma is_vmflags_match_length: "is_vmflags_match a fp = Inr (m, fp') \<Longrightarrow> length fp' \<le> length fp"
  by (auto simp: is_vmflags_match_def dest: is_vma_with_vmflags_length split: if_splits)

function vmas_loop ::
  "securec \<Rightarrow> string list \<Rightarrow> bool \<Rightarrow> vmas \<Rightarrow> string \<Rightarrow> alloc \<Rightarrow> (vmas option \<times> alloc) c_res" where
  "vmas_loop S vmflags_array is_anon_only ret_vmas fp al =
     (case c_fgets (FILE_LINE_MAX_LEN - 1) fp of
        None \<Rightarrow> Inr (Some ret_vmas, al)
      | Some (maps_line, fp1) \<Rightarrow>
          c_bind (get_vma S maps_line al) (\<lambda>g. case g of
            (None, al') \<Rightarrow> Inr (None, al')
          | (Some v, al') \<Rightarrow>
              c_bind (skip_line_rest maps_line fp1) (\<lambda>fp2.
              c_bind (is_vmflags_match vmflags_array fp2) (\<lambda>m. case m of (matched, fp3) \<Rightarrow>
                if \<not> matched \<or> \<not> is_anon_match is_anon_only v then
                  vmas_loop S vmflags_array is_anon_only ret_vmas fp3 al'
                else
                  vmas_loop S vmflags_array is_anon_only
                    \<lparr>vma_cnt = vma_cnt ret_vmas + 1, vma_list = vma_list ret_vmas @ [v]\<rparr>
                    fp3 al'))))"
  by pat_completeness auto
termination
  by (relation "measure (\<lambda>(S, a, b, r, f, al). length f)")
    (auto dest!: c_fgets_shorter [rotated] skip_line_rest_length is_vmflags_match_length)

declare vmas_loop.simps [simp del]

definition get_vmas_with_flags ::
  "securec \<Rightarrow> fs \<Rightarrow> string \<Rightarrow> string list \<Rightarrow> bool \<Rightarrow> alloc \<Rightarrow> (vmas option \<times> alloc) c_res" where
  "get_vmas_with_flags S fs pid vmflags_array is_anon_only al =
     (let maps_file = (if vmflags_array = [] then ''/maps'' else ''/smaps'') in
      case c_alloc al of
        (False, al') \<Rightarrow> Inr (None, al')
      | (True, al') \<Rightarrow>
          (case etmemd_get_proc_file S fs (Some pid) maps_file al' of
             (None, al'') \<Rightarrow> Inr (None, al'')
           | (Some fp, al'') \<Rightarrow>
               vmas_loop S vmflags_array is_anon_only \<lparr>vma_cnt = 0, vma_list = []\<rparr> fp al''))"

definition get_vmas :: "securec \<Rightarrow> fs \<Rightarrow> string \<Rightarrow> alloc \<Rightarrow> (vmas option \<times> alloc) c_res" where
  "get_vmas S fs pid al = get_vmas_with_flags S fs pid [] True al"

definition is_flag_valid :: "string \<Rightarrow> bool" where
  "is_flag_valid flag =
     (if c_strstr flag '' '' \<noteq> None then False else if length flag \<noteq> 2 then False else True)"

definition etmemd_get_vmas ::
  "securec \<Rightarrow> fs \<Rightarrow> string option \<Rightarrow> string option list \<Rightarrow> bool \<Rightarrow> alloc \<Rightarrow>
   (vmas option \<times> alloc) c_res" where
  "etmemd_get_vmas S fs pid vmflags_array is_anon_only al =
     (case pid of
        None \<Rightarrow> Inr (None, al)
      | Some p \<Rightarrow>
          if list_all (\<lambda>f. case f of None \<Rightarrow> False | Some s \<Rightarrow> is_flag_valid s) vmflags_array
          then get_vmas_with_flags S fs p (map the vmflags_array) is_anon_only al
          else Inr (None, al))"

section \<open>Lemmas\<close>

lemma c_strtok_token:
  "d \<in> set delims \<Longrightarrow> t \<noteq> [] \<Longrightarrow> \<forall>c\<in>set t. c \<notin> set delims \<Longrightarrow>
   c_strtok delims (t @ d # r) = Some (t, r)"
  by (cases t) (simp_all add: c_strtok_def takeWhile_append dropWhile_append)

lemma c_strtok_last:
  "t \<noteq> [] \<Longrightarrow> \<forall>c\<in>set t. c \<notin> set delims \<Longrightarrow> c_strtok delims t = Some (t, [])"
  by (cases t) (simp_all add: c_strtok_def takeWhile_eq_all_conv [THEN iffD2]
      dropWhile_eq_Nil_conv [THEN iffD2])

lemma strtok_n_token:
  "d \<in> set delims \<Longrightarrow> t \<noteq> [] \<Longrightarrow> \<forall>c\<in>set t. c \<notin> set delims \<Longrightarrow>
   strtok_n (Suc n) delims (t @ d # r) = t # strtok_n n delims r"
  by (simp add: c_strtok_token)

lemma strtok_n_last:
  "t \<noteq> [] \<Longrightarrow> \<forall>c\<in>set t. c \<notin> set delims \<Longrightarrow> strtok_n (Suc 0) delims t = [t]"
  by (simp add: c_strtok_last)

lemma scanset_hex_digit: "d < 16 \<Longrightarrow> in_scanset (digit_char d)"
proof -
  assume "d < 16"
  then have "d \<in> set [0..<16]" by simp
  moreover have "\<forall>k\<in>set [0..<16]. in_scanset (digit_char k)"
    by (simp add: in_scanset_def c_isdigit_def digit_char_def upt_rec)
  ultimately show ?thesis by blast
qed

lemma hex_scanset: "list_all in_scanset (nat_to_base 16 n)"
  using nat_to_base_digits [of 16 _ n] scanset_hex_digit by (fastforce simp: list_all_iff)

lemma hex_is_digit: "c \<in> set (nat_to_base 16 n) \<Longrightarrow> is_digit_of 16 c"
  using nat_to_base_digits [of 16 c n] digit_value_char by (auto simp: is_digit_of_def)

lemma scanset_plain: "in_scanset c \<Longrightarrow> \<not> c_isspace c \<and> c \<noteq> CHR ''-'' \<and> c \<noteq> CHR ''+'' \<and> c \<noteq> CHR ''x'' \<and> c \<noteq> CHR ''X''"
  by (auto simp: in_scanset_def c_isdigit_def c_isspace_def)

lemma skip_prefix_plain: "\<forall>c\<in>set s. c \<noteq> CHR ''x'' \<and> c \<noteq> CHR ''X'' \<Longrightarrow> skip_prefix b s = s"
  by (auto simp: skip_prefix_def split: list.splits)

lemma strtoul_hex:
  assumes "n < 2 ^ 64"
  shows "c_strtoul (nat_to_base 16 n) 16 = (of_nat n, [], False)"
proof -
  let ?s = "nat_to_base 16 n"
  obtain c r where s: "?s = c # r" using nat_to_base_nonempty [of 16 n] by (cases ?s) auto
  have plain: "\<forall>c\<in>set ?s. \<not> c_isspace c \<and> c \<noteq> CHR ''-'' \<and> c \<noteq> CHR ''+'' \<and> c \<noteq> CHR ''x'' \<and> c \<noteq> CHR ''X''"
    using hex_scanset [of n] scanset_plain by (auto simp: list_all_iff)
  then have head: "\<not> c_isspace c" "c \<noteq> CHR ''-''" "c \<noteq> CHR ''+''"
    using s by auto
  have "skip_prefix 16 ?s = ?s" using plain by (intro skip_prefix_plain) auto
  moreover have "takeWhile (is_digit_of 16) ?s = ?s" "dropWhile (is_digit_of 16) ?s = []"
    using hex_is_digit by (auto simp: takeWhile_eq_all_conv)
  ultimately have "parse_number 16 ?s = Some (False, n, [])"
    using nat_to_base_value [of 16 n] head unfolding s by (simp add: parse_number_def)
  with assms show ?thesis by (simp add: c_strtoul_def)
qed

section \<open>Printed lines\<close>

text \<open>A line as the kernel prints it; the last segment holds the newline.\<close>

definition show_perms :: "vma \<Rightarrow> string" where
  "show_perms v = [if vm_read v then CHR ''r'' else CHR ''-'', if vm_write v then CHR ''w'' else CHR ''-'',
     if vm_exec v then CHR ''x'' else CHR ''-'', if vm_may_share v then CHR ''s'' else CHR ''p'']"

abbreviation hex64 :: "u64 \<Rightarrow> string" where "hex64 w \<equiv> nat_to_base 16 (unat w)"

definition show_head :: "vma \<Rightarrow> string" where
  "show_head v =
     (hex64 (vm_start v) @ CHR ''-'' # hex64 (vm_end v)) @ CHR '' '' # show_perms v @ CHR '' '' #
     hex64 (vm_offset v) @ CHR '' '' # (vm_major v @ CHR '':'' # vm_minor v) @ CHR '' '' #
     nat_to_base 10 (unat (vm_inode v)) @ '' ''"

definition show_vma :: "vma \<Rightarrow> string" where
  "show_vma v = show_head v @ vm_path v"

definition plain_vma :: "vma \<Rightarrow> bool" where
  "plain_vma v \<longleftrightarrow>
     vm_path v \<noteq> [] \<and> CHR '' '' \<notin> set (vm_path v) \<and> length (vm_path v) < VMA_PATH_STR_LEN \<and>
     list_all in_scanset (vm_major v) \<and> list_all in_scanset (vm_minor v) \<and>
     vm_major v \<noteq> [] \<and> vm_minor v \<noteq> [] \<and>
     length (vm_major v) < VMA_MAJOR_MINOR_LEN \<and> length (vm_minor v) < VMA_MAJOR_MINOR_LEN"

definition printable_vma :: "vma \<Rightarrow> bool" where
  "printable_vma v \<longleftrightarrow> plain_vma v \<and> last (vm_path v) = c_newline \<and>
     c_newline \<notin> set (butlast (vm_path v))"

lemma scanset_no_space: "list_all in_scanset s \<Longrightarrow> c \<in> set s \<Longrightarrow> c \<noteq> CHR '' '' \<and> c \<noteq> c_newline"
  by (auto simp: list_all_iff in_scanset_def c_isdigit_def)

lemma hex64_length: "length (hex64 w) \<le> 16"
proof -
  have "unat w < 16 ^ 16" using unat_u64 [of w] by simp
  then show ?thesis by (intro nat_to_base_length) auto
qed

lemma dec64_length: "length (nat_to_base 10 (unat (w :: u64))) \<le> 20"
proof -
  have "unat w < 10 ^ 20" using unat_u64 [of w] by simp
  then show ?thesis by (intro nat_to_base_length) auto
qed

lemma show_vma_segs:
  assumes "plain_vma v"
  shows "strtok_n 6 '' '' (show_vma v) =
    [hex64 (vm_start v) @ CHR ''-'' # hex64 (vm_end v), show_perms v, hex64 (vm_offset v),
     vm_major v @ CHR '':'' # vm_minor v, nat_to_base 10 (unat (vm_inode v)), vm_path v]"
proof -
  have hex: "\<forall>c\<in>set (hex64 w). c \<notin> set '' ''" for w
    using scanset_no_space [OF hex_scanset] by auto
  have dec: "\<forall>c\<in>set (nat_to_base 10 n). c \<notin> set '' ''" for n
    using nat_to_base_decimal [of n] by (auto simp: list_all_iff c_isdigit_def)
  have dev: "\<forall>c\<in>set (vm_major v @ CHR '':'' # vm_minor v). c \<notin> set '' ''"
    using assms scanset_no_space [of "vm_major v"] scanset_no_space [of "vm_minor v"]
    by (auto simp: plain_vma_def)
  have addr: "\<forall>c\<in>set (hex64 (vm_start v) @ CHR ''-'' # hex64 (vm_end v)). c \<notin> set '' ''"
    using hex by auto
  have perms: "\<forall>c\<in>set (show_perms v). c \<notin> set '' ''" "show_perms v \<noteq> []"
    by (auto simp: show_perms_def)
  have path: "vm_path v \<noteq> []" "\<forall>c\<in>set (vm_path v). c \<notin> set '' ''"
    using assms by (auto simp: plain_vma_def)
  have shape: "show_vma v =
     (hex64 (vm_start v) @ CHR ''-'' # hex64 (vm_end v)) @ CHR '' '' # show_perms v @ CHR '' '' #
     hex64 (vm_offset v) @ CHR '' '' # (vm_major v @ CHR '':'' # vm_minor v) @ CHR '' '' #
     nat_to_base 10 (unat (vm_inode v)) @ CHR '' '' # vm_path v"
    by (simp add: show_vma_def show_head_def)
  have six: "(6 :: nat) = Suc (Suc (Suc (Suc (Suc (Suc 0)))))" by simp
  note tok = strtok_n_token [of "CHR '' ''" "'' ''", OF list.set_intros(1)]
  show ?thesis
    unfolding shape six
    by (simp only: tok [OF _ addr] tok [OF perms(2,1)] tok [OF nat_to_base_nonempty hex]
        tok [OF _ dev] tok [OF nat_to_base_nonempty dec] strtok_n_last [OF path]
        append_is_Nil_conv list.distinct simp_thms)
qed

lemma parse_show_addr:
  "securec_ok S \<Longrightarrow> parse_vma_seg0 S v0 (Some (hex64 a @ CHR ''-'' # hex64 b))
     = Some (v0\<lparr>vm_start := a, vm_end := b\<rparr>)"
proof -
  assume S: "securec_ok S"
  have "length (hex64 w) < 17" for w using hex64_length [of w] by simp
  moreover have "\<not> in_scanset (CHR ''-'')" by (simp add: in_scanset_def c_isdigit_def)
  ultimately have "sec_sscanf2 S (CHR ''-'') 17 17 (Some (hex64 a @ CHR ''-'' # hex64 b))
      = (2, hex64 a, hex64 b)"
    using S hex_scanset nat_to_base_nonempty unfolding securec_ok_def by simp
  then show ?thesis
    using strtoul_hex [of "unat a"] strtoul_hex [of "unat b"] unat_u64 [of a] unat_u64 [of b]
    by (simp add: parse_vma_seg0_def check_str_format_def)
qed

lemma parse_show_dev:
  assumes "securec_ok S" "plain_vma v"
  shows "parse_vma_seg3 S v0 (Some (vm_major v @ CHR '':'' # vm_minor v))
     = Some (v0\<lparr>vm_major := vm_major v, vm_minor := vm_minor v\<rparr>)"
proof -
  have "\<not> in_scanset (CHR '':'')" by (simp add: in_scanset_def c_isdigit_def)
  then have "sec_sscanf2 S (CHR '':'') 8 8 (Some (vm_major v @ CHR '':'' # vm_minor v))
      = (2, vm_major v, vm_minor v)"
    using assms unfolding securec_ok_def plain_vma_def by simp
  then show ?thesis by (simp add: parse_vma_seg3_def)
qed

lemma parse_show_perms:
  "parse_vma_seg1 v0 (Some (show_perms v)) = Inr (v0\<lparr>vm_read := vm_read v,
     vm_write := vm_write v, vm_exec := vm_exec v, vm_may_share := vm_may_share v\<rparr>)"
  by (simp add: parse_vma_seg1_def show_perms_def c_char_at_def numeral_eq_Suc)

lemma parse_show_path:
  assumes "securec_ok S" "plain_vma v"
  shows "parse_vma_seg5 S v0 (Some (vm_path v)) = Inr (Some (v0\<lparr>vm_path := vm_path v\<rparr>))"
proof -
  have "sec_strncpy_s S 256 (vm_path v) (length (vm_path v)) = Some (vm_path v)"
    using assms unfolding securec_ok_def plain_vma_def by simp
  with assms(2) show ?thesis by (simp add: parse_vma_seg5_def plain_vma_def)
qed

lemma get_vma_show:
  assumes "securec_ok S" "plain_vma v"
  shows "get_vma S (show_vma v) [] = Inr (Some v, [])"
proof -
  have "parse_vma_seg2 w (Some (hex64 (vm_offset v))) = Inr (Some (w\<lparr>vm_offset := vm_offset v\<rparr>))"
    "parse_vma_seg4 w (Some (nat_to_base 10 (unat (vm_inode v))))
       = Inr (Some (w\<lparr>vm_inode := vm_inode v\<rparr>))" for w
    using strtoul_hex [of "unat (vm_offset v)"] strtoul_decimal [of "unat (vm_inode v)"]
      unat_u64 [of "vm_offset v"] unat_u64 [of "vm_inode v"]
    by (simp_all add: parse_vma_seg2_def parse_vma_seg4_def check_str_format_def)
  with assms show ?thesis
    by (simp add: get_vma_def show_vma_segs seg_at_def or_exit_def parse_show_addr parse_show_perms
        parse_show_dev parse_show_path)
qed

lemma show_head_line:
  assumes "plain_vma v"
  shows "c_newline \<notin> set (show_head v)" "length (show_head v) < 700"
proof -
  have nl: "c_newline \<notin> set (hex64 w)" "c_newline \<notin> set (nat_to_base 10 n)" for w n
    using scanset_no_space [OF hex_scanset] nat_to_base_decimal [of n]
    by (auto simp: list_all_iff c_isdigit_def)
  have dev: "c_newline \<notin> set (vm_major v)" "c_newline \<notin> set (vm_minor v)"
    using assms scanset_no_space [of "vm_major v"] scanset_no_space [of "vm_minor v"]
    by (auto simp: plain_vma_def)
  show "c_newline \<notin> set (show_head v)"
    using assms nl dev by (auto simp: show_head_def show_perms_def)
  show "length (show_head v) < 700"
    using assms hex64_length [of "vm_start v"] hex64_length [of "vm_end v"]
      hex64_length [of "vm_offset v"] dec64_length [of "vm_inode v"]
    by (simp add: plain_vma_def show_head_def show_perms_def)
qed

lemma show_vma_line:
  assumes "printable_vma v"
  shows "\<exists>l. show_vma v = l @ [c_newline] \<and> c_newline \<notin> set l \<and> length l < 1021"
proof (intro exI conjI)
  have "vm_path v = butlast (vm_path v) @ [c_newline]"
    using assms by (metis append_butlast_last_id printable_vma_def plain_vma_def)
  then show "show_vma v = (show_head v @ butlast (vm_path v)) @ [c_newline]"
    unfolding show_vma_def by simp
qed (use assms show_head_line [of v] in \<open>auto simp: printable_vma_def plain_vma_def\<close>)

lemma fgets_show:
  assumes "printable_vma v"
  shows "c_fgets 1023 (show_vma v @ r) = Some (show_vma v, r)"
proof -
  from show_vma_line [OF assms] obtain l where
    "show_vma v = l @ [c_newline]" "c_newline \<notin> set l" "length l < 1021" by blast
  then show ?thesis by (simp add: c_fgets_newline)
qed

lemma skip_show:
  "printable_vma v \<Longrightarrow> skip_line_rest (show_vma v) r = Inr r"
  using show_vma_line [of v] by (auto simp: skip_line_rest.simps [of "show_vma v"])

lemma printable_plain: "printable_vma v \<Longrightarrow> plain_vma v"
  by (simp add: printable_vma_def)

lemma vmas_loop_show:
  assumes "securec_ok S"
  shows "\<forall>v\<in>set vs. printable_vma v \<Longrightarrow>
    vmas_loop S [] anon acc (concat (map show_vma vs) @ r) [] = vmas_loop S [] anon
      \<lparr>vma_cnt = vma_cnt acc + of_nat (length (filter (is_anon_match anon) vs)),
       vma_list = vma_list acc @ filter (is_anon_match anon) vs\<rparr> r []"
proof (induction vs arbitrary: acc)
  case (Cons v vs)
  then have v: "printable_vma v" by simp
  have "concat (map show_vma (v # vs)) @ r = show_vma v @ concat (map show_vma vs) @ r" by simp
  with Cons v assms show ?case
    by (simp add: vmas_loop.simps [of S "[]" anon acc] fgets_show get_vma_show printable_plain skip_show
        is_vmflags_match_def algebra_simps)
next
  case Nil
  show ?case by (cases acc) simp
qed

lemma vmas_loop_Nil: "vmas_loop S flags anon acc [] al = Inr (Some acc, al)"
  by (simp add: vmas_loop.simps [of S flags] c_fgets_def)

lemma get_vmas_open:
  assumes "securec_ok S" "fs (''/proc/'' @ pid @ ''/maps'') = Some file"
  shows "get_vmas S fs pid [] = vmas_loop S [] True \<lparr>vma_cnt = 0, vma_list = []\<rparr> file []"
proof -
  have "sec_snprintf_s S (Suc k) k s = Some s" if "length s \<le> k" for k s
    using assms(1) that unfolding securec_ok_def by simp
  with assms(2) show ?thesis
    by (simp add: get_vmas_def get_vmas_with_flags_def etmemd_get_proc_file_def
        etmemd_get_proc_file_str_def PROC_PATH_def)
qed

lemma is_anon_match_True: "is_anon_match True = is_anonymous"
  by (simp add: is_anon_match_def fun_eq_iff)

lemma c_line_short: "c_newline \<notin> set l \<Longrightarrow> length l \<le> n \<Longrightarrow> c_line n l = (l, [])"
proof (induction l arbitrary: n)
  case Nil
  then show ?case by (cases n) auto
next
  case (Cons c l)
  then show ?case by (cases n) auto
qed

text \<open>The counter of a list of areas agrees with the list, and anonymous scans hold
  anonymous areas only.\<close>

definition vmas_ok :: "bool \<Rightarrow> vmas \<Rightarrow> bool" where
  "vmas_ok anon w \<longleftrightarrow> vma_cnt w = of_nat (length (vma_list w)) \<and>
     list_all (is_anon_match anon) (vma_list w)"

lemma vmas_loop_ok:
  "vmas_loop S flags anon acc fp al = Inr (Some w, al') \<Longrightarrow> vmas_ok anon acc \<Longrightarrow> vmas_ok anon w"
proof (induction S flags anon acc fp al rule: vmas_loop.induct)
  case (1 S flags anon acc fp al)
  show ?case
  proof (cases "c_fgets 1023 fp")
    case None
    with 1(3,4) show ?thesis by (simp add: vmas_loop.simps [of S flags anon acc fp al])
  next
    case (Some lr)
    then obtain l fp1 where g: "c_fgets (1024 - 1) fp = Some (l, fp1)" by (cases lr) auto
    with 1(3) obtain v al1 fp2 m fp3 where
      v: "get_vma S l al = Inr (Some v, al1)" and sk: "skip_line_rest l fp1 = Inr fp2"
      and fl: "is_vmflags_match flags fp2 = Inr (m, fp3)"
      and rec: "(if \<not> m \<or> \<not> is_anon_match anon v then vmas_loop S flags anon acc fp3 al1
           else vmas_loop S flags anon
             \<lparr>vma_cnt = vma_cnt acc + 1, vma_list = vma_list acc @ [v]\<rparr> fp3 al1) = Inr (Some w, al')"
      by (auto simp: vmas_loop.simps [of S flags anon acc fp al] split: option.splits prod.splits)
    show ?thesis
    proof (cases "\<not> m \<or> \<not> is_anon_match anon v")
      case True
      with rec 1(4) show ?thesis
        by (intro 1(1) [OF g refl v refl refl sk fl refl True]) simp_all
    next
      case False
      with rec 1(4) show ?thesis
        by (intro 1(2) [OF g refl v refl refl sk fl refl False]) (simp_all add: vmas_ok_def)
    qed
  qed
qed

lemma is_anonymous_eq:
  "is_anonymous = (\<lambda>v. \<not> vm_may_share v \<and> \<not> vm_exec v \<and> (vm_inode v = 0 \<or> vm_write v))"
  by (auto simp: is_anonymous_def fun_eq_iff)

lemma get_vmas_lines:
  assumes "securec_ok S" "fs (''/proc/'' @ pid @ ''/maps'') = Some (concat (map show_vma vs))"
    and "\<forall>v\<in>set vs. printable_vma v"
  shows "get_vmas S fs pid [] =
    Inr (Some \<lparr>vma_cnt = of_nat (length (filter is_anonymous vs)),
               vma_list = filter is_anonymous vs\<rparr>, [])"
  using vmas_loop_show [OF assms(1,3), of True _ "[]"]
  by (simp add: get_vmas_open [where fs = fs, OF assms(1,2)] vmas_loop_Nil is_anon_match_True)

section \<open>Properties\<close>


definition sample_vma :: vma where
  "sample_vma = \<lparr>vm_start = 0x1000, vm_end = 0x3000, vm_read = True, vm_write = True,
     vm_exec = False, vm_may_share = False, vm_offset = 0, vm_inode = 0, vm_path = [c_newline],
     vm_major = ''00'', vm_minor = ''0a''\<rparr>"

lemmas sample_vma_simps = sample_vma_def printable_vma_def plain_vma_def in_scanset_def c_isdigit_def


text \<open>whatever the contents of \<open>smaps\<close> or \<open>maps\<close> and the pattern of allocation
  failures, a list of areas that is returned has its counter equal to its length, and with
  \<open>is_anon_only\<close> it holds anonymous areas only.\<close>

theorem etmemd_get_vmas_ok:
  assumes "etmemd_get_vmas S fs pid flags anon al = Inr (Some w, al')"
  shows "vma_cnt w = of_nat (length (vma_list w)) \<and>
    (anon \<longrightarrow> list_all is_anonymous (vma_list w))"
proof -
  have "vmas_ok anon w"
    using assms
    by (auto simp: etmemd_get_vmas_def get_vmas_with_flags_def Let_def
        split: option.splits prod.splits if_splits bool.splits
        elim!: vmas_loop_ok) (simp_all add: vmas_ok_def)
  then show ?thesis by (auto simp: vmas_ok_def is_anon_match_True)
qed

lemma etmemd_get_vmas_empty:
  "etmemd_get_vmas securec_ref [''/proc/7/maps'' \<mapsto> []] (Some ''7'') [] True [] =
     Inr (Some \<lparr>vma_cnt = 0, vma_list = []\<rparr>, [])"
  by (simp add: etmemd_get_vmas_def get_vmas_with_flags_def etmemd_get_proc_file_def PROC_PATH_def
      etmemd_get_proc_file_str_def securec_ref_def vmas_loop_Nil)

lemma etmemd_get_vmas_ok_witness:
  "\<exists>w. etmemd_get_vmas securec_ref [''/proc/7/maps'' \<mapsto> []] (Some ''7'') [] True [] = Inr (Some w, []) \<and>
     vma_cnt w = of_nat (length (vma_list w)) \<and> list_all is_anonymous (vma_list w)"
  using etmemd_get_vmas_empty etmemd_get_vmas_ok [OF etmemd_get_vmas_empty] by blast

text \<open>when the last line of the file is a well-formed area without the newline at
  its end, reading the areas does not end.\<close>

theorem get_vmas_unterminated_line:
  assumes "securec_ok S" "\<forall>v\<in>set vs. printable_vma v"
    and "fs (''/proc/'' @ pid @ ''/maps'') = Some (concat (map show_vma vs) @ show_vma u)"
    and "plain_vma u" "c_newline \<notin> set (vm_path u)"
  shows "get_vmas S fs pid [] = Inl Diverges"
proof -
  let ?l = "show_vma u"
  have l: "?l \<noteq> []" "c_newline \<notin> set ?l" "length ?l \<le> 1022"
    using show_head_line [OF assms(4)] assms(4,5) by (auto simp: show_vma_def plain_vma_def)
  then have "c_fgets 1023 ?l = Some (?l, [])" by (simp add: c_fgets_def c_line_short)
  moreover have "last ?l \<noteq> c_newline" using l by (metis last_in_set)
  then have "skip_line_rest ?l [] = Inl Diverges" by (simp add: skip_line_rest.simps c_fgets_def)
  ultimately have "vmas_loop S [] True acc ?l [] = Inl Diverges" for acc
    by (simp add: vmas_loop.simps [of S "[]" True acc ?l] get_vma_show [OF assms(1,4)])
  then show ?thesis
    using vmas_loop_show [OF assms(1,2)] by (simp add: get_vmas_open [where fs = fs, OF assms(1,3)])
qed

lemma get_vmas_unterminated_line_witness:
  "get_vmas securec_ref [''/proc/7/maps'' \<mapsto> concat (map show_vma [sample_vma]) @
     show_vma (sample_vma\<lparr>vm_path := ''x''\<rparr>)] ''7'' [] = Inl Diverges"
  by (rule get_vmas_unterminated_line [where vs = "[sample_vma]"
        and u = "sample_vma\<lparr>vm_path := ''x''\<rparr>"])
    (simp_all add: securec_ref_ok sample_vma_simps)

end
