(* ===== verification/Scan_Process.thy ===== *)
theory Scan_Process
  imports Scan_Pages Scan_Vma "HOL-Library.Multiset"
begin

text \<open>
  Scanning a process (\<open>etmemd_scan.c\<close>, second half): the walk over the areas of a process,
  the repeated passes of \<open>etmemd_do_scan\<close>, and the buckets by possibility that the slide
  engine migrates from.
\<close>

section \<open>One pass\<close>

text \<open>
  The loop of \<open>get_page_refs\<close> for \<open>n\<close> remaining areas: \<open>None\<close> is the return value
  \<open>-1\<close>. The cursor moves through the list of pages; the end of the last walk is carried
  from area to area.
\<close>

fun walk_loop ::
  "'d fp \<Rightarrow> u64 list \<Rightarrow> scan_io \<Rightarrow> nat \<Rightarrow> vma list \<Rightarrow> u64 \<Rightarrow> 'd cursor \<Rightarrow> u64 option \<Rightarrow> int \<Rightarrow> int \<Rightarrow>
   alloc \<Rightarrow> (('d cursor \<times> u64 option) option \<times> alloc) c_res" where
  "walk_loop F gps io 0 vs last_end pf rss li le al = Inr (Some (pf, rss), al)"
| "walk_loop F gps io (Suc n) [] last_end pf rss li le al = Inl Null_deref"
| "walk_loop F gps io (Suc n) (v # vs) last_end pf rss li le al =
     (if last_end > vm_end v then walk_loop F gps io n vs last_end pf rss li le al
      else
        let wa = \<lparr>walk_start = (if last_end > vm_start v then last_end else vm_start v),
                  walk_end = vm_end v, last_walk_end = last_end\<rparr>
        in c_bind (walk_vmas F gps io wa pf rss li le al) (\<lambda>out.
             case po_pf out of
               None \<Rightarrow> Inr (None, po_al out)
             | Some pf' \<Rightarrow>
                 walk_loop F gps io n vs (po_end out) pf' (po_rss out) li le (po_al out)))"

text \<open>\<open>etmemd_send_ioctl_cmd\<close> on an open file and a request, given whether \<open>fileno\<close> and
  \<open>ioctl\<close> succeed.\<close>

definition etmemd_send_ioctl_cmd :: "bool \<Rightarrow> bool \<Rightarrow> int" where
  "etmemd_send_ioctl_cmd fileno_ok ioctl_ok =
     (if \<not> fileno_ok then -1 else if \<not> ioctl_ok then -1 else 0)"

text \<open>\<open>ioctl_parameter\<close> is None for \<open>ioctl_para == NULL\<close>.\<close>

definition get_page_refs ::
  "'d fp \<Rightarrow> u64 list \<Rightarrow> scan_io \<Rightarrow> vmas \<Rightarrow> 'd page_refs list \<Rightarrow> u64 option \<Rightarrow> u32 option \<Rightarrow> int \<Rightarrow>
   int \<Rightarrow> alloc \<Rightarrow> (('d page_refs list \<times> u64 option) option \<times> alloc) c_res" where
  "get_page_refs F gps io vmas page_refs use_rss ioctl_parameter loop_idx loop_end al =
     (if \<not> io_open io then Inr (None, al)
      else if (case ioctl_parameter of None \<Rightarrow> False
               | Some q \<Rightarrow> q \<noteq> 0 \<and> etmemd_send_ioctl_cmd (io_fileno io) (io_ioctl io) \<noteq> 0) then Inr (None, al)
      else if \<not> io_fileno io then Inr (None, al)
      else
        c_bind (walk_loop F gps io (unat (vma_cnt vmas)) (vma_list vmas) 0 ([], page_refs) use_rss
                  loop_idx loop_end al)
          (\<lambda>r. Inr (map_option (\<lambda>(pf, rss). (cursor_list pf, rss)) (fst r), snd r)))"

section \<open>The scan module\<close>

record scan_mod =
  g_exp_scan_inited :: bool
  g_page_size :: "u64 list"

definition etmemd_scan_init :: "int \<Rightarrow> scan_mod \<Rightarrow> (int \<times> scan_mod) c_res" where
  "etmemd_scan_init pagesize st =
     (if g_exp_scan_inited st then Inr (-1, st)
      else c_bind (init_g_page_size pagesize) (\<lambda>r. case r of
          (ret, None) \<Rightarrow> Inr (-1, st)
        | (ret, Some gps) \<Rightarrow> Inr (0, st\<lparr>g_page_size := gps, g_exp_scan_inited := True\<rparr>)))"

definition etmemd_scan_exit :: "scan_mod \<Rightarrow> scan_mod" where
  "etmemd_scan_exit st = st\<lparr>g_exp_scan_inited := False\<rparr>"

abbreviation (input) ALL_SCAN_FLAGS :: u32 where "ALL_SCAN_FLAGS \<equiv> 0x3001000"
abbreviation (input) VMA_SCAN_FLAG :: u32 where "VMA_SCAN_FLAG \<equiv> 0x1000"

definition etmemd_get_page_refs ::
  "'d fp \<Rightarrow> scan_mod \<Rightarrow> scan_io \<Rightarrow> vmas option \<Rightarrow> string option \<Rightarrow> 'd page_refs list option \<Rightarrow> u32 \<Rightarrow>
   alloc \<Rightarrow> ('d page_refs list option \<times> alloc) c_res" where
  "etmemd_get_page_refs F st io vmas pid page_refs flags al =
     (if \<not> g_exp_scan_inited st then Inr (None, al)
      else case (vmas, pid, page_refs) of
        (Some w, Some p, Some ps) \<Rightarrow>
          c_bind (get_page_refs F (g_page_size st) io w ps None (Some (flags AND ALL_SCAN_FLAGS)) 0 0 al)
            (\<lambda>r. Inr (map_option fst (fst r), snd r))
      | _ \<Rightarrow> Inr (None, al))"

section \<open>All passes\<close>

text \<open>
  What \<open>etmemd_do_scan\<close> reads of the task: the number of passes of the project's
  \<open>page_scan\<close> and whether the task has a swap flag. \<open>ios i\<close> is the scan file in pass \<open>i\<close>.
  NULL and the empty list of pages are the same value.
\<close>

record scan_task =
  sc_loop :: int
  sc_swap_flag :: u32

function scan_passes ::
  "'d fp \<Rightarrow> u64 list \<Rightarrow> (nat \<Rightarrow> scan_io) \<Rightarrow> vmas \<Rightarrow> u32 \<Rightarrow> int \<Rightarrow> int \<Rightarrow> 'd page_refs list \<Rightarrow> alloc \<Rightarrow>
   ('d page_refs list \<times> alloc) c_res" where
  "scan_passes F gps ios vmas par loop i page_refs al =
     (if i < loop then
        c_bind (get_page_refs F gps (ios (nat i)) vmas page_refs None (Some par) i (loop - 1) al)
          (\<lambda>r. case r of
             (None, al') \<Rightarrow> Inr ([], al')
           | (Some (ps, _), al') \<Rightarrow> scan_passes F gps ios vmas par loop (i + 1) ps al')
      else Inr (page_refs, al))"
  by pat_completeness auto
termination
  by (relation "measure (\<lambda>(F, gps, ios, vmas, par, loop, i, rest). nat (loop - i))") auto

declare scan_passes.simps [simp del]

definition etmemd_do_scan ::
  "'d fp \<Rightarrow> u64 list \<Rightarrow> securec \<Rightarrow> fs \<Rightarrow> (nat \<Rightarrow> scan_io) \<Rightarrow> u32 \<Rightarrow> scan_task option \<Rightarrow> alloc \<Rightarrow>
   ('d page_refs list \<times> alloc) c_res" where
  "etmemd_do_scan F gps S fs ios tpid tk al =
     (case tk of
        None \<Rightarrow> Inr ([], al)
      | Some t \<Rightarrow>
          (case sec_snprintf_s S PID_STR_MAX_LEN (PID_STR_MAX_LEN - 1) (nat_to_base 10 (unat tpid)) of
             None \<Rightarrow> Inr ([], al)
           | Some pid \<Rightarrow>
               c_bind (get_vmas S fs pid al) (\<lambda>r. case r of
                   (None, al') \<Rightarrow> Inr ([], al')
                 | (Some vmas, al') \<Rightarrow>
                     scan_passes F gps ios vmas (if sc_swap_flag t \<noteq> 0 then VMA_SCAN_FLAG else 0)
                       (sc_loop t) 0 [] al')))"

section \<open>Sorting by possibility\<close>

text \<open>\<open>ps_page_refs\<close> is the pointer to the unsorted list, NULL when the buckets are used.\<close>

record 'd page_sort =
  ps_loop :: int
  ps_page_refs :: "'d page_refs list option"
  ps_sort :: "'d page_refs list list"

definition alloc_page_sort :: "int \<Rightarrow> alloc \<Rightarrow> 'd page_sort option \<times> alloc" where
  "alloc_page_sort loop al =
     (case c_alloc al of
        (False, al') \<Rightarrow> (None, al')
      | (True, al') \<Rightarrow>
          (case c_alloc al' of
             (False, al'') \<Rightarrow> (None, al'')
           | (True, al'') \<Rightarrow>
               (Some \<lparr>ps_loop = loop, ps_page_refs = None, ps_sort = replicate 5 []\<rparr>, al'')))"

definition add_page_refs_into_memory_grade ::
  "'d page_refs list \<Rightarrow> 'd page_refs list \<Rightarrow> ('d page_refs list \<times> 'd page_refs list) c_res" where
  "add_page_refs_into_memory_grade page_refs lst =
     (case page_refs of [] \<Rightarrow> Inl Null_deref | p # ps \<Rightarrow> Inr (ps, p # lst))"

definition sort_by_possibility :: "'d fp \<Rightarrow> 'd \<Rightarrow> nat" where
  "sort_by_possibility F p =
     (if fp_less F p (fp_lit F 5 100) then 0
      else if fp_less F p (fp_lit F 1 10) then 1
      else if fp_less F p (fp_lit F 2 10) then 2
      else if fp_less F p (fp_lit F 4 10) then 3
      else 4)"

fun sort_loop :: "'d fp \<Rightarrow> 'd page_refs list \<Rightarrow> 'd page_refs list list \<Rightarrow> 'd page_refs list list" where
  "sort_loop F [] buckets = buckets"
| "sort_loop F (p # ps) buckets =
     (let index = sort_by_possibility F (pr_possibility p) in
      sort_loop F ps (buckets[index := p # buckets ! index]))"

text \<open>\<open>dram_percent\<close> is None when the task has no parameters. The second component is
  the list left at \<open>*page_refs\<close>.\<close>

definition sort_page_refs ::
  "'d fp \<Rightarrow> int \<Rightarrow> int option \<Rightarrow> 'd page_refs list \<Rightarrow> alloc \<Rightarrow>
   'd page_sort option \<times> 'd page_refs list \<times> alloc" where
  "sort_page_refs F loop dram_percent page_refs al =
     (case alloc_page_sort loop al of
        (None, al') \<Rightarrow> (None, page_refs, al')
      | (Some page_sort, al') \<Rightarrow>
          if dram_percent = None \<or> dram_percent = Some 0 then
            (Some (page_sort\<lparr>ps_page_refs := Some page_refs\<rparr>), page_refs, al')
          else
            (Some (page_sort\<lparr>ps_sort := sort_loop F page_refs (ps_sort page_sort)\<rparr>), [], al'))"

text \<open>The pages \<open>clean_page_sort_unexpected\<close> frees: it runs over \<open>loop + 1\<close> buckets.\<close>

fun clean_buckets :: "nat \<Rightarrow> 'd page_refs list list \<Rightarrow> 'd page_refs list c_res" where
  "clean_buckets 0 bs = Inr []"
| "clean_buckets (Suc n) [] = Inl Out_of_bounds"
| "clean_buckets (Suc n) (b # bs) = c_bind (clean_buckets n bs) (\<lambda>freed. Inr (b @ freed))"

definition clean_page_sort_unexpected :: "'d page_sort option \<Rightarrow> 'd page_refs list c_res" where
  "clean_page_sort_unexpected msg =
     (case msg of
        None \<Rightarrow> Inr []
      | Some m \<Rightarrow> clean_buckets (nat (ps_loop m + 1)) (ps_sort m))"

section \<open>Lemmas\<close>

context page_property
begin

lemma walk_loop_P:
  "walk_loop F gps io n vs e pf rss li le al = Inr (Some (pf', rss'), al') \<Longrightarrow> length gps = 3 \<Longrightarrow>
   \<forall>p\<in>set (cursor_list pf). P p \<Longrightarrow> \<forall>p\<in>set (cursor_list pf'). P p"
proof (induction n arbitrary: vs e pf rss al)
  case (Suc n)
  then obtain v vs' where vs: "vs = v # vs'" by (cases vs) auto
  show ?case
  proof (cases "e > vm_end v")
    case True
    with Suc vs show ?thesis by auto
  next
    case False
    with Suc.prems(1) obtain wa out pf2 where
      w: "walk_vmas F gps io wa pf rss li le al = Inr out" "po_pf out = Some pf2"
      and r: "walk_loop F gps io n vs' (po_end out) pf2 (po_rss out) li le (po_al out) = Inr (Some (pf', rss'), al')"
      by (auto simp: vs Let_def split: option.splits)
    from walk_vmas_P [OF w(1) Suc.prems(2,3) w(2)] Suc.IH [OF r Suc.prems(2)] show ?thesis by blast
  qed
qed simp

lemma get_page_refs_P:
  "get_page_refs F gps io vmas ps rss par li le al = Inr (Some (ps', rss'), al') \<Longrightarrow> length gps = 3 \<Longrightarrow>
   \<forall>p\<in>set ps. P p \<Longrightarrow> \<forall>p\<in>set ps'. P p"
  by (auto simp: get_page_refs_def split: if_splits option.splits dest!: walk_loop_P)

lemma scan_passes_P:
  "scan_passes F gps ios vmas par loop i ps al = Inr (ps', al') \<Longrightarrow> length gps = 3 \<Longrightarrow>
   \<forall>p\<in>set ps. P p \<Longrightarrow> \<forall>p\<in>set ps'. P p"
proof (induction "nat (loop - i)" arbitrary: i ps al rule: less_induct)
  case less
  note eq = scan_passes.simps [of F gps ios vmas par loop i ps al]
  show ?case
  proof (cases "i < loop")
    case True
    with less.prems(1) obtain r where
      g: "get_page_refs F gps (ios (nat i)) vmas ps None (Some par) i (loop - 1) al = Inr r"
      and r: "(case r of (None, al') \<Rightarrow> Inr ([], al')
        | (Some (ps, _), al') \<Rightarrow> scan_passes F gps ios vmas par loop (i + 1) ps al') = Inr (ps', al')"
      by (auto simp: eq)
    show ?thesis
    proof (cases "fst r")
      case None
      with r show ?thesis by (cases r) auto
    next
      case (Some q)
      then obtain ps2 rss2 al2 where r2: "r = (Some (ps2, rss2), al2)" by (cases r; cases q) auto
      with get_page_refs_P [OF g [unfolded r2] less.prems(2,3)] r less.hyps [of "i + 1"] True less.prems(2)
      show ?thesis by auto
    qed
  qed (use less.prems in \<open>auto simp: eq\<close>)
qed

lemma etmemd_do_scan_P:
  "etmemd_do_scan F gps S fs ios tpid tk al = Inr (ps, al') \<Longrightarrow> length gps = 3 \<Longrightarrow> \<forall>p\<in>set ps. P p"
  by (auto simp: etmemd_do_scan_def split: option.splits prod.splits dest!: scan_passes_P)

end

lemma sort_by_possibility_less: "sort_by_possibility F x < 5"
  by (simp add: sort_by_possibility_def)

lemma sort_loop_nth:
  "length buckets = 5 \<Longrightarrow> i < 5 \<Longrightarrow>
   sort_loop F ps buckets ! i =
     rev (filter (\<lambda>p. sort_by_possibility F (pr_possibility p) = i) ps) @ buckets ! i"
proof (induction ps arbitrary: buckets)
  case (Cons p ps)
  then show ?case using sort_by_possibility_less [of F "pr_possibility p"]
    by (auto simp: Let_def nth_list_update)
qed simp

lemma sort_loop_length [simp]: "length (sort_loop F ps buckets) = length buckets"
  by (induction ps arbitrary: buckets) (auto simp: Let_def)

lemma sort_loop_mset:
  "length buckets = 5 \<Longrightarrow> mset (concat (sort_loop F ps buckets)) = mset ps + mset (concat buckets)"
proof (induction ps arbitrary: buckets)
  case (Cons p ps)
  let ?i = "sort_by_possibility F (pr_possibility p)"
  have i: "?i < length buckets" using Cons.prems sort_by_possibility_less [of F] by simp
  have "mset (concat (buckets[?i := p # buckets ! ?i])) = add_mset p (mset (concat buckets))"
    by (subst upd_conv_take_nth_drop [OF i], subst (3) id_take_nth_drop [OF i]) simp
  with Cons show ?case by (simp add: Let_def)
qed simp

lemma clean_buckets_eq:
  "clean_buckets n bs = (if n \<le> length bs then Inr (concat (take n bs)) else Inl Out_of_bounds)"
  by (induction n bs rule: clean_buckets.induct) auto

text \<open>The first record of a buffer: an address, then a byte for a run of pages.\<close>

lemma parse_loop_address:
  "parse_loop F gps (PIP_CMD_SET_HVA # encode_address a @ post) li le 0 x pf e rss al
     = parse_loop F gps (PIP_CMD_SET_HVA # encode_address a @ post) li le 9 a pf e rss al"
  using get_address_from_buf_encode [of "[]" PIP_CMD_SET_HVA a post]
  by (subst parse_loop.simps) simp

lemma nth_first_record: "(encode_address a @ b # rest) ! 8 = b"
  by (simp add: nth_append)

lemma page_byte_not_address: "get_page_type_from_buf b < 7 \<Longrightarrow> b \<noteq> PIP_CMD_SET_HVA"
  by (auto simp: get_page_type_from_buf_def)

lemma walk_vmas_first_record:
  assumes "io_lseek io (walk_start wa)" "gps = std_page_size"
    and "\<forall>n. io_read io (walk_start wa) n = PIP_CMD_SET_HVA # encode_address a @ b # rest"
  shows "\<exists>rest'. walk_vmas F gps io wa pf rss li le [] =
    parse_loop F gps (PIP_CMD_SET_HVA # encode_address a @ b # rest') li le 9 a pf (last_walk_end wa) rss []"
proof -
  have "\<exists>k \<ge> 20. walk_buf_size gps wa = Inr k"
    by (auto simp: walk_buf_size_def assms(2) std_page_size_def page_type_to_size_def Let_def not_less)
  then obtain k where k: "walk_buf_size gps wa = Inr k" "20 \<le> k" by blast
  then have "10 \<le> unat k" by (simp add: word_le_nat_alt)
  then have "take (unat k) (PIP_CMD_SET_HVA # encode_address a @ b # rest)
      = PIP_CMD_SET_HVA # encode_address a @ b # take (unat k - 10) rest"
    by (auto simp: take_Cons' numeral_eq_Suc)
  with assms k(1) show ?thesis
    by (auto simp: walk_vmas_def parse_vma_result_def parse_loop_address)
qed

lemma parse_loop_last_pass_fault:
  assumes "page_type_of_idle (get_page_type_from_buf b) = Inr ty" "page_type_to_size gps ty = Inr sz"
    and "get_page_type_from_buf b < 7" "get_page_nr_from_buf b \<noteq> 0" "a \<noteq> 0"
    and "a AND word_of_int (sz - 1) = 0" "run_fits a sz (get_page_nr_from_buf b)"
  shows "parse_loop F gps (c # encode_address a @ b # rest) l l 9 a ([], []) e rss [] = Inl Null_deref"
proof -
  obtain n where n: "get_page_nr_from_buf b = Suc n" using assms(4) by (cases "get_page_nr_from_buf b") auto
  have "cursor_below (uint a) ([], [])" by (simp add: cursor_below_def)
  from record_loop_last_fault [OF this assms(7) [unfolded n]]
  have "record_parse_result F gps a (get_page_type_from_buf b) (Suc n) ([], []) l l [] = Inl Null_deref"
    using assms(1,2,6) by (simp add: record_parse_result_def del: record_loop.simps)
  with assms(3,5) page_byte_not_address [OF assms(3)] show ?thesis
    by (subst parse_loop.simps) (simp add: nth_first_record n Let_def)
qed

definition sample_io :: "nat \<Rightarrow> scan_io" where
  "sample_io i = \<lparr>io_open = True, io_ioctl = True, io_fileno = True, io_lseek = (\<lambda>_. True),
     io_read = (\<lambda>_ _. if i = 0 then PIP_CMD_SET_HVA # encode_address 0x1000 @ [1] else [])\<rparr>"

lemma sample_io_simps [simp]:
  "io_open (sample_io i)" "io_ioctl (sample_io i)" "io_fileno (sample_io i)" "io_lseek (sample_io i) x"
  "io_read (sample_io 0) x y = PIP_CMD_SET_HVA # encode_address 0x1000 @ [1]"
  "io_read (sample_io (Suc i)) x y = []"
  by (simp_all add: sample_io_def)

definition sample_fs :: fs where
  "sample_fs = [''/proc/7/maps'' \<mapsto> concat (map show_vma [sample_vma])]"

abbreviation sample_scan :: "int \<Rightarrow> (int page_refs list \<times> alloc) c_res" where
  "sample_scan loop \<equiv> etmemd_do_scan milli_fp std_page_size securec_ref sample_fs sample_io 7
     (Some \<lparr>sc_loop = loop, sc_swap_flag = 0\<rparr>) []"

lemma sample_vmas: "get_vmas securec_ref sample_fs ''7'' [] =
    Inr (Some \<lparr>vma_cnt = 1, vma_list = [sample_vma]\<rparr>, [])"
proof -
  have "get_vmas securec_ref sample_fs ''7'' [] =
    Inr (Some \<lparr>vma_cnt = of_nat (length (filter is_anonymous [sample_vma])),
               vma_list = filter is_anonymous [sample_vma]\<rparr>, [])"
    by (rule get_vmas_lines) (simp_all add: securec_ref_ok sample_fs_def sample_vma_simps)
  then show ?thesis by (simp add: is_anonymous_def sample_vma_def)
qed

lemma sample_pid: "sec_snprintf_s securec_ref 10 9 (nat_to_base 10 (unat (7 :: u32))) = Some ''7''"
proof -
  have "digit_char 7 = CHR ''7''" by code_simp
  then show ?thesis by (simp add: securec_ref_def nat_to_base.simps)
qed

lemma sample_walk0:
  assumes "le \<noteq> 0"
  shows "walk_vmas milli_fp std_page_size (sample_io 0)
     \<lparr>walk_start = 0x1000, walk_end = 0x3000, last_walk_end = 0\<rparr> ([], []) None 0 le [] =
   Inr \<lparr>po_pf = Some ([sample_page 0x1000], []), po_end = 0x2000, po_rss = None, po_al = []\<rparr>"
proof -
  let ?buf = "PIP_CMD_SET_HVA # encode_address 0x1000 @ [1]"
  let ?wa = "\<lparr>walk_start = 0x1000, walk_end = 0x3000, last_walk_end = 0\<rparr> :: walk_address"
  have size: "walk_buf_size std_page_size ?wa = Inr 20"
    by (simp add: walk_buf_size_def std_page_size_def page_type_to_size_def drop_bit_eq_div)
  have "record_parse_result milli_fp std_page_size 0x1000 0 1 ([], []) 0 le []
      = Inr (Some ([sample_page 0x1000], []), [])"
    using assms
    by (simp add: record_parse_result_def page_type_of_idle_def g_page_type_by_idle_kind_def std_page_size_def
        page_type_to_size_def update_at_def sample_page_def est_time_of_def milli_fp_def)
  then have "parse_loop milli_fp std_page_size ?buf 0 le 9 0x1000 ([], []) 0 None [] =
      Inr \<lparr>po_pf = Some ([sample_page 0x1000], []), po_end = 0x2000, po_rss = None, po_al = []\<rparr>"
    by (subst parse_loop.simps, subst parse_loop.simps)
      (simp add: nth_first_record get_page_type_from_buf_def get_page_nr_from_buf_def idle_size_def
        page_type_of_idle_def g_page_type_by_idle_kind_def page_type_to_size_def std_page_size_def)
  then show ?thesis
    by (simp add: walk_vmas_def size parse_vma_result_def parse_loop_address)
qed

abbreviation sample_areas :: vmas where
  "sample_areas \<equiv> \<lparr>vma_cnt = 1, vma_list = [sample_vma]\<rparr>"

lemma sample_later_passes:
  "0 < i \<Longrightarrow> scan_passes milli_fp std_page_size sample_io sample_areas 0 loop i [p] [] = Inr ([p], [])"
proof (induction "nat (loop - i)" arbitrary: i rule: less_induct)
  case less
  have v: "vm_start sample_vma = 0x1000" "vm_end sample_vma = 0x3000" by (simp_all add: sample_vma_def)
  obtain k where k: "nat i = Suc k" using less.prems by (cases "nat i") auto
  have "get_page_refs milli_fp std_page_size (sample_io (Suc k)) sample_areas [p] None (Some 0) i (loop - 1) []
      = Inr (Some ([p], None), [])"
    by (simp add: get_page_refs_def v walk_vmas_def walk_buf_size_def std_page_size_def
        page_type_to_size_def drop_bit_eq_div)
  with less.hyps [of "i + 1"] less.prems show ?case
    by (subst scan_passes.simps) (simp add: k)
qed

lemma sample_scan_result:
  assumes "2 \<le> loop"
  shows "sample_scan loop = Inr ([sample_page 0x1000], [])"
proof -
  have v: "vm_start sample_vma = 0x1000" "vm_end sample_vma = 0x3000" by (simp_all add: sample_vma_def)
  have "get_page_refs milli_fp std_page_size (sample_io 0) sample_areas [] None (Some 0) 0 (loop - 1) []
      = Inr (Some ([sample_page 0x1000], None), [])"
    using assms by (simp add: get_page_refs_def v sample_walk0 [simplified])
  with sample_later_passes [of 1 loop] assms
  have "scan_passes milli_fp std_page_size sample_io sample_areas 0 loop 0 [] [] = Inr ([sample_page 0x1000], [])"
    by (subst scan_passes.simps) simp
  with sample_vmas sample_pid show ?thesis by (simp add: etmemd_do_scan_def)
qed

section \<open>Properties\<close>

text \<open>C3: every page that a scan returns, after any number of passes over any data from the
  kernel and any allocation failures, has consistent statistics: \<open>m \<ge> -2\<close>, and the deviation
  is the marker \<open>-2\<close> while there was no second visit and at least 1 from then on.\<close>

theorem do_scan_statistics:
  assumes "etmemd_do_scan F gps S fs ios tpid tk al = Inr (ps, al')" "length gps = 3"
    and "fp_literals_ok F" "p \<in> set ps"
  shows "stat_inv F p"
  using stat.etmemd_do_scan_P [OF assms(1,2)] assms(3,4) by blast

lemma do_scan_statistics_witness: "stat_inv milli_fp (sample_page 0x1000)"
  by (rule do_scan_statistics [OF sample_scan_result [of 2]])
    (simp_all add: std_page_size_def milli_fp_literals_ok)

text \<open>the visit count of every page that a scan returns is 0 and its page type is one of
  the three sizes: the passes never write the field \<open>count\<close> that the cslide engine and the
  memdcd protocol read.\<close>

theorem do_scan_count_zero:
  assumes "etmemd_do_scan F gps S fs ios tpid tk al = Inr (ps, al')" "length gps = 3" "p \<in> set ps"
  shows "pr_count p = 0 \<and> pr_type p \<noteq> PAGE_TYPE_INVAL"
  using count.etmemd_do_scan_P [OF assms(1,2)] ptype.etmemd_do_scan_P [OF assms(1,2)] assms(3) by blast

lemma do_scan_count_zero_witness:
  "pr_count (sample_page 0x1000) = 0 \<and> pr_type (sample_page 0x1000) \<noteq> PAGE_TYPE_INVAL"
  by (rule do_scan_count_zero [OF sample_scan_result [of 2]]) (simp_all add: std_page_size_def)

text \<open>\<open>etmemd_get_page_refs\<close>, the single-pass scan exported to plug-in engines, started
  with an empty list dereferences NULL as soon as the first area reports a present page: its
  only pass is also its last one.\<close>

theorem single_pass_scan_faults:
  assumes "g_exp_scan_inited st" "g_page_size st = std_page_size"
    and "io_open io" "io_fileno io" "io_ioctl io" "io_lseek io (vm_start v)"
    and "\<forall>n. io_read io (vm_start v) n = PIP_CMD_SET_HVA # encode_address a @ b # rest"
    and "vma_cnt vmas \<noteq> 0" "vma_list vmas = v # vs"
    and "page_type_of_idle (get_page_type_from_buf b) = Inr ty" "page_type_to_size std_page_size ty = Inr sz"
    and "get_page_type_from_buf b < 7" "get_page_nr_from_buf b \<noteq> 0" "a \<noteq> 0"
    and "a AND word_of_int (sz - 1) = 0" "run_fits a sz (get_page_nr_from_buf b)"
  shows "etmemd_get_page_refs F st io (Some vmas) (Some pid) (Some []) flags [] = Inl Null_deref"
proof -
  let ?wa = "\<lparr>walk_start = vm_start v, walk_end = vm_end v, last_walk_end = 0\<rparr>"
  obtain n where n: "unat (vma_cnt vmas) = Suc n"
    using assms(8) by (cases "unat (vma_cnt vmas)") (auto simp: unat_eq_0)
  have "io_lseek io (walk_start ?wa)"
    "\<forall>n. io_read io (walk_start ?wa) n = PIP_CMD_SET_HVA # encode_address a @ b # rest"
    using assms(6,7) by simp_all
  from walk_vmas_first_record [OF this(1) refl this(2), of F "([], [])" None 0 0]
    parse_loop_last_pass_fault [OF assms(10-16)]
  have "walk_vmas F std_page_size io ?wa ([], []) None 0 0 [] = Inl Null_deref" by auto
  with assms(1-5,9) n show ?thesis
    by (auto simp: etmemd_get_page_refs_def get_page_refs_def etmemd_send_ioctl_cmd_def)
qed

lemma single_pass_scan_faults_witness:
  "etmemd_get_page_refs milli_fp \<lparr>g_exp_scan_inited = True, g_page_size = std_page_size\<rparr> (sample_io 0)
     (Some \<lparr>vma_cnt = 1, vma_list = [sample_vma]\<rparr>) (Some ''7'') (Some []) 0 [] = Inl Null_deref"
  by (rule single_pass_scan_faults [where v = sample_vma and a = "0x1000" and b = 1 and rest = "[]"
        and vs = "[]" and ty = PTE_TYPE and sz = 4096])
    (simp_all add: get_page_type_from_buf_def get_page_nr_from_buf_def page_type_of_idle_def
      g_page_type_by_idle_kind_def page_type_to_size_def std_page_size_def run_fits_def)

text \<open>C6: the buckets of \<open>sort_page_refs\<close> hold every page exactly once, and bucket \<open>i\<close> is
  the pages whose possibility falls in interval \<open>i\<close>, latest address first.\<close>

theorem sort_page_refs_partition:
  assumes "dram_percent \<noteq> 0"
  shows "\<exists>s. sort_page_refs F loop (Some dram_percent) ps [] = (Some s, [], []) \<and>
    mset (concat (ps_sort s)) = mset ps \<and> length (ps_sort s) = 5 \<and>
    (\<forall>i<5. ps_sort s ! i = rev (filter (\<lambda>p. sort_by_possibility F (pr_possibility p) = i) ps))"
  using assms
  by (auto simp: sort_page_refs_def alloc_page_sort_def sort_loop_mset sort_loop_nth)

lemma sort_page_refs_partition_witness:
  "\<exists>s. sort_page_refs milli_fp 3 (Some 50) [sample_page 1] [] = (Some s, [], []) \<and>
    mset (concat (ps_sort s)) = mset [sample_page 1] \<and> length (ps_sort s) = 5 \<and>
    (\<forall>i<5. ps_sort s ! i = rev (filter (\<lambda>p. sort_by_possibility milli_fp (pr_possibility p) = i) [sample_page 1]))"
  by (rule sort_page_refs_partition) simp

text \<open>releasing the buckets runs over \<open>loop + 1\<close> of the five: it accesses memory behind
  the array exactly when the configured number of passes is 5 or more, and otherwise leaves
  the pages of the remaining buckets allocated.\<close>

theorem clean_page_sort_bounds:
  assumes "0 \<le> ps_loop m" "length (ps_sort m) = 5"
  shows "clean_page_sort_unexpected (Some m) =
    (if ps_loop m \<ge> 5 then Inl Out_of_bounds
     else Inr (concat (take (nat (ps_loop m) + 1) (ps_sort m))))"
proof -
  have "nat (ps_loop m + 1) = nat (ps_loop m) + 1" using assms(1) by simp
  with assms show ?thesis by (auto simp: clean_page_sort_unexpected_def clean_buckets_eq)
qed

lemma clean_page_sort_bounds_witness:
  "clean_page_sort_unexpected (Some \<lparr>ps_loop = 5, ps_page_refs = None, ps_sort = replicate 5 ([] :: int page_refs list)\<rparr>)
     = Inl Out_of_bounds"
  using clean_page_sort_bounds [of "\<lparr>ps_loop = 5, ps_page_refs = None, ps_sort = replicate 5 ([] :: int page_refs list)\<rparr>"]
  by simp

end
