(* ===== verification/Migrate.thy ===== *)
theory Migrate
  imports Scan_Process
begin

unbundle bit_operations_syntax

text \<open>
  Swapping pages out (\<open>etmemd_migrate.c\<close>): the text written to \<open>/proc/<pid>/swap_pages\<close>
  in batches, the amount of memory to swap for a DRAM share, and the control of the swap
  cache. The settings of the project are a record that the project registry extends.
\<close>

section \<open>Settings of a project\<close>

record proj_conf =
  proj_sysmem_threshold :: int
  swapcache_high_wmark :: int
  swapcache_low_wmark :: int
  wmark_set :: bool

record slide_params =
  sl_executor :: bool
  sl_t :: int
  sl_swap_threshold :: u64
  sl_dram_percent :: u8

record 'd memory_grade =
  hot_pages :: "'d page_refs list"
  cold_pages :: "'d page_refs list"

text \<open>
  What the code reads from and does to the system: the files, the results of the
  successive \<open>fputs\<close> calls, the success of \<open>fileno\<close> and of an \<open>ioctl\<close> with a command
  and a parameter, and the page size.
\<close>

datatype ioctl_cmd = SET_SWAPCACHE_WMARK | RECLAIM_SWAPCACHE_ON

record sys_env =
  env_S :: securec
  env_fs :: fs
  env_fputs :: "nat \<Rightarrow> bool"
  env_fileno :: bool
  env_ioctl :: "ioctl_cmd \<Rightarrow> u32 \<Rightarrow> bool"
  env_pagesize :: u64

abbreviation (input) SWAP_LIMIT :: nat where "SWAP_LIMIT \<equiv> 200"
abbreviation (input) SWAP_ADDR_LEN :: nat where "SWAP_ADDR_LEN \<equiv> 20"

definition COLD_PAGE :: string where "COLD_PAGE = ''/swap_pages''"
definition PROC_MEMINFO :: string where "PROC_MEMINFO = ''meminfo''"
definition STATUS_FILE :: string where "STATUS_FILE = ''/status''"

section \<open>Writing the swap file\<close>

definition addr_line :: "u64 \<Rightarrow> string" where
  "addr_line a = ''0x'' @ nat_to_base 16 (unat a) @ [c_newline]"

text \<open>The loop of \<open>get_swap_string\<close> with \<open>n\<close> places left: the string, and the pages
  behind the last one that was added.\<close>

fun swap_string_loop :: "securec \<Rightarrow> nat \<Rightarrow> nat \<Rightarrow> 'd page_refs list \<Rightarrow> string \<Rightarrow> string \<times> 'd page_refs list" where
  "swap_string_loop S len n [] str = (str, [])"
| "swap_string_loop S len 0 (p # ps) str = (str, p # ps)"
| "swap_string_loop S len (Suc n) (p # ps) str =
     (case sec_snprintf_s S SWAP_ADDR_LEN (SWAP_ADDR_LEN - 1) (addr_line (pr_addr p)) of
        None \<Rightarrow> (str, p # ps)
      | Some temp_str \<Rightarrow>
          (case sec_strcat_s S len str temp_str of
             None \<Rightarrow> (str, p # ps)
           | Some str' \<Rightarrow> swap_string_loop S len n ps str'))"

definition get_swap_string ::
  "securec \<Rightarrow> 'd page_refs list \<Rightarrow> nat \<Rightarrow> alloc \<Rightarrow> (string \<times> 'd page_refs list) option \<times> alloc" where
  "get_swap_string S page_refs batchsize al =
     (case c_alloc al of
        (False, al') \<Rightarrow> (None, al')
      | (True, al') \<Rightarrow>
          (Some (swap_string_loop S (batchsize * SWAP_ADDR_LEN) batchsize page_refs []), al'))"

text \<open>
  The loop of \<open>etmemd_migrate_mem\<close>: after a failed allocation it tries again; when no page
  could be added to the string it would write the same string for ever. \<open>k\<close> counts the
  calls of \<open>fputs\<close>; the result is the return value and the strings written.
\<close>

function migrate_loop ::
  "sys_env \<Rightarrow> nat \<Rightarrow> 'd page_refs list \<Rightarrow> string list \<Rightarrow> alloc \<Rightarrow> (int \<times> string list \<times> alloc) c_res" where
  "migrate_loop env k page_refs written al =
     (if page_refs = [] then Inr (0, written, al)
      else case get_swap_string (env_S env) page_refs SWAP_LIMIT al of
        (None, al') \<Rightarrow>
          if length al' < length al then migrate_loop env k page_refs written al' else Inl Diverges
      | (Some (swap_str, rest), al') \<Rightarrow>
          if \<not> env_fputs env k then Inr (-1, written, al')
          else if length rest < length page_refs then
            migrate_loop env (k + 1) rest (written @ [swap_str]) al'
          else Inl Diverges)"
  by pat_completeness auto
termination
  by (relation "measures [\<lambda>(env, k, ps, w, al). length ps, \<lambda>(env, k, ps, w, al). length al]") auto

declare migrate_loop.simps [simp del]

definition etmemd_migrate_mem ::
  "sys_env \<Rightarrow> string \<Rightarrow> string \<Rightarrow> 'd page_refs list \<Rightarrow> alloc \<Rightarrow> (int \<times> string list \<times> alloc) c_res" where
  "etmemd_migrate_mem env pid grade_path page_refs_list al =
     (if page_refs_list = [] then Inr (0, [], al)
      else case etmemd_get_proc_file (env_S env) (env_fs env) (Some pid) grade_path al of
        (None, al') \<Rightarrow> Inr (-1, [], al')
      | (Some fp, al') \<Rightarrow> migrate_loop env 0 page_refs_list [] al')"

definition etmemd_grade_migrate ::
  "sys_env \<Rightarrow> string \<Rightarrow> 'd memory_grade \<Rightarrow> alloc \<Rightarrow> (int \<times> string list \<times> alloc) c_res" where
  "etmemd_grade_migrate env pid memory_grade al =
     c_bind (etmemd_migrate_mem env pid COLD_PAGE (cold_pages memory_grade) al)
       (\<lambda>r. case r of (ret, written, al') \<Rightarrow> Inr (if ret \<noteq> 0 then -1 else 0, written, al'))"

section \<open>How much to migrate\<close>

definition pid_str :: "sys_env \<Rightarrow> u32 \<Rightarrow> string option" where
  "pid_str env pid =
     sec_snprintf_s (env_S env) PID_STR_MAX_LEN (PID_STR_MAX_LEN - 1) (nat_to_base 10 (unat pid))"

definition proc_mem ::
  "sys_env \<Rightarrow> string option \<Rightarrow> string \<Rightarrow> string \<Rightarrow> alloc \<Rightarrow> u64 option \<times> alloc" where
  "proc_mem env pid file key al = get_mem_from_proc_file (env_S env) (env_fs env) pid file key al"

definition swap_page_num :: "u64 \<Rightarrow> u64 \<Rightarrow> u64 \<Rightarrow> u8 \<Rightarrow> u64 c_res" where
  "swap_page_num pagesize vm_rss vm_swap dram_percent =
     (let vm_cmp = (vm_rss + vm_swap) div 100 * ucast dram_percent in
      if vm_cmp > vm_rss then Inr 0
      else if pagesize = 0 then Inl Div_by_zero
      else Inr (push_bit 10 (vm_rss - vm_cmp) div pagesize))"

definition check_should_migrate ::
  "sys_env \<Rightarrow> u32 \<Rightarrow> slide_params option \<Rightarrow> alloc \<Rightarrow> (u64 \<times> alloc) c_res" where
  "check_should_migrate env pid params al =
     (case pid_str env pid of
        None \<Rightarrow> Inr (0, al)
      | Some ps \<Rightarrow>
          (case proc_mem env (Some ps) STATUS_FILE ''VmRSS'' al of
             (None, al1) \<Rightarrow> Inr (0, al1)
           | (Some vm_rss, al1) \<Rightarrow>
               (case proc_mem env (Some ps) STATUS_FILE ''VmSwap'' al1 of
                  (None, al2) \<Rightarrow> Inr (0, al2)
                | (Some vm_swap, al2) \<Rightarrow>
                    (case params of
                       None \<Rightarrow> Inr (0, al2)
                     | Some sp \<Rightarrow>
                         c_bind (swap_page_num (env_pagesize env) vm_rss vm_swap (sl_dram_percent sp))
                           (\<lambda>n. Inr (n, al2))))))"

section \<open>The swap cache\<close>

definition check_should_reclaim_swapcache ::
  "sys_env \<Rightarrow> 'z proj_conf_scheme \<Rightarrow> alloc \<Rightarrow> (bool \<times> alloc) c_res" where
  "check_should_reclaim_swapcache env proj al =
     (if swapcache_high_wmark proj = -1 \<or> swapcache_low_wmark proj = -1 then Inr (False, al)
      else case proc_mem env None PROC_MEMINFO ''MemTotal'' al of
        (None, al1) \<Rightarrow> Inr (False, al1)
      | (Some mem_total, al1) \<Rightarrow>
          (case proc_mem env None PROC_MEMINFO ''SwapCached'' al1 of
             (None, al2) \<Rightarrow> Inr (False, al2)
           | (Some swapcache_total, al2) \<Rightarrow>
               if swapcache_total = 0 then Inr (False, al2)
               else if swapcache_high_wmark proj = 0 then Inl Div_by_zero
               else Inr (mem_total div swapcache_total
                           < word_of_int (100 div swapcache_high_wmark proj), al2)))"

definition swapcache_wmark :: "'z proj_conf_scheme \<Rightarrow> u32" where
  "swapcache_wmark proj =
     word_of_int ((swapcache_low_wmark proj AND 0x00ff) OR
                  (push_bit 8 (swapcache_high_wmark proj) AND 0xff00))"

definition set_swapcache_wmark ::
  "sys_env \<Rightarrow> 'z proj_conf_scheme \<Rightarrow> string \<Rightarrow> alloc \<Rightarrow> int \<times> alloc" where
  "set_swapcache_wmark env proj ps al =
     (case etmemd_get_proc_file (env_S env) (env_fs env) (Some ps) COLD_PAGE al of
        (None, al') \<Rightarrow> (-1, al')
      | (Some fp, al') \<Rightarrow>
          (if etmemd_send_ioctl_cmd (env_fileno env)
                (env_ioctl env SET_SWAPCACHE_WMARK (swapcache_wmark proj)) \<noteq> 0
           then -1 else 0, al'))"

text \<open>The commands that reach the kernel are recorded in the order they are sent.\<close>

definition reclaim_on ::
  "sys_env \<Rightarrow> 'z proj_conf_scheme \<Rightarrow> string \<Rightarrow> ioctl_cmd list \<Rightarrow> alloc \<Rightarrow>
   int \<times> 'z proj_conf_scheme \<times> ioctl_cmd list \<times> alloc" where
  "reclaim_on env proj ps cmds al =
     (case etmemd_get_proc_file (env_S env) (env_fs env) (Some ps) COLD_PAGE al of
        (None, al') \<Rightarrow> (-1, proj, cmds, al')
      | (Some fp, al') \<Rightarrow>
          if etmemd_send_ioctl_cmd (env_fileno env) (env_ioctl env RECLAIM_SWAPCACHE_ON 0) \<noteq> 0
          then (-1, proj, cmds, al')
          else (0, proj, cmds @ [RECLAIM_SWAPCACHE_ON], al'))"

definition etmemd_reclaim_swapcache ::
  "sys_env \<Rightarrow> 'z proj_conf_scheme \<Rightarrow> u32 \<Rightarrow> alloc \<Rightarrow>
   (int \<times> 'z proj_conf_scheme \<times> ioctl_cmd list \<times> alloc) c_res" where
  "etmemd_reclaim_swapcache env proj pid al =
     c_bind (check_should_reclaim_swapcache env proj al) (\<lambda>r. case r of (should, al1) \<Rightarrow>
       if \<not> should then Inr (0, proj, [], al1)
       else case pid_str env pid of
         None \<Rightarrow> Inr (-1, proj, [], al1)
       | Some ps \<Rightarrow>
           if wmark_set proj then Inr (reclaim_on env proj ps [] al1)
           else (case set_swapcache_wmark env proj ps al1 of
             (ret, al2) \<Rightarrow>
               if ret \<noteq> 0 then Inr (-1, proj, [], al2)
               else Inr (reclaim_on env (proj\<lparr>wmark_set := True\<rparr>) ps [SET_SWAPCACHE_WMARK] al2)))"

section \<open>Lemmas\<close>

lemma addr_line_length: "length (addr_line a) \<le> 19"
  using hex64_length [of a] by (simp add: addr_line_def)

definition batch_text :: "'d page_refs list \<Rightarrow> string" where
  "batch_text ps = concat (map (\<lambda>p. addr_line (pr_addr p)) ps)"

lemma concat_batch_text: "concat (map batch_text cs) = batch_text (concat cs)"
  by (induction cs) (simp_all add: batch_text_def)

lemma swap_string_loop_eq:
  assumes "securec_ok S"
  shows "n \<le> b \<Longrightarrow> length str \<le> (b - n) * 19 \<Longrightarrow>
    swap_string_loop S (b * 20) n ps str = (str @ batch_text (take n ps), drop n ps)"
proof (induction n arbitrary: ps str)
  case 0
  then show ?case by (cases ps) (simp_all add: batch_text_def)
next
  case (Suc n)
  show ?case
  proof (cases ps)
    case (Cons p ps')
    let ?l = "addr_line (pr_addr p)"
    have l: "length ?l \<le> 19" by (rule addr_line_length)
    then have p: "sec_snprintf_s S 20 19 ?l = Some ?l"
      using assms unfolding securec_ok_def by simp
    have e: "b - n = Suc (b - Suc n)" using Suc.prems(1) by simp
    have len: "length (str @ ?l) \<le> (b - n) * 19" unfolding e using Suc.prems(2) l by simp
    also have "\<dots> \<le> b * 19" by simp
    also have "\<dots> < b * 20" using Suc.prems(1) by simp
    finally have "sec_strcat_s S (b * 20) str ?l = Some (str @ ?l)"
      using assms unfolding securec_ok_def by simp
    with p Suc.IH [of "str @ ?l" ps'] len Suc.prems(1) show ?thesis
      by (simp add: Cons batch_text_def)
  qed (simp add: batch_text_def)
qed

lemma migrate_loop_all:
  "securec_ok (env_S env) \<Longrightarrow> \<forall>j. env_fputs env j \<Longrightarrow>
   \<exists>al'. migrate_loop env k ps w al = Inr (0, w @ map batch_text (chunks 200 ps), al')"
proof (induction env k ps w al rule: migrate_loop.induct)
  case (1 env k ps w al)
  note eq = migrate_loop.simps [of env k ps w al]
  show ?case
  proof (cases "ps = []")
    case True
    then show ?thesis by (simp add: migrate_loop.simps [of env k "[]"])
  next
    case ne: False
    obtain ok al1 where a: "c_alloc al = (ok, al1)" by (cases "c_alloc al")
    show ?thesis
    proof (cases ok)
      case False
      with a have g: "get_swap_string (env_S env) ps 200 al = (None, al1)" and "length al1 < length al"
        by (cases al; auto simp: get_swap_string_def)+
      with 1(1) [OF ne g [symmetric]] 1(3,4) ne show ?thesis by (simp add: eq)
    next
      case True
      have "swap_string_loop (env_S env) (200 * 20) 200 ps [] = ([] @ batch_text (take 200 ps), drop 200 ps)"
        by (rule swap_string_loop_eq [OF 1(3)]) simp_all
      with True a have g: "get_swap_string (env_S env) ps 200 al = (Some (batch_text (take 200 ps), drop 200 ps), al1)"
        by (simp add: get_swap_string_def)
      from ne have l: "length (drop 200 ps) < length ps" by (cases ps) auto
      with 1(2) [OF ne g [symmetric] refl refl] 1(3,4) g ne show ?thesis
        by (simp add: eq chunks_step)
    qed
  qed
qed

lemma swap_page_num_unat:
  assumes "swap_page_num pagesize rss swap d = Inr n" "n \<noteq> 0"
    and "unat rss + unat swap < 2 ^ 54" "unat d \<le> 100"
  shows "unat n * unat pagesize \<le> (unat rss - (unat rss + unat swap) div 100 * unat d) * 1024"
    and "(unat rss + unat swap) div 100 * unat d \<le> unat rss"
proof -
  let ?t = "(unat rss + unat swap) div 100 * unat d"
  have sum: "unat (rss + swap) = unat rss + unat swap"
    using assms(3) by (simp add: unat_word_ariths)
  have "?t \<le> (unat rss + unat swap) div 100 * 100" using assms(4) by (intro mult_le_mono2)
  also have "\<dots> \<le> unat rss + unat swap" by simp
  finally have t: "?t < 2 ^ 54" using assms(3) by linarith
  have "unat d < 2 ^ 64" using unsigned_less [of d, where 'a = nat] by simp
  then have ud: "unat (ucast d :: u64) = unat d" by (simp add: unsigned_ucast_eq take_bit_nat_eq_self)
  have cmp: "unat ((rss + swap) div 100 * ucast d) = ?t"
    using t assms(3) by (simp add: unat_word_ariths unat_div sum ud)
  have le: "(rss + swap) div 100 * ucast d \<le> rss"
    and n: "n = push_bit 10 (rss - (rss + swap) div 100 * ucast d) div pagesize"
    using assms(1,2) by (auto simp: swap_page_num_def Let_def split: if_splits)
  show tl: "?t \<le> unat rss" using le cmp by (simp add: word_le_nat_alt)
  have diff: "unat (rss - (rss + swap) div 100 * ucast d) = unat rss - ?t"
    using unat_sub [OF le] cmp by simp
  have shl: "unat (push_bit 10 x) = unat x * 1024" if "unat x < 2 ^ 54" for x :: u64
    using that by (simp add: push_bit_eq_mult unat_word_ariths)
  have "unat rss - ?t < 2 ^ 54" using assms(3) by linarith
  then have "unat (push_bit 10 (rss - (rss + swap) div 100 * ucast d)) = (unat rss - ?t) * 1024"
    using shl [of "rss - (rss + swap) div 100 * ucast d"] unfolding diff by blast
  then show "unat n * unat pagesize \<le> (unat rss - ?t) * 1024"
    unfolding n by (metis div_times_less_eq_dividend unat_div)
qed

lemma wmark_fields:
  "0 \<le> l \<Longrightarrow> l < 256 \<Longrightarrow> 0 \<le> h \<Longrightarrow> h < 256 \<Longrightarrow>
   (l AND 0xff) OR (push_bit 8 h AND 0xff00) = l + 256 * (h :: int)"
proof -
  assume b: "0 \<le> l" "l < 256" "0 \<le> h" "h < 256"
  have l: "l AND 0xff = l" using b take_bit_eq_mask [of 8 l] by (simp add: mask_eq_exp_minus_1 take_bit_int_eq_self)
  have h: "push_bit 8 h AND 0xff00 = push_bit 8 h"
  proof -
    have "(0xff00 :: int) = push_bit 8 (mask 8)" by (simp add: mask_eq_exp_minus_1 push_bit_eq_mult)
    moreover have "h AND mask 8 = h" using b take_bit_eq_mask [of 8 h] by (simp add: take_bit_int_eq_self)
    ultimately show ?thesis by (metis push_bit_and)
  qed
  have "take_bit 8 l = l" using b by (simp add: take_bit_int_eq_self)
  then have "l AND push_bit 8 h = take_bit 8 l AND push_bit 8 h" by simp
  also have "\<dots> = 0" by (rule bit_eqI) (auto simp: bit_simps)
  finally have "l AND push_bit 8 h = 0" .
  then show ?thesis unfolding l h by (simp add: disjunctive_add_eq_or [symmetric] push_bit_eq_mult)
qed

section \<open>Properties\<close>

text \<open>C7: whatever allocations fail, swapping out a list of cold pages writes exactly one
  line \<open>0x<address>\<close> per page to \<open>swap_pages\<close>, in the order of the list, in batches of at
  most 200 pages, and no page is lost to the size of a buffer.\<close>

theorem grade_migrate_writes_all:
  assumes "securec_ok (env_S env)" "\<forall>j. env_fputs env j" "cold_pages mg \<noteq> []"
    and "env_fs env (''/proc/'' @ pid @ ''/swap_pages'') = Some fp"
  shows "\<exists>written al'. etmemd_grade_migrate env pid mg (True # al) = Inr (0, written, al')
    \<and> written = map batch_text (chunks 200 (cold_pages mg))
    \<and> concat written = concat (map (\<lambda>p. addr_line (pr_addr p)) (cold_pages mg))"
proof -
  have "sec_snprintf_s (env_S env) (Suc k) k s = Some s" if "length s \<le> k" for k s
    using assms(1) that unfolding securec_ok_def by simp
  then have "etmemd_get_proc_file (env_S env) (env_fs env) (Some pid) COLD_PAGE (True # al) = (Some fp, al)"
    using assms(4) by (simp add: etmemd_get_proc_file_def etmemd_get_proc_file_str_def PROC_PATH_def COLD_PAGE_def)
  moreover obtain al' where "migrate_loop env 0 (cold_pages mg) [] al
      = Inr (0, map batch_text (chunks 200 (cold_pages mg)), al')"
    using migrate_loop_all [OF assms(1,2), of 0 "cold_pages mg" "[]" al] by auto
  moreover have "concat (map batch_text (chunks 200 (cold_pages mg))) = batch_text (cold_pages mg)"
    by (simp add: concat_batch_text)
  ultimately show ?thesis
    using assms(3) by (simp add: etmemd_grade_migrate_def etmemd_migrate_mem_def batch_text_def)
qed

definition sample_env :: sys_env where
  "sample_env = \<lparr>env_S = securec_ref, env_fs = [''/proc/7/swap_pages'' \<mapsto> []], env_fputs = (\<lambda>_. True),
     env_fileno = True, env_ioctl = (\<lambda>_ _. True), env_pagesize = 4096\<rparr>"

lemma grade_migrate_writes_all_witness:
  "\<exists>written al'. etmemd_grade_migrate sample_env ''7'' \<lparr>hot_pages = [], cold_pages = [sample_page 0x1000]\<rparr>
       (True # [False]) = Inr (0, written, al')
    \<and> written = map batch_text (chunks 200 (cold_pages \<lparr>hot_pages = [], cold_pages = [sample_page 0x1000]\<rparr>))
    \<and> concat written = concat (map (\<lambda>p. addr_line (pr_addr p))
         (cold_pages \<lparr>hot_pages = [], cold_pages = [sample_page 0x1000]\<rparr>))"
  by (rule grade_migrate_writes_all [where fp = "[]"]) (simp_all add: sample_env_def securec_ref_ok)

text \<open>For a DRAM share of \<open>d\<close> percent, the number of pages to swap out never exceeds the
  memory the process holds above the share, as long as the sizes in KB stay below \<open>2^54\<close>: the
  64-bit arithmetic does not wrap, and nothing is swapped when the process is within its share.\<close>

theorem swap_page_num_bound:
  assumes "swap_page_num pagesize rss swap d = Inr n" "n \<noteq> 0"
    and "unat rss + unat swap < 2 ^ 54" "unat d \<le> 100"
  shows "(unat rss + unat swap) div 100 * unat d \<le> unat rss \<and>
    unat n * unat pagesize \<le> (unat rss - (unat rss + unat swap) div 100 * unat d) * 1024"
  using swap_page_num_unat [OF assms] by simp

lemma swap_page_num_bound_witness:
  "(unat (1000 :: u64) + unat (0 :: u64)) div 100 * unat (50 :: u8) \<le> unat (1000 :: u64) \<and>
    unat (125 :: u64) * unat (4096 :: u64)
      \<le> (unat (1000 :: u64) - (unat (1000 :: u64) + unat (0 :: u64)) div 100 * unat (50 :: u8)) * 1024"
  by (rule swap_page_num_bound) (simp_all add: swap_page_num_def push_bit_eq_mult)

text \<open>the parameter of the watermark command carries both watermarks: the low one in bits
  0 to 7 and the high one in bits 8 to 15, for every pair the configuration accepts.\<close>

theorem swapcache_wmark_fields:
  assumes "0 < swapcache_low_wmark proj" "swapcache_low_wmark proj \<le> 100"
    and "0 < swapcache_high_wmark proj" "swapcache_high_wmark proj \<le> 100"
  shows "uint (swapcache_wmark proj) mod 256 = swapcache_low_wmark proj \<and>
    uint (swapcache_wmark proj) div 256 = swapcache_high_wmark proj"
proof -
  let ?v = "swapcache_low_wmark proj + 256 * swapcache_high_wmark proj"
  have "uint (word_of_int ?v :: u32) = ?v"
    unfolding uint_word_of_int using assms by simp
  moreover have "swapcache_wmark proj = word_of_int ?v"
    unfolding swapcache_wmark_def using assms by (subst wmark_fields) simp_all
  ultimately have "uint (swapcache_wmark proj) = ?v" by simp
  with assms show ?thesis by simp
qed

lemma swapcache_wmark_fields_witness:
  "let p = \<lparr>proj_sysmem_threshold = 50, swapcache_high_wmark = 80, swapcache_low_wmark = 20, wmark_set = False\<rparr>
   in uint (swapcache_wmark p) mod 256 = 20 \<and> uint (swapcache_wmark p) div 256 = 80"
  using swapcache_wmark_fields [of "\<lparr>proj_sysmem_threshold = 50, swapcache_high_wmark = 80,
      swapcache_low_wmark = 20, wmark_set = False\<rparr>"]
  by simp

end
