(* ===== verification/Config_File.thy ===== *)
theory Config_File
  imports Common
begin

text \<open>
  The configuration reader (\<open>etmemd_file.c\<close>): a table of items, each with a key, a type
  and a function that stores the value, is run over one group of a key file. The key file
  is GLib's \<open>GKeyFile\<close>, a parameter: whether a key is present, and its value as a 64-bit
  integer or as a string, with the flag that GLib set an error.

  The locale states what a table of items has to keep; it is interpreted for the tables of
  the task, the slide engine, the project and the page scan.
\<close>

record key_file =
  kf_has_key :: "string \<Rightarrow> string \<Rightarrow> bool"
  kf_get_int64 :: "string \<Rightarrow> string \<Rightarrow> int \<times> bool"
  kf_get_string :: "string \<Rightarrow> string \<Rightarrow> string option \<times> bool"

datatype val_type = INT_VAL | STR_VAL

text \<open>The \<open>void *\<close> passed to a fill function: an integer in disguise or a string.\<close>

datatype cfg_val = IntV int | StrV string

text \<open>A fill function gives its return value and the object it was called on.\<close>

record 'o config_item =
  ci_key :: string
  ci_type :: val_type
  ci_fill :: "'o \<Rightarrow> cfg_val \<Rightarrow> int \<times> 'o"
  ci_option :: bool

definition parse_item :: "key_file \<Rightarrow> string \<Rightarrow> 'o config_item \<Rightarrow> 'o \<Rightarrow> int \<times> 'o" where
  "parse_item config group_name item obj =
     (if \<not> kf_has_key config group_name (ci_key item) then
        if ci_option item then (0, obj) else (-1, obj)
      else case ci_type item of
        INT_VAL \<Rightarrow>
          (case kf_get_int64 config group_name (ci_key item) of
             (v, err) \<Rightarrow> if err then (-1, obj) else ci_fill item obj (IntV v))
      | STR_VAL \<Rightarrow>
          (case kf_get_string config group_name (ci_key item) of
             (None, err) \<Rightarrow> (-1, obj)
           | (Some s, err) \<Rightarrow>
               if length s = 0 then (-1, obj)
               else if err then (-1, obj)
               else ci_fill item obj (StrV s)))"

fun parse_file_config :: "key_file \<Rightarrow> string \<Rightarrow> 'o config_item list \<Rightarrow> 'o \<Rightarrow> int \<times> 'o" where
  "parse_file_config config group_name [] obj = (0, obj)"
| "parse_file_config config group_name (item # items) obj =
     (case parse_item config group_name item obj of
        (ret, obj') \<Rightarrow>
          if ret \<noteq> 0 then (-1, obj') else parse_file_config config group_name items obj')"

definition parse_to_int :: "cfg_val \<Rightarrow> int" where
  "parse_to_int v = (case v of IntV i \<Rightarrow> cast_int i | StrV s \<Rightarrow> 0)"

definition parse_to_ulong :: "cfg_val \<Rightarrow> u64" where
  "parse_to_ulong v = (case v of IntV i \<Rightarrow> word_of_int i | StrV s \<Rightarrow> 0)"

text \<open>The string of a value for a fill function of a \<open>STR_VAL\<close> item.\<close>

definition val_str :: "cfg_val \<Rightarrow> string" where
  "val_str v = (case v of IntV i \<Rightarrow> [] | StrV s \<Rightarrow> s)"

section \<open>Tables of items\<close>

locale config_fillers =
  fixes items :: "'o config_item list" and I :: "'o \<Rightarrow> bool"
  assumes fill_ok: "item \<in> set items \<Longrightarrow> I obj \<Longrightarrow> I (snd (ci_fill item obj v))"
begin

lemma parse_item_keeps: "item \<in> set items \<Longrightarrow> I obj \<Longrightarrow> I (snd (parse_item config g item obj))"
  by (auto simp: parse_item_def fill_ok split: val_type.splits option.splits prod.splits)

lemma parse_items_keep:
  "set its \<subseteq> set items \<Longrightarrow> I obj \<Longrightarrow> I (snd (parse_file_config config g its obj))"
proof (induction its arbitrary: obj)
  case (Cons item its)
  with parse_item_keeps [of item obj config g] show ?case
    by (cases "parse_item config g item obj") auto
qed simp

lemma parse_file_config_keeps: "I obj \<Longrightarrow> I (snd (parse_file_config config g items obj))"
  by (rule parse_items_keep) simp_all

end

text \<open>Success means that every mandatory key was there and every item was stored.\<close>

lemma parse_item_mandatory:
  "fst (parse_item config g item obj) = 0 \<Longrightarrow> \<not> ci_option item \<Longrightarrow> kf_has_key config g (ci_key item)"
  by (auto simp: parse_item_def split: if_splits)

lemma parse_file_config_mandatory:
  "fst (parse_file_config config g items obj) = 0 \<Longrightarrow> item \<in> set items \<Longrightarrow> \<not> ci_option item \<Longrightarrow>
   kf_has_key config g (ci_key item)"
proof (induction items arbitrary: obj)
  case (Cons it its)
  then show ?case using parse_item_mandatory [of config g it obj]
    by (cases "parse_item config g it obj") (auto split: if_splits)
qed simp

lemma parse_item_int:
  "parse_item config g item obj = (0, obj') \<Longrightarrow> \<not> ci_option item \<Longrightarrow> ci_type item = INT_VAL \<Longrightarrow>
   \<exists>v. ci_fill item obj (IntV v) = (0, obj')"
  by (auto simp: parse_item_def split: if_splits prod.splits)

lemma parse_file_config_step:
  "parse_file_config config g (item # items) obj = (0, obj') \<Longrightarrow>
   \<exists>obj1. parse_item config g item obj = (0, obj1) \<and> parse_file_config config g items obj1 = (0, obj')"
  by (auto split: prod.splits if_splits)

text \<open>A key file given by two association lists, for evaluation.\<close>

definition alist_key_file ::
  "((string \<times> string) \<times> int) list \<Rightarrow> ((string \<times> string) \<times> string) list \<Rightarrow> key_file" where
  "alist_key_file ints strs =
     \<lparr>kf_has_key = (\<lambda>g k. map_of ints (g, k) \<noteq> None \<or> map_of strs (g, k) \<noteq> None),
      kf_get_int64 = (\<lambda>g k. case map_of ints (g, k) of None \<Rightarrow> (0, True) | Some v \<Rightarrow> (v, False)),
      kf_get_string = (\<lambda>g k. case map_of strs (g, k) of None \<Rightarrow> (None, True) | Some s \<Rightarrow> (Some s, False))\<rparr>"

end
