(* ===== verification/Slide.thy ===== *)
theory Slide
  imports Migrate Config_File
begin

unbundle bit_operations_syntax

text \<open>
  The slide engine (\<open>etmemd_slide.c\<close>): which pages of a scanned process are cold, when
  swapping is worth it, the executor that a worker thread runs for one process, and the
  configuration of the engine's tasks.
\<close>

section \<open>Choosing cold pages\<close>

definition is_hot :: "'d fp \<Rightarrow> int \<Rightarrow> 'd page_refs \<Rightarrow> bool" where
  "is_hot F t p \<longleftrightarrow> cast_int (fp_trunc F (fp_times F (pr_possibility p) (fp_of_int F 100))) \<ge> t"

text \<open>Without a DRAM share every page is graded.\<close>

fun grade_all :: "'d fp \<Rightarrow> int \<Rightarrow> 'd page_refs list \<Rightarrow> 'd memory_grade \<Rightarrow> 'd memory_grade" where
  "grade_all F t [] mg = mg"
| "grade_all F t (p # ps) mg =
     (if is_hot F t p then grade_all F t ps (mg\<lparr>hot_pages := p # hot_pages mg\<rparr>)
      else grade_all F t ps (mg\<lparr>cold_pages := p # cold_pages mg\<rparr>))"

text \<open>With one, the buckets are drained until a hot page is met or enough pages are cold:
  the grades, the pages left in the bucket, the count, and whether to stop.\<close>

fun grade_bucket ::
  "'d fp \<Rightarrow> int \<Rightarrow> u64 \<Rightarrow> 'd page_refs list \<Rightarrow> 'd memory_grade \<Rightarrow> u64 \<Rightarrow>
   'd memory_grade \<times> 'd page_refs list \<times> u64 \<times> bool" where
  "grade_bucket F t need [] mg cnt = (mg, [], cnt, False)"
| "grade_bucket F t need (p # ps) mg cnt =
     (if is_hot F t p then (mg\<lparr>hot_pages := p # hot_pages mg\<rparr>, ps, cnt, True)
      else
        let mg' = mg\<lparr>cold_pages := p # cold_pages mg\<rparr>; cnt' = cnt + 1 in
        if cnt' \<ge> need then (mg', ps, cnt', True)
        else grade_bucket F t need ps mg' cnt')"

fun grade_buckets ::
  "'d fp \<Rightarrow> int \<Rightarrow> u64 \<Rightarrow> 'd page_refs list list \<Rightarrow> 'd memory_grade \<Rightarrow> u64 \<Rightarrow>
   'd memory_grade \<times> 'd page_refs list list" where
  "grade_buckets F t need [] mg cnt = (mg, [])"
| "grade_buckets F t need (b # bs) mg cnt =
     (case grade_bucket F t need b mg cnt of
        (mg', b', cnt', stop) \<Rightarrow>
          if stop then (mg', b' # bs)
          else (case grade_buckets F t need bs mg' cnt' of (mg'', bs') \<Rightarrow> (mg'', b' # bs')))"

definition no_pages :: "'d memory_grade" where
  "no_pages = \<lparr>hot_pages = [], cold_pages = []\<rparr>"

text \<open>The results are the grades (None for NULL), the buckets, and what is left of the
  unsorted list.\<close>

definition slide_policy_interface ::
  "'d fp \<Rightarrow> sys_env \<Rightarrow> u32 \<Rightarrow> slide_params option \<Rightarrow> 'd page_sort \<Rightarrow> 'd page_refs list \<Rightarrow> alloc \<Rightarrow>
   ('d memory_grade option \<times> 'd page_sort \<times> 'd page_refs list \<times> alloc) c_res" where
  "slide_policy_interface F env pid params page_sort page_refs al =
     (case params of
        None \<Rightarrow> Inr (None, page_sort, page_refs, al)
      | Some sp \<Rightarrow>
          (case c_alloc al of
             (False, al') \<Rightarrow> Inr (None, page_sort, page_refs, al')
           | (True, al') \<Rightarrow>
               if sl_dram_percent sp = 0 then
                 (if ps_page_refs page_sort = None then Inl Null_deref
                  else Inr (Some (grade_all F (sl_t sp) page_refs no_pages), page_sort, [], al'))
               else
                 c_bind (check_should_migrate env pid params al') (\<lambda>r. case r of (need, al'') \<Rightarrow>
                   if need = 0 then Inr (Some no_pages, page_sort, page_refs, al'')
                   else case grade_buckets F (sl_t sp) need (ps_sort page_sort) no_pages 0 of
                     (mg, bs) \<Rightarrow> Inr (Some mg, page_sort\<lparr>ps_sort := bs\<rparr>, page_refs, al''))))"

section \<open>When to swap\<close>

datatype swap_type = DONT_SWAP | DO_SWAP

definition check_sysmem_lower_threshold ::
  "sys_env \<Rightarrow> 'z proj_conf_scheme \<Rightarrow> alloc \<Rightarrow> (swap_type \<times> alloc) c_res" where
  "check_sysmem_lower_threshold env proj al =
     (case proc_mem env None PROC_MEMINFO ''MemTotal'' al of
        (None, al1) \<Rightarrow> Inr (DONT_SWAP, al1)
      | (Some mem_total, al1) \<Rightarrow>
          (case proc_mem env None PROC_MEMINFO ''MemFree'' al1 of
             (None, al2) \<Rightarrow> Inr (DONT_SWAP, al2)
           | (Some mem_free, al2) \<Rightarrow>
               if mem_total = 0 then Inl Div_by_zero
               else
                 let vm_cmp = cast_int (uint (mem_free * 100 div mem_total)) in
                 Inr (if vm_cmp < proj_sysmem_threshold proj then DO_SWAP else DONT_SWAP, al2)))"

definition check_pid_should_swap ::
  "sys_env \<Rightarrow> 'z proj_conf_scheme \<Rightarrow> string \<Rightarrow> u64 \<Rightarrow> alloc \<Rightarrow> swap_type \<times> alloc" where
  "check_pid_should_swap env proj pid vmrss al =
     (case proc_mem env (Some pid) STATUS_FILE ''VmSwap'' al of
        (None, al1) \<Rightarrow> (DONT_SWAP, al1)
      | (Some vmswap, al1) \<Rightarrow>
          let vmcmp = (vmrss + vmswap) div 100 * word_of_int (proj_sysmem_threshold proj) in
          (if vmcmp > vmswap then DO_SWAP else DONT_SWAP, al1))"

definition check_pidmem_lower_threshold ::
  "sys_env \<Rightarrow> 'z proj_conf_scheme \<Rightarrow> u32 \<Rightarrow> slide_params option \<Rightarrow> alloc \<Rightarrow> swap_type \<times> alloc" where
  "check_pidmem_lower_threshold env proj pid params al =
     (case params of
        None \<Rightarrow> (DONT_SWAP, al)
      | Some sp \<Rightarrow>
          (case pid_str env pid of
             None \<Rightarrow> (DONT_SWAP, al)
           | Some ps \<Rightarrow>
               (case proc_mem env (Some ps) STATUS_FILE ''VmRSS'' al of
                  (None, al1) \<Rightarrow> (DONT_SWAP, al1)
                | (Some vmrss, al1) \<Rightarrow>
                    if sl_swap_threshold sp = 0 then check_pid_should_swap env proj ps vmrss al1
                    else (if vmrss > sl_swap_threshold sp then DO_SWAP else DONT_SWAP, al1))))"

definition check_should_swap ::
  "sys_env \<Rightarrow> 'z proj_conf_scheme \<Rightarrow> u32 \<Rightarrow> slide_params option \<Rightarrow> alloc \<Rightarrow>
   (swap_type \<times> alloc) c_res" where
  "check_should_swap env proj pid params al =
     (if proj_sysmem_threshold proj = -1 then Inr (DO_SWAP, al)
      else c_bind (check_sysmem_lower_threshold env proj al) (\<lambda>r. case r of (sw, al1) \<Rightarrow>
        if sw = DONT_SWAP then Inr (DONT_SWAP, al1)
        else Inr (check_pidmem_lower_threshold env proj pid params al1)))"

section \<open>The executor\<close>

definition slide_do_migrate ::
  "sys_env \<Rightarrow> u32 \<Rightarrow> 'd memory_grade option \<Rightarrow> alloc \<Rightarrow> (int \<times> string list \<times> alloc) c_res" where
  "slide_do_migrate env pid memory_grade al =
     (case memory_grade of
        None \<Rightarrow> Inr (-1, [], al)
      | Some mg \<Rightarrow>
          (case pid_str env pid of
             None \<Rightarrow> Inr (-1, [], al)
           | Some ps \<Rightarrow> etmemd_grade_migrate env ps mg al))"

text \<open>The task and process the executor works for, and what it did: the project settings
  after it, the text written to the swap file and the commands sent.\<close>

record 'z slide_job =
  job_pid :: u32
  job_params :: "slide_params option"
  job_scan :: scan_task
  job_proj :: 'z

record 'z slide_out =
  out_proj :: 'z
  out_written :: "string list"
  out_cmds :: "ioctl_cmd list"

text \<open>The part behind the label \<open>scan_out\<close>: the buckets are released, then the grades are
  migrated and the swap cache reclaimed.\<close>

definition slide_finish ::
  "sys_env \<Rightarrow> 'z proj_conf_scheme slide_job \<Rightarrow> 'd page_sort option \<Rightarrow> 'd memory_grade option \<Rightarrow> alloc \<Rightarrow>
   'z proj_conf_scheme slide_out c_res" where
  "slide_finish env job page_sort memory_grade al =
     c_bind (clean_page_sort_unexpected page_sort) (\<lambda>_.
       case memory_grade of
         None \<Rightarrow> Inr \<lparr>out_proj = job_proj job, out_written = [], out_cmds = []\<rparr>
       | Some mg \<Rightarrow>
           c_bind (slide_do_migrate env (job_pid job) (Some mg) al) (\<lambda>m. case m of (_, written, al1) \<Rightarrow>
           c_bind (etmemd_reclaim_swapcache env (job_proj job) (job_pid job) al1) (\<lambda>q. case q of
             (_, proj', cmds, _) \<Rightarrow>
               Inr \<lparr>out_proj = proj', out_written = written, out_cmds = cmds\<rparr>)))"

definition slide_executor ::
  "'d fp \<Rightarrow> u64 list \<Rightarrow> (nat \<Rightarrow> scan_io) \<Rightarrow> sys_env \<Rightarrow> 'z proj_conf_scheme slide_job \<Rightarrow> alloc \<Rightarrow>
   'z proj_conf_scheme slide_out c_res" where
  "slide_executor F gps ios env job al =
     c_bind (check_should_swap env (job_proj job) (job_pid job) (job_params job) al) (\<lambda>r. case r of (sw, al1) \<Rightarrow>
       if sw = DONT_SWAP then Inr \<lparr>out_proj = job_proj job, out_written = [], out_cmds = []\<rparr>
       else
         c_bind (etmemd_do_scan F gps (env_S env) (env_fs env) ios (job_pid job) (Some (job_scan job)) al1)
           (\<lambda>s. case s of (page_refs, al2) \<Rightarrow>
              if page_refs = [] then slide_finish env job (None :: 'd page_sort option) None al2
              else case sort_page_refs F (sc_loop (job_scan job))
                          (map_option (\<lambda>sp. uint (sl_dram_percent sp)) (job_params job)) page_refs al2 of
                (None, _, al3) \<Rightarrow> slide_finish env job (None :: 'd page_sort option) None al3
              | (Some page_sort, rest, al3) \<Rightarrow>
                  c_bind (slide_policy_interface F env (job_pid job) (job_params job) page_sort rest al3)
                    (\<lambda>p. case p of (mg, page_sort', _, al4) \<Rightarrow>
                       slide_finish env job (Some page_sort') mg al4)))"

section \<open>Configuration of a task\<close>

text \<open>The object filled is the parameters together with the allocator, which the parser of
  \<open>swap_threshold\<close> uses.\<close>

type_synonym slide_obj = "slide_params \<times> alloc"

definition fill_task_threshold :: "slide_obj \<Rightarrow> cfg_val \<Rightarrow> int \<times> slide_obj" where
  "fill_task_threshold obj v =
     (let t = parse_to_int v in
      if t < 0 then (-1, obj) else (0, ((fst obj)\<lparr>sl_t := t\<rparr>, snd obj)))"

definition fill_task_dram_percent :: "slide_obj \<Rightarrow> cfg_val \<Rightarrow> int \<times> slide_obj" where
  "fill_task_dram_percent obj v =
     (let value = parse_to_int v;
          value' = (if value \<le> 0 \<or> value > 100 then 0 else value)
      in (0, ((fst obj)\<lparr>sl_dram_percent := word_of_int value'\<rparr>, snd obj)))"

definition fill_task_swap_threshold :: "slide_obj \<Rightarrow> cfg_val \<Rightarrow> int \<times> slide_obj" where
  "fill_task_swap_threshold obj v =
     (case get_swap_threshold_inKB (Some (val_str v)) (snd obj) of
        (None, al) \<Rightarrow> (-1, (fst obj, al))
      | (Some n, al) \<Rightarrow> (0, ((fst obj)\<lparr>sl_swap_threshold := n\<rparr>, al)))"

definition g_slide_task_config_items :: "slide_obj config_item list" where
  "g_slide_task_config_items =
     [\<lparr>ci_key = ''T'', ci_type = INT_VAL, ci_fill = fill_task_threshold, ci_option = False\<rparr>,
      \<lparr>ci_key = ''swap_threshold'', ci_type = STR_VAL, ci_fill = fill_task_swap_threshold, ci_option = True\<rparr>,
      \<lparr>ci_key = ''dram_percent'', ci_type = INT_VAL, ci_fill = fill_task_dram_percent, ci_option = True\<rparr>]"

definition zero_slide_params :: slide_params where
  "zero_slide_params =
     \<lparr>sl_executor = False, sl_t = 0, sl_swap_threshold = 0, sl_dram_percent = 0\<rparr>"

text \<open>\<open>slide_fill_task\<close>: the parameters on success.\<close>

definition slide_fill_task :: "key_file \<Rightarrow> alloc \<Rightarrow> slide_params option \<times> alloc" where
  "slide_fill_task config al =
     (case c_alloc al of
        (False, al') \<Rightarrow> (None, al')
      | (True, al') \<Rightarrow>
          (case parse_file_config config ''task'' g_slide_task_config_items (zero_slide_params, al') of
             (ret, (params, al'')) \<Rightarrow>
               if ret \<noteq> 0 then (None, al'')
               else if sl_t params > 100 then (None, al'')
               else (Some params, al'')))"

section \<open>Lemmas\<close>

lemma grade_all_eq:
  "grade_all F t ps mg =
     \<lparr>hot_pages = rev (filter (is_hot F t) ps) @ hot_pages mg,
      cold_pages = rev (filter (\<lambda>p. \<not> is_hot F t p) ps) @ cold_pages mg\<rparr>"
  by (induction ps arbitrary: mg) simp_all

definition graded :: "'d memory_grade \<Rightarrow> 'd page_refs multiset" where
  "graded mg = mset (hot_pages mg) + mset (cold_pages mg)"

definition colds_ok :: "'d fp \<Rightarrow> int \<Rightarrow> 'd memory_grade \<Rightarrow> bool" where
  "colds_ok F t mg \<longleftrightarrow> (\<forall>p\<in>set (cold_pages mg). \<not> is_hot F t p)"

text \<open>One bucket: nothing is lost, cold pages are cold, and the counter counts them
  without passing the number needed.\<close>

lemma grade_bucket_inv:
  "grade_bucket F t need ps mg cnt = (mg', ps', cnt', stop) \<Longrightarrow>
   unat cnt = length (cold_pages mg) \<Longrightarrow> cnt < need \<Longrightarrow> colds_ok F t mg \<Longrightarrow>
   graded mg' + mset ps' = graded mg + mset ps \<and> unat cnt' = length (cold_pages mg') \<and>
   cnt' \<le> need \<and> (\<not> stop \<longrightarrow> cnt' < need) \<and> colds_ok F t mg'"
proof (induction ps arbitrary: mg cnt)
  case (Cons p ps)
  note step = u64_Suc [OF Cons.prems(3)]
  show ?case
  proof (cases "is_hot F t p \<or> cnt + 1 \<ge> need")
    case True
    with Cons.prems step show ?thesis
      by (auto simp: graded_def colds_ok_def Let_def split: if_splits)
  next
    case False
    let ?mg = "mg\<lparr>cold_pages := p # cold_pages mg\<rparr>"
    from False Cons.prems(1) have "grade_bucket F t need ps ?mg (cnt + 1) = (mg', ps', cnt', stop)"
      by (simp add: Let_def)
    from Cons.IH [OF this] False Cons.prems step show ?thesis
      by (auto simp: graded_def colds_ok_def not_le)
  qed
qed auto

lemma grade_buckets_inv:
  "grade_buckets F t need bs mg cnt = (mg', bs') \<Longrightarrow>
   unat cnt = length (cold_pages mg) \<Longrightarrow> cnt < need \<Longrightarrow> colds_ok F t mg \<Longrightarrow>
   graded mg' + mset (concat bs') = graded mg + mset (concat bs) \<and>
   length (cold_pages mg') \<le> unat need \<and> colds_ok F t mg' \<and> length bs' = length bs"
proof (induction bs arbitrary: mg cnt bs')
  case (Cons b bs)
  obtain mg1 b1 cnt1 stop where g: "grade_bucket F t need b mg cnt = (mg1, b1, cnt1, stop)"
    by (cases "grade_bucket F t need b mg cnt")
  note inv = grade_bucket_inv [OF g Cons.prems(2-4)]
  show ?case
  proof (cases stop)
    case True
    with Cons.prems(1) g inv show ?thesis by (auto simp: word_le_nat_alt)
  next
    case False
    with Cons.prems(1) g obtain bs2 where "grade_buckets F t need bs mg1 cnt1 = (mg', bs2)" "bs' = b1 # bs2"
      by (auto split: prod.splits)
    with Cons.IH [OF this(1)] inv False show ?thesis by (auto simp: ac_simps)
  qed
qed (auto simp: word_less_nat_alt)

lemma clean_page_sort_fault:
  "ps_loop m \<ge> 5 \<Longrightarrow> length (ps_sort m) = 5 \<Longrightarrow> clean_page_sort_unexpected (Some m) = Inl Out_of_bounds"
  by (simp add: clean_page_sort_unexpected_def clean_buckets_eq)

lemma grade_buckets_length: "grade_buckets F t need bs mg cnt = (mg', bs') \<Longrightarrow> length bs' = length bs"
  by (induction bs arbitrary: mg cnt bs' mg') (auto split: prod.splits if_splits)

lemma grade_buckets_length_snd [simp]: "length (snd (grade_buckets F t need bs mg cnt)) = length bs"
  by (metis grade_buckets_length prod.collapse)

lemma slide_policy_keeps_shape:
  "slide_policy_interface F env pid params ps rest al = Inr (mg, ps', rest', al') \<Longrightarrow>
   ps_loop ps' = ps_loop ps \<and> length (ps_sort ps') = length (ps_sort ps)"
  by (cases "c_alloc al")
    (auto simp: slide_policy_interface_def split_beta split: option.splits bool.splits if_splits)

lemma sort_page_refs_shape:
  "\<exists>ps rest. sort_page_refs F loop d pages [] = (Some ps, rest, []) \<and> ps_loop ps = loop \<and>
     length (ps_sort ps) = 5"
  by (cases "d = None \<or> d = Some 0") (auto simp: sort_page_refs_def alloc_page_sort_def)

text \<open>The table of the slide task keeps the ranges of its parameters.\<close>

definition slide_obj_ok :: "slide_obj \<Rightarrow> bool" where
  "slide_obj_ok obj \<longleftrightarrow> 0 \<le> sl_t (fst obj) \<and> sl_dram_percent (fst obj) \<le> 100"

lemma fill_task_dram_percent_ok: "slide_obj_ok obj \<Longrightarrow> slide_obj_ok (snd (fill_task_dram_percent obj v))"
  by (auto simp: slide_obj_ok_def fill_task_dram_percent_def Let_def word_le_def uint_word_of_int)

interpretation slide_conf: config_fillers g_slide_task_config_items slide_obj_ok
proof
  fix item obj v
  assume "item \<in> set g_slide_task_config_items" "slide_obj_ok obj"
  then show "slide_obj_ok (snd (ci_fill item obj v))"
    using fill_task_dram_percent_ok [of obj v]
    by (auto simp: g_slide_task_config_items_def fill_task_threshold_def fill_task_swap_threshold_def
        slide_obj_ok_def Let_def split: prod.splits option.splits)
qed

section \<open>Properties\<close>



text \<open>C8: with a DRAM share, the policy takes pages from the buckets without losing or
  duplicating one, every cold page has its possibility below \<open>T\<close>, and there are at most as
  many cold pages as have to be swapped out to bring the process to its share.\<close>

theorem slide_policy_dram_share:
  assumes "slide_policy_interface F env pid (Some sp) page_sort rest (True # al)
      = Inr (Some mg, page_sort', rest', al')" "sl_dram_percent sp \<noteq> 0"
  shows "mset (hot_pages mg) + mset (cold_pages mg) + mset (concat (ps_sort page_sort'))
      = mset (concat (ps_sort page_sort))
    \<and> (\<forall>p\<in>set (cold_pages mg). \<not> is_hot F (sl_t sp) p)
    \<and> (\<exists>need al2. check_should_migrate env pid (Some sp) al = Inr (need, al2)
         \<and> length (cold_pages mg) \<le> unat need)"
proof -
  from assms obtain need al2 where c: "check_should_migrate env pid (Some sp) al = Inr (need, al2)"
    and r: "if need = 0 then mg = no_pages \<and> page_sort' = page_sort
      else \<exists>bs. grade_buckets F (sl_t sp) need (ps_sort page_sort) no_pages 0 = (mg, bs)
        \<and> page_sort' = page_sort\<lparr>ps_sort := bs\<rparr>"
    by (auto simp: slide_policy_interface_def split: if_splits prod.splits)
  show ?thesis
  proof (cases "need = 0")
    case True
    with r c show ?thesis by (auto simp: no_pages_def)
  next
    case False
    then have "0 < need" by (simp add: word_gt_0)
    with False r grade_buckets_inv [of F "sl_t sp" need "ps_sort page_sort" no_pages 0 mg] c
    show ?thesis by (auto simp: no_pages_def graded_def colds_ok_def)
  qed
qed

definition share_env :: sys_env where
  "share_env = sample_env\<lparr>env_fs := [''/proc/7/status'' \<mapsto> text_lines [''VmRSS: 8 kB'', ''VmSwap: 0 kB'']]\<rparr>"

lemma share_env_rss: "proc_mem share_env (Some ''7'') STATUS_FILE ''VmRSS'' [] = (Some 8, [])"
proof -
  have "get_mem_from_proc_file securec_ref (env_fs share_env) (Some ''7'') ''/status'' ''VmRSS'' []
      = (Some (of_nat (digits_value 10 0 ''8'')), [])"
    by (rule get_mem_finds [where before = "[]" and line = "''VmRSS: 8 kB''" and pre = "''VmRSS: ''"
          and suf = "'' kB''" and after = "text_lines [''VmSwap: 0 kB'']"])
      (simp_all add: securec_ref_ok share_env_def text_lines_def short_line_def c_isdigit_def digit_value_def)
  then show ?thesis
    by (simp add: proc_mem_def STATUS_FILE_def share_env_def sample_env_def digit_value_def)
qed

lemma share_env_swap: "proc_mem share_env (Some ''7'') STATUS_FILE ''VmSwap'' [] = (Some 0, [])"
proof -
  have "get_mem_from_proc_file securec_ref (env_fs share_env) (Some ''7'') ''/status'' ''VmSwap'' []
      = (Some (of_nat (digits_value 10 0 ''0'')), [])"
    by (rule get_mem_finds [where before = "[''VmRSS: 8 kB'']" and line = "''VmSwap: 0 kB''"
          and pre = "''VmSwap: ''" and suf = "'' kB''" and after = "[]"])
      (simp_all add: securec_ref_ok share_env_def text_lines_def short_line_def c_isdigit_def digit_value_def)
  then show ?thesis
    by (simp add: proc_mem_def STATUS_FILE_def share_env_def sample_env_def digit_value_def)
qed

lemma share_env_need:
  "check_should_migrate share_env 7 (Some (zero_slide_params\<lparr>sl_t := 50, sl_dram_percent := 50\<rparr>)) [] = Inr (2, [])"
proof -
  have "pid_str share_env 7 = Some ''7''"
    using sample_pid by (simp add: pid_str_def share_env_def sample_env_def)
  moreover have "env_pagesize share_env = 4096" by (simp add: share_env_def sample_env_def)
  ultimately show ?thesis
    by (simp add: check_should_migrate_def share_env_rss share_env_swap swap_page_num_def zero_slide_params_def
        push_bit_eq_mult)
qed

lemma slide_policy_dram_share_witness:
  "let mg = \<lparr>hot_pages = [], cold_pages = [sample_page 1]\<rparr>;
       before = [[sample_page 1], [], [], [], []]; after = [[], [], [], [], []]
   in mset (hot_pages mg) + mset (cold_pages mg) + mset (concat after) = mset (concat before)
    \<and> (\<forall>p\<in>set (cold_pages mg). \<not> is_hot milli_fp 50 p)
    \<and> (\<exists>need al2. check_should_migrate share_env 7
           (Some (zero_slide_params\<lparr>sl_t := 50, sl_dram_percent := 50\<rparr>)) [] = Inr (need, al2)
         \<and> length (cold_pages mg) \<le> unat need)"
proof -
  let ?sp = "zero_slide_params\<lparr>sl_t := 50, sl_dram_percent := 50\<rparr>"
  have cold: "\<not> is_hot milli_fp 50 (sample_page 1)"
    by (simp add: is_hot_def sample_page_def new_page_refs_def milli_fp_def)
  have "slide_policy_interface milli_fp share_env 7 (Some ?sp)
      \<lparr>ps_loop = 3, ps_page_refs = None, ps_sort = [[sample_page 1], [], [], [], []]\<rparr> [] (True # [])
    = Inr (Some \<lparr>hot_pages = [], cold_pages = [sample_page 1]\<rparr>,
        \<lparr>ps_loop = 3, ps_page_refs = None, ps_sort = [[], [], [], [], []]\<rparr>, [], [])"
    using share_env_need cold
    by (simp add: slide_policy_interface_def zero_slide_params_def no_pages_def Let_def)
  from slide_policy_dram_share [OF this] show ?thesis by (simp add: zero_slide_params_def)
qed

text \<open>an executor run that finds pages to grade and whose project has five or more passes
  ends in a fault, whatever the policy decides: releasing the buckets reads behind their array.\<close>

theorem slide_executor_many_passes:
  assumes "check_should_swap env (job_proj job) (job_pid job) (job_params job) al = Inr (DO_SWAP, alc)"
    and "etmemd_do_scan F gps (env_S env) (env_fs env) ios (job_pid job) (Some (job_scan job)) alc
      = Inr (pages, [])" "pages \<noteq> []" "sc_loop (job_scan job) \<ge> 5"
  shows "\<exists>fault. slide_executor F gps ios env job al = Inl fault"
proof -
  obtain ps rest where s: "sort_page_refs F (sc_loop (job_scan job))
        (map_option (\<lambda>sp. uint (sl_dram_percent sp)) (job_params job)) pages [] = (Some ps, rest, [])"
      and l: "ps_loop ps = sc_loop (job_scan job)" "length (ps_sort ps) = 5"
    using sort_page_refs_shape by blast
  have "slide_finish env job (Some ps') mg al4 = Inl Out_of_bounds"
    if "slide_policy_interface F env (job_pid job) (job_params job) ps rest [] = Inr (mg, ps', rest', al4)"
    for mg ps' rest' al4
    using slide_policy_keeps_shape [OF that] l assms(4)
    by (simp add: slide_finish_def clean_page_sort_fault)
  then show ?thesis
    using assms(1-3) s
    by (cases "slide_policy_interface F env (job_pid job) (job_params job) ps rest []")
      (auto simp: slide_executor_def)
qed

definition sample_job :: "proj_conf slide_job" where
  "sample_job = \<lparr>job_pid = 7, job_params = Some zero_slide_params, job_scan = \<lparr>sc_loop = 5, sc_swap_flag = 0\<rparr>,
     job_proj = \<lparr>proj_sysmem_threshold = -1, swapcache_high_wmark = -1, swapcache_low_wmark = -1, wmark_set = False\<rparr>\<rparr>"

lemma slide_executor_many_passes_witness:
  "\<exists>fault. slide_executor milli_fp std_page_size sample_io (sample_env\<lparr>env_fs := sample_fs\<rparr>) sample_job [] = Inl fault"
  by (rule slide_executor_many_passes [where alc = "[]" and pages = "[sample_page 0x1000]"])
    (simp_all add: check_should_swap_def sample_job_def sample_env_def sample_scan_result)

text \<open>A configured slide task has \<open>0 \<le> T \<le> 100\<close> and a DRAM share of at most 100
  percent, and its key \<open>T\<close> was present.\<close>

theorem slide_fill_task_ranges:
  assumes "slide_fill_task config al = (Some params, al')"
  shows "0 \<le> sl_t params \<and> sl_t params \<le> 100 \<and> sl_dram_percent params \<le> 100 \<and>
    kf_has_key config ''task'' ''T''"
proof -
  obtain al1 ret where p: "parse_file_config config ''task'' g_slide_task_config_items (zero_slide_params, al1)
      = (ret, (params, al'))" and "ret = 0" "sl_t params \<le> 100"
    using assms by (auto simp: slide_fill_task_def split: prod.splits bool.splits if_splits)
  moreover have "slide_obj_ok (zero_slide_params, al1)" by (simp add: slide_obj_ok_def zero_slide_params_def)
  with slide_conf.parse_file_config_keeps [of "(zero_slide_params, al1)" config "''task''"] p
  have "slide_obj_ok (params, al')" by simp
  moreover have "kf_has_key config ''task'' (ci_key (hd g_slide_task_config_items))"
    by (rule parse_file_config_mandatory [where items = g_slide_task_config_items
          and obj = "(zero_slide_params, al1)"])
      (use p \<open>ret = 0\<close> in \<open>simp_all add: g_slide_task_config_items_def\<close>)
  ultimately show ?thesis by (simp add: slide_obj_ok_def g_slide_task_config_items_def)
qed

lemma slide_fill_task_ranges_witness:
  "0 \<le> sl_t (zero_slide_params\<lparr>sl_t := 40\<rparr>) \<and> sl_t (zero_slide_params\<lparr>sl_t := 40\<rparr>) \<le> 100 \<and>
   sl_dram_percent (zero_slide_params\<lparr>sl_t := 40\<rparr>) \<le> 100 \<and>
   kf_has_key (alist_key_file [((''task'', ''T''), 40)] []) ''task'' ''T''"
  by (rule slide_fill_task_ranges [where al = "[]" and al' = "[]"])
    (simp add: slide_fill_task_def g_slide_task_config_items_def parse_item_def alist_key_file_def
      fill_task_threshold_def parse_to_int_def)

end
