(* ===== verification/Task.thy ===== *)
theory Task
  imports Config_File
begin

text \<open>
  Tasks (\<open>etmemd_task.c\<close>): the processes a task works on, kept as a list of nodes that is
  brought up to date from the output of \<open>pgrep\<close> before every round, and the configuration of
  a task. The parameters an engine attaches to a process and to a task are type variables;
  an engine's \<open>alloc_pid_params\<close> is the argument \<open>apid\<close>. The processes the code forks to
  run \<open>pgrep\<close> are the argument \<open>pgrep\<close>: what the child wrote, None when a step of it failed.
\<close>

section \<open>State\<close>

record 'q task_pid =
  tp_pid :: u32
  tp_params :: 'q

record ('q, 'p) task =
  tk_type :: "string option"
  tk_value :: "string option"
  tk_name :: "string option"
  tk_max_threads :: int
  tk_swap_flag :: int
  tk_pids :: "'q task_pid list"
  tk_params :: "'p option"
  tk_timer :: bool
  tk_pool :: bool

type_synonym 'q alloc_pid = "u32 \<Rightarrow> alloc \<Rightarrow> 'q option \<times> alloc"

section \<open>The list of processes\<close>

text \<open>Nodes that are released are collected in \<open>freed\<close>.\<close>

definition alloc_tkpid_node :: "'q alloc_pid \<Rightarrow> u32 \<Rightarrow> alloc \<Rightarrow> 'q task_pid option \<times> alloc" where
  "alloc_tkpid_node apid pid al =
     (case c_alloc al of
        (False, al') \<Rightarrow> (None, al')
      | (True, al') \<Rightarrow>
          (case apid pid al' of
             (None, al'') \<Rightarrow> (None, al'')
           | (Some q, al'') \<Rightarrow> (Some \<lparr>tp_pid = pid, tp_params = q\<rparr>, al'')))"

definition clean_nouse_pid :: "'q task_pid list \<Rightarrow> 'q task_pid list \<Rightarrow> 'q task_pid list" where
  "clean_nouse_pid pids freed = freed @ pids"

text \<open>\<open>update_task_pids\<close> on the list behind the cursor: the node the cursor has passed (None
  for the return value NULL), the list behind the new cursor, and the released nodes.\<close>

definition insert_task_pids ::
  "'q alloc_pid \<Rightarrow> u32 \<Rightarrow> 'q task_pid list \<Rightarrow> 'q task_pid list \<Rightarrow> alloc \<Rightarrow>
   'q task_pid option \<times> 'q task_pid list \<times> 'q task_pid list \<times> alloc" where
  "insert_task_pids apid pid rest freed al =
     (case alloc_tkpid_node apid pid al of (n, al') \<Rightarrow> (n, rest, freed, al'))"

fun update_task_pids ::
  "'q alloc_pid \<Rightarrow> u32 \<Rightarrow> 'q task_pid list \<Rightarrow> 'q task_pid list \<Rightarrow> alloc \<Rightarrow>
   'q task_pid option \<times> 'q task_pid list \<times> 'q task_pid list \<times> alloc" where
  "update_task_pids apid pid [] freed al = insert_task_pids apid pid [] freed al"
| "update_task_pids apid pid (p # ps) freed al =
     (if pid = tp_pid p then (Some p, ps, freed, al)
      else if pid > tp_pid p then update_task_pids apid pid ps (freed @ [p]) al
      else insert_task_pids apid pid (p # ps) freed al)"

text \<open>The loop over the lines of the child list; the result is the return value, the nodes
  of the list, and the released ones.\<close>

definition strip_newline :: "string \<Rightarrow> string" where
  "strip_newline line = (if line \<noteq> [] \<and> last line = c_newline then butlast line else line)"

function read_fill_child_pid_file ::
  "'q alloc_pid \<Rightarrow> string \<Rightarrow> 'q task_pid list \<Rightarrow> 'q task_pid list \<Rightarrow> 'q task_pid list \<Rightarrow> alloc \<Rightarrow>
   int \<times> 'q task_pid list \<times> 'q task_pid list \<times> alloc" where
  "read_fill_child_pid_file apid file visited rest freed al =
     (case c_fgets FILE_LINE_MAX_LEN file of
        None \<Rightarrow> (0, visited, clean_nouse_pid rest freed, al)
      | Some (line, file') \<Rightarrow>
          (case get_unsigned_int_value (strip_newline line) of
             None \<Rightarrow> (-1, visited @ rest, freed, al)
           | Some pid \<Rightarrow>
               (case update_task_pids apid pid rest freed al of
                  (None, rest', freed', al') \<Rightarrow> (-1, visited @ rest', freed', al')
                | (Some n, rest', freed', al') \<Rightarrow>
                    read_fill_child_pid_file apid file' (visited @ [n]) rest' freed' al')))"
  by pat_completeness auto
termination
  by (relation "measure (\<lambda>(a, f, rest). length f)") (auto dest: c_fgets_shorter [rotated])

declare read_fill_child_pid_file.simps [simp del]

definition fill_task_pid ::
  "'q alloc_pid \<Rightarrow> string \<Rightarrow> 'q task_pid list \<Rightarrow> 'q task_pid list \<Rightarrow> alloc \<Rightarrow>
   int \<times> 'q task_pid list \<times> 'q task_pid list \<times> alloc" where
  "fill_task_pid apid val pids freed al =
     (case get_unsigned_int_value val of
        None \<Rightarrow> (-1, pids, freed, al)
      | Some pid \<Rightarrow>
          if pids \<noteq> [] \<and> tp_pid (hd pids) = pid then (0, pids, freed, al)
          else
            (case alloc_tkpid_node apid pid al of
               (None, al') \<Rightarrow> (-1, [], clean_nouse_pid pids freed, al')
             | (Some n, al') \<Rightarrow> (0, [n], clean_nouse_pid pids freed, al')))"

section \<open>Finding the processes of a task\<close>

type_synonym pgrep = "string list \<Rightarrow> string option"

text \<open>The argument vector ends at the first NULL.\<close>

definition get_pid_from_type_name :: "pgrep \<Rightarrow> string option \<Rightarrow> string option" where
  "get_pid_from_type_name pgrep val =
     (case pgrep ([''/usr/bin/pgrep'', ''-x''] @ (case val of None \<Rightarrow> [] | Some v \<Rightarrow> [v])) of
        None \<Rightarrow> None
      | Some file \<Rightarrow>
          (case c_fgets PID_STR_MAX_LEN file of
             None \<Rightarrow> None
           | Some (pid, _) \<Rightarrow> Some (strip_newline pid)))"

definition get_pid_from_task_type :: "securec \<Rightarrow> pgrep \<Rightarrow> ('q, 'p) task \<Rightarrow> string option c_res" where
  "get_pid_from_task_type S pgrep tk =
     (case tk_type tk of
        None \<Rightarrow> Inl Null_deref
      | Some ty \<Rightarrow>
          if ty = ''pid'' then
            (case tk_value tk of
               None \<Rightarrow> Inl Null_deref
             | Some v \<Rightarrow> Inr (sec_strncpy_s S PID_STR_MAX_LEN v (length v)))
          else if ty = ''name'' then Inr (get_pid_from_type_name pgrep (tk_value tk))
          else Inr None)"

definition check_task_pid_exists :: "securec \<Rightarrow> (string \<Rightarrow> bool) \<Rightarrow> string \<Rightarrow> bool" where
  "check_task_pid_exists S access pid =
     (let file_str_size = length PROC_PATH + length pid + 1 in
      case sec_snprintf_s S file_str_size (file_str_size - 1) (PROC_PATH @ pid) of
        None \<Rightarrow> False
      | Some file \<Rightarrow> access file)"

definition fill_task_child_pid ::
  "'q alloc_pid \<Rightarrow> pgrep \<Rightarrow> string \<Rightarrow> 'q task_pid list \<Rightarrow> 'q task_pid list \<Rightarrow> alloc \<Rightarrow>
   (int \<times> 'q task_pid list \<times> 'q task_pid list \<times> alloc) c_res" where
  "fill_task_child_pid apid pgrep pid pids freed al =
     (case pgrep [''/usr/bin/pgrep'', ''-P'', pid] of
        None \<Rightarrow> Inr (-1, pids, freed, al)
      | Some file \<Rightarrow>
          (case pids of
             [] \<Rightarrow> Inl Null_deref
           | p # ps \<Rightarrow> Inr (read_fill_child_pid_file apid file [p] ps freed al)))"

definition etmemd_get_task_pids ::
  "securec \<Rightarrow> pgrep \<Rightarrow> (string \<Rightarrow> bool) \<Rightarrow> 'q alloc_pid \<Rightarrow> ('q, 'p) task \<Rightarrow> bool \<Rightarrow> alloc \<Rightarrow>
   (int \<times> ('q, 'p) task \<times> 'q task_pid list \<times> alloc) c_res" where
  "etmemd_get_task_pids S pgrep access apid tk recursive al =
     c_bind (get_pid_from_task_type S pgrep tk) (\<lambda>r. case r of
         None \<Rightarrow> Inr (-1, tk, [], al)
       | Some pid \<Rightarrow>
           if \<not> check_task_pid_exists S access pid then Inr (-1, tk, [], al)
           else case fill_task_pid apid pid (tk_pids tk) [] al of
             (ret, pids, freed, al1) \<Rightarrow>
               if ret \<noteq> 0 then Inr (-1, tk\<lparr>tk_pids := pids\<rparr>, freed, al1)
               else if \<not> recursive then Inr (0, tk\<lparr>tk_pids := pids\<rparr>, freed, al1)
               else
                 c_bind (fill_task_child_pid apid pgrep pid pids freed al1) (\<lambda>q. case q of
                   (ret', pids', freed', al2) \<Rightarrow>
                     if ret' \<noteq> 0 then Inr (-1, tk\<lparr>tk_pids := []\<rparr>, freed' @ pids', al2)
                     else Inr (0, tk\<lparr>tk_pids := pids'\<rparr>, freed', al2)))"

section \<open>Configuration\<close>

definition fill_task_name :: "('q, 'p) task \<Rightarrow> cfg_val \<Rightarrow> int \<times> ('q, 'p) task" where
  "fill_task_name tk v = (0, tk\<lparr>tk_name := Some (val_str v)\<rparr>)"

definition fill_task_type :: "('q, 'p) task \<Rightarrow> cfg_val \<Rightarrow> int \<times> ('q, 'p) task" where
  "fill_task_type tk v =
     (if val_str v \<noteq> ''pid'' \<and> val_str v \<noteq> ''name'' then (-1, tk)
      else (0, tk\<lparr>tk_type := Some (val_str v)\<rparr>))"

definition fill_task_value :: "('q, 'p) task \<Rightarrow> cfg_val \<Rightarrow> int \<times> ('q, 'p) task" where
  "fill_task_value tk v =
     (if check_str_valid (Some (val_str v)) \<noteq> 0 then (-1, tk)
      else (0, tk\<lparr>tk_value := Some (val_str v)\<rparr>))"

text \<open>\<open>core\<close> is the result of \<open>get_nprocs\<close>.\<close>

definition fill_task_threads :: "nat \<Rightarrow> ('q, 'p) task \<Rightarrow> cfg_val \<Rightarrow> int \<times> ('q, 'p) task" where
  "fill_task_threads core tk v =
     (let max_threads = parse_to_int v;
          max_threads' = (if max_threads \<le> 0 then 1 else max_threads)
      in (0, tk\<lparr>tk_max_threads :=
               (if max_threads' > 2 * int core + 1 then 2 * int core + 1 else max_threads')\<rparr>))"

definition fill_task_swap_flag :: "('q, 'p) task \<Rightarrow> cfg_val \<Rightarrow> int \<times> ('q, 'p) task" where
  "fill_task_swap_flag tk v =
     (if val_str v = ''yes'' then (0, tk\<lparr>tk_swap_flag := 1\<rparr>)
      else if val_str v = ''no'' then (0, tk\<lparr>tk_swap_flag := 0\<rparr>)
      else (-1, tk))"

definition g_task_config_items :: "nat \<Rightarrow> ('q, 'p) task config_item list" where
  "g_task_config_items core =
     [\<lparr>ci_key = ''name'', ci_type = STR_VAL, ci_fill = fill_task_name, ci_option = False\<rparr>,
      \<lparr>ci_key = ''type'', ci_type = STR_VAL, ci_fill = fill_task_type, ci_option = False\<rparr>,
      \<lparr>ci_key = ''value'', ci_type = STR_VAL, ci_fill = fill_task_value, ci_option = False\<rparr>,
      \<lparr>ci_key = ''swap_flag'', ci_type = STR_VAL, ci_fill = fill_task_swap_flag, ci_option = True\<rparr>,
      \<lparr>ci_key = ''max_threads'', ci_type = INT_VAL, ci_fill = fill_task_threads core, ci_option = True\<rparr>]"

definition new_task :: "('q, 'p) task" where
  "new_task = \<lparr>tk_type = None, tk_value = None, tk_name = None, tk_max_threads = 1, tk_swap_flag = 0,
     tk_pids = [], tk_params = None, tk_timer = False, tk_pool = False\<rparr>"

definition etmemd_add_task :: "nat \<Rightarrow> key_file \<Rightarrow> alloc \<Rightarrow> ('q, 'p) task option \<times> alloc" where
  "etmemd_add_task core config al =
     (case c_alloc al of
        (False, al') \<Rightarrow> (None, al')
      | (True, al') \<Rightarrow>
          (case parse_file_config config ''task'' (g_task_config_items core) new_task of
             (ret, tk) \<Rightarrow> (if ret \<noteq> 0 then None else Some tk, al')))"

section \<open>Lemmas\<close>

text \<open>The node for a process: the one the list has, or a new one.\<close>

definition sorted_pids :: "'q task_pid list \<Rightarrow> bool" where
  "sorted_pids ps \<longleftrightarrow> sorted_wrt (<) (map tp_pid ps)"

definition pid_node :: "(u32 \<Rightarrow> 'q) \<Rightarrow> 'q task_pid list \<Rightarrow> u32 \<Rightarrow> 'q task_pid" where
  "pid_node new old pid =
     (case find (\<lambda>p. tp_pid p = pid) old of None \<Rightarrow> \<lparr>tp_pid = pid, tp_params = new pid\<rparr> | Some p \<Rightarrow> p)"

definition always :: "(u32 \<Rightarrow> 'q) \<Rightarrow> 'q alloc_pid" where
  "always new pid al = (Some (new pid), al)"

lemma alloc_always [simp]:
  "alloc_tkpid_node (always new) pid [] = (Some \<lparr>tp_pid = pid, tp_params = new pid\<rparr>, [])"
  by (simp add: alloc_tkpid_node_def always_def)

lemma sorted_pids_Cons: "sorted_pids (p # ps) \<longleftrightarrow> (\<forall>q\<in>set ps. tp_pid p < tp_pid q) \<and> sorted_pids ps"
  by (simp add: sorted_pids_def)

lemma pid_node_above: "\<forall>p\<in>set old. pid < tp_pid p \<Longrightarrow> pid_node new old pid = \<lparr>tp_pid = pid, tp_params = new pid\<rparr>"
  by (auto simp: pid_node_def find_None_iff split: option.splits dest!: find_Some_iff [THEN iffD1])

lemma update_task_pids_eq:
  "sorted_pids rest \<Longrightarrow> update_task_pids (always new) pid rest freed [] =
     (Some (pid_node new rest pid), filter (\<lambda>p. pid < tp_pid p) rest,
      freed @ filter (\<lambda>p. tp_pid p < pid) rest, [])"
proof (induction rest arbitrary: freed)
  case Nil
  then show ?case by (simp add: insert_task_pids_def pid_node_def)
next
  case (Cons p ps)
  have s: "sorted_pids ps" "\<forall>q\<in>set ps. tp_pid p < tp_pid q" using Cons.prems by (simp_all add: sorted_pids_Cons)
  consider "pid = tp_pid p" | "pid > tp_pid p" | "pid < tp_pid p" by (meson linorder_neqE)
  then show ?case
  proof cases
    case 1
    with s(2) show ?thesis by (auto simp: pid_node_def filter_id_conv filter_empty_conv)
  next
    case 2
    then have "tp_pid p \<noteq> pid" "\<not> pid < tp_pid p" by auto
    with 2 Cons.IH [OF s(1)] show ?thesis by (auto simp: pid_node_def)
  next
    case 3
    with s(2) have "\<forall>q\<in>set ps. pid < tp_pid q" by (auto dest: less_trans)
    moreover from this 3 have "pid_node new (p # ps) pid = \<lparr>tp_pid = pid, tp_params = new pid\<rparr>"
      by (intro pid_node_above) auto
    moreover have "filter (\<lambda>q. tp_pid q < pid) ps = []" using calculation(1) by (auto simp: filter_empty_conv)
    ultimately show ?thesis using 3 by (auto simp: insert_task_pids_def filter_id_conv)
  qed
qed

lemma pid_node_filter: "\<forall>c\<in>set cs. pid < c \<Longrightarrow>
   map (pid_node new (filter (\<lambda>p. pid < tp_pid p) old)) cs = map (pid_node new old) cs"
proof -
  have "find (\<lambda>p. tp_pid p = c) (filter (\<lambda>p. pid < tp_pid p) old) = find (\<lambda>p. tp_pid p = c) old"
    if "pid < c" for c
    using that by (induction old) auto
  then show "\<forall>c\<in>set cs. pid < c \<Longrightarrow> ?thesis" by (simp add: pid_node_def)
qed

definition pid_lines :: "u32 list \<Rightarrow> string" where
  "pid_lines cs = text_lines (map (\<lambda>c. nat_to_base 10 (unat c)) cs)"

lemma pid_line:
  "c_fgets 1024 (nat_to_base 10 (unat (c :: u32)) @ c_newline # r) = Some (nat_to_base 10 (unat c) @ [c_newline], r)"
  "get_unsigned_int_value (strip_newline (nat_to_base 10 (unat c) @ [c_newline])) = Some c"
proof -
  have b: "unat c < 2 ^ 32" using unsigned_less [of c, where 'a = nat] by simp
  then have "unat c < 10 ^ 10" by simp
  then have "length (nat_to_base 10 (unat c)) \<le> 10" by (intro nat_to_base_length) auto
  moreover have "c_newline \<notin> set (nat_to_base 10 (unat c))"
    using nat_to_base_decimal [of "unat c"] by (auto simp: list_all_iff c_isdigit_def)
  ultimately show "c_fgets 1024 (nat_to_base 10 (unat c) @ c_newline # r) = Some (nat_to_base 10 (unat c) @ [c_newline], r)"
    by (intro c_fgets_newline) auto
  have "(of_nat (unat c) :: u64) \<le> 0xFFFFFFFF"
    using b by (simp add: word_le_nat_alt unsigned_ucast_eq take_bit_nat_eq_self)
  moreover have "ucast (of_nat (unat c) :: u64) = c" by (simp, rule bit_word_eqI) (simp add: bit_simps)
  moreover have "unat c < 2 ^ 64" using b by simp
  ultimately show "get_unsigned_int_value (strip_newline (nat_to_base 10 (unat c) @ [c_newline])) = Some c"
    by (simp add: get_unsigned_int_value_def strip_newline_def strtoul_decimal check_str_format_def)
qed

lemma read_fill_children:
  "sorted_wrt (<) cs \<Longrightarrow> sorted_pids old \<Longrightarrow>
   \<exists>freed'. read_fill_child_pid_file (always new) (pid_lines cs) visited old freed [] =
     (0, visited @ map (pid_node new old) cs, freed @ freed', [])
   \<and> set freed' = {p \<in> set old. tp_pid p \<notin> set cs}"
proof (induction cs arbitrary: visited old freed)
  case Nil
  then show ?case
    by (simp add: read_fill_child_pid_file.simps pid_lines_def text_lines_def c_fgets_def clean_nouse_pid_def)
next
  case (Cons c cs)
  let ?old = "filter (\<lambda>p. c < tp_pid p) old"
  have s: "sorted_wrt (<) cs" "\<forall>d\<in>set cs. c < d" "sorted_pids ?old"
    using Cons.prems by (auto simp: sorted_pids_def sorted_wrt_map sorted_wrt_filter)
  have "pid_lines (c # cs) = nat_to_base 10 (unat c) @ c_newline # pid_lines cs"
    by (simp add: pid_lines_def text_lines_def)
  then have "read_fill_child_pid_file (always new) (pid_lines (c # cs)) visited old freed []
      = read_fill_child_pid_file (always new) (pid_lines cs) (visited @ [pid_node new old c]) ?old
          (freed @ filter (\<lambda>p. tp_pid p < c) old) []"
    by (simp add: read_fill_child_pid_file.simps [of "always new" "nat_to_base 10 (unat c) @ c_newline # pid_lines cs"]
        pid_line update_task_pids_eq [OF Cons.prems(2)])
  moreover obtain f where f: "read_fill_child_pid_file (always new) (pid_lines cs)
        (visited @ [pid_node new old c]) ?old (freed @ filter (\<lambda>p. tp_pid p < c) old) [] =
      (0, (visited @ [pid_node new old c]) @ map (pid_node new ?old) cs, (freed @ filter (\<lambda>p. tp_pid p < c) old) @ f, [])"
    "set f = {p \<in> set ?old. tp_pid p \<notin> set cs}"
    using Cons.IH [OF s(1,3)] by blast
  moreover have "set (filter (\<lambda>p. tp_pid p < c) old @ f) = {p \<in> set old. tp_pid p \<notin> set (c # cs)}"
    using f(2) s(2) by (auto dest: less_asym)
  ultimately show ?case using pid_node_filter [OF s(2), of new old] by auto
qed

text \<open>The table of task items keeps the ranges of its values.\<close>

definition task_ok :: "nat \<Rightarrow> ('q, 'p) task \<Rightarrow> bool" where
  "task_ok core tk \<longleftrightarrow> tk_type tk \<in> {None, Some ''pid'', Some ''name''} \<and>
     (\<forall>v. tk_value tk = Some v \<longrightarrow> check_str_valid (Some v) = 0) \<and>
     1 \<le> tk_max_threads tk \<and> tk_max_threads tk \<le> 2 * int core + 1 \<and> tk_swap_flag tk \<in> {0, 1}"

lemma task_fills_ok [inv_intros]:
  assumes "task_ok core tk"
  shows "task_ok core (snd (fill_task_name tk v))" "task_ok core (snd (fill_task_type tk v))"
    "task_ok core (snd (fill_task_value tk v))" "task_ok core (snd (fill_task_swap_flag tk v))"
    "task_ok core (snd (fill_task_threads core tk v))"
  using assms
  by (simp_all add: task_ok_def fill_task_name_def fill_task_type_def fill_task_value_def
      fill_task_swap_flag_def fill_task_threads_def Let_def)

interpretation task_conf: config_fillers "g_task_config_items core" "task_ok core" for core
  by unfold_locales (auto simp: g_task_config_items_def intro: inv_intros)

text \<open>Only the first item sets the name.\<close>

interpretation task_name_kept: config_fillers "tl (g_task_config_items core)" "\<lambda>tk. tk_name tk = n" for core n
  by unfold_locales
    (auto simp: g_task_config_items_def fill_task_type_def fill_task_value_def fill_task_swap_flag_def
      fill_task_threads_def Let_def)

interpretation task_timer_kept: config_fillers "g_task_config_items core" "\<lambda>tk. \<not> tk_timer tk" for core
  by unfold_locales
    (auto simp: g_task_config_items_def fill_task_name_def fill_task_type_def fill_task_value_def
      fill_task_swap_flag_def fill_task_threads_def Let_def split: if_splits)

lemma etmemd_add_task_name:
  assumes "etmemd_add_task core config al = (Some tk, al')"
  shows "tk_name tk = fst (kf_get_string config ''task'' ''name'')" "tk_name tk \<noteq> None" "\<not> tk_timer tk"
proof -
  let ?hd = "\<lparr>ci_key = ''name'', ci_type = STR_VAL, ci_fill = fill_task_name, ci_option = False\<rparr> :: ('a, 'b) task config_item"
  let ?new = "new_task :: ('a, 'b) task"
  have items: "g_task_config_items core = ?hd # tl (g_task_config_items core)"
    by (simp add: g_task_config_items_def)
  from assms have p: "parse_file_config config ''task'' (g_task_config_items core) ?new = (0, tk)"
    by (auto simp: etmemd_add_task_def split: prod.splits bool.splits if_splits)
  then have h: "parse_item config ''task'' ?hd ?new = (0, snd (parse_item config ''task'' ?hd ?new))"
    and t: "tk = snd (parse_file_config config ''task'' (tl (g_task_config_items core))
      (snd (parse_item config ''task'' ?hd ?new)))"
    by (subst (asm) items, auto split: prod.splits if_splits)+
  from h obtain s e where s: "kf_get_string config ''task'' ''name'' = (Some s, e)"
    and n: "tk_name (snd (parse_item config ''task'' ?hd ?new)) = Some s"
    by (auto simp: parse_item_def fill_task_name_def val_str_def split: if_splits prod.splits option.splits)
  from task_name_kept.parse_file_config_keeps [OF n, of config "''task''" core] t have "tk_name tk = Some s" by simp
  then show "tk_name tk = fst (kf_get_string config ''task'' ''name'')" "tk_name tk \<noteq> None"
    using s by simp_all
  show "\<not> tk_timer tk"
    using task_timer_kept.parse_file_config_keeps [of ?new config "''task''" core] p by (simp add: new_task_def)
qed

section \<open>Properties\<close>

text \<open>C31: refreshing the children of a task from an ascending list of process numbers leaves
  exactly these processes in the list, in order: a process that was listed keeps its node with
  the engine's data, a new one gets a new node, and exactly the nodes of the processes that
  are gone are released.\<close>

theorem refresh_children_correct:
  assumes "sorted_wrt (<) cs" "sorted_pids old"
    and "pgrep [''/usr/bin/pgrep'', ''-P'', pid] = Some (pid_lines cs)"
  shows "\<exists>freed. fill_task_child_pid (always new) pgrep pid (p # old) [] [] =
      Inr (0, p # map (pid_node new old) cs, freed, [])
    \<and> set freed = {q \<in> set old. tp_pid q \<notin> set cs}"
  using read_fill_children [OF assms(1,2), of new "[p]" "[]"] assms(3)
  by (auto simp: fill_task_child_pid_def)

lemma refresh_children_correct_witness:
  "\<exists>freed. fill_task_child_pid (always (\<lambda>_. 1 :: nat)) (\<lambda>_. Some (pid_lines [5, 9])) ''3''
      (\<lparr>tp_pid = 3, tp_params = 0\<rparr> # [\<lparr>tp_pid = 4, tp_params = 7\<rparr>, \<lparr>tp_pid = 5, tp_params = 8\<rparr>]) [] [] =
      Inr (0, \<lparr>tp_pid = 3, tp_params = 0\<rparr> #
        map (pid_node (\<lambda>_. 1) [\<lparr>tp_pid = 4, tp_params = 7\<rparr>, \<lparr>tp_pid = 5, tp_params = 8\<rparr>]) [5, 9], freed, [])
    \<and> set freed = {q \<in> set [\<lparr>tp_pid = 4, tp_params = 7\<rparr>, \<lparr>tp_pid = 5, tp_params = 8\<rparr>]. tp_pid q \<notin> set [5, 9]}"
  by (rule refresh_children_correct) (simp_all add: sorted_pids_def)

text \<open>A task read from a configuration names a process or a program with a valid name, has
  between 1 and \<open>2N + 1\<close> worker threads on \<open>N\<close> processors, and a swap flag of 0 or 1.\<close>

theorem etmemd_add_task_ok:
  assumes "etmemd_add_task core config al = (Some tk, al')"
  shows "task_ok core tk \<and> kf_has_key config ''task'' ''value''"
proof -
  obtain ret where p: "parse_file_config config ''task'' (g_task_config_items core) new_task = (ret, tk)" "ret = 0"
    using assms by (auto simp: etmemd_add_task_def split: prod.splits bool.splits if_splits)
  have "task_ok core (new_task :: ('a, 'b) task)" by (simp add: task_ok_def new_task_def)
  with task_conf.parse_file_config_keeps [of core "new_task :: ('a, 'b) task" config "''task''"] p have "task_ok core tk" by simp
  moreover have "kf_has_key config ''task'' (ci_key (g_task_config_items core ! 2 :: ('a, 'b) task config_item))"
    by (rule parse_file_config_mandatory [where items = "g_task_config_items core" and obj = new_task])
      (use p in \<open>simp_all add: g_task_config_items_def\<close>)
  ultimately show ?thesis by (simp add: g_task_config_items_def)
qed

definition sample_task_config :: key_file where
  "sample_task_config = alist_key_file [((''task'', ''max_threads''), 99)]
     [((''task'', ''name''), ''t1''), ((''task'', ''type''), ''pid''), ((''task'', ''value''), ''42'')]"

lemma etmemd_add_task_ok_witness:
  "\<exists>tk :: (unit, unit) task. etmemd_add_task 4 sample_task_config [] = (Some tk, []) \<and>
     task_ok 4 tk \<and> kf_has_key sample_task_config ''task'' ''value''"
proof -
  have "check_str_valid (Some ''42'') = 0" by (simp add: check_str_valid_def get_valid_conf_str_eq check_value_valid_def c_isdigit_def)
  then have "etmemd_add_task 4 sample_task_config [] =
    (Some (new_task\<lparr>tk_name := Some ''t1'', tk_type := Some ''pid'', tk_value := Some ''42'',
       tk_max_threads := 9\<rparr> :: (unit, unit) task), [])"
    by (simp add: etmemd_add_task_def g_task_config_items_def parse_item_def sample_task_config_def
        alist_key_file_def fill_task_name_def fill_task_type_def fill_task_value_def val_str_def
        fill_task_threads_def parse_to_int_def)
  with etmemd_add_task_ok [OF this] show ?thesis by blast
qed

end
