(* ===== verification/Project_Config.thy ===== *)
theory Project_Config
  imports Slide Task
begin

text \<open>
  The records of projects and engines and the configuration of a project
  (\<open>etmemd_project.c\<close>, lines 451 to 735, and the structures of \<open>etmemd_project_exp.h\<close> and
  \<open>etmemd_engine_exp.h\<close>). \<open>'q\<close> is what an engine attaches to a process, \<open>'p\<close> to a task and
  \<open>'e\<close> to itself.
\<close>

section \<open>State\<close>

datatype scan_type = PAGE_SCAN | REGION_SCAN

record page_scan =
  scan_interval :: int
  scan_loop :: int
  scan_sleep :: int

record region_scan =
  sample_interval :: u64
  aggr_interval :: u64
  update_interval :: u64
  min_nr_regions :: u64
  max_nr_regions :: u64

datatype scan_param = Page_param page_scan | Region_param region_scan

datatype eng_type =
    SLIDE_ENGINE
  | CSLIDE_ENGINE
  | MEMDCD_ENGINE
  | DAMON_ENGINE
  | DYNAMIC_FB_ENGINE
  | HISTORICAL_FB_ENGINE
  | THIRDPARTY_ENGINE

record ('q, 'p, 'e) engine =
  en_type :: eng_type
  en_name :: string
  en_params :: "'e option"
  en_tasks :: "('q, 'p) task list"

record ('q, 'p, 'e) project = proj_conf +
  pj_name :: string
  pj_type :: scan_type
  pj_scan :: "scan_param option"
  pj_start :: bool
  pj_engs :: "('q, 'p, 'e) engine list"

section \<open>Page scan and region scan\<close>

abbreviation (input) MAX_INTERVAL_VALUE :: int where "MAX_INTERVAL_VALUE \<equiv> 1200"
abbreviation (input) MAX_SLEEP_VALUE :: int where "MAX_SLEEP_VALUE \<equiv> 1200"
abbreviation (input) MAX_LOOP_VALUE :: int where "MAX_LOOP_VALUE \<equiv> 120"
abbreviation (input) MIN_NR_MIN_VAL :: u64 where "MIN_NR_MIN_VAL \<equiv> 3"

definition fill_page_scan_loop :: "page_scan \<Rightarrow> cfg_val \<Rightarrow> int \<times> page_scan" where
  "fill_page_scan_loop scan v =
     (let loop = parse_to_int v in
      if loop < 1 \<or> loop > MAX_LOOP_VALUE then (-1, scan) else (0, scan\<lparr>scan_loop := loop\<rparr>))"

definition fill_page_scan_interval :: "page_scan \<Rightarrow> cfg_val \<Rightarrow> int \<times> page_scan" where
  "fill_page_scan_interval scan v =
     (let interval = parse_to_int v in
      if interval < 1 \<or> interval > MAX_INTERVAL_VALUE then (-1, scan)
      else (0, scan\<lparr>scan_interval := interval\<rparr>))"

definition fill_page_scan_sleep :: "page_scan \<Rightarrow> cfg_val \<Rightarrow> int \<times> page_scan" where
  "fill_page_scan_sleep scan v =
     (let sl = parse_to_int v in
      if sl < 1 \<or> sl > MAX_SLEEP_VALUE then (-1, scan) else (0, scan\<lparr>scan_sleep := sl\<rparr>))"

definition g_page_scan_config_items :: "page_scan config_item list" where
  "g_page_scan_config_items =
     [\<lparr>ci_key = ''loop'', ci_type = INT_VAL, ci_fill = fill_page_scan_loop, ci_option = False\<rparr>,
      \<lparr>ci_key = ''interval'', ci_type = INT_VAL, ci_fill = fill_page_scan_interval, ci_option = False\<rparr>,
      \<lparr>ci_key = ''sleep'', ci_type = INT_VAL, ci_fill = fill_page_scan_sleep, ci_option = False\<rparr>]"

definition fill_region_scan_samp_interval :: "region_scan \<Rightarrow> cfg_val \<Rightarrow> int \<times> region_scan" where
  "fill_region_scan_samp_interval scan v = (0, scan\<lparr>sample_interval := parse_to_ulong v\<rparr>)"

definition fill_region_scan_aggr_interval :: "region_scan \<Rightarrow> cfg_val \<Rightarrow> int \<times> region_scan" where
  "fill_region_scan_aggr_interval scan v = (0, scan\<lparr>aggr_interval := parse_to_ulong v\<rparr>)"

definition fill_region_scan_updt_interval :: "region_scan \<Rightarrow> cfg_val \<Rightarrow> int \<times> region_scan" where
  "fill_region_scan_updt_interval scan v = (0, scan\<lparr>update_interval := parse_to_ulong v\<rparr>)"

definition fill_region_scan_min_nr :: "region_scan \<Rightarrow> cfg_val \<Rightarrow> int \<times> region_scan" where
  "fill_region_scan_min_nr scan v =
     (let min_nr = parse_to_ulong v in
      if min_nr < MIN_NR_MIN_VAL then (-1, scan) else (0, scan\<lparr>min_nr_regions := min_nr\<rparr>))"

definition fill_region_scan_max_nr :: "region_scan \<Rightarrow> cfg_val \<Rightarrow> int \<times> region_scan" where
  "fill_region_scan_max_nr scan v =
     (let max_nr = parse_to_ulong v in
      if max_nr < MIN_NR_MIN_VAL then (-1, scan) else (0, scan\<lparr>max_nr_regions := max_nr\<rparr>))"

definition g_region_scan_config_items :: "region_scan config_item list" where
  "g_region_scan_config_items =
     [\<lparr>ci_key = ''sample_interval'', ci_type = INT_VAL, ci_fill = fill_region_scan_samp_interval, ci_option = False\<rparr>,
      \<lparr>ci_key = ''aggr_interval'', ci_type = INT_VAL, ci_fill = fill_region_scan_aggr_interval, ci_option = False\<rparr>,
      \<lparr>ci_key = ''update_interval'', ci_type = INT_VAL, ci_fill = fill_region_scan_updt_interval, ci_option = False\<rparr>,
      \<lparr>ci_key = ''min_nr_regions'', ci_type = INT_VAL, ci_fill = fill_region_scan_min_nr, ci_option = False\<rparr>,
      \<lparr>ci_key = ''max_nr_regions'', ci_type = INT_VAL, ci_fill = fill_region_scan_max_nr, ci_option = False\<rparr>]"

text \<open>\<open>scan_fill_by_conf\<close> dereferences \<open>scan_param\<close> as the structure that \<open>type\<close> tells.\<close>

definition scan_fill_by_conf ::
  "key_file \<Rightarrow> ('q, 'p, 'e) project \<Rightarrow> (int \<times> ('q, 'p, 'e) project) c_res" where
  "scan_fill_by_conf config proj =
     (case (pj_type proj, pj_scan proj) of
        (PAGE_SCAN, Some (Page_param ps)) \<Rightarrow>
          (case parse_file_config config ''project'' g_page_scan_config_items ps of
             (ret, ps') \<Rightarrow>
               Inr (if ret \<noteq> 0 then -1 else 0, proj\<lparr>pj_scan := Some (Page_param ps')\<rparr>))
      | (REGION_SCAN, Some (Region_param rs)) \<Rightarrow>
          (case parse_file_config config ''project'' g_region_scan_config_items rs of
             (ret, rs') \<Rightarrow>
               Inr (if ret \<noteq> 0 then -1
                    else if min_nr_regions rs' \<ge> max_nr_regions rs' then -1 else 0,
                    proj\<lparr>pj_scan := Some (Region_param rs')\<rparr>))
      | _ \<Rightarrow> Inl Null_deref)"

section \<open>The project itself\<close>

type_synonym ('q, 'p, 'e) proj_obj = "('q, 'p, 'e) project \<times> alloc"

definition fill_project_name :: "('q, 'p, 'e) proj_obj \<Rightarrow> cfg_val \<Rightarrow> int \<times> ('q, 'p, 'e) proj_obj" where
  "fill_project_name obj v = (0, ((fst obj)\<lparr>pj_name := val_str v\<rparr>, snd obj))"

definition fill_project_scan_type :: "('q, 'p, 'e) proj_obj \<Rightarrow> cfg_val \<Rightarrow> int \<times> ('q, 'p, 'e) proj_obj" where
  "fill_project_scan_type obj v =
     (if val_str v \<noteq> ''page'' \<and> val_str v \<noteq> ''region'' then (-1, obj)
      else case c_alloc (snd obj) of
        (False, al) \<Rightarrow> (-1, (fst obj, al))
      | (True, al) \<Rightarrow>
          if val_str v = ''page'' then
            (0, ((fst obj)\<lparr>pj_scan := Some (Page_param \<lparr>scan_interval = 0, scan_loop = 0, scan_sleep = 0\<rparr>),
                           pj_type := PAGE_SCAN\<rparr>, al))
          else
            (0, ((fst obj)\<lparr>pj_scan := Some (Region_param \<lparr>sample_interval = 0, aggr_interval = 0,
                             update_interval = 0, min_nr_regions = 0, max_nr_regions = 0\<rparr>),
                           pj_type := REGION_SCAN\<rparr>, al)))"

definition fill_project_sysmem_threshold ::
  "('q, 'p, 'e) proj_obj \<Rightarrow> cfg_val \<Rightarrow> int \<times> ('q, 'p, 'e) proj_obj" where
  "fill_project_sysmem_threshold obj v =
     (let t = parse_to_int v in
      if t < 0 \<or> t > 100 then (-1, obj) else (0, ((fst obj)\<lparr>proj_sysmem_threshold := t\<rparr>, snd obj)))"

definition fill_project_swapcache_low_wmark ::
  "('q, 'p, 'e) proj_obj \<Rightarrow> cfg_val \<Rightarrow> int \<times> ('q, 'p, 'e) proj_obj" where
  "fill_project_swapcache_low_wmark obj v =
     (let w = parse_to_int v in
      if w \<le> 0 \<or> w > 100 then (-1, obj) else (0, ((fst obj)\<lparr>swapcache_low_wmark := w\<rparr>, snd obj)))"

definition fill_project_swapcache_high_wmark ::
  "('q, 'p, 'e) proj_obj \<Rightarrow> cfg_val \<Rightarrow> int \<times> ('q, 'p, 'e) proj_obj" where
  "fill_project_swapcache_high_wmark obj v =
     (let w = parse_to_int v in
      if w \<le> 0 \<or> w > 100 then (-1, obj) else (0, ((fst obj)\<lparr>swapcache_high_wmark := w\<rparr>, snd obj)))"

definition check_swapcache_wmark_valid :: "'z proj_conf_scheme \<Rightarrow> bool" where
  "check_swapcache_wmark_valid proj =
     (if swapcache_high_wmark proj = -1 \<and> swapcache_low_wmark proj = -1 then True
      else if swapcache_high_wmark proj > 0 \<and> swapcache_low_wmark proj > 0 \<and>
              swapcache_high_wmark proj > swapcache_low_wmark proj then True
      else False)"

definition g_project_config_items :: "('q, 'p, 'e) proj_obj config_item list" where
  "g_project_config_items =
     [\<lparr>ci_key = ''name'', ci_type = STR_VAL, ci_fill = fill_project_name, ci_option = False\<rparr>,
      \<lparr>ci_key = ''scan_type'', ci_type = STR_VAL, ci_fill = fill_project_scan_type, ci_option = False\<rparr>,
      \<lparr>ci_key = ''sysmem_threshold'', ci_type = INT_VAL, ci_fill = fill_project_sysmem_threshold, ci_option = True\<rparr>,
      \<lparr>ci_key = ''swapcache_high_wmark'', ci_type = INT_VAL, ci_fill = fill_project_swapcache_high_wmark, ci_option = True\<rparr>,
      \<lparr>ci_key = ''swapcache_low_wmark'', ci_type = INT_VAL, ci_fill = fill_project_swapcache_low_wmark, ci_option = True\<rparr>]"

definition new_project :: "('q, 'p, 'e) project" where
  "new_project = \<lparr>proj_sysmem_threshold = -1, swapcache_high_wmark = -1, swapcache_low_wmark = -1,
     wmark_set = False, pj_name = [], pj_type = PAGE_SCAN, pj_scan = None, pj_start = False, pj_engs = []\<rparr>"

definition project_fill_by_conf ::
  "key_file \<Rightarrow> ('q, 'p, 'e) project \<Rightarrow> alloc \<Rightarrow> int \<times> ('q, 'p, 'e) project \<times> alloc" where
  "project_fill_by_conf config proj al =
     (case parse_file_config config ''project'' g_project_config_items (proj, al) of
        (ret, (proj', al')) \<Rightarrow>
          if ret \<noteq> 0 then (-1, proj', al')
          else if \<not> check_swapcache_wmark_valid proj' then (-1, proj', al')
          else (0, proj', al'))"

section \<open>What the tables keep\<close>

definition page_scan_ok :: "page_scan \<Rightarrow> bool" where
  "page_scan_ok s \<longleftrightarrow> 0 \<le> scan_loop s \<and> scan_loop s \<le> 120 \<and> 0 \<le> scan_interval s \<and>
     scan_interval s \<le> 1200 \<and> 0 \<le> scan_sleep s \<and> scan_sleep s \<le> 1200"

definition region_scan_ok :: "region_scan \<Rightarrow> bool" where
  "region_scan_ok s \<longleftrightarrow> (min_nr_regions s = 0 \<or> 3 \<le> min_nr_regions s) \<and>
     (max_nr_regions s = 0 \<or> 3 \<le> max_nr_regions s)"

definition scan_matches :: "('q, 'p, 'e) project \<Rightarrow> bool" where
  "scan_matches proj \<longleftrightarrow>
     (case pj_scan proj of
        None \<Rightarrow> True
      | Some (Page_param s) \<Rightarrow> pj_type proj = PAGE_SCAN \<and> page_scan_ok s
      | Some (Region_param s) \<Rightarrow> pj_type proj = REGION_SCAN \<and> region_scan_ok s)"

definition settings_ok :: "'z proj_conf_scheme \<Rightarrow> bool" where
  "settings_ok proj \<longleftrightarrow>
     (proj_sysmem_threshold proj = -1 \<or> 0 \<le> proj_sysmem_threshold proj \<and> proj_sysmem_threshold proj \<le> 100) \<and>
     (swapcache_low_wmark proj = -1 \<or> 0 < swapcache_low_wmark proj \<and> swapcache_low_wmark proj \<le> 100) \<and>
     (swapcache_high_wmark proj = -1 \<or> 0 < swapcache_high_wmark proj \<and> swapcache_high_wmark proj \<le> 100)"

definition proj_obj_ok :: "('q, 'p, 'e) proj_obj \<Rightarrow> bool" where
  "proj_obj_ok obj \<longleftrightarrow> settings_ok (fst obj) \<and> scan_matches (fst obj) \<and>
     pj_engs (fst obj) = [] \<and> \<not> pj_start (fst obj)"

lemma page_scan_fills_ok [inv_intros]:
  assumes "page_scan_ok s"
  shows "page_scan_ok (snd (fill_page_scan_loop s v))" "page_scan_ok (snd (fill_page_scan_interval s v))"
    "page_scan_ok (snd (fill_page_scan_sleep s v))"
  using assms by (auto simp: page_scan_ok_def fill_page_scan_loop_def fill_page_scan_interval_def
      fill_page_scan_sleep_def Let_def)

lemma region_scan_fills_ok [inv_intros]:
  assumes "region_scan_ok s"
  shows "region_scan_ok (snd (fill_region_scan_samp_interval s v))"
    "region_scan_ok (snd (fill_region_scan_aggr_interval s v))"
    "region_scan_ok (snd (fill_region_scan_updt_interval s v))"
    "region_scan_ok (snd (fill_region_scan_min_nr s v))"
    "region_scan_ok (snd (fill_region_scan_max_nr s v))"
  using assms by (auto simp: region_scan_ok_def fill_region_scan_samp_interval_def
      fill_region_scan_aggr_interval_def fill_region_scan_updt_interval_def
      fill_region_scan_min_nr_def fill_region_scan_max_nr_def Let_def)

lemma project_fills_ok [inv_intros]:
  assumes "proj_obj_ok obj"
  shows "proj_obj_ok (snd (fill_project_name obj v))"
    "proj_obj_ok (snd (fill_project_scan_type obj v))"
    "proj_obj_ok (snd (fill_project_sysmem_threshold obj v))"
    "proj_obj_ok (snd (fill_project_swapcache_low_wmark obj v))"
    "proj_obj_ok (snd (fill_project_swapcache_high_wmark obj v))"
  using assms
  by (auto simp: proj_obj_ok_def settings_ok_def scan_matches_def page_scan_ok_def region_scan_ok_def
      fill_project_name_def fill_project_scan_type_def fill_project_sysmem_threshold_def
      fill_project_swapcache_low_wmark_def fill_project_swapcache_high_wmark_def Let_def
      split: option.splits scan_param.splits bool.splits prod.splits)

interpretation page_scan_conf: config_fillers g_page_scan_config_items page_scan_ok
  by unfold_locales (auto simp: g_page_scan_config_items_def intro: inv_intros)

interpretation region_scan_conf: config_fillers g_region_scan_config_items region_scan_ok
  by unfold_locales (auto simp: g_region_scan_config_items_def intro: inv_intros)

interpretation project_conf: config_fillers g_project_config_items proj_obj_ok
  by unfold_locales (auto simp: g_project_config_items_def intro: inv_intros)

text \<open>Only the first item of a project sets the name.\<close>

interpretation project_name_kept: config_fillers "tl g_project_config_items" "\<lambda>obj. pj_name (fst obj) = n" for n
  by unfold_locales
    (auto simp: g_project_config_items_def fill_project_scan_type_def fill_project_sysmem_threshold_def
      fill_project_swapcache_low_wmark_def fill_project_swapcache_high_wmark_def Let_def
      split: prod.splits bool.splits)

lemma project_fill_by_conf_ok:
  assumes "project_fill_by_conf config new_project al = (0, proj, al')"
  shows "proj_obj_ok (proj, al')" "check_swapcache_wmark_valid proj"
    "Some (pj_name proj) = fst (kf_get_string config ''project'' ''name'')"
proof -
  let ?hd = "\<lparr>ci_key = ''name'', ci_type = STR_VAL, ci_fill = fill_project_name, ci_option = False\<rparr>
    :: ('a, 'b, 'c) proj_obj config_item"
  let ?new = "(new_project, al) :: ('a, 'b, 'c) proj_obj"
  have items: "g_project_config_items = ?hd # tl g_project_config_items"
    by (simp add: g_project_config_items_def)
  from assms have p: "parse_file_config config ''project'' g_project_config_items ?new = (0, (proj, al'))"
    and "check_swapcache_wmark_valid proj"
    by (auto simp: project_fill_by_conf_def split: prod.splits if_splits)
  then show "check_swapcache_wmark_valid proj" by simp
  have "proj_obj_ok ?new" by (simp add: proj_obj_ok_def settings_ok_def scan_matches_def new_project_def)
  from project_conf.parse_file_config_keeps [OF this, of config "''project''"] p
  show "proj_obj_ok (proj, al')" by simp
  from p have h: "parse_item config ''project'' ?hd ?new = (0, snd (parse_item config ''project'' ?hd ?new))"
    and t: "(proj, al') = snd (parse_file_config config ''project'' (tl g_project_config_items)
      (snd (parse_item config ''project'' ?hd ?new)))"
    by (subst (asm) items, auto split: prod.splits if_splits)+
  from h obtain s e where s: "kf_get_string config ''project'' ''name'' = (Some s, e)"
    and n: "pj_name (fst (snd (parse_item config ''project'' ?hd ?new))) = s"
    by (auto simp: parse_item_def fill_project_name_def val_str_def split: if_splits prod.splits option.splits)
  from project_name_kept.parse_file_config_keeps [OF n, of config "''project''"] t [symmetric]
  have "pj_name proj = s" by simp
  then show "Some (pj_name proj) = fst (kf_get_string config ''project'' ''name'')" using s by simp
qed

lemma scan_fill_by_conf_keeps:
  "scan_fill_by_conf config proj = Inr (ret, proj') \<Longrightarrow>
   pj_name proj' = pj_name proj \<and> pj_engs proj' = pj_engs proj \<and> pj_start proj' = pj_start proj \<and>
   pj_type proj' = pj_type proj \<and> proj_sysmem_threshold proj' = proj_sysmem_threshold proj \<and>
   swapcache_high_wmark proj' = swapcache_high_wmark proj \<and> swapcache_low_wmark proj' = swapcache_low_wmark proj"
  by (auto simp: scan_fill_by_conf_def split: scan_type.splits option.splits scan_param.splits prod.splits)

lemma scan_tables_keep:
  "parse_file_config config g g_page_scan_config_items s = (r, s') \<Longrightarrow> page_scan_ok s \<Longrightarrow> page_scan_ok s'"
  "parse_file_config config g g_region_scan_config_items rs = (r, rs') \<Longrightarrow> region_scan_ok rs \<Longrightarrow> region_scan_ok rs'"
  using page_scan_conf.parse_file_config_keeps [of s config g]
    region_scan_conf.parse_file_config_keeps [of rs config g] by simp_all

lemma scan_fill_by_conf_matches:
  "scan_fill_by_conf config proj = Inr (ret, proj') \<Longrightarrow> scan_matches proj \<Longrightarrow> scan_matches proj'"
  by (auto simp: scan_fill_by_conf_def scan_matches_def dest: scan_tables_keep
      split: scan_type.splits option.splits scan_param.splits prod.splits)

text \<open>A successful page scan configuration has all three values in range.\<close>

lemma page_scan_filled:
  assumes "parse_file_config config g g_page_scan_config_items s = (0, s')"
  shows "1 \<le> scan_loop s' \<and> scan_loop s' \<le> 120 \<and> 1 \<le> scan_interval s' \<and> scan_interval s' \<le> 1200 \<and>
   1 \<le> scan_sleep s' \<and> scan_sleep s' \<le> 1200"
proof -
  let ?item = "\<lambda>k f. \<lparr>ci_key = k, ci_type = INT_VAL, ci_fill = f, ci_option = False\<rparr>"
  obtain s1 s2 where "parse_item config g (?item ''loop'' fill_page_scan_loop) s = (0, s1)"
    "parse_item config g (?item ''interval'' fill_page_scan_interval) s1 = (0, s2)"
    "parse_item config g (?item ''sleep'' fill_page_scan_sleep) s2 = (0, s')"
    using assms unfolding g_page_scan_config_items_def
    by (auto dest!: parse_file_config_step simp del: parse_file_config.simps(2) simp: parse_file_config.simps(1))
  then obtain a b c where "fill_page_scan_loop s (IntV a) = (0, s1)"
    "fill_page_scan_interval s1 (IntV b) = (0, s2)" "fill_page_scan_sleep s2 (IntV c) = (0, s')"
    by (auto dest!: parse_item_int)
  then show ?thesis
    by (auto simp: fill_page_scan_loop_def fill_page_scan_interval_def fill_page_scan_sleep_def Let_def
        split: if_splits)
qed

end
