(* ===== verification/Project.thy ===== *)
theory Project
  imports Project_Config
begin

text \<open>
  The registry of projects, engines and tasks (\<open>etmemd_project.c\<close>, \<open>etmemd_engine.c\<close> and the
  start and stop of a task in \<open>etmemd_pool_adapter.c\<close> and \<open>etmemd_slide.c\<close>). The global list
  \<open>g_projects\<close> is a list of projects; a pointer into it is an index. What an engine does to its
  tasks is the table \<open>engine_ops\<close>: a record of functions that may be absent, as in the code.
  The locale at the end is the contract the registry relies on, interpreted on the operations
  of the slide engine.
\<close>

section \<open>Operations of an engine\<close>

record ('q, 'p, 'e) engine_ops =
  op_fill_eng_params :: "(key_file \<Rightarrow> ('q, 'p, 'e) engine \<Rightarrow> int \<times> ('q, 'p, 'e) engine) option"
  op_fill_task_params :: "(key_file \<Rightarrow> ('q, 'p) task \<Rightarrow> int \<times> ('q, 'p) task) option"
  op_clear_task_params :: "(('q, 'p) task \<Rightarrow> ('q, 'p) task) option"
  op_start_task :: "(('q, 'p) task \<Rightarrow> int \<times> ('q, 'p) task) option"
  op_stop_task :: "(('q, 'p) task \<Rightarrow> ('q, 'p) task) option"
  op_eng_mgt_func :: "(('q, 'p, 'e) engine \<Rightarrow> ('q, 'p) task option \<Rightarrow> string \<Rightarrow> int \<times> string list) option"

type_synonym ('q, 'p, 'e) ops_of = "('q, 'p, 'e) engine \<Rightarrow> ('q, 'p, 'e) engine_ops"

datatype opt_result =
    OPT_SUCCESS | OPT_INVAL | OPT_PRO_EXISTED | OPT_PRO_STARTED | OPT_PRO_STOPPED | OPT_PRO_NOEXIST
  | OPT_ENG_EXISTED | OPT_ENG_NOEXIST | OPT_TASK_EXISTED | OPT_TASK_NOEXIST | OPT_INTER_ERR

section \<open>Looking up objects\<close>

fun find_idx :: "('a \<Rightarrow> bool) \<Rightarrow> 'a list \<Rightarrow> nat option" where
  "find_idx P [] = None"
| "find_idx P (x # xs) = (if P x then Some 0 else map_option Suc (find_idx P xs))"

definition get_proj_by_name :: "string \<Rightarrow> ('q, 'p, 'e) project list \<Rightarrow> nat option" where
  "get_proj_by_name name projs = find_idx (\<lambda>p. pj_name p = name) projs"

definition get_eng_by_name :: "('q, 'p, 'e) project \<Rightarrow> string \<Rightarrow> nat option" where
  "get_eng_by_name proj name = find_idx (\<lambda>e. en_name e = name) (pj_engs proj)"

definition get_task_by_name :: "('q, 'p, 'e) engine \<Rightarrow> string \<Rightarrow> nat option" where
  "get_task_by_name eng name = find_idx (\<lambda>t. tk_name t = Some name) (en_tasks eng)"

definition get_obj_key :: "string \<Rightarrow> string \<Rightarrow> string" where
  "get_obj_key obj_name group_name = (if obj_name = group_name then ''name'' else obj_name)"

definition get_name_by_key :: "key_file \<Rightarrow> string \<Rightarrow> string \<Rightarrow> string option" where
  "get_name_by_key config group_name key =
     (if \<not> kf_has_key config group_name key then None
      else case fst (kf_get_string config group_name key) of
        None \<Rightarrow> None
      | Some name \<Rightarrow> if length name > 64 then None else Some name)"

definition get_obj_name :: "key_file \<Rightarrow> string \<Rightarrow> string \<Rightarrow> string option" where
  "get_obj_name config group_name obj = get_name_by_key config group_name (get_obj_key obj group_name)"

text \<open>Each gives the result code and, on success, the index or NULL.\<close>

definition project_of_group ::
  "key_file \<Rightarrow> string \<Rightarrow> ('q, 'p, 'e) project list \<Rightarrow> opt_result \<times> nat option" where
  "project_of_group config group_name projs =
     (case get_obj_name config group_name ''project'' of
        None \<Rightarrow> (OPT_INVAL, None)
      | Some name \<Rightarrow> (OPT_SUCCESS, get_proj_by_name name projs))"

definition engine_of_group ::
  "key_file \<Rightarrow> string \<Rightarrow> ('q, 'p, 'e) project \<Rightarrow> opt_result \<times> nat option" where
  "engine_of_group config group_name proj =
     (case get_obj_name config group_name ''engine'' of
        None \<Rightarrow> (OPT_INVAL, None)
      | Some eng_name \<Rightarrow>
          if eng_name = ''thirdparty'' \<and> group_name = ''engine'' then
            (case get_name_by_key config ''engine'' ''eng_name'' of
               None \<Rightarrow> (OPT_INVAL, None)
             | Some n \<Rightarrow> (OPT_SUCCESS, get_eng_by_name proj n))
          else (OPT_SUCCESS, get_eng_by_name proj eng_name))"

definition task_of_group ::
  "key_file \<Rightarrow> string \<Rightarrow> ('q, 'p, 'e) engine \<Rightarrow> opt_result \<times> nat option" where
  "task_of_group config group_name eng =
     (case get_obj_name config group_name ''task'' of
        None \<Rightarrow> (OPT_INVAL, None)
      | Some name \<Rightarrow> (OPT_SUCCESS, get_task_by_name eng name))"

text \<open>\<open>get_group_objs\<close> for the project and the engine, and for all three.\<close>

definition group_engine ::
  "key_file \<Rightarrow> string \<Rightarrow> ('q, 'p, 'e) project list \<Rightarrow> opt_result \<times> nat option \<times> nat option" where
  "group_engine config g projs =
     (case project_of_group config g projs of
        (r, pi) \<Rightarrow>
          if r \<noteq> OPT_SUCCESS then (r, None, None)
          else case pi of
            None \<Rightarrow> (OPT_PRO_NOEXIST, None, None)
          | Some i \<Rightarrow> (case engine_of_group config g (projs ! i) of (r', ei) \<Rightarrow> (r', Some i, ei)))"

definition group_task ::
  "key_file \<Rightarrow> string \<Rightarrow> ('q, 'p, 'e) project list \<Rightarrow>
   opt_result \<times> nat option \<times> nat option \<times> nat option" where
  "group_task config g projs =
     (case group_engine config g projs of
        (r, pi, ei) \<Rightarrow>
          if r \<noteq> OPT_SUCCESS then (r, None, None, None)
          else case (pi, ei) of
            (Some i, Some j) \<Rightarrow>
              (case task_of_group config g (pj_engs (projs ! i) ! j) of
                 (r', ti) \<Rightarrow> (r', Some i, Some j, ti))
          | _ \<Rightarrow> (OPT_ENG_NOEXIST, None, None, None))"

section \<open>Updates\<close>

definition upd_engine :: "nat \<Rightarrow> nat \<Rightarrow> ('q, 'p, 'e) engine \<Rightarrow> ('q, 'p, 'e) project list \<Rightarrow>
  ('q, 'p, 'e) project list" where
  "upd_engine i j eng projs = projs[i := (projs ! i)\<lparr>pj_engs := (pj_engs (projs ! i))[j := eng]\<rparr>]"

definition remove_nth :: "nat \<Rightarrow> 'a list \<Rightarrow> 'a list" where
  "remove_nth i xs = take i xs @ drop (Suc i) xs"

definition opt_app :: "('a \<Rightarrow> 'a) option \<Rightarrow> 'a \<Rightarrow> 'a" where
  "opt_app f x = (case f of None \<Rightarrow> x | Some g \<Rightarrow> g x)"

text \<open>Removing a task from an engine: the state in which the task is released.\<close>

definition do_remove_task ::
  "('q, 'p, 'e) ops_of \<Rightarrow> bool \<Rightarrow> ('q, 'p, 'e) engine \<Rightarrow> ('q, 'p) task \<Rightarrow> ('q, 'p) task" where
  "do_remove_task ops start eng tk =
     (let tk1 = (if start then opt_app (op_stop_task (ops eng)) tk else tk)
      in opt_app (op_clear_task_params (ops eng)) tk1)"

text \<open>Removing an engine releases all its tasks; then the engine is unlinked.\<close>

definition do_remove_engine_tasks ::
  "('q, 'p, 'e) ops_of \<Rightarrow> bool \<Rightarrow> ('q, 'p, 'e) engine \<Rightarrow> ('q, 'p) task list" where
  "do_remove_engine_tasks ops start eng = map (do_remove_task ops start eng) (en_tasks eng)"

section \<open>Tasks\<close>

definition etmemd_project_add_task ::
  "('q, 'p, 'e) ops_of \<Rightarrow> nat \<Rightarrow> key_file \<Rightarrow> ('q, 'p, 'e) project list \<Rightarrow> alloc \<Rightarrow>
   opt_result \<times> ('q, 'p, 'e) project list \<times> ('q, 'p) task list" where
  "etmemd_project_add_task ops core config projs al =
     (case group_task config ''task'' projs of
        (r, pi, ei, ti) \<Rightarrow>
          if r \<noteq> OPT_SUCCESS then (r, projs, [])
          else case (pi, ei) of
            (Some i, Some j) \<Rightarrow>
              if ti \<noteq> None then (OPT_TASK_EXISTED, projs, [])
              else (case etmemd_add_task core config al of
                (None, _) \<Rightarrow> (OPT_INTER_ERR, projs, [])
              | (Some tk, _) \<Rightarrow>
                  let proj = projs ! i; eng = pj_engs proj ! j;
                      (ret, tk1) = (case op_fill_task_params (ops eng) of
                                      None \<Rightarrow> (0, tk) | Some f \<Rightarrow> f config tk)
                  in if ret \<noteq> 0 then (OPT_INTER_ERR, projs, [tk1])
                     else
                       let (ret2, tk2) =
                             (if pj_start proj then
                                (case op_start_task (ops eng) of None \<Rightarrow> (0, tk1) | Some f \<Rightarrow> f tk1)
                              else (0, tk1))
                       in if ret2 \<noteq> 0 then
                            (OPT_INTER_ERR, projs, [opt_app (op_clear_task_params (ops eng)) tk2])
                          else
                            (OPT_SUCCESS,
                             upd_engine i j (eng\<lparr>en_tasks := tk2 # en_tasks eng\<rparr>) projs, []))
          | _ \<Rightarrow> (OPT_INTER_ERR, projs, []))"

definition etmemd_project_remove_task ::
  "('q, 'p, 'e) ops_of \<Rightarrow> key_file \<Rightarrow> ('q, 'p, 'e) project list \<Rightarrow>
   opt_result \<times> ('q, 'p, 'e) project list \<times> ('q, 'p) task list" where
  "etmemd_project_remove_task ops config projs =
     (case group_task config ''task'' projs of
        (r, pi, ei, ti) \<Rightarrow>
          if r \<noteq> OPT_SUCCESS then (r, projs, [])
          else case (pi, ei, ti) of
            (Some i, Some j, Some k) \<Rightarrow>
              let proj = projs ! i; eng = pj_engs proj ! j in
              (OPT_SUCCESS, upd_engine i j (eng\<lparr>en_tasks := remove_nth k (en_tasks eng)\<rparr>) projs,
               [do_remove_task ops (pj_start proj) eng (en_tasks eng ! k)])
          | _ \<Rightarrow> (OPT_TASK_NOEXIST, projs, []))"

section \<open>Engines\<close>

definition g_engine_add_items :: "(string \<times> eng_type) list" where
  "g_engine_add_items =
     [(''slide'', SLIDE_ENGINE), (''cslide'', CSLIDE_ENGINE), (''memdcd'', MEMDCD_ENGINE),
      (''damon'', DAMON_ENGINE), (''thirdparty'', THIRDPARTY_ENGINE)]"

text \<open>A third-party engine is named by the key \<open>eng_name\<close>; \<open>load\<close> tells whether its library
  and operations could be loaded.\<close>

definition etmemd_engine_add ::
  "(key_file \<Rightarrow> bool) \<Rightarrow> key_file \<Rightarrow> alloc \<Rightarrow> ('q, 'p, 'e) engine option \<times> alloc" where
  "etmemd_engine_add load config al =
     (if \<not> kf_has_key config ''engine'' ''name'' then (None, al)
      else case fst (kf_get_string config ''engine'' ''name'') of
        None \<Rightarrow> (None, al)
      | Some name \<Rightarrow>
          (case map_of g_engine_add_items name of
             None \<Rightarrow> (None, al)
           | Some ty \<Rightarrow>
               (case c_alloc al of
                  (False, al') \<Rightarrow> (None, al')
                | (True, al') \<Rightarrow>
                    if ty \<noteq> THIRDPARTY_ENGINE then
                      (Some \<lparr>en_type = ty, en_name = name, en_params = None, en_tasks = []\<rparr>, al')
                    else if \<not> load config then (None, al')
                    else (map_option
                            (\<lambda>n. \<lparr>en_type = ty, en_name = n, en_params = None, en_tasks = []\<rparr>)
                            (fst (kf_get_string config ''engine'' ''eng_name'')), al'))))"

definition etmemd_project_add_engine ::
  "('q, 'p, 'e) ops_of \<Rightarrow> (key_file \<Rightarrow> bool) \<Rightarrow> key_file \<Rightarrow> ('q, 'p, 'e) project list \<Rightarrow> alloc \<Rightarrow>
   opt_result \<times> ('q, 'p, 'e) project list" where
  "etmemd_project_add_engine ops load config projs al =
     (case group_engine config ''engine'' projs of
        (r, pi, ei) \<Rightarrow>
          if r \<noteq> OPT_SUCCESS then (r, projs)
          else case pi of
            None \<Rightarrow> (OPT_PRO_NOEXIST, projs)
          | Some i \<Rightarrow>
              if ei \<noteq> None then (OPT_ENG_EXISTED, projs)
              else (case etmemd_engine_add load config al of
                (None, _) \<Rightarrow> (OPT_INTER_ERR, projs)
              | (Some eng, _) \<Rightarrow>
                  let proj = projs ! i;
                      (ret, eng') = (case op_fill_eng_params (ops eng) of
                                       None \<Rightarrow> (0, eng) | Some f \<Rightarrow> f config eng)
                  in if ret \<noteq> 0 then (OPT_INTER_ERR, projs)
                     else (OPT_SUCCESS, projs[i := proj\<lparr>pj_engs := eng' # pj_engs proj\<rparr>])))"

definition etmemd_project_remove_engine ::
  "('q, 'p, 'e) ops_of \<Rightarrow> key_file \<Rightarrow> ('q, 'p, 'e) project list \<Rightarrow>
   opt_result \<times> ('q, 'p, 'e) project list \<times> ('q, 'p) task list" where
  "etmemd_project_remove_engine ops config projs =
     (case group_engine config ''engine'' projs of
        (r, pi, ei) \<Rightarrow>
          if r \<noteq> OPT_SUCCESS then (r, projs, [])
          else case (pi, ei) of
            (Some i, Some j) \<Rightarrow>
              let proj = projs ! i; eng = pj_engs proj ! j in
              (OPT_SUCCESS, projs[i := proj\<lparr>pj_engs := remove_nth j (pj_engs proj)\<rparr>],
               do_remove_engine_tasks ops (pj_start proj) eng)
          | _ \<Rightarrow> (OPT_ENG_NOEXIST, projs, []))"

section \<open>Projects\<close>

definition etmemd_project_add ::
  "key_file \<Rightarrow> ('q, 'p, 'e) project list \<Rightarrow> alloc \<Rightarrow> (opt_result \<times> ('q, 'p, 'e) project list) c_res" where
  "etmemd_project_add config projs al =
     (case project_of_group config ''project'' projs of
        (r, pi) \<Rightarrow>
          if r \<noteq> OPT_SUCCESS then Inr (r, projs)
          else if pi \<noteq> None then Inr (OPT_PRO_EXISTED, projs)
          else case c_alloc al of
            (False, _) \<Rightarrow> Inr (OPT_INTER_ERR, projs)
          | (True, al') \<Rightarrow>
              (case project_fill_by_conf config new_project al' of
                 (ret, proj, _) \<Rightarrow>
                   if ret \<noteq> 0 then Inr (OPT_INVAL, projs)
                   else c_bind (scan_fill_by_conf config proj) (\<lambda>q. case q of (ret2, proj2) \<Rightarrow>
                     Inr (if ret2 \<noteq> 0 then (OPT_INVAL, projs) else (OPT_SUCCESS, proj2 # projs)))))"

definition do_remove_project ::
  "('q, 'p, 'e) ops_of \<Rightarrow> ('q, 'p, 'e) project \<Rightarrow> ('q, 'p) task list" where
  "do_remove_project ops proj = concat (map (do_remove_engine_tasks ops (pj_start proj)) (pj_engs proj))"

definition etmemd_project_remove ::
  "('q, 'p, 'e) ops_of \<Rightarrow> key_file \<Rightarrow> ('q, 'p, 'e) project list \<Rightarrow>
   opt_result \<times> ('q, 'p, 'e) project list \<times> ('q, 'p) task list" where
  "etmemd_project_remove ops config projs =
     (case project_of_group config ''project'' projs of
        (r, pi) \<Rightarrow>
          if r \<noteq> OPT_SUCCESS then (r, projs, [])
          else case pi of
            None \<Rightarrow> (OPT_PRO_NOEXIST, projs, [])
          | Some i \<Rightarrow> (OPT_SUCCESS, remove_nth i projs, do_remove_project ops (projs ! i)))"

definition etmemd_stop_all_projects ::
  "('q, 'p, 'e) ops_of \<Rightarrow> ('q, 'p, 'e) project list \<Rightarrow> ('q, 'p, 'e) project list \<times> ('q, 'p) task list" where
  "etmemd_stop_all_projects ops projs = ([], concat (map (do_remove_project ops) projs))"

section \<open>Start and stop\<close>

fun start_each :: "(('q, 'p) task \<Rightarrow> int \<times> ('q, 'p) task) \<Rightarrow> ('q, 'p) task list \<Rightarrow> int \<times> ('q, 'p) task list" where
  "start_each f [] = (0, [])"
| "start_each f (tk # tks) =
     (case f tk of (r, tk') \<Rightarrow>
        (case start_each f tks of (r', tks') \<Rightarrow> (if r \<noteq> 0 then -1 else r', tk' # tks')))"

definition project_start_engine ::
  "('q, 'p, 'e) ops_of \<Rightarrow> ('q, 'p, 'e) engine \<Rightarrow> int \<times> ('q, 'p, 'e) engine" where
  "project_start_engine ops eng =
     (case op_start_task (ops eng) of
        None \<Rightarrow> (-1, eng)
      | Some f \<Rightarrow> (case start_each f (en_tasks eng) of (ret, tks) \<Rightarrow> (ret, eng\<lparr>en_tasks := tks\<rparr>)))"

fun start_tasks ::
  "('q, 'p, 'e) ops_of \<Rightarrow> ('q, 'p, 'e) engine list \<Rightarrow> int \<times> ('q, 'p, 'e) engine list" where
  "start_tasks ops [] = (0, [])"
| "start_tasks ops (eng # engs) =
     (case project_start_engine ops eng of (r, eng') \<Rightarrow>
        (case start_tasks ops engs of (r', engs') \<Rightarrow> (if r \<noteq> 0 then -1 else r', eng' # engs')))"

definition project_stop_engine :: "('q, 'p, 'e) ops_of \<Rightarrow> ('q, 'p, 'e) engine \<Rightarrow> ('q, 'p, 'e) engine" where
  "project_stop_engine ops eng =
     (case op_stop_task (ops eng) of
        None \<Rightarrow> eng
      | Some f \<Rightarrow> eng\<lparr>en_tasks := map f (en_tasks eng)\<rparr>)"

text \<open>\<open>damon\<close> is the result of \<open>etmemd_start_damon\<close> and \<open>etmemd_stop_damon\<close>.\<close>

definition etmemd_migrate_start ::
  "('q, 'p, 'e) ops_of \<Rightarrow> int \<Rightarrow> string option \<Rightarrow> ('q, 'p, 'e) project list \<Rightarrow>
   opt_result \<times> ('q, 'p, 'e) project list" where
  "etmemd_migrate_start ops damon project_name projs =
     (case project_name of
        None \<Rightarrow> (OPT_INVAL, projs)
      | Some name \<Rightarrow>
          (case get_proj_by_name name projs of
             None \<Rightarrow> (OPT_PRO_NOEXIST, projs)
           | Some i \<Rightarrow>
               let proj = projs ! i in
               if pj_start proj then (OPT_PRO_STARTED, projs)
               else case pj_type proj of
                 PAGE_SCAN \<Rightarrow>
                   (case start_tasks ops (pj_engs proj) of
                      (ret, engs) \<Rightarrow>
                        if ret \<noteq> 0 then (OPT_INTER_ERR, projs[i := proj\<lparr>pj_engs := engs\<rparr>])
                        else (OPT_SUCCESS, projs[i := proj\<lparr>pj_engs := engs, pj_start := True\<rparr>]))
               | REGION_SCAN \<Rightarrow>
                   if damon \<noteq> 0 then (OPT_INTER_ERR, projs)
                   else (OPT_SUCCESS, projs[i := proj\<lparr>pj_start := True\<rparr>])))"

definition etmemd_migrate_stop ::
  "('q, 'p, 'e) ops_of \<Rightarrow> int \<Rightarrow> string option \<Rightarrow> ('q, 'p, 'e) project list \<Rightarrow>
   opt_result \<times> ('q, 'p, 'e) project list" where
  "etmemd_migrate_stop ops damon project_name projs =
     (case project_name of
        None \<Rightarrow> (OPT_INVAL, projs)
      | Some name \<Rightarrow>
          (case get_proj_by_name name projs of
             None \<Rightarrow> (OPT_PRO_NOEXIST, projs)
           | Some i \<Rightarrow>
               let proj = projs ! i in
               if \<not> pj_start proj then (OPT_PRO_STOPPED, projs)
               else case pj_type proj of
                 PAGE_SCAN \<Rightarrow>
                   (OPT_SUCCESS,
                    projs[i := proj\<lparr>pj_engs := map (project_stop_engine ops) (pj_engs proj), pj_start := False\<rparr>])
               | REGION_SCAN \<Rightarrow>
                   if damon \<noteq> 0 then (OPT_INTER_ERR, projs)
                   else (OPT_SUCCESS, projs[i := proj\<lparr>pj_start := False\<rparr>])))"

text \<open>A command for an engine gives the result and the texts it printed for the client.\<close>

definition etmemd_project_mgt_engine ::
  "('q, 'p, 'e) ops_of \<Rightarrow> string option \<Rightarrow> string option \<Rightarrow> string option \<Rightarrow> string option \<Rightarrow>
   ('q, 'p, 'e) project list \<Rightarrow> opt_result \<times> string list" where
  "etmemd_project_mgt_engine ops project_name eng_name cmd task_name projs =
     (case (project_name, eng_name, cmd) of
        (Some pn, Some en, Some c) \<Rightarrow>
          (case get_proj_by_name pn projs of
             None \<Rightarrow> (OPT_PRO_NOEXIST, [])
           | Some i \<Rightarrow>
               let proj = projs ! i in
               if \<not> pj_start proj then (OPT_INVAL, [])
               else case get_eng_by_name proj en of
                 None \<Rightarrow> (OPT_ENG_NOEXIST, [])
               | Some j \<Rightarrow>
                   let eng = pj_engs proj ! j;
                       ti = (case task_name of None \<Rightarrow> None | Some tn \<Rightarrow> get_task_by_name eng tn)
                   in if task_name \<noteq> None \<and> ti = None then (OPT_TASK_NOEXIST, [])
                      else case op_eng_mgt_func (ops eng) of
                        None \<Rightarrow> (OPT_INVAL, [])
                      | Some f \<Rightarrow>
                          (case f eng (map_option (\<lambda>k. en_tasks eng ! k) ti) c of
                             (r, out) \<Rightarrow> (if r \<noteq> 0 then OPT_INVAL else OPT_SUCCESS, out)))
      | _ \<Rightarrow> (OPT_INVAL, []))"

section \<open>Lemmas on lists\<close>

lemma find_idx_Some: "find_idx P xs = Some i \<Longrightarrow> i < length xs \<and> P (xs ! i)"
  by (induction xs arbitrary: i) (auto split: if_splits)

lemma find_idx_None: "find_idx P xs = None \<longleftrightarrow> (\<forall>x\<in>set xs. \<not> P x)"
  by (induction xs) auto

lemma set_remove_nth: "set (remove_nth i xs) \<subseteq> set xs"
  by (auto simp: remove_nth_def dest: in_set_takeD in_set_dropD)

lemma map_remove_nth: "map f (remove_nth i xs) = remove_nth i (map f xs)"
  by (simp add: remove_nth_def take_map drop_map)

lemma distinct_remove_nth: "distinct xs \<Longrightarrow> distinct (remove_nth i xs)"
  unfolding remove_nth_def
  by (metis Suc_n_not_le_n distinct_append distinct_drop distinct_take linear set_take_disj_set_drop_if_distinct)

lemma map_update_same: "i < length xs \<Longrightarrow> f y = f (xs ! i) \<Longrightarrow> map f (xs[i := y]) = map f xs"
  by (metis list_update_id map_update)

section \<open>The invariant of the registry\<close>

text \<open>Names of tasks are distinct, and no task runs unless the project is started and the
  engine can start tasks.\<close>

definition eng_inv :: "('q, 'p, 'e) ops_of \<Rightarrow> bool \<Rightarrow> ('q, 'p, 'e) engine \<Rightarrow> bool" where
  "eng_inv ops start eng \<longleftrightarrow> distinct (map tk_name (en_tasks eng)) \<and>
     (\<not> start \<or> op_start_task (ops eng) = None \<longrightarrow> (\<forall>t\<in>set (en_tasks eng). \<not> tk_timer t))"

definition proj_inv :: "('q, 'p, 'e) ops_of \<Rightarrow> ('q, 'p, 'e) project \<Rightarrow> bool" where
  "proj_inv ops proj \<longleftrightarrow> distinct (map en_name (pj_engs proj)) \<and>
     (\<forall>e\<in>set (pj_engs proj). eng_inv ops (pj_start proj) e)"

definition reg_inv :: "('q, 'p, 'e) ops_of \<Rightarrow> ('q, 'p, 'e) project list \<Rightarrow> bool" where
  "reg_inv ops projs \<longleftrightarrow> distinct (map pj_name projs) \<and> (\<forall>p\<in>set projs. proj_inv ops p)"

section \<open>The contract of an engine\<close>

text \<open>
  What the registry relies on: no operation renames a task or an engine, stopping a task ends
  its timer, only starting begins one, an engine that can start tasks can stop them, and the
  operations of an engine do not depend on its list of tasks.
\<close>

locale engine_contract =
  fixes ops :: "('q, 'p, 'e) ops_of"
  assumes ops_tasks: "ops (eng\<lparr>en_tasks := ts\<rparr>) = ops eng"
    and can_stop: "op_start_task (ops eng) \<noteq> None \<Longrightarrow> op_stop_task (ops eng) \<noteq> None"
    and fill_eng: "op_fill_eng_params (ops eng) = Some f \<Longrightarrow>
      en_name (snd (f config eng)) = en_name eng \<and> en_tasks (snd (f config eng)) = en_tasks eng"
    and fill_task: "op_fill_task_params (ops eng) = Some g \<Longrightarrow>
      tk_name (snd (g config tk)) = tk_name tk \<and> tk_timer (snd (g config tk)) = tk_timer tk"
    and clear_task: "op_clear_task_params (ops eng) = Some c \<Longrightarrow> tk_timer (c tk) = tk_timer tk"
    and start_task: "op_start_task (ops eng) = Some s \<Longrightarrow>
      tk_name (snd (s tk)) = tk_name tk \<and> (fst (s tk) \<noteq> 0 \<longrightarrow> tk_timer (snd (s tk)) \<longrightarrow> tk_timer tk)"
    and stop_task: "op_stop_task (ops eng) = Some t \<Longrightarrow> tk_name (t tk) = tk_name tk \<and> \<not> tk_timer (t tk)"
begin

lemma fill_eng_eq: "op_fill_eng_params (ops eng) = Some f \<Longrightarrow> f config eng = (r, eng') \<Longrightarrow>
   en_name eng' = en_name eng \<and> en_tasks eng' = en_tasks eng"
  using fill_eng [of eng f config] by simp

lemma fill_task_eq: "op_fill_task_params (ops eng) = Some f \<Longrightarrow> f config tk = (r, tk') \<Longrightarrow>
   tk_name tk' = tk_name tk \<and> tk_timer tk' = tk_timer tk"
  using fill_task [of eng f config tk] by simp

lemma start_task_eq: "op_start_task (ops eng) = Some f \<Longrightarrow> f tk = (r, tk') \<Longrightarrow>
   tk_name tk' = tk_name tk \<and> (r \<noteq> 0 \<longrightarrow> tk_timer tk' \<longrightarrow> tk_timer tk)"
  using start_task [of eng f tk] by simp

lemma no_stop: "op_stop_task (ops eng) = None \<Longrightarrow> op_start_task (ops eng) = None"
  using can_stop [of eng] by (cases "op_start_task (ops eng)") auto

lemma reg_inv_nth: "reg_inv ops projs \<Longrightarrow> i < length projs \<Longrightarrow> proj_inv ops (projs ! i)"
  by (simp add: reg_inv_def)

lemma reg_inv_update:
  "reg_inv ops projs \<Longrightarrow> i < length projs \<Longrightarrow> pj_name p = pj_name (projs ! i) \<Longrightarrow> proj_inv ops p \<Longrightarrow>
   reg_inv ops (projs[i := p])"
  by (auto simp: reg_inv_def map_update_same dest!: set_update_subset_insert [THEN subsetD])

lemma reg_inv_upd_engine:
  assumes "reg_inv ops projs" "i < length projs" "j < length (pj_engs (projs ! i))"
    and "en_name e = en_name (pj_engs (projs ! i) ! j)" "eng_inv ops (pj_start (projs ! i)) e"
  shows "reg_inv ops (upd_engine i j e projs)"
  unfolding upd_engine_def
proof (rule reg_inv_update [OF assms(1,2)])
  have "proj_inv ops (projs ! i)" using assms(1,2) by (rule reg_inv_nth)
  then show "proj_inv ops ((projs ! i)\<lparr>pj_engs := (pj_engs (projs ! i))[j := e]\<rparr>)"
    using assms(3-5) by (auto simp: proj_inv_def map_update_same dest!: set_update_subset_insert [THEN subsetD])
qed simp

text \<open>A task whose name is free can be put in front.\<close>

lemma eng_inv_add:
  "eng_inv ops start eng \<Longrightarrow> tk_name tk \<notin> tk_name ` set (en_tasks eng) \<Longrightarrow>
   (tk_timer tk \<longrightarrow> start \<and> op_start_task (ops eng) \<noteq> None) \<Longrightarrow>
   eng_inv ops start (eng\<lparr>en_tasks := tk # en_tasks eng\<rparr>)"
  by (auto simp: eng_inv_def ops_tasks)

lemma eng_inv_remove: "eng_inv ops start eng \<Longrightarrow> eng_inv ops start (eng\<lparr>en_tasks := remove_nth k (en_tasks eng)\<rparr>)"
  using set_remove_nth [of k "en_tasks eng"]
  by (auto simp: eng_inv_def ops_tasks map_remove_nth distinct_remove_nth)

lemma start_each_names: "op_start_task (ops eng) = Some f \<Longrightarrow> map tk_name (snd (start_each f ts)) = map tk_name ts"
  by (induction ts) (auto simp: split_beta dest!: start_task)

lemma start_engine_inv:
  "eng_inv ops start eng \<Longrightarrow> eng_inv ops True (snd (project_start_engine ops eng)) \<and>
   en_name (snd (project_start_engine ops eng)) = en_name eng"
  by (auto simp: project_start_engine_def eng_inv_def ops_tasks split_beta start_each_names
      split: option.splits)

lemma start_tasks_inv:
  "\<forall>e\<in>set engs. eng_inv ops start e \<Longrightarrow>
   (\<forall>e\<in>set (snd (start_tasks ops engs)). eng_inv ops True e) \<and>
   map en_name (snd (start_tasks ops engs)) = map en_name engs"
  by (induction engs) (auto simp: split_beta start_engine_inv)

lemma stop_engine_inv:
  "eng_inv ops start eng \<Longrightarrow> eng_inv ops False (project_stop_engine ops eng) \<and>
   en_name (project_stop_engine ops eng) = en_name eng"
proof -
  assume inv: "eng_inv ops start eng"
  show ?thesis
  proof (cases "op_stop_task (ops eng)")
    case None
    then have "op_start_task (ops eng) = None" by (rule no_stop)
    with inv None show ?thesis by (auto simp: project_stop_engine_def eng_inv_def)
  next
    case (Some f)
    have "tk_name \<circ> f = tk_name" using stop_task [OF Some] by auto
    with Some inv stop_task [OF Some] show ?thesis
      by (auto simp: project_stop_engine_def eng_inv_def)
  qed
qed

lemma clear_timer: "tk_timer (opt_app (op_clear_task_params (ops eng)) t) = tk_timer t"
  using clear_task by (cases "op_clear_task_params (ops eng)") (simp_all add: opt_app_def)

lemma released_task:
  "eng_inv ops start eng \<Longrightarrow> tk \<in> set (en_tasks eng) \<Longrightarrow> \<not> tk_timer (do_remove_task ops start eng tk)"
proof -
  assume inv: "eng_inv ops start eng" "tk \<in> set (en_tasks eng)"
  have "\<not> tk_timer (if start then opt_app (op_stop_task (ops eng)) tk else tk)"
    using inv no_stop [of eng] stop_task [of eng]
    by (auto simp: eng_inv_def opt_app_def split: option.splits)
  then show ?thesis by (simp add: do_remove_task_def Let_def clear_timer)
qed

text \<open>Each operation keeps the invariant, and releases only tasks that do not run.\<close>

lemma project_of_group_idx:
  "project_of_group config g projs = (r, Some i) \<Longrightarrow> i < length projs"
  by (auto simp: project_of_group_def get_proj_by_name_def dest: find_idx_Some split: option.splits)

lemma group_engine_idx:
  "group_engine config g projs = (OPT_SUCCESS, pi, ei) \<Longrightarrow>
   \<exists>i. pi = Some i \<and> i < length projs \<and> (\<forall>j. ei = Some j \<longrightarrow> j < length (pj_engs (projs ! i))) \<and>
     engine_of_group config g (projs ! i) = (OPT_SUCCESS, ei)"
  by (auto simp: group_engine_def engine_of_group_def get_eng_by_name_def
      split: option.splits prod.splits if_splits
      dest!: project_of_group_idx find_idx_Some)

lemma group_task_idx:
  "group_task config g projs = (OPT_SUCCESS, pi, ei, ti) \<Longrightarrow>
   \<exists>i j. pi = Some i \<and> ei = Some j \<and> i < length projs \<and> j < length (pj_engs (projs ! i)) \<and>
     (\<forall>k. ti = Some k \<longrightarrow> k < length (en_tasks (pj_engs (projs ! i) ! j))) \<and>
     task_of_group config g (pj_engs (projs ! i) ! j) = (OPT_SUCCESS, ti)"
  by (auto simp: group_task_def task_of_group_def get_task_by_name_def
      split: option.splits prod.splits if_splits dest!: group_engine_idx find_idx_Some)

lemma reg_inv_eng:
  "reg_inv ops projs \<Longrightarrow> i < length projs \<Longrightarrow> j < length (pj_engs (projs ! i)) \<Longrightarrow>
   eng_inv ops (pj_start (projs ! i)) (pj_engs (projs ! i) ! j)"
  using reg_inv_nth [of projs i] by (simp add: proj_inv_def)

lemma add_project_inv:
  assumes "reg_inv ops projs" "etmemd_project_add config projs al = Inr (r, projs')"
  shows "reg_inv ops projs'"
proof (cases "projs' = projs")
  case False
  with assms(2) obtain proj al1 al2 proj2 ret where
    n: "project_of_group config ''project'' projs = (OPT_SUCCESS, None)"
    and f: "project_fill_by_conf config new_project al1 = (0, proj, al2)"
    and sc: "scan_fill_by_conf config proj = Inr (ret, proj2)" and p: "projs' = proj2 # projs"
    by (auto simp: etmemd_project_add_def split: prod.splits if_splits bool.splits)
  note ok = project_fill_by_conf_ok [OF f] and kept = scan_fill_by_conf_keeps [OF sc]
  from n ok(3) have "\<forall>q\<in>set projs. pj_name q \<noteq> pj_name proj"
    by (auto simp: project_of_group_def get_obj_name_def get_obj_key_def get_name_by_key_def
        get_proj_by_name_def find_idx_None split: option.splits if_splits)
  moreover have "proj_inv ops proj2" using ok(1) kept by (simp add: proj_inv_def proj_obj_ok_def)
  ultimately show ?thesis using assms(1) kept by (auto simp: p reg_inv_def)
qed (use assms in simp)

lemma engine_name_free:
  assumes "engine_of_group config ''engine'' proj = (OPT_SUCCESS, None)"
    "etmemd_engine_add load config al = (Some eng, al')"
  shows "en_name eng \<notin> en_name ` set (pj_engs proj)" "en_tasks eng = []"
  using assms
  by (auto simp: engine_of_group_def etmemd_engine_add_def get_obj_name_def get_obj_key_def
      get_name_by_key_def get_eng_by_name_def find_idx_None g_engine_add_items_def
      split: option.splits if_splits prod.splits bool.splits)

lemma add_engine_inv:
  assumes "reg_inv ops projs" "etmemd_project_add_engine ops load config projs al = (r, projs')"
  shows "reg_inv ops projs'"
proof (cases "projs' = projs")
  case False
  with assms(2) obtain i eng al1 eng' ret where
    g: "group_engine config ''engine'' projs = (OPT_SUCCESS, Some i, None)"
    and e: "etmemd_engine_add load config al = (Some eng, al1)"
    and f: "(case op_fill_eng_params (ops eng) of None \<Rightarrow> (0, eng) | Some f \<Rightarrow> f config eng) = (ret, eng')"
    and p: "projs' = projs[i := (projs ! i)\<lparr>pj_engs := eng' # pj_engs (projs ! i)\<rparr>]"
    by (auto simp: etmemd_project_add_engine_def Let_def split: prod.splits if_splits option.splits)
  from group_engine_idx [OF g] have i: "i < length projs"
    and n: "engine_of_group config ''engine'' (projs ! i) = (OPT_SUCCESS, None)" by auto
  have eng': "en_name eng' = en_name eng" "en_tasks eng' = []"
    using f engine_name_free(2) [OF n e] by (auto split: option.splits dest: fill_eng_eq)
  with engine_name_free(1) [OF n e] reg_inv_nth [OF assms(1) i]
  have "proj_inv ops ((projs ! i)\<lparr>pj_engs := eng' # pj_engs (projs ! i)\<rparr>)"
    by (auto simp: proj_inv_def eng_inv_def)
  with assms(1) i show ?thesis unfolding p by (intro reg_inv_update) simp_all
qed (use assms in simp)

lemma remove_engine_inv:
  assumes "reg_inv ops projs" "etmemd_project_remove_engine ops config projs = (r, projs', rel)"
  shows "reg_inv ops projs' \<and> (\<forall>t\<in>set rel. \<not> tk_timer t)"
proof (cases "r = OPT_SUCCESS")
  case True
  with assms(2) obtain i j where
    g: "group_engine config ''engine'' projs = (OPT_SUCCESS, Some i, Some j)"
    and p: "projs' = projs[i := (projs ! i)\<lparr>pj_engs := remove_nth j (pj_engs (projs ! i))\<rparr>]"
    and rel: "rel = do_remove_engine_tasks ops (pj_start (projs ! i)) (pj_engs (projs ! i) ! j)"
    by (auto simp: etmemd_project_remove_engine_def Let_def split: prod.splits if_splits option.splits)
  from group_engine_idx [OF g] have ij: "i < length projs" "j < length (pj_engs (projs ! i))" by auto
  have "proj_inv ops ((projs ! i)\<lparr>pj_engs := remove_nth j (pj_engs (projs ! i))\<rparr>)"
    using reg_inv_nth [OF assms(1) ij(1)] set_remove_nth [of j "pj_engs (projs ! i)"]
    by (auto simp: proj_inv_def map_remove_nth distinct_remove_nth)
  then have "reg_inv ops projs'" using assms(1) ij(1) unfolding p by (intro reg_inv_update) simp_all
  moreover have "\<forall>t\<in>set rel. \<not> tk_timer t"
    using released_task [OF reg_inv_eng [OF assms(1) ij]] by (auto simp: rel do_remove_engine_tasks_def)
  ultimately show ?thesis by blast
next
  case False
  with assms show ?thesis
    by (auto simp: etmemd_project_remove_engine_def Let_def split: prod.splits if_splits option.splits)
qed

lemma remove_task_inv:
  assumes "reg_inv ops projs" "etmemd_project_remove_task ops config projs = (r, projs', rel)"
  shows "reg_inv ops projs' \<and> (\<forall>t\<in>set rel. \<not> tk_timer t)"
proof (cases "r = OPT_SUCCESS")
  case True
  with assms(2) obtain i j k where
    g: "group_task config ''task'' projs = (OPT_SUCCESS, Some i, Some j, Some k)"
    and p: "projs' = upd_engine i j ((pj_engs (projs ! i) ! j)\<lparr>en_tasks :=
        remove_nth k (en_tasks (pj_engs (projs ! i) ! j))\<rparr>) projs"
    and rel: "rel = [do_remove_task ops (pj_start (projs ! i)) (pj_engs (projs ! i) ! j)
        (en_tasks (pj_engs (projs ! i) ! j) ! k)]"
    by (auto simp: etmemd_project_remove_task_def Let_def split: prod.splits if_splits option.splits)
  from group_task_idx [OF g] have ij: "i < length projs" "j < length (pj_engs (projs ! i))"
    "k < length (en_tasks (pj_engs (projs ! i) ! j))" by auto
  note inv = reg_inv_eng [OF assms(1) ij(1,2)]
  have "reg_inv ops projs'"
    unfolding p by (rule reg_inv_upd_engine [OF assms(1) ij(1,2)]) (simp_all add: eng_inv_remove inv)
  moreover have "\<forall>t\<in>set rel. \<not> tk_timer t" using released_task [OF inv] ij(3) by (simp add: rel)
  ultimately show ?thesis by blast
next
  case False
  with assms show ?thesis
    by (auto simp: etmemd_project_remove_task_def Let_def split: prod.splits if_splits option.splits)
qed

lemma task_name_free:
  assumes "task_of_group config ''task'' eng = (OPT_SUCCESS, None)"
    "etmemd_add_task core config al = (Some tk, al')"
  shows "tk_name tk \<notin> tk_name ` set (en_tasks eng)"
  using assms(1) etmemd_add_task_name [OF assms(2)]
  by (auto simp: task_of_group_def get_obj_name_def get_obj_key_def get_name_by_key_def
      get_task_by_name_def find_idx_None split: option.splits if_splits)

text \<open>A new task after its parameters are filled, and after it was started if it has to be.\<close>

lemma filled_task:
  assumes "etmemd_add_task core config al = (Some tk, al')"
    and "(case op_fill_task_params (ops eng) of None \<Rightarrow> (0, tk) | Some f \<Rightarrow> f config tk) = (ret, tk1)"
  shows "tk_name tk1 = tk_name tk" "\<not> tk_timer tk1"
  using assms(2) etmemd_add_task_name(3) [OF assms(1)] by (auto split: option.splits dest: fill_task_eq)

lemma started_task:
  assumes "(if start then case op_start_task (ops eng) of None \<Rightarrow> (0, tk1) | Some f \<Rightarrow> f tk1 else (0, tk1))
      = (ret2, tk2)" "\<not> tk_timer tk1"
  shows "tk_name tk2 = tk_name tk1" "tk_timer tk2 \<Longrightarrow> start \<and> op_start_task (ops eng) \<noteq> None"
    "ret2 \<noteq> 0 \<Longrightarrow> \<not> tk_timer tk2"
proof -
  show "tk_name tk2 = tk_name tk1" "tk_timer tk2 \<Longrightarrow> start \<and> op_start_task (ops eng) \<noteq> None"
    using assms by (auto split: if_splits option.splits dest: start_task_eq)
  show "\<not> tk_timer tk2" if "ret2 \<noteq> 0"
    using assms that by (auto split: if_splits option.splits dest: start_task_eq)
qed

lemma add_task_inv:
  assumes "reg_inv ops projs" "etmemd_project_add_task ops core config projs al = (r, projs', rel)"
  shows "reg_inv ops projs' \<and> (\<forall>t\<in>set rel. \<not> tk_timer t)"
proof (cases "projs' = projs \<and> rel = []")
  case False
  with assms(2) obtain i j tk al1 ret tk1 where
    g: "group_task config ''task'' projs = (OPT_SUCCESS, Some i, Some j, None)"
    and t: "etmemd_add_task core config al = (Some tk, al1)"
    and f: "(case op_fill_task_params (ops (pj_engs (projs ! i) ! j)) of
        None \<Rightarrow> (0, tk) | Some f \<Rightarrow> f config tk) = (ret, tk1)"
    by (auto simp: etmemd_project_add_task_def Let_def split: prod.splits if_splits option.splits)
  let ?eng = "pj_engs (projs ! i) ! j" and ?start = "pj_start (projs ! i)"
  obtain ret2 tk2 where s: "(if ?start then case op_start_task (ops ?eng) of
      None \<Rightarrow> (0, tk1) | Some f \<Rightarrow> f tk1 else (0, tk1)) = (ret2, tk2)"
    by (cases "if ?start then case op_start_task (ops ?eng) of None \<Rightarrow> (0, tk1) | Some f \<Rightarrow> f tk1 else (0, tk1)")
  from group_task_idx [OF g] have ij: "i < length projs" "j < length (pj_engs (projs ! i))"
    and n: "task_of_group config ''task'' ?eng = (OPT_SUCCESS, None)" by auto
  note filled = filled_task [OF t f] and started = started_task [OF s filled_task(2) [OF t f]]
  have "etmemd_project_add_task ops core config projs al =
      (if ret \<noteq> 0 then (OPT_INTER_ERR, projs, [tk1])
       else if ret2 \<noteq> 0 then (OPT_INTER_ERR, projs, [opt_app (op_clear_task_params (ops ?eng)) tk2])
       else (OPT_SUCCESS, upd_engine i j (?eng\<lparr>en_tasks := tk2 # en_tasks ?eng\<rparr>) projs, []))"
    by (cases "ret = 0"; cases "ret2 = 0") (simp_all add: etmemd_project_add_task_def g t f s Let_def)
  note out = this [unfolded assms(2)]
  have "eng_inv ops ?start (?eng\<lparr>en_tasks := tk2 # en_tasks ?eng\<rparr>)"
    using task_name_free [OF n t] filled(1) started(1,2) by (intro eng_inv_add reg_inv_eng assms ij) auto
  then have "reg_inv ops (upd_engine i j (?eng\<lparr>en_tasks := tk2 # en_tasks ?eng\<rparr>) projs)"
    by (intro reg_inv_upd_engine assms ij) simp_all
  with out assms(1) filled(2) started(3) show ?thesis by (auto simp: clear_timer split: if_splits)
qed (use assms in simp)

lemma remove_project_inv:
  assumes "reg_inv ops projs" "etmemd_project_remove ops config projs = (r, projs', rel)"
  shows "reg_inv ops projs' \<and> (\<forall>t\<in>set rel. \<not> tk_timer t)"
proof (cases "r = OPT_SUCCESS")
  case True
  with assms(2) obtain i where g: "project_of_group config ''project'' projs = (OPT_SUCCESS, Some i)"
    and p: "projs' = remove_nth i projs" and rel: "rel = do_remove_project ops (projs ! i)"
    by (auto simp: etmemd_project_remove_def split: prod.splits if_splits option.splits)
  have "reg_inv ops projs'"
    using assms(1) set_remove_nth [of i projs] by (auto simp: p reg_inv_def map_remove_nth distinct_remove_nth)
  moreover have "\<forall>t\<in>set rel. \<not> tk_timer t"
    using reg_inv_nth [OF assms(1) project_of_group_idx [OF g]] released_task
    by (auto simp: rel do_remove_project_def do_remove_engine_tasks_def proj_inv_def)
  ultimately show ?thesis by blast
next
  case False
  with assms show ?thesis by (auto simp: etmemd_project_remove_def split: prod.splits if_splits option.splits)
qed

lemma stop_all_inv:
  assumes "reg_inv ops projs" "etmemd_stop_all_projects ops projs = (projs', rel)"
  shows "reg_inv ops projs' \<and> (\<forall>t\<in>set rel. \<not> tk_timer t)"
  using assms released_task
  by (auto simp: etmemd_stop_all_projects_def reg_inv_def proj_inv_def do_remove_project_def
      do_remove_engine_tasks_def)

lemma migrate_start_inv:
  assumes "reg_inv ops projs" "etmemd_migrate_start ops damon name projs = (r, projs')" "r \<noteq> OPT_INTER_ERR"
  shows "reg_inv ops projs'"
proof (cases "projs' = projs")
  case False
  with assms(2,3) obtain nm i where
    n: "get_proj_by_name nm projs = Some i"
    and p: "projs' = projs[i := (projs ! i)\<lparr>pj_engs := snd (start_tasks ops (pj_engs (projs ! i))), pj_start := True\<rparr>]
      \<or> projs' = projs[i := (projs ! i)\<lparr>pj_start := True\<rparr>]"
    by (auto simp: etmemd_migrate_start_def Let_def
        split: option.splits if_splits scan_type.splits prod.splits)
  have i: "i < length projs" using find_idx_Some n by (fastforce simp: get_proj_by_name_def)
  have inv: "proj_inv ops (projs ! i)" by (rule reg_inv_nth [OF assms(1) i])
  have "proj_inv ops ((projs ! i)\<lparr>pj_engs := snd (start_tasks ops (pj_engs (projs ! i))), pj_start := True\<rparr>)"
    using inv start_tasks_inv [of "pj_engs (projs ! i)" "pj_start (projs ! i)"] by (simp add: proj_inv_def)
  moreover have "proj_inv ops ((projs ! i)\<lparr>pj_start := True\<rparr>)"
    using inv by (auto simp: proj_inv_def eng_inv_def)
  ultimately show ?thesis using p assms(1) i by (auto intro: reg_inv_update)
qed (use assms in simp)

lemma migrate_stop_inv:
  assumes "reg_inv ops projs" "etmemd_migrate_stop ops damon name projs = (r, projs')"
    and "\<forall>p\<in>set projs. pj_type p = PAGE_SCAN"
  shows "reg_inv ops projs'"
proof (cases "projs' = projs")
  case False
  with assms(2) obtain nm i where
    n: "get_proj_by_name nm projs = Some i"
    and p: "projs' = projs[i := (projs ! i)\<lparr>pj_engs := map (project_stop_engine ops) (pj_engs (projs ! i)), pj_start := False\<rparr>]
      \<or> pj_type (projs ! i) = REGION_SCAN"
    by (auto simp: etmemd_migrate_stop_def Let_def split: option.splits if_splits scan_type.splits)
  have i: "i < length projs" using find_idx_Some n by (fastforce simp: get_proj_by_name_def)
  have inv: "proj_inv ops (projs ! i)" by (rule reg_inv_nth [OF assms(1) i])
  have names: "map en_name (map (project_stop_engine ops) es) = map en_name es" if "\<forall>e\<in>set es. eng_inv ops b e" for es b
    using that stop_engine_inv by (induction es) auto
  have "proj_inv ops ((projs ! i)\<lparr>pj_engs := map (project_stop_engine ops) (pj_engs (projs ! i)), pj_start := False\<rparr>)"
    using inv stop_engine_inv by (auto simp: proj_inv_def names simp del: map_map)
  with p assms(1,3) i show ?thesis by (auto intro: reg_inv_update)
qed (use assms in simp)

end

section \<open>Histories of the registry\<close>

text \<open>
  One request to the daemon, with the tasks it releases. The start of a project counts here
  only when it does not report an internal error (see \<open>partial_start_leaves_task_running\<close>), and
  the stop only while all projects scan pages: stopping a region project does not stop tasks.
\<close>

inductive reg_step ::
  "('q, 'p, 'e) ops_of \<Rightarrow> nat \<Rightarrow> (key_file \<Rightarrow> bool) \<Rightarrow> ('q, 'p, 'e) project list \<Rightarrow>
   ('q, 'p, 'e) project list \<Rightarrow> ('q, 'p) task list \<Rightarrow> bool"
  for ops core load where
  add_project: "etmemd_project_add config projs al = Inr (r, projs') \<Longrightarrow> reg_step ops core load projs projs' []"
| remove_project: "etmemd_project_remove ops config projs = (r, projs', rel) \<Longrightarrow> reg_step ops core load projs projs' rel"
| add_engine: "etmemd_project_add_engine ops load config projs al = (r, projs') \<Longrightarrow> reg_step ops core load projs projs' []"
| remove_engine: "etmemd_project_remove_engine ops config projs = (r, projs', rel) \<Longrightarrow> reg_step ops core load projs projs' rel"
| add_task: "etmemd_project_add_task ops core config projs al = (r, projs', rel) \<Longrightarrow> reg_step ops core load projs projs' rel"
| remove_task: "etmemd_project_remove_task ops config projs = (r, projs', rel) \<Longrightarrow> reg_step ops core load projs projs' rel"
| start: "etmemd_migrate_start ops damon name projs = (r, projs') \<Longrightarrow> r \<noteq> OPT_INTER_ERR \<Longrightarrow> reg_step ops core load projs projs' []"
| stop: "etmemd_migrate_stop ops damon name projs = (r, projs') \<Longrightarrow> \<forall>p\<in>set projs. pj_type p = PAGE_SCAN \<Longrightarrow>
    reg_step ops core load projs projs' []"
| stop_all: "etmemd_stop_all_projects ops projs = (projs', rel) \<Longrightarrow> reg_step ops core load projs projs' rel"

inductive reg_reach ::
  "('q, 'p, 'e) ops_of \<Rightarrow> nat \<Rightarrow> (key_file \<Rightarrow> bool) \<Rightarrow> ('q, 'p, 'e) project list \<Rightarrow> ('q, 'p) task list \<Rightarrow> bool"
  for ops core load where
  init: "reg_reach ops core load [] []"
| step: "reg_reach ops core load projs rel \<Longrightarrow> reg_step ops core load projs projs' rel' \<Longrightarrow>
    reg_reach ops core load projs' (rel @ rel')"

context engine_contract
begin

lemma reg_step_inv:
  "reg_step ops core load projs projs' rel \<Longrightarrow> reg_inv ops projs \<Longrightarrow>
   reg_inv ops projs' \<and> (\<forall>t\<in>set rel. \<not> tk_timer t)"
proof (induction rule: reg_step.induct)
  case (add_project config projs al r projs')
  then show ?case using add_project_inv by auto
next
  case (remove_project config projs r projs' rel)
  then show ?case using remove_project_inv by blast
next
  case (add_engine config projs al r projs')
  then show ?case using add_engine_inv by auto
next
  case (remove_engine config projs r projs' rel)
  then show ?case using remove_engine_inv by blast
next
  case (add_task config projs al r projs' rel)
  then show ?case using add_task_inv by blast
next
  case (remove_task config projs r projs' rel)
  then show ?case using remove_task_inv by blast
next
  case (start damon name projs r projs')
  then show ?case using migrate_start_inv by auto
next
  case (stop damon name projs r projs')
  then show ?case using migrate_stop_inv by auto
next
  case (stop_all projs projs' rel)
  then show ?case using stop_all_inv by blast
qed

lemma reg_reach_inv:
  "reg_reach ops core load projs rel \<Longrightarrow> reg_inv ops projs \<and> (\<forall>t\<in>set rel. \<not> tk_timer t)"
proof (induction rule: reg_reach.induct)
  case init
  then show ?case by (simp add: reg_inv_def)
next
  case (step projs rel projs' rel')
  then show ?case using reg_step_inv [of core load projs projs' rel'] by auto
qed

end

section \<open>The operations of the slide engine\<close>

text \<open>The steps of starting a task that may fail: the executor, the pool, the timer, and the
  start of the timer.\<close>

record start_env =
  se_malloc :: bool
  se_pool :: bool
  se_timer :: bool
  se_timer_start :: bool

definition start_threadpool_work :: "start_env \<Rightarrow> ('q, 'p) task \<Rightarrow> int \<times> ('q, 'p) task" where
  "start_threadpool_work se tk =
     (if \<not> se_pool se then (-1, tk\<lparr>tk_pool := False\<rparr>)
      else if \<not> se_timer se then (-1, tk\<lparr>tk_pool := False, tk_timer := False\<rparr>)
      else if \<not> se_timer_start se then (-1, tk\<lparr>tk_pool := False, tk_timer := False\<rparr>)
      else (0, tk\<lparr>tk_pool := True, tk_timer := True\<rparr>))"

definition stop_and_delete_threadpool_work :: "('q, 'p) task \<Rightarrow> ('q, 'p) task" where
  "stop_and_delete_threadpool_work tk =
     (if \<not> tk_timer tk then tk else tk\<lparr>tk_timer := False, tk_pool := False\<rparr>)"

text \<open>A task that is started or stopped has its parameters: \<open>slide_fill_task\<close> has succeeded.\<close>

definition slide_start_task :: "start_env \<Rightarrow> ('q, slide_params) task \<Rightarrow> int \<times> ('q, slide_params) task" where
  "slide_start_task se tk =
     (if \<not> se_malloc se then (-1, tk\<lparr>tk_params := map_option (\<lambda>p. p\<lparr>sl_executor := False\<rparr>) (tk_params tk)\<rparr>)
      else case start_threadpool_work se tk of
        (ret, tk') \<Rightarrow>
          if ret \<noteq> 0 then (-1, tk'\<lparr>tk_params := map_option (\<lambda>p. p\<lparr>sl_executor := False\<rparr>) (tk_params tk')\<rparr>)
          else (0, tk'\<lparr>tk_params := map_option (\<lambda>p. p\<lparr>sl_executor := True\<rparr>) (tk_params tk')\<rparr>))"

definition slide_stop_task :: "('q, slide_params) task \<Rightarrow> ('q, slide_params) task" where
  "slide_stop_task tk =
     (let tk' = stop_and_delete_threadpool_work tk in
      tk'\<lparr>tk_pids := [], tk_params := map_option (\<lambda>p. p\<lparr>sl_executor := False\<rparr>) (tk_params tk')\<rparr>)"

definition slide_clear_task :: "('q, slide_params) task \<Rightarrow> ('q, slide_params) task" where
  "slide_clear_task tk = tk\<lparr>tk_pids := [], tk_params := None\<rparr>"

text \<open>\<open>g_slide_eng_ops\<close>, with the outcome of the fallible steps as a function of the task.\<close>

definition g_slide_eng_ops ::
  "(('q, slide_params) task \<Rightarrow> start_env) \<Rightarrow> ('q, slide_params, 'e) engine_ops" where
  "g_slide_eng_ops se =
     \<lparr>op_fill_eng_params = None,
      op_fill_task_params = Some (\<lambda>config tk. case slide_fill_task config [] of
          (None, _) \<Rightarrow> (-1, tk)
        | (Some p, _) \<Rightarrow> (0, tk\<lparr>tk_params := Some p\<rparr>)),
      op_clear_task_params = Some slide_clear_task,
      op_start_task = Some (\<lambda>tk. slide_start_task (se tk) tk),
      op_stop_task = Some slide_stop_task,
      op_eng_mgt_func = None\<rparr>"

interpretation slide_ops: engine_contract "\<lambda>eng. g_slide_eng_ops se" for se
  by unfold_locales
    (auto simp: g_slide_eng_ops_def slide_clear_task_def slide_start_task_def start_threadpool_work_def
      slide_stop_task_def stop_and_delete_threadpool_work_def Let_def
      split: prod.splits option.splits if_splits)

section \<open>Properties\<close>


definition sample_project_config :: key_file where
  "sample_project_config = alist_key_file
     [((''project'', ''loop''), 1), ((''project'', ''interval''), 1), ((''project'', ''sleep''), 1)]
     [((''project'', ''name''), ''p''), ((''project'', ''scan_type''), ''page'')]"

lemmas project_add_eval = etmemd_project_add_def project_of_group_def get_obj_name_def get_obj_key_def
  get_name_by_key_def sample_project_config_def alist_key_file_def get_proj_by_name_def
  project_fill_by_conf_def g_project_config_items_def parse_item_def fill_project_name_def val_str_def
  fill_project_scan_type_def new_project_def check_swapcache_wmark_valid_def scan_fill_by_conf_def
  g_page_scan_config_items_def fill_page_scan_loop_def fill_page_scan_interval_def
  fill_page_scan_sleep_def parse_to_int_def

definition sample_project :: "('q, 'p, 'e) project" where
  "sample_project = new_project\<lparr>pj_name := ''p'',
     pj_scan := Some (Page_param \<lparr>scan_interval = 1, scan_loop = 1, scan_sleep = 1\<rparr>)\<rparr>"

lemma sample_project_added: "etmemd_project_add sample_project_config [] [] = Inr (OPT_SUCCESS, [sample_project])"
  by (simp add: project_add_eval sample_project_def)

definition all_start :: start_env where
  "all_start = \<lparr>se_malloc = True, se_pool = True, se_timer = True, se_timer_start = True\<rparr>"


definition named_task :: "string \<Rightarrow> (unit, slide_params) task" where
  "named_task n = new_task\<lparr>tk_name := Some n, tk_params := Some zero_slide_params\<rparr>"

definition two_tasks :: "(unit, slide_params, unit) project list" where
  "two_tasks = [sample_project\<lparr>pj_engs := [\<lparr>en_type = SLIDE_ENGINE, en_name = ''slide'', en_params = None,
     en_tasks = [named_task ''a'', named_task ''b'']\<rparr>]\<rparr>]"

definition second_fails :: "(unit, slide_params) task \<Rightarrow> start_env" where
  "second_fails tk = (if tk_name tk = Some ''b'' then all_start\<lparr>se_pool := False\<rparr> else all_start)"

definition remove_a :: key_file where
  "remove_a = alist_key_file [] [((''task'', ''project''), ''p''), ((''task'', ''engine''), ''slide''),
     ((''task'', ''name''), ''a'')]"

text \<open>when one of two tasks cannot be started, the start of the project reports an internal
  error and leaves the project marked as stopped while the timer of the other task runs; removing
  that task then releases it without stopping the timer that uses it.\<close>

theorem partial_start_leaves_task_running:
  "\<exists>projs projs' t.
     etmemd_migrate_start (\<lambda>_. g_slide_eng_ops second_fails) 0 (Some ''p'') two_tasks = (OPT_INTER_ERR, projs)
     \<and> \<not> pj_start (hd projs)
     \<and> etmemd_project_remove_task (\<lambda>_. g_slide_eng_ops second_fails) remove_a projs = (OPT_SUCCESS, projs', [t])
     \<and> tk_timer t"
  by (simp add: etmemd_migrate_start_def two_tasks_def get_proj_by_name_def sample_project_def new_project_def
      project_start_engine_def g_slide_eng_ops_def slide_start_task_def second_fails_def start_threadpool_work_def
      named_task_def new_task_def all_start_def etmemd_project_remove_task_def group_task_def group_engine_def
      project_of_group_def engine_of_group_def task_of_group_def get_obj_name_def get_obj_key_def
      get_name_by_key_def remove_a_def alist_key_file_def get_eng_by_name_def get_task_by_name_def
      do_remove_task_def opt_app_def slide_clear_task_def)

text \<open>a project that is added has its parameters in range: between 1 and 120 passes, an
  interval and a sleep of 1 to 1200 seconds, a memory threshold of at most 100 percent, and
  either no swap cache watermarks or a low one below the high one, both at most 100; it is not
  started and has no engine.\<close>

theorem project_add_settings:
  assumes "etmemd_project_add config projs al = Inr (OPT_SUCCESS, proj # projs)"
    and "pj_type proj = PAGE_SCAN"
  shows "(\<exists>s. pj_scan proj = Some (Page_param s) \<and> 1 \<le> scan_loop s \<and> scan_loop s \<le> 120 \<and>
        1 \<le> scan_interval s \<and> scan_interval s \<le> 1200 \<and> 1 \<le> scan_sleep s \<and> scan_sleep s \<le> 1200)
    \<and> (proj_sysmem_threshold proj = -1 \<or> 0 \<le> proj_sysmem_threshold proj \<and> proj_sysmem_threshold proj \<le> 100)
    \<and> (swapcache_low_wmark proj = -1 \<and> swapcache_high_wmark proj = -1 \<or>
       0 < swapcache_low_wmark proj \<and> swapcache_low_wmark proj < swapcache_high_wmark proj \<and>
       swapcache_high_wmark proj \<le> 100)
    \<and> \<not> pj_start proj \<and> pj_engs proj = []"
proof -
  from assms(1) obtain p0 al1 al2 where
    f: "project_fill_by_conf config new_project al1 = (0, p0, al2)"
    and sc: "scan_fill_by_conf config p0 = Inr (0, proj)"
    by (auto simp: etmemd_project_add_def split: prod.splits if_splits bool.splits)
  note ok = project_fill_by_conf_ok [OF f] and kept = scan_fill_by_conf_keeps [OF sc]
  have "pj_type p0 = PAGE_SCAN" using assms(2) kept by simp
  with sc obtain s0 s where "parse_file_config config ''project'' g_page_scan_config_items s0 = (0, s)"
    "pj_scan proj = Some (Page_param s)"
    by (auto simp: scan_fill_by_conf_def split: option.splits scan_param.splits prod.splits if_splits)
  with page_scan_filled [of config "''project''" s0 s] ok kept show ?thesis
    by (auto simp: proj_obj_ok_def settings_ok_def check_swapcache_wmark_valid_def split: if_splits)
qed

lemma project_add_settings_witness:
  "\<exists>proj :: (unit, unit, unit) project.
     etmemd_project_add sample_project_config [] [] = Inr (OPT_SUCCESS, [proj]) \<and>
     (\<exists>s. pj_scan proj = Some (Page_param s) \<and> 1 \<le> scan_loop s \<and> scan_loop s \<le> 120)"
  using sample_project_added
    project_add_settings [OF sample_project_added [where ?'a = unit and ?'b = unit and ?'c = unit]]
  by (auto simp: sample_project_def new_project_def)

end
