(* ===== verification/Page_Statistics.thy ===== *)
theory Page_Statistics
  imports Complex_Main Scan_Pages
begin

text \<open>
  What the running statistics of a page mean: over exact real arithmetic \<open>avg\<close> is the mean of
  the logarithms of the visit intervals, and \<open>std\<close> never underestimates their deviation.
\<close>

section \<open>Definitions\<close>

text \<open>Exact arithmetic: \<open>erf\<close> is not used by the statistics and stays a parameter.\<close>

definition exact_fp :: "(real \<Rightarrow> real) \<Rightarrow> real fp" where
  "exact_fp er = \<lparr>
     fp_lit = (\<lambda>n d. of_int n / of_int d),
     fp_plus = (+), fp_minus = (-), fp_times = (*), fp_divide = (/),
     fp_less = (<), fp_eq = (=),
     fp_log = ln, fp_sqrt = sqrt, fp_erf = er,
     fp_pow = (\<lambda>a b. if b = 2 then a\<^sup>2 else a powr b),
     fp_trunc = (\<lambda>a. if a < 0 then \<lceil>a\<rceil> else \<lfloor>a\<rfloor>) \<rparr>"

text \<open>The passes \<open>i, i + 1, ...\<close> report the idle kinds \<open>tys\<close> for a page that is listed.\<close>

fun touch_passes :: "'d fp \<Rightarrow> int \<Rightarrow> page_idle_type list \<Rightarrow> 'd page_refs \<Rightarrow> 'd page_refs" where
  "touch_passes F i [] p = p"
| "touch_passes F i (ty # tys) p = touch_passes F (i + 1) tys (touch_page F (est_time_of F ty i) p)"

text \<open>A page that is first seen in pass \<open>i\<close>.\<close>

definition observe ::
  "'d fp \<Rightarrow> u64 \<Rightarrow> page_type \<Rightarrow> int \<Rightarrow> page_idle_type \<Rightarrow> page_idle_type list \<Rightarrow> 'd page_refs" where
  "observe F a pty i ty tys = touch_passes F (i + 1) tys (new_page_refs F a (est_time_of F ty i) pty)"

text \<open>The times of the passes in which the page was not idle, and the logarithms between them.\<close>

fun visit_times :: "int \<Rightarrow> page_idle_type list \<Rightarrow> real list" where
  "visit_times i [] = []"
| "visit_times i (ty # tys) =
     (if ty < PTE_IDLE then (of_int i + 1 / 2) # visit_times (i + 1) tys else visit_times (i + 1) tys)"

definition log_gaps :: "real list \<Rightarrow> real list" where
  "log_gaps ts = map2 (\<lambda>a b. ln (b - a)) ts (tl ts)"

definition mean :: "real list \<Rightarrow> real" where
  "mean xs = sum_list xs / of_nat (length xs)"

definition sq_dev :: "real \<Rightarrow> real list \<Rightarrow> real" where
  "sq_dev u xs = (\<Sum>x\<leftarrow>xs. (x - u)\<^sup>2)"

text \<open>The node after the visits \<open>ts\<close>.\<close>

definition stats_of :: "real list \<Rightarrow> real page_refs \<Rightarrow> bool" where
  "stats_of ts p \<longleftrightarrow> pr_m p = int (length ts) - 2 \<and>
     (ts \<noteq> [] \<longrightarrow> pr_last_time p = last ts) \<and>
     (length ts \<ge> 2 \<longrightarrow>
        pr_avg p = mean (log_gaps ts) \<and> 1 \<le> pr_std p \<and>
        sq_dev (mean (log_gaps ts)) (log_gaps ts) + 4 \<le> of_nat (length ts - 1) * (pr_std p)\<^sup>2)"

section \<open>Mean and deviation\<close>

lemma log_gaps_snoc: "ts \<noteq> [] \<Longrightarrow> log_gaps (ts @ [t]) = log_gaps ts @ [ln (t - last ts)]"
proof (induction ts)
  case (Cons a ts)
  then show ?case
    by (cases ts) (simp_all add: log_gaps_def)
qed simp

lemma length_log_gaps [simp]: "length (log_gaps ts) = length ts - 1"
  by (simp add: log_gaps_def)

lemma mean_snoc:
  "mean (xs @ [x]) = (of_nat (length xs) * mean xs + x) / of_nat (length xs + 1)"
  by (simp add: mean_def)

lemma sq_dev_shift:
  "sq_dev v xs = sq_dev u xs + 2 * (u - v) * (sum_list xs - of_nat (length xs) * u)
     + of_nat (length xs) * (u - v)\<^sup>2"
  by (induction xs) (simp_all add: sq_dev_def power2_eq_square algebra_simps)

lemma sum_list_mean: "sum_list xs = of_nat (length xs) * mean xs"
  by (cases "xs = []") (simp_all add: mean_def)

lemma sq_dev_snoc:
  "sq_dev v (xs @ [x]) = sq_dev (mean xs) xs + of_nat (length xs) * (v - mean xs)\<^sup>2 + (v - x)\<^sup>2"
proof -
  have "sq_dev v (xs @ [x]) = sq_dev v xs + (v - x)\<^sup>2"
    by (simp add: sq_dev_def power2_commute)
  also have "sq_dev v xs = sq_dev (mean xs) xs + of_nat (length xs) * (v - mean xs)\<^sup>2"
    using sq_dev_shift [of v xs "mean xs"] sum_list_mean [of xs]
    by (simp add: power2_commute)
  finally show ?thesis by simp
qed

lemma exact_fp_new_avg [simp]:
  "new_avg (exact_fp er) m u x = (of_int m * u + x) / of_int (m + 1)"
  by (simp add: new_avg_def exact_fp_def)

lemma exact_fp_new_std:
  "new_std (exact_fp er) m u v nu x =
     max 1 (sqrt ((of_int m * (v\<^sup>2 + (nu - u)\<^sup>2) + (nu - x)\<^sup>2) / of_int (m + 1)))"
  by (simp add: new_std_def exact_fp_def Let_def max_def)

lemma max_sqrt_sq:
  fixes a :: real
  shows "a \<le> (max 1 (sqrt a))\<^sup>2"
proof (cases "0 \<le> a")
  case True
  then have "(sqrt a)\<^sup>2 = a" by simp
  then show ?thesis
    using power_mono [of "sqrt a" "max 1 (sqrt a)" 2] True by simp
next
  case False
  then show ?thesis by (simp add: order_trans [OF _ zero_le_power2])
qed

section \<open>One observation\<close>

lemma touch_page_exact:
  assumes "t \<noteq> -1"
  shows "touch_page (exact_fp er) t p =
    (let m = pr_m p + 1; x = (if pr_last_time p < t then ln (t - pr_last_time p) else -1) in
     if m = -1 then p\<lparr>pr_m := m, pr_last_time := t\<rparr>
     else if m = 0 then p\<lparr>pr_m := m, pr_last_time := t, pr_avg := x, pr_std := 2\<rparr>
     else let nu = new_avg (exact_fp er) m (pr_avg p) x in
       p\<lparr>pr_m := m, pr_last_time := t, pr_avg := nu,
         pr_std := new_std (exact_fp er) m (pr_avg p) (pr_std p) nu x\<rparr>)"
  using assms unfolding touch_page_def by (simp add: exact_fp_def Let_def)

lemma stats_of_first: "t \<noteq> -1 \<Longrightarrow> stats_of [] p \<Longrightarrow> stats_of [t] (touch_page (exact_fp er) t p)"
  by (simp add: stats_of_def touch_page_exact)

lemma stats_of_second:
  "t \<noteq> -1 \<Longrightarrow> a < t \<Longrightarrow> stats_of [a] p \<Longrightarrow> stats_of [a, t] (touch_page (exact_fp er) t p)"
  by (simp add: stats_of_def touch_page_exact log_gaps_def mean_def sq_dev_def)

lemma stats_of_later:
  assumes t: "t \<noteq> -1" "last ts < t" and p: "stats_of ts p" and n: "length ts \<ge> 2"
  shows "stats_of (ts @ [t]) (touch_page (exact_fp er) t p)"
proof -
  define xs where "xs = log_gaps ts"
  define x where "x = ln (t - last ts)"
  define m where "m = length xs"
  define nu where "nu = mean (xs @ [x])"
  define s where "s = (of_nat m * ((pr_std p)\<^sup>2 + (nu - mean xs)\<^sup>2) + (nu - x)\<^sup>2) / of_nat (m + 1)"
  have ne: "ts \<noteq> []" using n by auto
  have len: "length ts = m + 1" using n by (simp add: m_def xs_def)
  have m1: "1 \<le> m" using n len by simp
  from p have p: "pr_m p = int m - 1" "pr_last_time p = last ts" "pr_avg p = mean xs"
    "sq_dev (mean xs) xs + 4 \<le> of_nat m * (pr_std p)\<^sup>2"
    using n ne len by (auto simp: stats_of_def xs_def)
  have nu: "(of_nat m * mean xs + x) / of_nat (m + 1) = nu"
    by (simp add: nu_def mean_snoc m_def)
  have q: "touch_page (exact_fp er) t p =
    p\<lparr>pr_m := int m, pr_last_time := t, pr_avg := nu, pr_std := max 1 (sqrt s)\<rparr>"
    using t m1 nu
    by (simp add: touch_page_exact p x_def [symmetric] exact_fp_new_std s_def Let_def add.commute)
  have "sq_dev nu (xs @ [x]) + 4 \<le> of_nat (m + 1) * s"
  proof -
    have "of_nat (m + 1) * s = of_nat m * ((pr_std p)\<^sup>2 + (nu - mean xs)\<^sup>2) + (nu - x)\<^sup>2"
      by (simp add: s_def)
    then show ?thesis
      using p(4) by (simp add: sq_dev_snoc m_def distrib_left)
  qed
  also have "\<dots> \<le> of_nat (m + 1) * (max 1 (sqrt s))\<^sup>2"
    by (intro mult_left_mono max_sqrt_sq) simp
  finally show ?thesis
    using ne by (simp add: stats_of_def q len log_gaps_snoc xs_def [symmetric] x_def [symmetric]
        nu_def [symmetric])
qed

lemma stats_of_touch:
  assumes "t \<noteq> -1" "ts = [] \<or> last ts < t" "stats_of ts p"
  shows "stats_of (ts @ [t]) (touch_page (exact_fp er) t p)"
proof -
  consider "ts = []" | a where "ts = [a]" | "length ts \<ge> 2"
    by (cases ts rule: list.exhaust) (auto simp: Suc_le_eq)
  then show ?thesis
    using assms stats_of_first stats_of_second stats_of_later by cases auto
qed

section \<open>All passes\<close>

lemma est_time_exact:
  "est_time_of (exact_fp er) ty i = (if ty < PTE_IDLE then of_int i + 1 / 2 else -1)"
  by (simp add: est_time_of_def exact_fp_def)

lemma touch_idle: "touch_page (exact_fp er) (-1) p = p"
  unfolding touch_page_def by (simp add: exact_fp_def)

lemma touch_passes_stats:
  assumes "stats_of ts p" "0 \<le> i" "\<forall>t\<in>set ts. t < of_int i"
  shows "stats_of (ts @ visit_times i tys) (touch_passes (exact_fp er) i tys p)"
  using assms
proof (induction tys arbitrary: i ts p)
  case (Cons ty tys)
  let ?t = "of_int i + 1 / 2 :: real"
  show ?case
  proof (cases "ty < PTE_IDLE")
    case True
    have lt: "ts = [] \<or> last ts < ?t"
    proof (cases "ts = []")
      case False
      then have "last ts < of_int i" using Cons.prems(3) last_in_set by blast
      then show ?thesis by simp
    qed simp
    have "(0::real) \<le> of_int i" using Cons.prems(2) by simp
    then have ne: "?t \<noteq> -1" by linarith
    have "stats_of (ts @ [?t]) (touch_page (exact_fp er) ?t p)"
      by (rule stats_of_touch [OF ne lt Cons.prems(1)])
    then have "stats_of ((ts @ [?t]) @ visit_times (i + 1) tys)
        (touch_passes (exact_fp er) (i + 1) tys (touch_page (exact_fp er) ?t p))"
      using Cons.prems by (intro Cons.IH) (auto simp: less_imp_le intro: less_trans)
    with True show ?thesis by (simp add: est_time_exact)
  next
    case False
    have "stats_of (ts @ visit_times (i + 1) tys) (touch_passes (exact_fp er) (i + 1) tys p)"
      using Cons.prems by (intro Cons.IH) (auto intro: less_trans)
    with False show ?thesis by (simp add: est_time_exact touch_idle)
  qed
qed simp

lemma new_page_stats:
  assumes "0 \<le> i"
  shows "stats_of (visit_times i [ty]) (new_page_refs (exact_fp er) a (est_time_of (exact_fp er) ty i) pty)"
proof -
  have "(0::real) \<le> of_int i" using assms by simp
  then have "of_int i + 1 / 2 \<noteq> (-1 :: real)" by linarith
  then show ?thesis
    by (simp add: stats_of_def new_page_refs_def est_time_exact) (simp add: exact_fp_def)
qed

lemma observe_stats_of:
  assumes "0 \<le> i"
  shows "stats_of (visit_times i (ty # tys)) (observe (exact_fp er) a pty i ty tys)"
proof -
  have "stats_of (visit_times i [ty] @ visit_times (i + 1) tys)
      (touch_passes (exact_fp er) (i + 1) tys
        (new_page_refs (exact_fp er) a (est_time_of (exact_fp er) ty i) pty))"
    by (rule touch_passes_stats [OF new_page_stats [OF assms]]) (use assms in auto)
  then show ?thesis by (auto simp: observe_def)
qed

section \<open>Property\<close>

text \<open>C4: a page that is first seen in pass \<open>i\<close> and reported with the idle kinds \<open>ty # tys\<close> in
  that pass and the following ones has, once it was visited at least twice, the mean of the
  logarithms of its visit intervals as \<open>avg\<close>, and a deviation \<open>std\<close> of at least 1 that is never
  below the true one: \<open>n * std\<^sup>2\<close> is at least the sum of the squared deviations, plus the initial
  \<open>4\<close> (over exact real arithmetic).\<close>

theorem observed_statistics:
  assumes p: "p = observe (exact_fp er) a pty i ty tys"
    and xs: "xs = log_gaps (visit_times i (ty # tys))"
    and "0 \<le> i" "xs \<noteq> []"
  shows "pr_m p = int (length xs) - 1 \<and> pr_avg p = mean xs \<and> 1 \<le> pr_std p \<and>
    sq_dev (mean xs) xs + 4 \<le> of_nat (length xs) * (pr_std p)\<^sup>2"
proof -
  have len: "length xs = length (visit_times i (ty # tys)) - 1"
    unfolding xs by (rule length_log_gaps)
  then have "length (visit_times i (ty # tys)) \<ge> 2"
    using assms(4) by (cases xs) auto
  with observe_stats_of [OF assms(3), of ty tys er a pty] len show ?thesis
    unfolding p [symmetric] xs [symmetric] stats_of_def by auto
qed

lemma observed_statistics_witness:
  "pr_avg (observe (exact_fp (\<lambda>x. x)) 0x1000 PTE_TYPE 0 0 [PTE_IDLE, 0, 0]) =
     mean (log_gaps (visit_times 0 [0, PTE_IDLE, 0, 0])) \<and>
   1 \<le> pr_std (observe (exact_fp (\<lambda>x. x)) 0x1000 PTE_TYPE 0 0 [PTE_IDLE, 0, 0])"
  using observed_statistics [OF refl refl, where i = 0 and ty = 0 and tys = "[PTE_IDLE, 0, 0]"
      and er = "\<lambda>x. x" and a = "0x1000" and pty = PTE_TYPE]
  by (simp add: log_gaps_def)

end
