(* ===== verification/Memdcd_Client.thy ===== *)
theory Memdcd_Client
  imports Scan_Process Config_File
begin

text \<open>
  The memdcd engine of etmemd (\<open>etmemd_memdcd.c\<close>): scanning a process, cutting its pages into
  messages of at most 512 entries and sending them to memRouter, and the configuration of a task.
  The message types are those of \<open>memdcd_message.h\<close>, which \<open>etmemd_memdcd.c\<close> repeats.
\<close>

section \<open>Messages\<close>

abbreviation (input) MAX_VMA_NUM :: nat where "MAX_VMA_NUM \<equiv> 512"
abbreviation (input) SIZEOF_VMA_ADDR_WITH_COUNT :: u64 where "SIZEOF_VMA_ADDR_WITH_COUNT \<equiv> 24"
abbreviation (input) MAX_SOCK_PATH_LENGTH :: nat where "MAX_SOCK_PATH_LENGTH \<equiv> 108"

record vma_addr_with_count =
  va_start_addr :: u64
  va_vma_len :: u64
  va_count :: int

datatype memdcd_message_status = MEMDCD_SEND_START | MEMDCD_SEND_PROCESS | MEMDCD_SEND_END

text \<open>\<open>sv_vma_addrs\<close> is the array of \<open>MAX_VMA_NUM\<close> entries, \<open>sv_length\<close> the bytes in use.\<close>

record swap_vma_with_count =
  sv_length :: u64
  sv_total_length :: u64
  sv_status :: memdcd_message_status
  sv_vma_addrs :: "vma_addr_with_count list"

record memory_message =
  mm_pid :: int
  mm_enable_uswap :: u32
  mm_vma :: swap_vma_with_count

definition zero_vma_addr :: vma_addr_with_count where
  "zero_vma_addr = \<lparr>va_start_addr = 0, va_vma_len = 0, va_count = 0\<rparr>"

text \<open>The array whose first entries are \<open>es\<close>, zero behind them.\<close>

definition pad_vma_addrs :: "vma_addr_with_count list \<Rightarrow> vma_addr_with_count list" where
  "pad_vma_addrs es = es @ replicate (MAX_VMA_NUM - length es) zero_vma_addr"

section \<open>Sending\<close>

text \<open>One exchange with the daemon: the descriptor that \<open>memdcd_connection_init\<close> returns, the
  result of \<open>write\<close>, and the answer that \<open>read\<close> stores (None when it returns at most 0).\<close>

record memdcd_conn =
  mc_fd :: int
  mc_write :: int
  mc_read :: "string option"

definition send_data_to_memdcd :: "memdcd_conn \<Rightarrow> int" where
  "send_data_to_memdcd c =
     (if mc_fd c < 0 then -1
      else if mc_write c \<le> 0 then -1
      else case mc_read c of
        None \<Rightarrow> 0
      | Some buff \<Rightarrow> if buff = ''success'' then 0 else -1)"

definition page_entry :: "u64 list \<Rightarrow> 'd page_refs \<Rightarrow> vma_addr_with_count c_res" where
  "page_entry gps p =
     c_bind (page_type_to_size gps (pr_type p)) (\<lambda>sz.
       Inr \<lparr>va_start_addr = pr_addr p, va_vma_len = word_of_int sz, va_count = pr_count p\<rparr>)"

definition memdcd_msg ::
  "u32 \<Rightarrow> u64 \<Rightarrow> memdcd_message_status \<Rightarrow> vma_addr_with_count list \<Rightarrow> memory_message" where
  "memdcd_msg pid tot status es =
     \<lparr>mm_pid = cast_int (uint pid), mm_enable_uswap = 1,
      mm_vma = \<lparr>sv_length = of_nat (length es) * SIZEOF_VMA_ADDR_WITH_COUNT, sv_total_length = tot,
                sv_status = status, sv_vma_addrs = pad_vma_addrs es\<rparr>\<rparr>"

text \<open>
  The loop of \<open>memdcd_do_migrate\<close>: \<open>es\<close> are the entries written since the last message
  (\<open>count\<close> of them), \<open>k\<close> numbers the exchanges, \<open>sent\<close> collects the messages that were written
  to a socket. \<open>clear k\<close> is the result of \<open>memset_s\<close> after the exchange \<open>k\<close>.
\<close>

definition exchange ::
  "(nat \<Rightarrow> memdcd_conn) \<Rightarrow> nat \<Rightarrow> memory_message \<Rightarrow> memory_message list \<Rightarrow> memory_message list" where
  "exchange conn k msg sent = (if mc_fd (conn k) \<ge> 0 \<and> mc_write (conn k) > 0 then sent @ [msg] else sent)"

fun memdcd_loop ::
  "u64 list \<Rightarrow> (nat \<Rightarrow> memdcd_conn) \<Rightarrow> (nat \<Rightarrow> bool) \<Rightarrow> u32 \<Rightarrow> u64 \<Rightarrow> 'd page_refs list \<Rightarrow>
   vma_addr_with_count list \<Rightarrow> memdcd_message_status \<Rightarrow> nat \<Rightarrow> memory_message list \<Rightarrow>
   (int \<times> memory_message list) c_res" where
  "memdcd_loop gps conn clear pid tot [] es status k sent =
     (let msg = memdcd_msg pid tot
                  (if status \<noteq> MEMDCD_SEND_START then MEMDCD_SEND_END else status) es
      in Inr (if send_data_to_memdcd (conn k) \<noteq> 0 then -1 else 0, exchange conn k msg sent))"
| "memdcd_loop gps conn clear pid tot (p # ps) es status k sent =
     c_bind (page_entry gps p) (\<lambda>e.
       let es' = es @ [e] in
       if length es' < MAX_VMA_NUM \<or> ps = [] then memdcd_loop gps conn clear pid tot ps es' status k sent
       else
         let sent' = exchange conn k (memdcd_msg pid tot status es') sent in
         if send_data_to_memdcd (conn k) \<noteq> 0 then Inr (-1, sent')
         else if \<not> clear k then Inr (-1, sent')
         else memdcd_loop gps conn clear pid tot ps [] MEMDCD_SEND_PROCESS (k + 1) sent')"

text \<open>\<open>total_count\<close> is an \<open>int\<close> and is stored in a 64-bit field.\<close>

definition memdcd_do_migrate ::
  "u64 list \<Rightarrow> (nat \<Rightarrow> memdcd_conn) \<Rightarrow> (nat \<Rightarrow> bool) \<Rightarrow> u32 \<Rightarrow> 'd page_refs list \<Rightarrow> alloc \<Rightarrow>
   (int \<times> memory_message list) c_res" where
  "memdcd_do_migrate gps conn clear pid page_refs_list al =
     (if page_refs_list = [] then Inr (0, [])
      else case c_alloc al of
        (False, _) \<Rightarrow> Inr (-1, [])
      | (True, _) \<Rightarrow>
          memdcd_loop gps conn clear pid (word_of_int (cast_int (int (length page_refs_list))))
            page_refs_list [] MEMDCD_SEND_START 0 [])"

section \<open>Scanning\<close>

text \<open>As \<open>etmemd_do_scan\<close>, over the areas with the flag \<open>us\<close> and without an ioctl.\<close>

function memdcd_passes ::
  "'d fp \<Rightarrow> u64 list \<Rightarrow> (nat \<Rightarrow> scan_io) \<Rightarrow> vmas \<Rightarrow> int \<Rightarrow> int \<Rightarrow> 'd page_refs list \<Rightarrow> alloc \<Rightarrow>
   ('d page_refs list \<times> alloc) c_res" where
  "memdcd_passes F gps ios vmas loop i page_refs al =
     (if i < loop then
        c_bind (get_page_refs F gps (ios (nat i)) vmas page_refs None None i (loop - 1) al)
          (\<lambda>r. case r of
             (None, al') \<Rightarrow> Inr ([], al')
           | (Some (ps, _), al') \<Rightarrow> memdcd_passes F gps ios vmas loop (i + 1) ps al')
      else Inr (page_refs, al))"
  by pat_completeness auto
termination
  by (relation "measure (\<lambda>(F, gps, ios, vmas, loop, i, rest). nat (loop - i))") auto

declare memdcd_passes.simps [simp del]

definition memdcd_do_scan ::
  "'d fp \<Rightarrow> u64 list \<Rightarrow> securec \<Rightarrow> fs \<Rightarrow> (nat \<Rightarrow> scan_io) \<Rightarrow> u32 option \<Rightarrow> scan_task option \<Rightarrow> alloc \<Rightarrow>
   ('d page_refs list \<times> alloc) c_res" where
  "memdcd_do_scan F gps S fs ios tpid tk al =
     (case (tpid, tk) of
        (Some pid_nr, Some t) \<Rightarrow>
          (case sec_snprintf_s S PID_STR_MAX_LEN (PID_STR_MAX_LEN - 1) (nat_to_base 10 (unat pid_nr)) of
             None \<Rightarrow> Inr ([], al)
           | Some pid \<Rightarrow>
               c_bind (get_vmas_with_flags S fs pid [''us''] True al) (\<lambda>r. case r of
                   (None, al') \<Rightarrow> Inr ([], al')
                 | (Some vmas, al') \<Rightarrow> memdcd_passes F gps ios vmas (sc_loop t) 0 [] al'))
      | _ \<Rightarrow> Inr ([], al))"

text \<open>\<open>memdcd_executor\<close>: the messages written for one process of a task.\<close>

definition memdcd_executor ::
  "'d fp \<Rightarrow> u64 list \<Rightarrow> securec \<Rightarrow> fs \<Rightarrow> (nat \<Rightarrow> scan_io) \<Rightarrow> (nat \<Rightarrow> memdcd_conn) \<Rightarrow> (nat \<Rightarrow> bool) \<Rightarrow>
   u32 \<Rightarrow> scan_task \<Rightarrow> alloc \<Rightarrow> memory_message list c_res" where
  "memdcd_executor F gps S fs ios conn clear pid tk al =
     c_bind (memdcd_do_scan F gps S fs ios (Some pid) (Some tk) al) (\<lambda>r. case r of (page_refs, al') \<Rightarrow>
       if page_refs \<noteq> [] then
         c_bind (memdcd_do_migrate gps conn clear pid page_refs al') (\<lambda>q. Inr (snd q))
       else Inr [])"

section \<open>Configuration of a task\<close>

record memdcd_params =
  md_executor :: bool
  md_memdcd_socket :: string

type_synonym memdcd_obj = "securec \<times> memdcd_params"

definition fill_task_sock_path :: "memdcd_obj \<Rightarrow> cfg_val \<Rightarrow> int \<times> memdcd_obj" where
  "fill_task_sock_path ob val =
     (case ob of (S, params) \<Rightarrow>
        let path = (if val_str val = ''-'' then ''@_memdcd.server'' else val_str val) in
        case sec_strncpy_s S MAX_SOCK_PATH_LENGTH path (length path) of
          None \<Rightarrow> (-1, ob)
        | Some s \<Rightarrow> (0, (S, params\<lparr>md_memdcd_socket := s\<rparr>)))"

definition g_memdcd_task_config_items :: "memdcd_obj config_item list" where
  "g_memdcd_task_config_items =
     [\<lparr>ci_key = ''Sock'', ci_type = STR_VAL, ci_fill = fill_task_sock_path, ci_option = False\<rparr>]"

definition memdcd_fill_task :: "securec \<Rightarrow> key_file \<Rightarrow> alloc \<Rightarrow> memdcd_params option \<times> alloc" where
  "memdcd_fill_task S config al =
     (case c_alloc al of
        (False, al') \<Rightarrow> (None, al')
      | (True, al') \<Rightarrow>
          (case parse_file_config config ''task'' g_memdcd_task_config_items
                  (S, \<lparr>md_executor = False, md_memdcd_socket = []\<rparr>) of
             (ret, _, params) \<Rightarrow>
               if ret \<noteq> 0 then (None, al')
               else if length (md_memdcd_socket params) \<ge> MAX_SOCK_PATH_LENGTH then (None, al')
               else (Some params, al')))"

section \<open>The messages of a page list\<close>

text \<open>The batches \<open>cs\<close> as messages: the first carries \<open>status\<close>, the last one of several is
  marked as the end; a single message keeps the status of the first.\<close>

fun batch_msgs ::
  "u32 \<Rightarrow> u64 \<Rightarrow> memdcd_message_status \<Rightarrow> vma_addr_with_count list list \<Rightarrow> memory_message list" where
  "batch_msgs pid tot status [] = []"
| "batch_msgs pid tot status [c] =
     [memdcd_msg pid tot (if status \<noteq> MEMDCD_SEND_START then MEMDCD_SEND_END else status) c]"
| "batch_msgs pid tot status (c # d # cs) =
     memdcd_msg pid tot status c # batch_msgs pid tot MEMDCD_SEND_PROCESS (d # cs)"

definition exchanges_ok :: "(nat \<Rightarrow> memdcd_conn) \<Rightarrow> (nat \<Rightarrow> bool) \<Rightarrow> bool" where
  "exchanges_ok conn clear \<longleftrightarrow>
     (\<forall>k. clear k \<and> mc_fd (conn k) \<ge> 0 \<and> mc_write (conn k) > 0 \<and>
        mc_read (conn k) \<in> {None, Some ''success''})"

lemma exchanges_okD:
  assumes "exchanges_ok conn clear"
  shows "send_data_to_memdcd (conn k) = 0" "exchange conn k msg sent = sent @ [msg]" "clear k"
  using assms [unfolded exchanges_ok_def, rule_format, of k]
  by (auto simp: send_data_to_memdcd_def exchange_def)

lemma chunks_single: "xs \<noteq> [] \<Longrightarrow> length xs \<le> n \<Longrightarrow> chunks n xs = [xs]"
  by (subst chunks_step) (cases n; simp)+

lemma chunks_full:
  "length xs = n \<Longrightarrow> 0 < n \<Longrightarrow> chunks n (xs @ ys) = xs # chunks n ys"
  by (subst chunks_step) auto

lemma memdcd_loop_batches:
  assumes ok: "exchanges_ok conn clear"
  shows "map (page_entry gps) ps = map Inr es \<Longrightarrow> acc @ es \<noteq> [] \<Longrightarrow>
    length acc \<le> MAX_VMA_NUM \<Longrightarrow> ps = [] \<or> length acc < MAX_VMA_NUM \<Longrightarrow>
    memdcd_loop gps conn clear pid tot ps acc status k sent =
      Inr (0, sent @ batch_msgs pid tot status (chunks MAX_VMA_NUM (acc @ es)))"
proof (induction ps arbitrary: es acc status k sent)
  case Nil
  then show ?case by (simp add: exchanges_okD [OF ok] chunks_single)
next
  case (Cons p ps)
  then obtain e es' where es: "es = e # es'" and e: "page_entry gps p = Inr e"
    and es': "map (page_entry gps) ps = map Inr es'"
    by (cases es) auto
  let ?acc = "acc @ [e]"
  show ?case
  proof (cases "length ?acc < MAX_VMA_NUM \<or> ps = []")
    case True
    then have "length ?acc \<le> MAX_VMA_NUM" "ps = [] \<or> length ?acc < MAX_VMA_NUM"
      using Cons.prems(4) by auto
    then have "memdcd_loop gps conn clear pid tot ps ?acc status k sent =
        Inr (0, sent @ batch_msgs pid tot status (chunks MAX_VMA_NUM (?acc @ es')))"
      by (intro Cons.IH [OF es']) auto
    with True show ?thesis by (simp add: e es)
  next
    case False
    with Cons.prems(3,4) have len: "length ?acc = MAX_VMA_NUM" by auto
    from False es' have ne: "es' \<noteq> []" by auto
    obtain d ds where ds: "chunks MAX_VMA_NUM es' = d # ds"
      using ne chunks_step [of MAX_VMA_NUM es'] by simp
    have c: "chunks MAX_VMA_NUM (acc @ es) = ?acc # d # ds"
      using chunks_full [OF len, of es'] ds by (simp add: es)
    have "memdcd_loop gps conn clear pid tot ps [] MEMDCD_SEND_PROCESS (k + 1)
          (sent @ [memdcd_msg pid tot status ?acc]) =
        Inr (0, (sent @ [memdcd_msg pid tot status ?acc]) @
          batch_msgs pid tot MEMDCD_SEND_PROCESS (chunks MAX_VMA_NUM ([] @ es')))"
      using ne by (intro Cons.IH [OF es']) auto
    with False exchanges_okD(3) [OF ok, of k] show ?thesis by (simp add: e c ds exchanges_okD(1,2) [OF ok])
  qed
qed

lemma memdcd_do_migrate_batches:
  assumes "exchanges_ok conn clear" "map (page_entry gps) ps = map Inr es"
    and "ps \<noteq> []" "length ps < 2 ^ 31"
  shows "memdcd_do_migrate gps conn clear pid ps [] =
    Inr (0, batch_msgs pid (of_nat (length ps)) MEMDCD_SEND_START (chunks MAX_VMA_NUM es))"
proof -
  from assms(2,3) have "es \<noteq> []" by auto
  moreover have "word_of_int (cast_int (int (length ps))) = (of_nat (length ps) :: u64)"
    using assms(4) by simp
  ultimately show ?thesis
    using assms(3) memdcd_loop_batches [OF assms(1,2), of "[]"] by (simp add: memdcd_do_migrate_def)
qed

section \<open>What a scan transmits\<close>

context page_property
begin

lemma memdcd_passes_P:
  "memdcd_passes F gps ios vmas loop i ps al = Inr (ps', al') \<Longrightarrow> length gps = 3 \<Longrightarrow>
   \<forall>p\<in>set ps. P p \<Longrightarrow> \<forall>p\<in>set ps'. P p"
proof (induction "nat (loop - i)" arbitrary: i ps al rule: less_induct)
  case less
  note eq = memdcd_passes.simps [of F gps ios vmas loop i ps al]
  show ?case
  proof (cases "i < loop")
    case True
    with less.prems(1) obtain r where
      g: "get_page_refs F gps (ios (nat i)) vmas ps None None i (loop - 1) al = Inr r"
      and r: "(case r of (None, al') \<Rightarrow> Inr ([], al')
        | (Some (ps, _), al') \<Rightarrow> memdcd_passes F gps ios vmas loop (i + 1) ps al') = Inr (ps', al')"
      by (auto simp: eq)
    show ?thesis
    proof (cases "fst r")
      case None
      with r show ?thesis by (cases r) auto
    next
      case (Some q)
      then obtain ps2 rss2 al2 where r2: "r = (Some (ps2, rss2), al2)" by (cases r; cases q) auto
      with get_page_refs_P [OF g [unfolded r2] less.prems(2,3)] r less.hyps [of "i + 1"] True less.prems(2)
      show ?thesis by auto
    qed
  qed (use less.prems in \<open>auto simp: eq\<close>)
qed

lemma memdcd_do_scan_P:
  "memdcd_do_scan F gps S fs ios tpid tk al = Inr (ps, al') \<Longrightarrow> length gps = 3 \<Longrightarrow> \<forall>p\<in>set ps. P p"
  by (auto simp: memdcd_do_scan_def split: option.splits prod.splits dest!: memdcd_passes_P)

end

lemma page_entry_count: "page_entry gps p = Inr e \<Longrightarrow> va_count e = pr_count p"
  by (cases "page_type_to_size gps (pr_type p)") (auto simp: page_entry_def)

definition zero_counts :: "vma_addr_with_count list \<Rightarrow> bool" where
  "zero_counts es \<longleftrightarrow> (\<forall>e\<in>set es. va_count e = 0)"

definition msgs_zero :: "memory_message list \<Rightarrow> bool" where
  "msgs_zero msgs \<longleftrightarrow> (\<forall>m\<in>set msgs. zero_counts (sv_vma_addrs (mm_vma m)))"

lemma msgs_zero_exchange:
  assumes "msgs_zero sent" "zero_counts es"
  shows "msgs_zero (exchange conn k (memdcd_msg pid tot st es) sent)"
  using assms
  by (auto simp: msgs_zero_def zero_counts_def exchange_def memdcd_msg_def pad_vma_addrs_def zero_vma_addr_def)

lemma memdcd_loop_zero:
  "memdcd_loop gps conn clear pid tot ps es st k sent = Inr (r, sent') \<Longrightarrow>
   \<forall>p\<in>set ps. pr_count p = 0 \<Longrightarrow> zero_counts es \<Longrightarrow> msgs_zero sent \<Longrightarrow> msgs_zero sent'"
proof (induction ps arbitrary: es st k sent)
  case Nil
  then show ?case by (auto simp: Let_def simp del: split_paired_All intro!: msgs_zero_exchange)
next
  case (Cons p ps)
  then obtain e where e: "page_entry gps p = Inr e" by (cases "page_entry gps p") auto
  have es: "zero_counts (es @ [e])"
    using Cons.prems(2,3) page_entry_count [OF e] by (auto simp: zero_counts_def)
  let ?sent = "exchange conn k (memdcd_msg pid tot st (es @ [e])) sent"
  have sent: "msgs_zero ?sent" by (rule msgs_zero_exchange [OF Cons.prems(4) es])
  have ps: "\<forall>p\<in>set ps. pr_count p = 0" using Cons.prems(2) by simp
  have nil: "zero_counts []" by (simp add: zero_counts_def)
  from Cons.prems(1) consider
      "memdcd_loop gps conn clear pid tot ps (es @ [e]) st k sent = Inr (r, sent')"
    | "sent' = ?sent"
    | "memdcd_loop gps conn clear pid tot ps [] MEMDCD_SEND_PROCESS (k + 1) ?sent = Inr (r, sent')"
    by (auto simp: e Let_def split: if_splits)
  then show ?case
    using Cons.IH [OF _ ps es Cons.prems(4)] Cons.IH [OF _ ps nil sent] sent by cases auto
qed

lemma memdcd_do_migrate_zero:
  assumes "memdcd_do_migrate gps conn clear pid ps al = Inr (r, sent)" "\<forall>p\<in>set ps. pr_count p = 0"
  shows "msgs_zero sent"
proof -
  have nil: "msgs_zero []" "zero_counts []" by (simp_all add: msgs_zero_def zero_counts_def)
  from assms(1) consider "sent = []"
    | tot where "memdcd_loop gps conn clear pid tot ps [] MEMDCD_SEND_START 0 [] = Inr (r, sent)"
    by (auto simp: memdcd_do_migrate_def split: if_splits prod.splits bool.splits)
  then show ?thesis
    using memdcd_loop_zero [OF _ assms(2) nil(2,1)] nil by cases auto
qed

section \<open>Configuration\<close>

lemma memdcd_fill_task_SomeD:
  assumes "securec_ok S" "memdcd_fill_task S config al = (Some params, al')"
  shows "length (md_memdcd_socket params) < MAX_SOCK_PATH_LENGTH"
  using assms(2) by (auto simp: memdcd_fill_task_def split: prod.splits bool.splits if_splits)

section \<open>Properties\<close>

text \<open>every message that the memdcd engine writes for a process carries the visit count 0
  for every page, whatever the kernel reported: no pass of the scan writes the count.\<close>

theorem memdcd_executor_counts:
  assumes "memdcd_executor F gps S fs ios conn clear pid tk al = Inr msgs" "length gps = 3"
    and "m \<in> set msgs" "e \<in> set (sv_vma_addrs (mm_vma m))"
  shows "va_count e = 0"
proof -
  from assms(1) obtain ps al' where s: "memdcd_do_scan F gps S fs ios (Some pid) (Some tk) al = Inr (ps, al')"
    by (cases "memdcd_do_scan F gps S fs ios (Some pid) (Some tk) al") (auto simp: memdcd_executor_def)
  have zero: "\<forall>p\<in>set ps. pr_count p = 0"
    by (rule count.memdcd_do_scan_P [OF s assms(2)])
  have "msgs_zero msgs"
  proof (cases "ps = []")
    case True
    with assms(1) show ?thesis by (simp add: memdcd_executor_def s msgs_zero_def)
  next
    case False
    with assms(1) obtain r where "memdcd_do_migrate gps conn clear pid ps al' = Inr (r, msgs)"
      by (cases "memdcd_do_migrate gps conn clear pid ps al'") (auto simp: memdcd_executor_def s)
    then show ?thesis by (rule memdcd_do_migrate_zero [OF _ zero])
  qed
  with assms(3,4) show ?thesis by (auto simp: msgs_zero_def zero_counts_def)
qed

definition flags_line :: string where
  "flags_line = ''VmFlags: us'' @ [c_newline]"

definition memdcd_fs :: fs where
  "memdcd_fs = [''/proc/7/smaps'' \<mapsto> show_vma sample_vma @ flags_line]"

definition memdcd_ok_conn :: memdcd_conn where
  "memdcd_ok_conn = \<lparr>mc_fd = 3, mc_write = 12336, mc_read = None\<rparr>"

lemma flags_line_match: "is_vmflags_match [''us''] flags_line = Inr (True, [])"
proof -
  have "c_fgets 1023 flags_line = Some (flags_line, [])" by code_simp
  moreover have "length flags_line > length VMFLAG_HEAD"
    "c_strncmp_eq VMFLAG_HEAD flags_line (length VMFLAG_HEAD)"
    "c_strstr flags_line '':'' = Some ('': us'' @ [c_newline])"
    "c_strstr ('' us'' @ [c_newline]) ''us'' \<noteq> None"
    by code_simp+
  ultimately show ?thesis
    by (simp add: is_vmflags_match_def is_vma_with_vmflags.simps [of _ flags_line])
qed

lemma memdcd_sample_vmas:
  "get_vmas_with_flags securec_ref memdcd_fs ''7'' [''us''] True [] = Inr (Some sample_areas, [])"
proof -
  have p: "printable_vma sample_vma" by (simp add: sample_vma_simps)
  have a: "is_anon_match True sample_vma"
    by (simp add: is_anon_match_True is_anonymous_def sample_vma_def)
  have "vmas_loop securec_ref [''us''] True \<lparr>vma_cnt = 0, vma_list = []\<rparr> (show_vma sample_vma @ flags_line) []
      = Inr (Some sample_areas, [])"
    using p a flags_line_match
    by (simp add: vmas_loop.simps [of _ _ _ _ "show_vma sample_vma @ flags_line"] fgets_show
        get_vma_show [OF securec_ref_ok] printable_plain skip_show vmas_loop_Nil)
  moreover have "sec_snprintf_s securec_ref (Suc k) k s = Some s" if "length s \<le> k" for k s
    using that by (simp add: securec_ref_def)
  ultimately show ?thesis
    by (simp add: get_vmas_with_flags_def etmemd_get_proc_file_def etmemd_get_proc_file_str_def
        PROC_PATH_def memdcd_fs_def)
qed

lemma memdcd_sample_scan:
  "memdcd_do_scan milli_fp std_page_size securec_ref memdcd_fs sample_io (Some 7)
     (Some \<lparr>sc_loop = 2, sc_swap_flag = 0\<rparr>) [] = Inr ([sample_page 0x1000], [])"
proof -
  have v: "vm_start sample_vma = 0x1000" "vm_end sample_vma = 0x3000" by (simp_all add: sample_vma_def)
  have pass0: "get_page_refs milli_fp std_page_size (sample_io 0) sample_areas [] None None 0 1 []
      = Inr (Some ([sample_page 0x1000], None), [])"
    by (simp add: get_page_refs_def v sample_walk0 [simplified])
  have pass1: "get_page_refs milli_fp std_page_size (sample_io (Suc 0)) sample_areas [sample_page 0x1000]
      None None 1 1 [] = Inr (Some ([sample_page 0x1000], None), [])"
    by (simp add: get_page_refs_def v walk_vmas_def walk_buf_size_def std_page_size_def
        page_type_to_size_def drop_bit_eq_div)
  have "memdcd_passes milli_fp std_page_size sample_io sample_areas 2 0 [] [] =
      Inr ([sample_page 0x1000], [])"
    using pass0 pass1
    by (subst memdcd_passes.simps, simp, subst memdcd_passes.simps, simp, subst memdcd_passes.simps, simp)
  with sample_pid show ?thesis by (simp add: memdcd_do_scan_def memdcd_sample_vmas)
qed

lemma memdcd_sample_run:
  "memdcd_executor milli_fp std_page_size securec_ref memdcd_fs sample_io (\<lambda>_. memdcd_ok_conn) (\<lambda>_. True) 7
     \<lparr>sc_loop = 2, sc_swap_flag = 0\<rparr> [] =
   Inr [memdcd_msg 7 1 MEMDCD_SEND_START
          [\<lparr>va_start_addr = 0x1000, va_vma_len = 0x1000, va_count = 0\<rparr>]]"
proof -
  have "page_entry std_page_size (sample_page 0x1000) =
      Inr \<lparr>va_start_addr = 0x1000, va_vma_len = 0x1000, va_count = 0\<rparr>"
    by (simp add: page_entry_def sample_page_def page_type_to_size_def std_page_size_def)
  then show ?thesis
    by (simp add: memdcd_executor_def memdcd_sample_scan memdcd_do_migrate_def exchange_def
        memdcd_ok_conn_def send_data_to_memdcd_def)
qed

lemma memdcd_executor_counts_witness:
  "va_count (hd (sv_vma_addrs (mm_vma (memdcd_msg 7 1 MEMDCD_SEND_START
     [\<lparr>va_start_addr = 0x1000, va_vma_len = 0x1000, va_count = 0\<rparr>])))) = 0"
  by (rule memdcd_executor_counts [OF memdcd_sample_run])
    (auto simp: memdcd_msg_def pad_vma_addrs_def std_page_size_def)

end
