(* ===== verification/Memdcd_Collect.thy ===== *)
theory Memdcd_Collect
  imports Memdcd_Client
begin

text \<open>
  The collector of memRouter: the table of processes whose pages are being received
  (\<open>memdcd_process.c\<close>) and the handler of a received message (\<open>memdcd_cmd.c\<close>). The worker
  thread that a complete list is handed to is modelled in \<open>Memdcd_Policy\<close>.
\<close>

section \<open>State\<close>

text \<open>Memory from \<open>malloc\<close> is uninitialised: the fields that the code reads only after it has
  written them are options.\<close>

record migrate_page =
  mg_addr :: u64
  mg_length :: u64
  mg_visit_count :: int
  mg_numanode :: "int option"

text \<open>\<open>mp_length\<close> is \<open>page_list->length\<close>, \<open>mp_pages\<close> the entries written so far, and
  \<open>mp_worker\<close> the thread (0 for none).\<close>

record migrate_process =
  mp_pid :: int
  mp_length :: u64
  mp_pages :: "migrate_page list"
  mp_offset :: u64
  mp_timestamp :: "int option"
  mp_worker :: nat

text \<open>\<open>ms_procs\<close> is the ring behind \<open>g_process_head\<close>, \<open>ms_last\<close> the static variable of
  \<open>migrate_process_recycle\<close>, \<open>ms_timeout\<close> is \<open>collect_page_timeout\<close>.\<close>

record memdcd_state =
  ms_procs :: "migrate_process list"
  ms_last :: int
  ms_timeout :: int

text \<open>What one message meets: the clock at its start and after the copy, the threads that are
  still running, the allocator, the thread that \<open>pthread_create\<close> starts, and the proc files.\<close>

record collect_env =
  ce_now :: int
  ce_stamp :: int
  ce_busy :: "nat \<Rightarrow> bool"
  ce_alloc :: alloc
  ce_thread :: "nat option"
  ce_fs :: fs

section \<open>The table of processes\<close>

fun migrate_process_remove :: "int \<Rightarrow> migrate_process list \<Rightarrow> migrate_process list" where
  "migrate_process_remove pid [] = []"
| "migrate_process_remove pid (p # ps) =
     (if mp_pid p = pid then ps else p # migrate_process_remove pid ps)"

fun migrate_process_search :: "int \<Rightarrow> migrate_process list \<Rightarrow> migrate_process option" where
  "migrate_process_search pid [] = None"
| "migrate_process_search pid (p # ps) =
     (if mp_pid p = pid then Some p else migrate_process_search pid ps)"

text \<open>A write through the pointer that \<open>migrate_process_search\<close> returned.\<close>

fun set_process :: "int \<Rightarrow> migrate_process \<Rightarrow> migrate_process list \<Rightarrow> migrate_process list" where
  "set_process pid q [] = []"
| "set_process pid q (p # ps) = (if mp_pid p = pid then q # ps else p # set_process pid q ps)"

abbreviation (input) SIZEOF_MIGRATE_PAGE :: u64 where "SIZEOF_MIGRATE_PAGE \<equiv> 24"
abbreviation (input) SIZEOF_MIGRATE_PAGE_LIST :: u64 where "SIZEOF_MIGRATE_PAGE_LIST \<equiv> 8"

text \<open>The size given to \<open>malloc\<close> wraps around; the pages that fit the block.\<close>

definition page_list_size :: "u64 \<Rightarrow> u64" where
  "page_list_size len = SIZEOF_MIGRATE_PAGE * len + SIZEOF_MIGRATE_PAGE_LIST"

definition page_capacity :: "u64 \<Rightarrow> nat" where
  "page_capacity len = (unat (page_list_size len) - 8) div 24"

definition migrate_process_add ::
  "int \<Rightarrow> u64 \<Rightarrow> migrate_process list \<Rightarrow> alloc \<Rightarrow> (migrate_process option \<times> migrate_process list \<times> alloc) c_res" where
  "migrate_process_add pid len procs al =
     (case c_alloc al of
        (False, al1) \<Rightarrow> Inr (None, procs, al1)
      | (True, al1) \<Rightarrow>
          (case c_alloc al1 of
             (False, al2) \<Rightarrow> Inr (None, procs, al2)
           | (True, al2) \<Rightarrow>
               if unat (page_list_size len) < 8 then Inl Out_of_bounds
               else
                 let process = \<lparr>mp_pid = pid, mp_length = len, mp_pages = [], mp_offset = 0,
                                mp_timestamp = None, mp_worker = 0\<rparr>
                 in Inr (Some process, process # procs, al2)))"

fun recycle_loop ::
  "int \<Rightarrow> int \<Rightarrow> (nat \<Rightarrow> bool) \<Rightarrow> migrate_process list \<Rightarrow> migrate_process list c_res" where
  "recycle_loop now timeout busy [] = Inr []"
| "recycle_loop now timeout busy (p # ps) =
     (case mp_timestamp p of
        None \<Rightarrow> Inl Uninitialised
      | Some t \<Rightarrow>
          c_bind (recycle_loop now timeout busy ps) (\<lambda>ps'.
            Inr (if now - t > timeout \<and> \<not> (mp_worker p \<noteq> 0 \<and> busy (mp_worker p)) then ps' else p # ps')))"

definition migrate_process_recycle :: "int \<Rightarrow> (nat \<Rightarrow> bool) \<Rightarrow> memdcd_state \<Rightarrow> memdcd_state c_res" where
  "migrate_process_recycle now busy st =
     (if ms_timeout st = 0 then Inr st
      else if ms_last st = 0 \<or> now - ms_last st < ms_timeout st then Inr (st\<lparr>ms_last := now\<rparr>)
      else c_bind (recycle_loop now (ms_timeout st) busy (ms_procs st)) (\<lambda>ps.
             Inr (st\<lparr>ms_last := now, ms_procs := ps\<rparr>)))"

section \<open>Collecting the pages of a message\<close>

definition page_of_entry :: "vma_addr_with_count \<Rightarrow> migrate_page" where
  "page_of_entry e = \<lparr>mg_addr = va_start_addr e, mg_length = va_vma_len e,
     mg_visit_count = va_count e, mg_numanode = None\<rparr>"

definition write_pages :: "nat \<Rightarrow> migrate_page list \<Rightarrow> migrate_page list \<Rightarrow> migrate_page list" where
  "write_pages offset new pages = take offset pages @ new @ drop (offset + length new) pages"

text \<open>The part of \<open>migrate_process_collect_pages\<close> behind the lookup; the process is in the table.\<close>

definition collect_into ::
  "int \<Rightarrow> swap_vma_with_count \<Rightarrow> int \<Rightarrow> migrate_process \<Rightarrow> migrate_process list \<Rightarrow>
   (migrate_process option \<times> migrate_process list) c_res" where
  "collect_into pid vma stamp process procs =
     (let cnt = sv_length vma div SIZEOF_VMA_ADDR_WITH_COUNT in
      if mp_offset process + cnt > mp_length process then Inr (None, migrate_process_remove pid procs)
      else if unat cnt > length (sv_vma_addrs vma) then Inl Out_of_bounds
      else if unat (mp_offset process) + unat cnt > page_capacity (mp_length process) then Inl Out_of_bounds
      else
        let new = map page_of_entry (take (unat cnt) (sv_vma_addrs vma));
            process' = process\<lparr>mp_pages := write_pages (unat (mp_offset process)) new (mp_pages process),
                               mp_offset := mp_offset process + cnt, mp_timestamp := Some stamp\<rparr>;
            procs' = set_process pid process' procs
        in if sv_status vma = MEMDCD_SEND_END \<and> mp_offset process' \<noteq> mp_length process' then
             Inr (None, migrate_process_remove pid procs')
           else if sv_status vma \<noteq> MEMDCD_SEND_PROCESS \<and> mp_offset process' = mp_length process' then
             Inr (Some process', procs')
           else Inr (None, procs'))"

definition migrate_process_collect_pages ::
  "collect_env \<Rightarrow> int \<Rightarrow> swap_vma_with_count \<Rightarrow> memdcd_state \<Rightarrow>
   (migrate_process option \<times> memdcd_state) c_res" where
  "migrate_process_collect_pages env pid vma st =
     c_bind (migrate_process_recycle (ce_now env) (ce_busy env) st) (\<lambda>st1.
     let found = migrate_process_search pid (ms_procs st1) in
     if (case found of None \<Rightarrow> False | Some p \<Rightarrow> mp_worker p \<noteq> 0 \<and> ce_busy env (mp_worker p)) then
       Inr (None, st1)
     else
       let restart = (found \<noteq> None \<and> sv_status vma = MEMDCD_SEND_START);
           procs = (if restart then migrate_process_remove pid (ms_procs st1) else ms_procs st1);
           process = (if restart then None else found);
           into = (\<lambda>p ps. c_bind (collect_into pid vma (ce_stamp env) p ps)
                            (\<lambda>r. Inr (fst r, st1\<lparr>ms_procs := snd r\<rparr>)))
       in case process of
            None \<Rightarrow>
              if sv_status vma \<noteq> MEMDCD_SEND_START then Inr (None, st1\<lparr>ms_procs := procs\<rparr>)
              else c_bind (migrate_process_add pid (sv_total_length vma) procs (ce_alloc env)) (\<lambda>r. case r of
                  (None, procs', _) \<Rightarrow> Inr (None, st1\<lparr>ms_procs := procs'\<rparr>)
                | (Some p, procs', _) \<Rightarrow> into p procs')
          | Some p \<Rightarrow> into p procs)"

definition init_collect_pages_timeout :: "int \<Rightarrow> memdcd_state \<Rightarrow> memdcd_state" where
  "init_collect_pages_timeout timeout st = st\<lparr>ms_timeout := timeout\<rparr>"

text \<open>\<open>atoi\<close> of the first \<open>PID_MAX_LEN\<close> bytes of the file.\<close>

definition get_pid_max :: "fs \<Rightarrow> int" where
  "get_pid_max fs =
     (case fs ''/proc/sys/kernel/pid_max'' of
        None \<Rightarrow> 0
      | Some file \<Rightarrow> cast_int (fst (c_strtol (take 256 file) 10)))"

definition migrate_process_get_pages ::
  "collect_env \<Rightarrow> int \<Rightarrow> swap_vma_with_count \<Rightarrow> memdcd_state \<Rightarrow> (int \<times> memdcd_state) c_res" where
  "migrate_process_get_pages env pid vma st =
     (if pid \<le> 0 \<or> pid > get_pid_max (ce_fs env) then Inr (-1, st)
      else c_bind (migrate_process_collect_pages env pid vma st) (\<lambda>r. case r of
          (None, st') \<Rightarrow> Inr (-1, st')
        | (Some process, st') \<Rightarrow>
            (case ce_thread env of
               None \<Rightarrow> Inr (-1, st')
             | Some tid \<Rightarrow>
                 Inr (0, st'\<lparr>ms_procs := set_process pid (process\<lparr>mp_worker := tid\<rparr>) (ms_procs st')\<rparr>))))"

section \<open>Handling a message\<close>

definition show_int :: "int \<Rightarrow> string" where
  "show_int n = (if n < 0 then CHR ''-'' # nat_to_base 10 (nat (- n)) else nat_to_base 10 (nat n))"

text \<open>\<open>fscanf\<close> with \<open>%lu\<close> converts as \<open>strtoul\<close> does and fails when there is no digit.\<close>

definition get_process_vmsize :: "fs \<Rightarrow> int \<Rightarrow> u64" where
  "get_process_vmsize fs pid =
     (case fs (''/proc/'' @ show_int pid @ ''/statm'') of
        None \<Rightarrow> 0
      | Some file \<Rightarrow>
          if parse_number 10 file = None then 0 else fst (c_strtoul file 10))"

definition handle_mem_message ::
  "collect_env \<Rightarrow> memory_message \<Rightarrow> memdcd_state \<Rightarrow> (int \<times> memdcd_state) c_res" where
  "handle_mem_message env msg st =
     (let total_pages = get_process_vmsize (ce_fs env) (mm_pid msg) in
      if total_pages = 0 then Inr (-1, st)
      else if total_pages < sv_total_length (mm_vma msg) then Inr (-1, st)
      else if sv_length (mm_vma msg) div SIZEOF_VMA_ADDR_WITH_COUNT > of_nat MAX_VMA_NUM then Inr (-1, st)
      else migrate_process_get_pages env (mm_pid msg) (mm_vma msg) st)"

datatype memdcd_cmd_type = MEMDCD_CMD_MEM | MEMDCD_CMD_NODE | MEMDCD_CMD_POLICY

abbreviation (input) SIZEOF_MEMDCD_MESSAGE :: int where "SIZEOF_MEMDCD_MESSAGE \<equiv> 12336"

definition handle_recv_buffer ::
  "collect_env \<Rightarrow> memdcd_cmd_type \<Rightarrow> memory_message \<Rightarrow> int \<Rightarrow> memdcd_state \<Rightarrow> (int \<times> memdcd_state) c_res" where
  "handle_recv_buffer env cmd msg msg_len st =
     (if msg_len \<noteq> SIZEOF_MEMDCD_MESSAGE then Inr (-1, st)
      else case cmd of
        MEMDCD_CMD_MEM \<Rightarrow> handle_mem_message env msg st
      | _ \<Rightarrow> Inr (-1, st))"

section \<open>The table as a map\<close>

lemma set_remove: "set (migrate_process_remove pid ps) \<subseteq> set ps"
  by (induction ps) auto

lemma distinct_remove: "distinct (map mp_pid ps) \<Longrightarrow> distinct (map mp_pid (migrate_process_remove pid ps))"
  by (induction ps) (auto dest: subsetD [OF set_remove])

lemma search_remove:
  "distinct (map mp_pid ps) \<Longrightarrow>
   migrate_process_search p (migrate_process_remove pid ps) =
     (if p = pid then None else migrate_process_search p ps)"
proof (induction ps)
  case (Cons q ps)
  have "migrate_process_search r ps = None" if "r \<notin> mp_pid ` set ps" for r
    using that by (induction ps) auto
  with Cons show ?case by auto
qed simp

lemma search_SomeD: "migrate_process_search pid ps = Some p \<Longrightarrow> p \<in> set ps \<and> mp_pid p = pid"
  by (induction ps) (auto split: if_splits)

lemma search_None: "migrate_process_search pid ps = None \<longleftrightarrow> pid \<notin> mp_pid ` set ps"
  by (induction ps) auto

lemma remove_absent: "migrate_process_search pid ps = None \<Longrightarrow> migrate_process_remove pid ps = ps"
  by (induction ps) (auto split: if_splits)

lemma set_process_keys: "mp_pid q = pid \<Longrightarrow> map mp_pid (set_process pid q ps) = map mp_pid ps"
  by (induction ps) auto

lemma search_set_process:
  "mp_pid q = pid \<Longrightarrow> migrate_process_search r (set_process pid q ps) =
     (if r = pid \<and> migrate_process_search pid ps \<noteq> None then Some q else migrate_process_search r ps)"
  by (induction ps) auto

lemma set_set_process:
  "distinct (map mp_pid ps) \<Longrightarrow> p \<in> set (set_process pid q ps) \<Longrightarrow> p = q \<or> p \<in> set ps \<and> mp_pid p \<noteq> pid"
  by (induction ps) (auto simp: image_iff split: if_splits)

section \<open>The invariant of the table\<close>

text \<open>The offset counts the pages that were written, they do not exceed the announced length,
  and the block was allocated without wrap-around.\<close>

definition proc_fields_ok :: "migrate_process \<Rightarrow> bool" where
  "proc_fields_ok p \<longleftrightarrow> mp_offset p = of_nat (length (mp_pages p)) \<and>
     length (mp_pages p) \<le> unat (mp_length p) \<and> unat (mp_length p) < 2 ^ 52"

definition table_but :: "int \<Rightarrow> migrate_process list \<Rightarrow> bool" where
  "table_but pid ps \<longleftrightarrow> distinct (map mp_pid ps) \<and>
     (\<forall>p\<in>set ps. proc_fields_ok p \<and> (mp_pid p \<noteq> pid \<longrightarrow> mp_timestamp p \<noteq> None))"

definition table_ok :: "migrate_process list \<Rightarrow> bool" where
  "table_ok ps \<longleftrightarrow> distinct (map mp_pid ps) \<and> (\<forall>p\<in>set ps. proc_fields_ok p \<and> mp_timestamp p \<noteq> None)"

lemma table_ok_but: "table_ok ps \<Longrightarrow> table_but pid ps"
  by (auto simp: table_ok_def table_but_def)

lemma table_but_remove: "table_but pid ps \<Longrightarrow> table_ok (migrate_process_remove pid ps)"
proof -
  assume t: "table_but pid ps"
  then have d: "distinct (map mp_pid ps)" by (simp add: table_but_def)
  have "migrate_process_search pid (migrate_process_remove pid ps) = None"
    by (simp add: search_remove [OF d])
  then show ?thesis
    using t set_remove [of pid ps] distinct_remove [OF d]
    by (auto simp: table_but_def table_ok_def search_None image_iff subset_iff)
qed

lemma table_but_set:
  assumes "table_but pid ps" "proc_fields_ok q" "mp_timestamp q \<noteq> None" "mp_pid q = pid"
  shows "table_ok (set_process pid q ps)"
  using assms set_process_keys [of q pid ps]
  by (auto simp: table_but_def table_ok_def dest!: set_set_process)

lemma recycle_loop_ok:
  "\<forall>p\<in>set ps. mp_timestamp p \<noteq> None \<Longrightarrow>
   recycle_loop now timeout busy ps =
     Inr (filter (\<lambda>p. \<not> (now - the (mp_timestamp p) > timeout \<and> \<not> (mp_worker p \<noteq> 0 \<and> busy (mp_worker p)))) ps)"
  by (induction ps) auto

lemma table_ok_filter: "table_ok ps \<Longrightarrow> table_ok (filter P ps)"
  by (auto simp: table_ok_def distinct_map_filter)

text \<open>The processes that a call of \<open>migrate_process_recycle\<close> keeps.\<close>

definition kept :: "int \<Rightarrow> (nat \<Rightarrow> bool) \<Rightarrow> memdcd_state \<Rightarrow> migrate_process \<Rightarrow> bool" where
  "kept now busy st p \<longleftrightarrow>
     ms_timeout st = 0 \<or> ms_last st = 0 \<or> now - ms_last st < ms_timeout st \<or>
     now - the (mp_timestamp p) \<le> ms_timeout st \<or> (mp_worker p \<noteq> 0 \<and> busy (mp_worker p))"

lemma recycle_eq:
  assumes "table_ok (ms_procs st)"
  shows "migrate_process_recycle now busy st =
    Inr (st\<lparr>ms_procs := filter (kept now busy st) (ms_procs st),
            ms_last := (if ms_timeout st = 0 then ms_last st else now)\<rparr>)"
proof -
  have "\<forall>p\<in>set (ms_procs st). mp_timestamp p \<noteq> None" using assms by (simp add: table_ok_def)
  note loop = recycle_loop_ok [OF this, of now "ms_timeout st" busy]
  show ?thesis
  proof (cases "ms_timeout st = 0 \<or> ms_last st = 0 \<or> now - ms_last st < ms_timeout st")
    case True
    then have "filter (kept now busy st) (ms_procs st) = ms_procs st" by (auto simp: kept_def)
    with True show ?thesis by (auto simp: migrate_process_recycle_def)
  next
    case False
    then have "kept now busy st = (\<lambda>p. \<not> (now - the (mp_timestamp p) > ms_timeout st \<and>
        \<not> (mp_worker p \<noteq> 0 \<and> busy (mp_worker p))))"
      by (auto simp: kept_def fun_eq_iff)
    with False loop show ?thesis by (cases st) (simp add: migrate_process_recycle_def)
  qed
qed

lemma search_filter:
  "migrate_process_search pid ps = Some p \<Longrightarrow> P p \<Longrightarrow> migrate_process_search pid (filter P ps) = Some p"
  by (induction ps) (auto split: if_splits)

section \<open>One message\<close>

lemma page_capacity_eq:
  assumes "unat len < 2 ^ 52"
  shows "unat (page_list_size len) = 24 * unat len + 8" "page_capacity len = unat len"
proof -
  have "24 * unat len + 8 < (2 :: nat) ^ 64" using assms by simp
  then show "unat (page_list_size len) = 24 * unat len + 8"
    by (simp add: page_list_size_def unat_word_ariths)
  then show "page_capacity len = unat len" by (simp add: page_capacity_def)
qed

lemma offset_no_wrap:
  assumes "proc_fields_ok p" "unat cnt \<le> MAX_VMA_NUM"
  shows "unat (mp_offset p) = length (mp_pages p)"
    and "unat (mp_offset p + cnt) = length (mp_pages p) + unat cnt"
proof -
  have "length (mp_pages p) < 2 ^ 52" using assms(1) by (simp add: proc_fields_ok_def)
  then show o: "unat (mp_offset p) = length (mp_pages p)"
    using assms(1) by (simp add: proc_fields_ok_def unat_of_nat)
  with assms(2) \<open>length (mp_pages p) < 2 ^ 52\<close>
  show "unat (mp_offset p + cnt) = length (mp_pages p) + unat cnt"
    by (simp add: unat_word_ariths)
qed

definition vma_msg_ok :: "swap_vma_with_count \<Rightarrow> bool" where
  "vma_msg_ok vma \<longleftrightarrow> length (sv_vma_addrs vma) = MAX_VMA_NUM \<and>
     unat (sv_length vma div SIZEOF_VMA_ADDR_WITH_COUNT) \<le> MAX_VMA_NUM"

definition msg_pages :: "swap_vma_with_count \<Rightarrow> migrate_page list" where
  "msg_pages vma =
     map page_of_entry (take (unat (sv_length vma div SIZEOF_VMA_ADDR_WITH_COUNT)) (sv_vma_addrs vma))"

text \<open>The process after the pages of a message were appended.\<close>

definition grow :: "migrate_process \<Rightarrow> swap_vma_with_count \<Rightarrow> int \<Rightarrow> migrate_process" where
  "grow p vma stamp =
     p\<lparr>mp_pages := mp_pages p @ msg_pages vma,
       mp_offset := of_nat (length (mp_pages p) + length (msg_pages vma)), mp_timestamp := Some stamp\<rparr>"

lemma length_msg_pages:
  "vma_msg_ok vma \<Longrightarrow> length (msg_pages vma) = unat (sv_length vma div SIZEOF_VMA_ADDR_WITH_COUNT)"
  by (simp add: msg_pages_def vma_msg_ok_def)

lemma collect_into_eq:
  assumes p: "proc_fields_ok p" and v: "vma_msg_ok vma"
  shows "collect_into pid vma stamp p procs =
    (let full = length (mp_pages p) + length (msg_pages vma) = unat (mp_length p);
         procs' = set_process pid (grow p vma stamp) procs in
     if length (mp_pages p) + length (msg_pages vma) > unat (mp_length p) then
       Inr (None, migrate_process_remove pid procs)
     else if sv_status vma = MEMDCD_SEND_END \<and> \<not> full then Inr (None, migrate_process_remove pid procs')
     else if sv_status vma \<noteq> MEMDCD_SEND_PROCESS \<and> full then Inr (Some (grow p vma stamp), procs')
     else Inr (None, procs'))"
proof -
  let ?c = "sv_length vma div SIZEOF_VMA_ADDR_WITH_COUNT"
  have c: "unat ?c \<le> MAX_VMA_NUM" and l: "unat ?c \<le> length (sv_vma_addrs vma)"
    using v by (simp_all add: vma_msg_ok_def)
  note off = offset_no_wrap [OF p c]
  have len: "unat (mp_length p) < 2 ^ 52" "length (mp_pages p) \<le> unat (mp_length p)"
    using p by (simp_all add: proc_fields_ok_def)
  note n = length_msg_pages [OF v]
  have gt: "mp_offset p + ?c > mp_length p \<longleftrightarrow> length (mp_pages p) + length (msg_pages vma) > unat (mp_length p)"
    by (simp add: word_less_nat_alt off(2) n)
  have eq: "mp_offset p + ?c = mp_length p \<longleftrightarrow> length (mp_pages p) + length (msg_pages vma) = unat (mp_length p)"
    by (simp add: word_unat_eq_iff off(2) n)
  have wr: "write_pages (unat (mp_offset p)) (msg_pages vma) (mp_pages p) = mp_pages p @ msg_pages vma"
    by (simp add: write_pages_def off(1))
  have o: "mp_offset p + ?c = of_nat (length (mp_pages p) + length (msg_pages vma))"
  proof -
    have "of_nat (unat w) = w" for w :: u64 by simp
    from this [of "mp_offset p + ?c"] show ?thesis by (simp only: off(2) n)
  qed
  have new: "map page_of_entry (take (unat ?c) (sv_vma_addrs vma)) = msg_pages vma"
    by (simp add: msg_pages_def)
  show ?thesis
    unfolding collect_into_def Let_def new wr gt
    using l off(1) n page_capacity_eq(2) [OF len(1)] eq
    by (auto simp: grow_def o simp del: of_nat_add)
qed

lemma proc_fields_grow:
  "proc_fields_ok p \<Longrightarrow> length (mp_pages p) + length (msg_pages vma) \<le> unat (mp_length p) \<Longrightarrow>
   proc_fields_ok (grow p vma stamp)"
  by (simp add: proc_fields_ok_def grow_def)

lemma grow_simps [simp]:
  "mp_pid (grow p vma stamp) = mp_pid p" "mp_worker (grow p vma stamp) = mp_worker p"
  "mp_length (grow p vma stamp) = mp_length p" "mp_timestamp (grow p vma stamp) = Some stamp"
  "mp_pages (grow p vma stamp) = mp_pages p @ msg_pages vma"
  by (simp_all add: grow_def)

text \<open>A step of the collector that keeps the table: it does not fault, and a process that it
  hands over is in the table and complete.\<close>

definition collect_good :: "int \<Rightarrow> (migrate_process option \<times> migrate_process list) c_res \<Rightarrow> bool" where
  "collect_good pid r \<longleftrightarrow> (\<exists>res procs'. r = Inr (res, procs') \<and> table_ok procs' \<and>
     (\<forall>p. res = Some p \<longrightarrow> migrate_process_search pid procs' = Some p \<and>
        length (mp_pages p) = unat (mp_length p)))"

lemma collect_into_good:
  assumes t: "table_but pid procs" and s: "migrate_process_search pid procs = Some p"
    and v: "vma_msg_ok vma"
  shows "collect_good pid (collect_into pid vma stamp p procs)"
proof -
  have p: "proc_fields_ok p" "mp_pid p = pid"
    using t search_SomeD [OF s] by (simp_all add: table_but_def)
  let ?g = "grow p vma stamp" and ?n = "length (mp_pages p) + length (msg_pages vma)"
  have rem: "table_ok (migrate_process_remove pid procs)"
    by (rule table_but_remove [OF t])
  have new: "table_ok (set_process pid ?g procs)" if "?n \<le> unat (mp_length p)"
    using that p by (intro table_but_set [OF t]) (simp_all add: proc_fields_grow)
  have se: "migrate_process_search pid (set_process pid ?g procs) = Some ?g"
    using s p by (simp add: search_set_process)
  show ?thesis
    unfolding collect_into_eq [OF p(1) v] Let_def collect_good_def
    using rem new se table_but_remove [OF table_ok_but [OF new], of pid] by (auto simp: not_less)
qed

definition state_good ::
  "int \<Rightarrow> memdcd_state \<Rightarrow> (migrate_process option \<times> memdcd_state) c_res \<Rightarrow> bool" where
  "state_good pid st r \<longleftrightarrow> (\<exists>res st'. r = Inr (res, st') \<and> table_ok (ms_procs st') \<and>
     ms_timeout st' = ms_timeout st \<and>
     (\<forall>p. res = Some p \<longrightarrow> migrate_process_search pid (ms_procs st') = Some p \<and>
        length (mp_pages p) = unat (mp_length p)))"

lemma collect_good_state:
  assumes "collect_good pid r" "ms_timeout st1 = ms_timeout st"
  shows "state_good pid st (c_bind r (\<lambda>r. Inr (fst r, st1\<lparr>ms_procs := snd r\<rparr>)))"
  using assms by (auto simp: collect_good_def state_good_def)

lemma add_into_good:
  assumes t: "table_ok procs" and n: "migrate_process_search pid procs = None"
    and len: "unat len < 2 ^ 52" and v: "vma_msg_ok vma" and st1: "ms_timeout st1 = ms_timeout st"
  shows "state_good pid st
    (c_bind (migrate_process_add pid len procs al) (\<lambda>r. case r of
        (None, procs', _) \<Rightarrow> Inr (None, st1\<lparr>ms_procs := procs'\<rparr>)
      | (Some p, procs', _) \<Rightarrow> c_bind (collect_into pid vma stamp p procs')
                            (\<lambda>r. Inr (fst r, st1\<lparr>ms_procs := snd r\<rparr>))))"
proof -
  let ?p = "\<lparr>mp_pid = pid, mp_length = len, mp_pages = [], mp_offset = 0, mp_timestamp = None, mp_worker = 0\<rparr>"
  have tb: "table_but pid (?p # procs)"
    using t n len by (auto simp: table_but_def table_ok_def search_None proc_fields_ok_def)
  have "\<not> unat (page_list_size len) < 8" by (simp add: page_capacity_eq(1) [OF len])
  then have "(\<exists>al'. migrate_process_add pid len procs al = Inr (None, procs, al')) \<or>
      (\<exists>al'. migrate_process_add pid len procs al = Inr (Some ?p, ?p # procs, al'))"
    by (auto simp: migrate_process_add_def Let_def split: prod.split bool.split)
  then consider (fail) al' where "migrate_process_add pid len procs al = Inr (None, procs, al')"
    | (new) al' where "migrate_process_add pid len procs al = Inr (Some ?p, ?p # procs, al')"
    by blast
  then show ?thesis
  proof cases
    case fail
    with t st1 show ?thesis by (auto simp: state_good_def)
  next
    case new
    have "collect_good pid (collect_into pid vma stamp ?p (?p # procs))"
      by (rule collect_into_good [OF tb _ v]) simp
    with new st1 show ?thesis by (simp add: collect_good_state)
  qed
qed

lemma collect_pages_good:
  assumes t: "table_ok (ms_procs st)" and v: "vma_msg_ok vma" and len: "unat (sv_total_length vma) < 2 ^ 52"
  shows "state_good pid st (migrate_process_collect_pages env pid vma st)"
proof -
  let ?st = "st\<lparr>ms_procs := filter (kept (ce_now env) (ce_busy env) st) (ms_procs st),
            ms_last := (if ms_timeout st = 0 then ms_last st else ce_now env)\<rparr>"
  let ?ps = "ms_procs ?st"
  have ps: "table_ok ?ps" using table_ok_filter [OF t] by simp
  have d: "distinct (map mp_pid ?ps)" using ps by (simp add: table_ok_def)
  have rem: "table_ok (migrate_process_remove pid ?ps)"
    by (rule table_but_remove [OF table_ok_but [OF ps]])
  have same: "state_good pid st (Inr (None, ?st))" "state_good pid st (Inr (None, ?st\<lparr>ms_procs := ?ps\<rparr>))"
    using ps by (auto simp: state_good_def)
  have tmo: "ms_timeout ?st = ms_timeout st" by simp
  note add0 = add_into_good [OF ps _ len v tmo, of pid]
    and add1 = add_into_good [OF rem _ len v tmo, of pid]
  have into: "state_good pid st (c_bind (collect_into pid vma stamp p ?ps) (\<lambda>r. Inr (fst r, ?st\<lparr>ms_procs := snd r\<rparr>)))"
    if "migrate_process_search pid ?ps = Some p" for p stamp
    by (rule collect_good_state [OF collect_into_good [OF table_ok_but [OF ps] that v] tmo])
  show ?thesis
    unfolding migrate_process_collect_pages_def recycle_eq [OF t] c_bind.simps Let_def
    using same add0 add1 into search_remove [OF d, of pid pid]
    by (auto split: option.split)
qed

text \<open>The kernel reports sizes of address spaces, far below the wrap-around of the block size.\<close>

definition statm_ok :: "fs \<Rightarrow> bool" where
  "statm_ok fs \<longleftrightarrow> (\<forall>pid. unat (get_process_vmsize fs pid) < 2 ^ 52)"

definition handled :: "int \<Rightarrow> memdcd_state \<Rightarrow> (int \<times> memdcd_state) c_res \<Rightarrow> bool" where
  "handled pid st r \<longleftrightarrow> (\<exists>ret st'. r = Inr (ret, st') \<and> table_ok (ms_procs st') \<and>
     (ret = 0 \<longrightarrow> (\<exists>p. migrate_process_search pid (ms_procs st') = Some p \<and>
        length (mp_pages p) = unat (mp_length p))))"

lemma table_ok_set_worker:
  assumes "table_ok ps" "migrate_process_search pid ps = Some p"
  shows "table_ok (set_process pid (p\<lparr>mp_worker := tid\<rparr>) ps)"
  using assms search_SomeD [OF assms(2)]
  by (intro table_but_set table_ok_but) (auto simp: table_ok_def proc_fields_ok_def)

lemma get_pages_handled:
  assumes "table_ok (ms_procs st)" "vma_msg_ok vma" "unat (sv_total_length vma) < 2 ^ 52"
  shows "handled pid st (migrate_process_get_pages env pid vma st)"
proof -
  from collect_pages_good [OF assms, of pid env] obtain res st' where
    r: "migrate_process_collect_pages env pid vma st = Inr (res, st')" and t: "table_ok (ms_procs st')"
    and p: "res = Some p \<Longrightarrow> migrate_process_search pid (ms_procs st') = Some p" 
      "res = Some p \<Longrightarrow> length (mp_pages p) = unat (mp_length p)" for p
    unfolding state_good_def by blast
  show ?thesis
  proof (cases res)
    case None
    with r t assms(1) show ?thesis by (auto simp: handled_def migrate_process_get_pages_def)
  next
    case (Some q)
    note q = p(1) [OF Some] p(2) [OF Some]
    have "mp_pid q = pid" using search_SomeD [OF q(1)] by simp
    then show ?thesis
      using r t assms(1) q table_ok_set_worker [OF t q(1)] Some
      by (auto simp: handled_def migrate_process_get_pages_def search_set_process split: option.split)
  qed
qed

lemma handle_mem_message_handled:
  assumes "table_ok (ms_procs st)" "length (sv_vma_addrs (mm_vma msg)) = MAX_VMA_NUM" "statm_ok (ce_fs env)"
  shows "handled (mm_pid msg) st (handle_mem_message env msg st)"
proof -
  let ?v = "mm_vma msg"
  let ?size = "get_process_vmsize (ce_fs env) (mm_pid msg)"
  have rej: "handled (mm_pid msg) st (Inr (-1, st))" using assms(1) by (simp add: handled_def)
  have "handled (mm_pid msg) st (migrate_process_get_pages env (mm_pid msg) ?v st)"
    if "\<not> ?size < sv_total_length ?v" "\<not> sv_length ?v div SIZEOF_VMA_ADDR_WITH_COUNT > of_nat MAX_VMA_NUM"
  proof (rule get_pages_handled [OF assms(1)])
    show "vma_msg_ok ?v" using that(2) assms(2) by (simp add: vma_msg_ok_def word_less_nat_alt not_less)
    show "unat (sv_total_length ?v) < 2 ^ 52"
      using that(1) assms(3) by (metis statm_ok_def word_less_nat_alt not_less order_le_less_trans)
  qed
  with rej show ?thesis by (simp add: handle_mem_message_def Let_def)
qed

section \<open>Histories of the collector\<close>

text \<open>Any sequence of received messages, ends of worker threads and changes of the timeout.\<close>

inductive collector_reach :: "memdcd_state \<Rightarrow> bool" where
  start: "collector_reach \<lparr>ms_procs = [], ms_last = 0, ms_timeout = t\<rparr>"
| timeout: "collector_reach st \<Longrightarrow> collector_reach (init_collect_pages_timeout t st)"
| worker_done: "collector_reach st \<Longrightarrow>
    collector_reach (st\<lparr>ms_procs := migrate_process_remove pid (ms_procs st)\<rparr>)"
| message: "collector_reach st \<Longrightarrow> length (sv_vma_addrs (mm_vma msg)) = MAX_VMA_NUM \<Longrightarrow>
    statm_ok (ce_fs env) \<Longrightarrow> handle_recv_buffer env cmd msg len st = Inr (ret, st') \<Longrightarrow>
    collector_reach st'"

lemma handle_recv_buffer_handled:
  assumes "table_ok (ms_procs st)" "length (sv_vma_addrs (mm_vma msg)) = MAX_VMA_NUM" "statm_ok (ce_fs env)"
  shows "handled (mm_pid msg) st (handle_recv_buffer env cmd msg len st)"
  using handle_mem_message_handled [OF assms] assms(1)
  by (auto simp: handle_recv_buffer_def handled_def split: memdcd_cmd_type.split)

lemma collector_reach_table: "collector_reach st \<Longrightarrow> table_ok (ms_procs st)"
proof (induction rule: collector_reach.induct)
  case (worker_done st pid)
  then show ?case by (simp add: table_but_remove table_ok_but)
next
  case (message st msg env cmd len ret st')
  from handle_recv_buffer_handled [OF message.IH message.hyps(2,3), of cmd len] message.hyps(4) show ?case
    by (auto simp: handled_def)
qed (simp_all add: table_ok_def init_collect_pages_timeout_def)

section \<open>A transfer\<close>

lemma memdcd_msg_simps [simp]:
  "mm_pid (memdcd_msg pid n status c) = cast_int (uint pid)"
  "sv_status (mm_vma (memdcd_msg pid n status c)) = status"
  "sv_total_length (mm_vma (memdcd_msg pid n status c)) = n"
  by (simp_all add: memdcd_msg_def)

lemma memdcd_msg_count:
  assumes "length c \<le> MAX_VMA_NUM"
  shows "sv_length (mm_vma (memdcd_msg pid n status c)) div SIZEOF_VMA_ADDR_WITH_COUNT = of_nat (length c)"
proof -
  have "unat (of_nat (length c) :: u64) = length c" using assms by (simp add: unat_of_nat)
  moreover then have "unat (of_nat (length c) * 24 :: u64) = length c * 24"
    using assms by (simp add: unat_word_ariths)
  ultimately show ?thesis by (simp add: memdcd_msg_def word_unat_eq_iff unat_div)
qed

lemma memdcd_msg_ok:
  assumes "length c \<le> MAX_VMA_NUM"
  shows "vma_msg_ok (mm_vma (memdcd_msg pid n status c))"
    and "msg_pages (mm_vma (memdcd_msg pid n status c)) = map page_of_entry c"
    and "\<not> sv_length (mm_vma (memdcd_msg pid n status c)) div SIZEOF_VMA_ADDR_WITH_COUNT > of_nat MAX_VMA_NUM"
proof -
  have u: "unat (of_nat (length c) :: u64) = length c" using assms by (simp add: unat_of_nat)
  note cnt = memdcd_msg_count [OF assms, of pid n status]
  show "vma_msg_ok (mm_vma (memdcd_msg pid n status c))"
    using assms by (simp add: vma_msg_ok_def cnt u) (simp add: memdcd_msg_def pad_vma_addrs_def)
  show "msg_pages (mm_vma (memdcd_msg pid n status c)) = map page_of_entry c"
    by (simp add: msg_pages_def cnt u) (simp add: memdcd_msg_def pad_vma_addrs_def)
  show "\<not> sv_length (mm_vma (memdcd_msg pid n status c)) div SIZEOF_VMA_ADDR_WITH_COUNT > of_nat MAX_VMA_NUM"
    unfolding cnt using assms by (simp add: word_less_nat_alt u)
qed

text \<open>What the messages of one transfer meet: the process exists and is large enough, memory and
  threads are available, and the messages arrive within the timeout of each other.\<close>

definition session_env :: "int \<Rightarrow> nat \<Rightarrow> int \<Rightarrow> nat \<Rightarrow> (nat \<Rightarrow> collect_env) \<Rightarrow> bool" where
  "session_env pid n timeout tid e \<longleftrightarrow> 0 < pid \<and> 0 < n \<and> n < 2 ^ 31 \<and>
     (\<forall>k. pid \<le> get_pid_max (ce_fs (e k)) \<and> n \<le> unat (get_process_vmsize (ce_fs (e k)) pid) \<and>
        ce_alloc (e k) = [] \<and> ce_thread (e k) = Some tid \<and>
        (timeout = 0 \<or> (\<forall>j. ce_now (e k) - ce_stamp (e j) \<le> timeout)))"

text \<open>A transfer in progress: \<open>acc\<close> has been received, the last message was \<open>j\<close>.\<close>

definition receiving ::
  "(nat \<Rightarrow> collect_env) \<Rightarrow> int \<Rightarrow> nat \<Rightarrow> int \<Rightarrow> vma_addr_with_count list \<Rightarrow> memdcd_state \<Rightarrow> bool" where
  "receiving e pid n timeout acc st \<longleftrightarrow> table_ok (ms_procs st) \<and> ms_timeout st = timeout \<and>
     (\<exists>p j. migrate_process_search pid (ms_procs st) = Some p \<and> mp_worker p = 0 \<and>
        mp_length p = of_nat n \<and> mp_pages p = map page_of_entry acc \<and>
        mp_timestamp p = Some (ce_stamp (e j)))"

definition delivered :: "int \<Rightarrow> vma_addr_with_count list \<Rightarrow> nat \<Rightarrow> memdcd_state \<Rightarrow> bool" where
  "delivered pid es tid st \<longleftrightarrow> table_ok (ms_procs st) \<and>
     (\<exists>p. migrate_process_search pid (ms_procs st) = Some p \<and> mp_worker p = tid \<and>
        mp_length p = of_nat (length es) \<and> mp_pages p = map page_of_entry es)"

lemma handle_session_msg:
  assumes e: "session_env pid n timeout tid e" and c: "length c \<le> MAX_VMA_NUM"
    and pid: "pid = cast_int (uint upid)"
  shows "handle_mem_message (e k) (memdcd_msg upid (of_nat n) status c) st =
    c_bind (migrate_process_collect_pages (e k) pid (mm_vma (memdcd_msg upid (of_nat n) status c)) st)
      (\<lambda>r. case r of (None, st') \<Rightarrow> Inr (-1, st')
        | (Some process, st') \<Rightarrow>
            Inr (0, st'\<lparr>ms_procs := set_process pid (process\<lparr>mp_worker := tid\<rparr>) (ms_procs st')\<rparr>))"
proof -
  let ?size = "get_process_vmsize (ce_fs (e k)) pid"
  from e have k: "0 < pid" "pid \<le> get_pid_max (ce_fs (e k))" "n \<le> unat ?size" "0 < n" "n < 2 ^ 31"
    "ce_thread (e k) = Some tid"
    by (simp_all add: session_env_def)
  have "unat (of_nat n :: u64) = n" using k(5) by (simp add: unat_of_nat)
  then have "?size \<noteq> 0" "\<not> ?size < of_nat n"
    using k(3,4) by (auto simp: word_less_nat_alt)
  with memdcd_msg_ok(3) [OF c, of upid "of_nat n" status] k(1,2,6) show ?thesis
    by (cases "migrate_process_collect_pages (e k) pid (mm_vma (memdcd_msg upid (of_nat n) status c)) st")
      (auto simp: handle_mem_message_def migrate_process_get_pages_def pid [symmetric] split: option.split)
qed

text \<open>The table behind \<open>migrate_process_recycle\<close> and, for a first message, behind the removal of
  an earlier transfer.\<close>

definition recycled :: "collect_env \<Rightarrow> memdcd_state \<Rightarrow> memdcd_state" where
  "recycled env st = st\<lparr>ms_procs := filter (kept (ce_now env) (ce_busy env) st) (ms_procs st),
     ms_last := (if ms_timeout st = 0 then ms_last st else ce_now env)\<rparr>"

lemma recycled_ok: "table_ok (ms_procs st) \<Longrightarrow> table_ok (ms_procs (recycled env st))"
  by (simp add: recycled_def table_ok_filter)

lemma recycled_timeout [simp]: "ms_timeout (recycled env st) = ms_timeout st"
  by (simp add: recycled_def)

lemma recycled_search:
  assumes "migrate_process_search pid (ms_procs st) = Some p" "kept (ce_now env) (ce_busy env) st p"
  shows "migrate_process_search pid (ms_procs (recycled env st)) = Some p"
  using search_filter [where P = "kept (ce_now env) (ce_busy env) st", OF assms]
  by (simp add: recycled_def)

lemma collect_continue:
  assumes "table_ok (ms_procs st)" "migrate_process_search pid (ms_procs st) = Some p"
    and "kept (ce_now env) (ce_busy env) st p" "mp_worker p = 0" "sv_status vma \<noteq> MEMDCD_SEND_START"
  shows "migrate_process_collect_pages env pid vma st =
    c_bind (collect_into pid vma (ce_stamp env) p (ms_procs (recycled env st)))
      (\<lambda>r. Inr (fst r, (recycled env st)\<lparr>ms_procs := snd r\<rparr>))"
  using assms(4,5) recycled_search [OF assms(2,3)]
  by (simp add: migrate_process_collect_pages_def recycle_eq [OF assms(1)] recycled_def [symmetric] Let_def)

definition idle_pid :: "int \<Rightarrow> collect_env \<Rightarrow> memdcd_state \<Rightarrow> bool" where
  "idle_pid pid env st \<longleftrightarrow>
     (\<forall>p\<in>set (ms_procs st). mp_pid p = pid \<longrightarrow> mp_worker p = 0 \<or> \<not> ce_busy env (mp_worker p))"

abbreviation new_process :: "int \<Rightarrow> u64 \<Rightarrow> migrate_process" where
  "new_process pid len \<equiv> \<lparr>mp_pid = pid, mp_length = len, mp_pages = [], mp_offset = 0,
     mp_timestamp = None, mp_worker = 0\<rparr>"

lemma collect_start:
  assumes t: "table_ok (ms_procs st)" and i: "idle_pid pid env st" and al: "ce_alloc env = []"
    and v: "sv_status vma = MEMDCD_SEND_START" and len: "unat (sv_total_length vma) < 2 ^ 52"
  shows "migrate_process_collect_pages env pid vma st =
    (let ps = migrate_process_remove pid (ms_procs (recycled env st)); p = new_process pid (sv_total_length vma) in
     c_bind (collect_into pid vma (ce_stamp env) p (p # ps))
       (\<lambda>r. Inr (fst r, (recycled env st)\<lparr>ms_procs := snd r\<rparr>)))"
proof -
  let ?st = "recycled env st"
  have sub: "set (ms_procs ?st) \<subseteq> set (ms_procs st)" by (auto simp: recycled_def)
  have add: "migrate_process_add pid (sv_total_length vma) ps [] =
      Inr (Some (new_process pid (sv_total_length vma)), new_process pid (sv_total_length vma) # ps, [])" for ps
    by (simp add: migrate_process_add_def Let_def page_capacity_eq(1) [OF len])
  show ?thesis
  proof (cases "migrate_process_search pid (ms_procs ?st)")
    case None
    with remove_absent [OF None] show ?thesis
      by (simp add: migrate_process_collect_pages_def recycle_eq [OF t] recycled_def [symmetric] Let_def v al add)
  next
    case (Some q)
    then have "mp_worker q = 0 \<or> \<not> ce_busy env (mp_worker q)"
      using search_SomeD [OF Some] sub i by (auto simp: idle_pid_def)
    with Some show ?thesis
      by (auto simp: migrate_process_collect_pages_def recycle_eq [OF t] recycled_def [symmetric] Let_def v al add)
  qed
qed

text \<open>The effect of one message of a transfer on the process that receives it.\<close>

lemma collect_into_session:
  assumes t: "table_but pid procs" and s: "migrate_process_search pid procs = Some p"
    and p: "mp_worker p = 0" "mp_length p = of_nat n" "mp_pages p = map page_of_entry acc"
    and n: "n < 2 ^ 31" "length acc + length c \<le> n" and c: "length c \<le> MAX_VMA_NUM"
    and st: "ms_timeout st = timeout"
    and r: "r = collect_into pid (mm_vma (memdcd_msg upid (of_nat n) status c)) (ce_stamp (e k)) p procs"
    and fin: "status = MEMDCD_SEND_END \<Longrightarrow> length acc + length c = n"
  shows "\<exists>q procs'. r = Inr (if status \<noteq> MEMDCD_SEND_PROCESS \<and> length acc + length c = n then Some q else None, procs')
      \<and> receiving e pid n timeout (acc @ c) (st\<lparr>ms_procs := procs'\<rparr>)
      \<and> migrate_process_search pid procs' = Some q"
proof -
  let ?v = "mm_vma (memdcd_msg upid (of_nat n) status c)"
  let ?q = "grow p ?v (ce_stamp (e k))"
  have f: "proc_fields_ok p" "mp_pid p = pid"
    using t search_SomeD [OF s] by (simp_all add: table_but_def)
  note m = memdcd_msg_ok [OF c, of upid "of_nat n" status]
  have len: "unat (mp_length p) = n" using n(1) p(2) by (simp add: unat_of_nat)
  have ok: "table_ok (set_process pid ?q procs)"
    using f n(2) len p(3) m(2) by (intro table_but_set [OF t] proc_fields_grow) simp_all
  have se: "migrate_process_search pid (set_process pid ?q procs) = Some ?q"
    using s f(2) by (simp add: search_set_process)
  have "receiving e pid n timeout (acc @ c) (st\<lparr>ms_procs := set_process pid ?q procs\<rparr>)"
    using ok se st p m(2) by (auto simp: receiving_def)
  moreover have "r = Inr (if status \<noteq> MEMDCD_SEND_PROCESS \<and> length acc + length c = n then Some ?q else None,
      set_process pid ?q procs)"
    using n(2) fin unfolding r collect_into_eq [OF f(1) m(1)] by (auto simp: Let_def len p(3) m(2))
  ultimately show ?thesis using se by blast
qed

lemma receiving_kept:
  assumes "session_env pid n timeout tid e" "ms_timeout st = timeout" "mp_timestamp p = Some (ce_stamp (e j))"
  shows "kept (ce_now (e k)) (ce_busy (e k)) st p"
  using assms by (auto simp: kept_def session_env_def)

lemma session_first:
  assumes e: "session_env pid n timeout tid e" and pid: "pid = cast_int (uint upid)"
    and t: "table_ok (ms_procs st)" "ms_timeout st = timeout" "idle_pid pid (e k) st"
    and c: "length c \<le> MAX_VMA_NUM" "length c \<le> n"
  shows "\<exists>q st'. migrate_process_collect_pages (e k) pid
        (mm_vma (memdcd_msg upid (of_nat n) MEMDCD_SEND_START c)) st =
      Inr (if length c = n then Some q else None, st')
      \<and> receiving e pid n timeout c st' \<and> migrate_process_search pid (ms_procs st') = Some q"
proof -
  let ?v = "mm_vma (memdcd_msg upid (of_nat n) MEMDCD_SEND_START c)"
  let ?p = "new_process pid (of_nat n)" and ?st = "recycled (e k) st"
  let ?ps = "?p # migrate_process_remove pid (ms_procs ?st)"
  have n: "n < 2 ^ 31" and al: "ce_alloc (e k) = []" using e by (simp_all add: session_env_def)
  have u: "unat (of_nat n :: u64) = n" using n by (simp add: unat_of_nat)
  have rem: "table_ok (migrate_process_remove pid (ms_procs ?st))"
    by (rule table_but_remove [OF table_ok_but [OF recycled_ok [OF t(1)]]])
  have d: "distinct (map mp_pid (ms_procs ?st))" using recycled_ok [OF t(1)] by (simp add: table_ok_def)
  have "table_but pid ?ps"
    using rem n search_remove [OF d, of pid pid]
    by (auto simp: table_but_def table_ok_def proc_fields_ok_def u search_None)
  from collect_into_session [OF this, of ?p n "[]" c ?st timeout _ upid MEMDCD_SEND_START e k, OF _ _ _ _ n _ c(1)]
  obtain q procs' where r: "collect_into pid ?v (ce_stamp (e k)) ?p ?ps =
      Inr (if length c = n then Some q else None, procs')"
    and "receiving e pid n timeout c (?st\<lparr>ms_procs := procs'\<rparr>)" "migrate_process_search pid procs' = Some q"
    using c(2) t(2) by auto
  moreover have "unat (sv_total_length ?v) < 2 ^ 52" using n u by simp
  ultimately show ?thesis
    using collect_start [OF t(1,3) al, of ?v] by (auto simp: Let_def)
qed

lemma session_next:
  assumes e: "session_env pid n timeout tid e" and pid: "pid = cast_int (uint upid)"
    and st: "receiving e pid n timeout acc st" and c: "length c \<le> MAX_VMA_NUM"
    and status: "status = MEMDCD_SEND_PROCESS \<and> length acc + length c \<le> n \<or>
      status = MEMDCD_SEND_END \<and> length acc + length c = n"
  shows "\<exists>q st'. migrate_process_collect_pages (e k) pid (mm_vma (memdcd_msg upid (of_nat n) status c)) st =
      Inr (if status = MEMDCD_SEND_END then Some q else None, st')
      \<and> receiving e pid n timeout (acc @ c) st' \<and> migrate_process_search pid (ms_procs st') = Some q"
proof -
  let ?v = "mm_vma (memdcd_msg upid (of_nat n) status c)" and ?st = "recycled (e k) st"
  have n: "n < 2 ^ 31" using e by (simp add: session_env_def)
  from st obtain p j where t: "table_ok (ms_procs st)" "ms_timeout st = timeout"
    and p: "migrate_process_search pid (ms_procs st) = Some p" "mp_worker p = 0" "mp_length p = of_nat n"
      "mp_pages p = map page_of_entry acc" "mp_timestamp p = Some (ce_stamp (e j))"
    by (auto simp: receiving_def)
  note k = receiving_kept [OF e t(2) p(5), of k]
  from status have len: "length acc + length c \<le> n" by auto
  from collect_into_session [OF table_ok_but [OF recycled_ok [OF t(1), of "e k"]] recycled_search [OF p(1) k]
      p(2,3,4) n len c _ refl, where e = e and k = k and st = ?st and timeout = timeout and upid = upid
      and status = status]
  obtain q procs' where r: "collect_into pid ?v (ce_stamp (e k)) p (ms_procs ?st) =
      Inr (if status \<noteq> MEMDCD_SEND_PROCESS \<and> length acc + length c = n then Some q else None, procs')"
    and q: "receiving e pid n timeout (acc @ c) (?st\<lparr>ms_procs := procs'\<rparr>)" "migrate_process_search pid procs' = Some q"
    using t(2) status by auto
  have "sv_status ?v \<noteq> MEMDCD_SEND_START" using status by auto
  note eq = collect_continue [OF t(1) p(1) k p(2) this]
  have "migrate_process_collect_pages (e k) pid ?v st =
      Inr (if status = MEMDCD_SEND_END then Some q else None, ?st\<lparr>ms_procs := procs'\<rparr>)"
    unfolding eq r using status by auto
  with q show ?thesis by fastforce
qed

text \<open>The messages of a client, handled one after the other.\<close>

fun handle_all ::
  "(nat \<Rightarrow> collect_env) \<Rightarrow> nat \<Rightarrow> memory_message list \<Rightarrow> memdcd_state \<Rightarrow> (int list \<times> memdcd_state) c_res" where
  "handle_all e k [] st = Inr ([], st)"
| "handle_all e k (m # ms) st =
     c_bind (handle_mem_message (e k) m st) (\<lambda>r.
       c_bind (handle_all e (k + 1) ms (snd r)) (\<lambda>q. Inr (fst r # fst q, snd q)))"

text \<open>All answers but the last are -1, the last one is 0, and the list has been handed over.\<close>

definition transfer_done ::
  "int \<Rightarrow> vma_addr_with_count list \<Rightarrow> nat \<Rightarrow> nat \<Rightarrow> (int list \<times> memdcd_state) c_res \<Rightarrow> bool" where
  "transfer_done pid es tid len r \<longleftrightarrow>
     (\<exists>st'. r = Inr (replicate (len - 1) (-1) @ [0], st') \<and> delivered pid es tid st')"

lemma transfer_done_Cons:
  assumes "handle_mem_message (e k) m st = Inr (-1, st')" "ms \<noteq> []"
    and "transfer_done pid es tid (length ms) (handle_all e (k + 1) ms st')"
  shows "transfer_done pid es tid (length (m # ms)) (handle_all e k (m # ms) st)"
proof -
  from assms(2) have "length ms = Suc (length ms - 1)" by (cases ms) auto
  then have "(- 1 :: int) # replicate (length ms - 1) (-1) @ [0] = replicate (length ms) (-1) @ [0]"
    by (metis append_Cons replicate_Suc)
  with assms(1,3) show ?thesis by (auto simp: transfer_done_def)
qed

lemma hand_over_done:
  assumes "receiving e pid n timeout es st" "migrate_process_search pid (ms_procs st) = Some q" "length es = n"
  shows "delivered pid es tid (st\<lparr>ms_procs := set_process pid (q\<lparr>mp_worker := tid\<rparr>) (ms_procs st)\<rparr>)"
proof -
  have "mp_pid q = pid" using search_SomeD [OF assms(2)] by simp
  with assms table_ok_set_worker [OF _ assms(2), of tid] show ?thesis
    by (auto simp: receiving_def delivered_def search_set_process)
qed

lemma length_batch_msgs: "length (batch_msgs pid tot status cs) = length cs"
  by (induction pid tot status cs rule: batch_msgs.induct) auto

lemma batch_msgs_Nil_iff [simp]: "batch_msgs pid tot status cs = [] \<longleftrightarrow> cs = []"
  using length_batch_msgs [of pid tot status cs] by (metis length_0_conv)

lemma transfer_rest:
  assumes e: "session_env pid n timeout tid e" and pid: "pid = cast_int (uint upid)"
  shows "cs \<noteq> [] \<Longrightarrow> \<forall>c\<in>set cs. length c \<le> MAX_VMA_NUM \<Longrightarrow> receiving e pid n timeout acc st \<Longrightarrow>
    length (acc @ concat cs) = n \<Longrightarrow>
    transfer_done pid (acc @ concat cs) tid (length cs)
      (handle_all e k (batch_msgs upid (of_nat n) MEMDCD_SEND_PROCESS cs) st)"
proof (induction cs arbitrary: acc st k rule: batch_msgs.induct [of "\<lambda>_ _ _ cs. P cs" for P])
  case (2 pid' tot status c)
  let ?m = "memdcd_msg upid (of_nat n) MEMDCD_SEND_END c"
  have c: "length c \<le> MAX_VMA_NUM" "length acc + length c = n" using 2 by auto
  from session_next [OF e pid 2(3) c(1), of MEMDCD_SEND_END k] c(2) obtain q st'
    where q: "migrate_process_collect_pages (e k) pid (mm_vma ?m) st = Inr (Some q, st')"
      "receiving e pid n timeout (acc @ c) st'" "migrate_process_search pid (ms_procs st') = Some q"
    by auto
  then show ?case
    using hand_over_done [OF q(2,3), of tid] c(2)
    by (simp add: transfer_done_def handle_session_msg [OF e c(1) pid])
next
  case (3 pid' tot status c d cs)
  let ?m = "memdcd_msg upid (of_nat n) MEMDCD_SEND_PROCESS c"
  have c: "length c \<le> MAX_VMA_NUM" "length acc + length c \<le> n" using 3(3,5) by auto
  from session_next [OF e pid 3(4) c(1), of MEMDCD_SEND_PROCESS k] c(2) obtain st'
    where q: "migrate_process_collect_pages (e k) pid (mm_vma ?m) st = Inr (None, st')"
      "receiving e pid n timeout (acc @ c) st'"
    by auto
  have h: "handle_mem_message (e k) ?m st = Inr (-1, st')"
    by (simp add: handle_session_msg [OF e c(1) pid] q(1))
  have "transfer_done pid ((acc @ c) @ concat (d # cs)) tid (length (d # cs))
      (handle_all e (k + 1) (batch_msgs upid (of_nat n) MEMDCD_SEND_PROCESS (d # cs)) st')"
    using 3(3,5) by (intro 3(1) q(2)) auto
  with transfer_done_Cons [where e = e and k = k and ms = "batch_msgs upid (of_nat n) MEMDCD_SEND_PROCESS (d # cs)", OF h]
  show ?case by (cases cs) (simp_all add: length_batch_msgs)
qed simp

lemma transfer_all:
  assumes e: "session_env pid n timeout tid e" and pid: "pid = cast_int (uint upid)"
    and t: "table_ok (ms_procs st)" "ms_timeout st = timeout" "idle_pid pid (e 0) st"
    and cs: "cs \<noteq> []" "\<forall>c\<in>set cs. length c \<le> MAX_VMA_NUM" "length (concat cs) = n" "[] \<notin> set cs"
  shows "transfer_done pid (concat cs) tid (length cs)
    (handle_all e 0 (batch_msgs upid (of_nat n) MEMDCD_SEND_START cs) st)"
proof -
  obtain c cs' where c: "cs = c # cs'" using cs(1) by (cases cs) auto
  let ?m = "memdcd_msg upid (of_nat n) MEMDCD_SEND_START c"
  have len: "length c \<le> MAX_VMA_NUM" "length c \<le> n" using cs c by auto
  from session_first [OF e pid t len] obtain q st'
    where q: "migrate_process_collect_pages (e 0) pid (mm_vma ?m) st = Inr (if length c = n then Some q else None, st')"
      "receiving e pid n timeout c st'" "migrate_process_search pid (ms_procs st') = Some q" by blast
  show ?thesis
  proof (cases cs')
    case Nil
    with cs(3) c have "length c = n" by simp
    with q hand_over_done [OF q(2,3), of tid] Nil c show ?thesis
      by (simp add: transfer_done_def handle_session_msg [OF e len(1) pid])
  next
    case (Cons d ds)
    with cs(4) c have "d \<noteq> []" by auto
    with cs(3) c Cons have "length c \<noteq> n" by auto
    with q have h: "handle_mem_message (e 0) ?m st = Inr (-1, st')"
      by (simp add: handle_session_msg [OF e len(1) pid])
    have "transfer_done pid (c @ concat cs') tid (length cs')
        (handle_all e 1 (batch_msgs upid (of_nat n) MEMDCD_SEND_PROCESS cs') st')"
      using cs(2,3) c Cons by (intro transfer_rest [OF e pid] q(2)) auto
    with transfer_done_Cons [where e = e and k = 0 and ms = "batch_msgs upid (of_nat n) MEMDCD_SEND_PROCESS cs'", OF h] Cons c show ?thesis
      by (simp add: length_batch_msgs)
  qed
qed

section \<open>Properties\<close>


definition router_env :: collect_env where
  "router_env = \<lparr>ce_now = 10, ce_stamp = 10, ce_busy = (\<lambda>_. False), ce_alloc = [], ce_thread = Some 1,
     ce_fs = [''/proc/sys/kernel/pid_max'' \<mapsto> ''32768'', ''/proc/7/statm'' \<mapsto> ''100 50'']\<rparr>"

abbreviation router_start :: memdcd_state where
  "router_start \<equiv> \<lparr>ms_procs = [], ms_last = 0, ms_timeout = 60\<rparr>"

lemma router_pid_max: "get_pid_max (ce_fs router_env) = 32768"
proof -
  have "c_strtol (take 256 ''32768'') 10 = (32768, [], False)"
    by (simp add: c_strtol_def parse_number_def c_isspace_def is_digit_of_def digit_value_def)
  then show ?thesis by (simp add: get_pid_max_def router_env_def)
qed

lemma router_numbers:
  "parse_number 10 ''100 50'' \<noteq> None" "fst (c_strtoul ''100 50'' 10) = 100"
  "fst (c_strtoul ''32768'' 10) = 32768"
proof -
  have "parse_number 10 ''100 50'' = Some (False, 100, '' 50'')"
    "parse_number 10 ''32768'' = Some (False, 32768, [])"
    by (simp_all add: parse_number_def c_isspace_def is_digit_of_def digit_value_def)
  then show "parse_number 10 ''100 50'' \<noteq> None" "fst (c_strtoul ''100 50'' 10) = 100"
    "fst (c_strtoul ''32768'' 10) = 32768"
    by (simp_all add: c_strtoul_def)
qed

lemma router_vmsize: "get_process_vmsize (ce_fs router_env) 7 = 100"
proof -
  have "show_int 7 = ''7''" by code_simp
  with router_numbers(1,2) show ?thesis by (simp add: get_process_vmsize_def router_env_def)
qed

lemma router_statm: "statm_ok (ce_fs router_env)"
  using router_numbers by (auto simp: statm_ok_def get_process_vmsize_def router_env_def split: option.split)


text \<open>C32: the pages that the memdcd engine sends for a process arrive in memRouter exactly: when
  the exchanges succeed and the messages meet a process that is not being worked on, every message
  but the last is answered with -1 and the last one hands a list to a worker that holds the pages
  of the client, all of them, in order, with address, size and count.\<close>

theorem memdcd_transfer:
  assumes "exchanges_ok conn clear" "map (page_entry gps) ps = map Inr es"
    and "session_env pid (length ps) timeout tid e" "pid = cast_int (uint upid)"
    and "collector_reach st" "ms_timeout st = timeout" "idle_pid pid (e 0) st"
  shows "\<exists>msgs st' p. memdcd_do_migrate gps conn clear upid ps [] = Inr (0, msgs) \<and>
    handle_all e 0 msgs st = Inr (replicate (length msgs - 1) (-1) @ [0], st') \<and>
    migrate_process_search pid (ms_procs st') = Some p \<and> mp_worker p = tid \<and>
    mp_pages p = map page_of_entry es"
proof -
  let ?cs = "chunks MAX_VMA_NUM es"
  let ?msgs = "batch_msgs upid (of_nat (length ps)) MEMDCD_SEND_START ?cs"
  have n: "0 < length ps" "length ps < 2 ^ 31" using assms(3) by (simp_all add: session_env_def)
  have es: "length es = length ps" using assms(2) by (metis length_map)
  have ne: "es \<noteq> []" "ps \<noteq> []" using n(1) es by auto
  have m: "memdcd_do_migrate gps conn clear upid ps [] = Inr (0, ?msgs)"
    by (rule memdcd_do_migrate_batches [OF assms(1,2) ne(2) n(2)])
  have cs: "?cs \<noteq> []" "\<forall>c\<in>set ?cs. length c \<le> MAX_VMA_NUM" "length (concat ?cs) = length ps" "[] \<notin> set ?cs"
    using ne(1) es chunks_length [of _ MAX_VMA_NUM es] by (auto simp: chunks_step [of MAX_VMA_NUM es])
  from transfer_all [OF assms(3,4) collector_reach_table [OF assms(5)] assms(6,7) cs]
  obtain st' where "handle_all e 0 ?msgs st = Inr (replicate (length ?msgs - 1) (-1) @ [0], st')"
    "delivered pid es tid st'"
    by (auto simp: transfer_done_def length_batch_msgs)
  with m show ?thesis by (auto simp: delivered_def)
qed

lemma sample_page_entry:
  "page_entry std_page_size (sample_page a) = Inr \<lparr>va_start_addr = a, va_vma_len = 0x1000, va_count = 0\<rparr>"
  by (simp add: page_entry_def sample_page_def page_type_to_size_def std_page_size_def)

lemma memdcd_transfer_witness:
  "\<exists>msgs st' p. memdcd_do_migrate std_page_size (\<lambda>_. memdcd_ok_conn) (\<lambda>_. True) 7
       (map sample_page [0x1000, 0x2000]) [] = Inr (0, msgs) \<and>
    handle_all (\<lambda>_. router_env) 0 msgs router_start = Inr (replicate (length msgs - 1) (-1) @ [0], st') \<and>
    migrate_process_search 7 (ms_procs st') = Some p \<and> mp_worker p = 1 \<and>
    mp_pages p = map page_of_entry
      (map (\<lambda>a. \<lparr>va_start_addr = a, va_vma_len = 0x1000, va_count = 0\<rparr>) [0x1000, 0x2000])"
proof (rule memdcd_transfer)
  show "exchanges_ok (\<lambda>_. memdcd_ok_conn) (\<lambda>_. True)"
    by (simp add: exchanges_ok_def memdcd_ok_conn_def)
  show "session_env 7 (length (map sample_page [0x1000, 0x2000])) 60 1 (\<lambda>_. router_env)"
    by (simp add: session_env_def router_pid_max router_vmsize) (simp add: router_env_def)
  show "idle_pid 7 ((\<lambda>_. router_env) 0) router_start" by (simp add: idle_pid_def)
qed (simp_all add: sample_page_entry collector_reach.start)

end
