(* ===== verification/Memdcd_Policy.thy ===== *)
theory Memdcd_Policy
  imports Memdcd_Collect "HOL-Library.Multiset"
begin

text \<open>
  The policies of memRouter (\<open>memdcd_policy.c\<close>, \<open>memdcd_policy_threshold.c\<close>), the worker thread
  that applies them to a collected list (\<open>memdcd_migrate\<close> of \<open>memdcd_process.c\<close>) and the client of
  the userswap library (\<open>memdcd_migrate.c\<close>).
\<close>

section \<open>Loading a policy\<close>

text \<open>What json-c reads from the policy file: whether the file and the object \<open>policy\<close> exist, the
  members \<open>unit\<close> (with its string, if it has one) and \<open>threshold\<close>, and the member \<open>type\<close>.\<close>

record policy_json =
  js_root :: bool
  js_policy :: bool
  js_unit :: "string option option"
  js_threshold :: "int option"
  js_type :: "string option option"

abbreviation (input) INT32_MAX :: int where "INT32_MAX \<equiv> 0x7FFFFFFF"

text \<open>The return value and the threshold stored in \<open>policy->private\<close>.\<close>

definition threshold_policy_init :: "policy_json \<Rightarrow> alloc \<Rightarrow> int \<times> u64 option" where
  "threshold_policy_init js al =
     (case c_alloc al of
        (False, _) \<Rightarrow> (-1, None)
      | (True, _) \<Rightarrow>
          if \<not> js_root js then (-1, None)
          else if \<not> js_policy js then (-1, None)
          else case (js_unit js, js_threshold js) of
            (Some unit, Some th_val) \<Rightarrow>
              if th_val = INT32_MAX \<or> th_val < 0 then (-1, None)
              else (case unit of
                None \<Rightarrow> (-1, None)
              | Some str \<Rightarrow>
                  if str = ''B'' then (0, Some (word_of_int th_val))
                  else if str = ''KB'' then (0, Some (word_of_int th_val * 1024))
                  else if str = ''MB'' then (0, Some (word_of_int th_val * 1024 * 1024))
                  else if str = ''GB'' then (0, Some (word_of_int th_val * 1024 * 1024 * 1024))
                  else (-1, None))
          | _ \<Rightarrow> (-1, None))"

definition mem_policy_opts :: "string list" where
  "mem_policy_opts = [''mig_policy_threshold'']"

text \<open>\<open>parse_policy_type\<close>: the index of the policy in the table, or -1.\<close>

fun find_policy :: "string \<Rightarrow> int \<Rightarrow> string list \<Rightarrow> int" where
  "find_policy str i [] = -1"
| "find_policy str i (name # names) = (if str = name then i else find_policy str (i + 1) names)"

definition parse_policy_type :: "policy_json \<Rightarrow> int" where
  "parse_policy_type js =
     (if \<not> js_root js then -1
      else case js_type js of
        None \<Rightarrow> -1
      | Some None \<Rightarrow> -1
      | Some (Some str) \<Rightarrow> find_policy str 0 mem_policy_opts)"

abbreviation (input) EACCES :: int where "EACCES \<equiv> 13"
abbreviation (input) EEXIST :: int where "EEXIST \<equiv> 17"
abbreviation (input) EINVAL :: int where "EINVAL \<equiv> 22"

text \<open>\<open>stat\<close> gives the owner and the mode.\<close>

definition check_policy_file_permission :: "(u32 \<times> u32) option \<Rightarrow> u32 \<Rightarrow> int" where
  "check_policy_file_permission st euid =
     (case st of
        None \<Rightarrow> -1
      | Some (uid, mode) \<Rightarrow>
          if uid \<noteq> euid then - EACCES
          else if mode AND 0x1FF \<noteq> 0x180 then - EACCES
          else 0)"

text \<open>\<open>realpath_ok\<close> is the outcome of \<open>realpath\<close>; the result is the loaded threshold, if any.\<close>

definition init_mem_policy ::
  "bool \<Rightarrow> (u32 \<times> u32) option \<Rightarrow> u32 \<Rightarrow> policy_json \<Rightarrow> alloc \<Rightarrow> int \<times> u64 option" where
  "init_mem_policy realpath_ok st euid js al =
     (if \<not> realpath_ok then (- EEXIST, None)
      else let ret = check_policy_file_permission st euid in
        if ret \<noteq> 0 then (ret, None)
        else if parse_policy_type js < 0 then (- EINVAL, None)
        else threshold_policy_init js al)"

definition threshold_policy_destroy :: "u64 option option \<Rightarrow> int \<times> u64 option option" where
  "threshold_policy_destroy policy =
     (case policy of
        None \<Rightarrow> (-1, None)
      | Some None \<Rightarrow> (-1, policy)
      | Some (Some _) \<Rightarrow> (0, Some None))"

section \<open>The threshold policy\<close>

definition addr_cmp_by_count :: "migrate_page \<Rightarrow> migrate_page \<Rightarrow> int" where
  "addr_cmp_by_count a b = cast_int (mg_visit_count a - mg_visit_count b)"

type_synonym 'a qsort = "('a \<Rightarrow> 'a \<Rightarrow> int) \<Rightarrow> 'a list \<Rightarrow> 'a list"

text \<open>\<open>qsort\<close> of the C library: with a comparison function that is consistent on the elements, the
  result is a sorted permutation; the order of equal elements is unspecified.\<close>

definition cmp_consistent :: "('a \<Rightarrow> 'a \<Rightarrow> int) \<Rightarrow> 'a set \<Rightarrow> bool" where
  "cmp_consistent cmp A \<longleftrightarrow>
     (\<forall>x\<in>A. \<forall>y\<in>A. \<forall>z\<in>A. (cmp x y \<le> 0 \<or> cmp y x \<le> 0) \<and> (cmp x y \<le> 0 \<and> cmp y z \<le> 0 \<longrightarrow> cmp x z \<le> 0))"

definition qsort_ok :: "'a qsort \<Rightarrow> bool" where
  "qsort_ok qs \<longleftrightarrow> (\<forall>cmp xs. cmp_consistent cmp (set xs) \<longrightarrow>
     mset (qs cmp xs) = mset xs \<and> sorted_wrt (\<lambda>x y. cmp x y \<le> 0) (qs cmp xs))"

text \<open>
  The loop of \<open>threshold_policy_parse\<close> from the last (most visited) page down: \<open>Suc i\<close> stands for
  the index \<open>i\<close>, \<open>status\<close> is the array filled by \<open>move_pages\<close>. The pages to swap are moved to the
  upper end of the same array. None is the detected overflow of \<open>sum_size\<close>.
\<close>

fun threshold_loop ::
  "(nat \<Rightarrow> int) \<Rightarrow> u64 \<Rightarrow> nat \<Rightarrow> migrate_page list \<Rightarrow> u64 \<Rightarrow> nat \<Rightarrow> (migrate_page list \<times> nat) option" where
  "threshold_loop status threshold 0 pages sum_size swap_count = Some (pages, swap_count)"
| "threshold_loop status threshold (Suc i) pages sum_size swap_count =
     (let pages1 = pages[i := (pages ! i)\<lparr>mg_numanode := Some (status i)\<rparr>] in
      if status i < 0 then threshold_loop status threshold i pages1 sum_size swap_count
      else if sum_size + mg_length (pages1 ! i) < sum_size then None
      else
        let sum1 = sum_size + mg_length (pages1 ! i) in
        if sum1 < threshold then threshold_loop status threshold i pages1 sum1 swap_count
        else
          threshold_loop status threshold i
            (pages1[length pages - (swap_count + 1) := pages1 ! i]) sum1 (swap_count + 1))"

text \<open>The return value and \<open>*pages_to_swap\<close>; \<open>move pid addrs\<close> is \<open>move_pages\<close> without a target:
  the node of every page, or None for an error.\<close>

definition threshold_policy_parse ::
  "migrate_page qsort \<Rightarrow> (int \<Rightarrow> u64 list \<Rightarrow> (nat \<Rightarrow> int) option) \<Rightarrow> u64 \<Rightarrow> int \<Rightarrow> migrate_page list \<Rightarrow> alloc \<Rightarrow>
   int \<times> migrate_page list option \<times> alloc" where
  "threshold_policy_parse qs move threshold pid page_list al =
     (let pages = qs addr_cmp_by_count page_list in
      case c_alloc al of
        (False, al1) \<Rightarrow> (-1, None, al1)
      | (True, al1) \<Rightarrow>
          (case c_alloc al1 of
             (False, al2) \<Rightarrow> (-1, None, al2)
           | (True, al2) \<Rightarrow>
               (case move pid (map mg_addr pages) of
                  None \<Rightarrow> (-1, None, al2)
                | Some status \<Rightarrow>
                    (case threshold_loop status threshold (length pages) pages 0 0 of
                       None \<Rightarrow> (-1, None, al2)
                     | Some (pages', swap_count) \<Rightarrow>
                         (case c_alloc al2 of
                            (False, al3) \<Rightarrow> (-1, None, al3)
                          | (True, al3) \<Rightarrow> (0, Some (drop (length pages' - swap_count) pages'), al3))))))"

section \<open>Sending to userswap\<close>

text \<open>A request to the userswap server of a process: the entries in use.\<close>

record swap_request =
  sr_length :: u64
  sr_vma_addrs :: "(u64 \<times> u64) list"

record uswap_conn =
  uc_fd :: int
  uc_write :: int
  uc_read :: string

definition uswap_send_data :: "uswap_conn \<Rightarrow> int" where
  "uswap_send_data c =
     (if uc_write c \<le> 0 then -1
      else if length (uc_read c) \<ge> 7 \<and> take 7 (uc_read c) = ''success'' then 0 else -1)"

definition min_int :: "int \<Rightarrow> int \<Rightarrow> int" where
  "min_int a b = (if a < b then a else b)"

text \<open>
  The loop of \<open>send_to_userswap\<close>: the pages from \<open>dst = length - rest\<close> on are sent in batches of
  \<open>min(rest, 512)\<close>, where \<open>rest\<close> is narrowed to \<open>int\<close>. A negative size is a huge unsigned one and
  runs over the array of the request.
\<close>

partial_function (option) userswap_loop ::
  "(nat \<Rightarrow> uswap_conn) \<Rightarrow> migrate_page list \<Rightarrow> nat \<Rightarrow> nat \<Rightarrow> int \<Rightarrow> swap_request list \<Rightarrow>
   (int \<times> swap_request list) c_res option" where
  "userswap_loop conn pages rest k ret sent =
     (if rest = 0 then Some (Inr (ret, sent))
      else if uc_fd (conn k) < 0 then Some (Inr (-1, sent))
      else
        let size = min_int (cast_int (int rest)) (int MAX_VMA_NUM) in
        if size < 0 then Some (Inl Out_of_bounds)
        else
          let batch = take (nat size) (drop (length pages - rest) pages);
              req = \<lparr>sr_length = word_of_int size * 16, sr_vma_addrs = map (\<lambda>p. (mg_addr p, mg_length p)) batch\<rparr>
          in userswap_loop conn pages (rest - nat size) (k + 1)
               (if uswap_send_data (conn k) \<noteq> 0 then -1 else ret) (sent @ [req]))"

abbreviation (input) ENOMEM :: int where "ENOMEM \<equiv> 12"

definition send_to_userswap ::
  "(nat \<Rightarrow> uswap_conn) \<Rightarrow> migrate_page list \<Rightarrow> alloc \<Rightarrow> (int \<times> swap_request list) c_res option" where
  "send_to_userswap conn pages al =
     (case c_alloc al of
        (False, _) \<Rightarrow> Some (Inr (- ENOMEM, []))
      | (True, _) \<Rightarrow> userswap_loop conn pages (length pages) 0 0 [])"

section \<open>The worker thread\<close>

type_synonym policy_parse = "int \<Rightarrow> migrate_page list \<Rightarrow> alloc \<Rightarrow> int \<times> migrate_page list option \<times> alloc"

text \<open>
  \<open>memdcd_migrate\<close> on a collected process: the requests that were sent and the new table. A NULL
  \<open>policy->opt\<close> is None. Without memory for the copy the thread ends and leaves its entry.
\<close>

definition memdcd_migrate ::
  "policy_parse option \<Rightarrow> (nat \<Rightarrow> uswap_conn) \<Rightarrow> migrate_process \<Rightarrow> memdcd_state \<Rightarrow> alloc \<Rightarrow>
   (swap_request list \<times> memdcd_state) c_res option" where
  "memdcd_migrate parse conn process st al =
     (case c_alloc al of
        (False, _) \<Rightarrow> Some (Inr ([], st))
      | (True, al1) \<Rightarrow>
          let st' = st\<lparr>ms_procs := migrate_process_remove (mp_pid process) (ms_procs st)\<rparr> in
          (case parse of
             None \<Rightarrow> Some (Inl Null_deref)
           | Some f \<Rightarrow>
               (case f (mp_pid process) (mp_pages process) al1 of
                  (ret, to_swap, al2) \<Rightarrow>
                    if ret \<noteq> 0 then Some (Inr ([], st'))
                    else case to_swap of
                      None \<Rightarrow> Some (Inl Null_deref)
                    | Some pages \<Rightarrow>
                        (case send_to_userswap conn pages al2 of
                           None \<Rightarrow> None
                         | Some r \<Rightarrow> Some (c_bind r (\<lambda>q. Inr (snd q, st')))))))"

section \<open>The pages beyond the threshold\<close>

text \<open>The located pages below index \<open>n\<close>, most visited first, with their node.\<close>

fun hot_first :: "(nat \<Rightarrow> int) \<Rightarrow> nat \<Rightarrow> migrate_page list \<Rightarrow> migrate_page list" where
  "hot_first status 0 pages = []"
| "hot_first status (Suc i) pages =
     (if status i < 0 then hot_first status i pages
      else (pages ! i)\<lparr>mg_numanode := Some (status i)\<rparr> # hot_first status i pages)"

fun over_threshold :: "u64 \<Rightarrow> u64 \<Rightarrow> migrate_page list \<Rightarrow> migrate_page list option" where
  "over_threshold th s [] = Some []"
| "over_threshold th s (p # ps) =
     (if s + mg_length p < s then None
      else map_option (\<lambda>qs. if s + mg_length p < th then qs else p # qs)
             (over_threshold th (s + mg_length p) ps))"

definition bytes :: "migrate_page list \<Rightarrow> nat" where
  "bytes ps = (\<Sum>p\<leftarrow>ps. unat (mg_length p))"

lemma hot_first_update [simp]: "i \<le> j \<Longrightarrow> hot_first status i (pages[j := p]) = hot_first status i pages"
  by (induction i) auto

lemma hot_first_eq:
  "hot_first status n pages =
     rev (map (\<lambda>i. (pages ! i)\<lparr>mg_numanode := Some (status i)\<rparr>) (filter (\<lambda>i. status i \<ge> 0) [0..<n]))"
  by (induction n) auto

text \<open>Moving the selected pages to the upper end of the array does what a filter would do.\<close>

lemma threshold_loop_None:
  "over_threshold th s (hot_first status i pages) = None \<Longrightarrow> i + cnt \<le> length pages \<Longrightarrow>
   threshold_loop status th i pages s cnt = None"
  by (induction status th i pages s cnt rule: threshold_loop.induct) (auto simp: Let_def split: if_splits)

lemma threshold_loop_Some:
  "over_threshold th s (hot_first status i pages) = Some qs \<Longrightarrow> i + cnt \<le> length pages \<Longrightarrow>
   \<exists>pages'. threshold_loop status th i pages s cnt = Some (pages', cnt + length qs) \<and>
     length pages' = length pages \<and> cnt + length qs \<le> length pages \<and>
     drop (length pages - (cnt + length qs)) pages' = rev qs @ drop (length pages - cnt) pages"
proof (induction i arbitrary: pages s cnt qs)
  case (Suc i)
  let ?p = "(pages ! i)\<lparr>mg_numanode := Some (status i)\<rparr>"
  let ?pages1 = "pages[i := ?p]" and ?s = "s + mg_length (pages ! i)"
  let ?j = "length pages - Suc cnt"
  have i: "i < length pages" "i \<le> ?j" "i < length pages - cnt" "?j < length pages" using Suc.prems(2) by auto
  have tl: "drop (length pages - cnt) ?pages1 = drop (length pages - cnt) pages" using i by simp
  show ?case
  proof (cases "status i < 0 \<or> ?s < th")
    case True
    with Suc.prems i have "over_threshold th (if status i < 0 then s else ?s) (hot_first status i ?pages1) = Some qs"
      "status i < 0 \<or> \<not> ?s < s"
      by (auto split: if_splits)
    with Suc.IH [of "if status i < 0 then s else ?s" ?pages1 qs cnt] Suc.prems(2) i tl True show ?thesis
      by (auto simp: Let_def)
  next
    case False
    with Suc.prems i obtain qs' where qs: "qs = ?p # qs'" "\<not> ?s < s"
      and q: "over_threshold th ?s (hot_first status i (?pages1[?j := ?p])) = Some qs'"
      by (auto split: if_splits)
    have "drop ?j (?pages1[?j := ?p]) = ?p # drop (length pages - cnt) pages"
      using i tl by (simp add: drop_update_swap Cons_nth_drop_Suc [symmetric] Suc_diff_Suc)
    moreover have "threshold_loop status th (Suc i) pages s cnt =
        threshold_loop status th i (?pages1[?j := ?p]) ?s (Suc cnt)"
      using False qs(2) i by (simp add: Let_def)
    ultimately show ?thesis
      using Suc.IH [OF q, of "Suc cnt"] Suc.prems(2) by (simp add: qs(1))
  qed
qed simp

lemma u64_add_no_wrap:
  fixes a b :: u64
  assumes "unat a + unat b < 2 ^ 64"
  shows "unat (a + b) = unat a + unat b" "\<not> a + b < a"
proof -
  show u: "unat (a + b) = unat a + unat b" using assms by (simp add: unat_word_ariths)
  then show "\<not> a + b < a" by (simp add: word_less_nat_alt)
qed

lemma over_threshold_all:
  "unat s + bytes ps < 2 ^ 64 \<Longrightarrow> th \<le> s \<Longrightarrow> over_threshold th s ps = Some ps"
proof (induction ps arbitrary: s)
  case (Cons p ps)
  then have le: "unat s + unat (mg_length p) < 2 ^ 64" by (simp add: bytes_def)
  note u = u64_add_no_wrap [OF le]
  have "th \<le> s + mg_length p" using Cons.prems(2) u(1) by (simp add: word_le_nat_alt)
  with Cons u show ?case by (simp add: bytes_def not_less [symmetric])
qed simp

text \<open>The pages kept in memory are the longest prefix whose sizes stay below the threshold.\<close>

lemma over_threshold_drop:
  "unat s + bytes ps < 2 ^ 64 \<Longrightarrow>
   \<exists>k. over_threshold th s ps = Some (drop k ps) \<and>
     (k = 0 \<or> unat s + bytes (take k ps) < unat th) \<and>
     (k < length ps \<longrightarrow> unat th \<le> unat s + bytes (take (Suc k) ps))"
proof (induction ps arbitrary: s)
  case Nil
  show ?case by (rule exI [of _ 0]) simp
next
  case (Cons p ps)
  let ?s = "s + mg_length p"
  from Cons.prems have le: "unat s + unat (mg_length p) < 2 ^ 64" by (simp add: bytes_def)
  note u = u64_add_no_wrap [OF le]
  have b: "unat ?s + bytes ps < 2 ^ 64" using Cons.prems u(1) by (simp add: bytes_def)
  show ?case
  proof (cases "?s < th")
    case True
    from Cons.IH [OF b] obtain k where k: "over_threshold th ?s ps = Some (drop k ps)"
      "k = 0 \<or> unat ?s + bytes (take k ps) < unat th"
      "k < length ps \<longrightarrow> unat th \<le> unat ?s + bytes (take (Suc k) ps)" by blast
    have "unat ?s < unat th" using True by (simp add: word_less_nat_alt)
    with k(2) have "unat ?s + bytes (take k ps) < unat th" by (auto simp: bytes_def)
    with k True u show ?thesis by (intro exI [of _ "Suc k"]) (simp add: bytes_def add.assoc)
  next
    case False
    with over_threshold_all [OF b, of th] u False show ?thesis
      by (intro exI [of _ 0]) (auto simp: bytes_def word_less_nat_alt word_le_nat_alt)
  qed
qed

section \<open>The order of the pages\<close>

definition counts_ok :: "migrate_page list \<Rightarrow> bool" where
  "counts_ok ps \<longleftrightarrow> (\<forall>p\<in>set ps. 0 \<le> mg_visit_count p \<and> mg_visit_count p < 2 ^ 31)"

lemma addr_cmp_le:
  assumes "counts_ok ps" "a \<in> set ps" "b \<in> set ps"
  shows "addr_cmp_by_count a b \<le> 0 \<longleftrightarrow> mg_visit_count a \<le> mg_visit_count b"
proof -
  have "0 \<le> mg_visit_count a" "mg_visit_count a < 2 ^ 31" "0 \<le> mg_visit_count b" "mg_visit_count b < 2 ^ 31"
    using assms by (auto simp: counts_ok_def)
  then show ?thesis by (simp add: addr_cmp_by_count_def)
qed

lemma addr_cmp_consistent: "counts_ok ps \<Longrightarrow> cmp_consistent addr_cmp_by_count (set ps)"
  unfolding cmp_consistent_def using addr_cmp_le [of ps] by (auto intro: order_trans)

lemma qsort_pages:
  assumes "qsort_ok qs" "counts_ok ps"
  shows "mset (qs addr_cmp_by_count ps) = mset ps"
    and "sorted_wrt (\<lambda>p q. mg_visit_count p \<le> mg_visit_count q) (qs addr_cmp_by_count ps)"
proof -
  have q: "mset (qs addr_cmp_by_count ps) = mset ps"
    "sorted_wrt (\<lambda>x y. addr_cmp_by_count x y \<le> 0) (qs addr_cmp_by_count ps)"
    using assms addr_cmp_consistent [OF assms(2)] by (auto simp: qsort_ok_def)
  show "mset (qs addr_cmp_by_count ps) = mset ps" by (rule q(1))
  have "set (qs addr_cmp_by_count ps) = set ps" by (rule mset_eq_setD [OF q(1)])
  with q(2) addr_cmp_le [OF assms(2)]
  show "sorted_wrt (\<lambda>p q. mg_visit_count p \<le> mg_visit_count q) (qs addr_cmp_by_count ps)"
    by (auto intro: sorted_wrt_mono_rel [rotated])
qed

lemma hot_first_sorted:
  assumes "sorted_wrt (\<lambda>p q. mg_visit_count p \<le> mg_visit_count q) pages" "n \<le> length pages"
  shows "sorted_wrt (\<lambda>p q. mg_visit_count q \<le> mg_visit_count p) (hot_first status n pages)"
  using assms(2)
proof (induction n)
  case (Suc n)
  have "mg_visit_count q \<le> mg_visit_count (pages ! n)" if "q \<in> set (hot_first status n pages)" for q
    using that sorted_wrt_nth_less [OF assms(1), of _ n] Suc.prems by (auto simp: hot_first_eq)
  with Suc show ?case by auto
qed simp

definition page_key :: "migrate_page \<Rightarrow> u64 \<times> u64" where
  "page_key p = (mg_addr p, mg_length p)"

lemma hot_first_keys:
  "n \<le> length pages \<Longrightarrow> mset (map page_key (hot_first status n pages)) \<subseteq># mset (map page_key (take n pages))"
proof (induction n)
  case (Suc n)
  then have "take (Suc n) pages = take n pages @ [pages ! n]" by (simp add: take_Suc_conv_app_nth)
  moreover have "page_key ((pages ! n)\<lparr>mg_numanode := x\<rparr>) = page_key (pages ! n)" for x
    by (simp add: page_key_def)
  moreover have "M \<subseteq># N \<Longrightarrow> M \<subseteq># add_mset x N" for M N and x :: "u64 \<times> u64"
    by (metis add_mset_add_single mset_subset_eq_add_left subset_mset.order_trans)
  ultimately show ?case using Suc by auto
qed simp

lemma threshold_policy_parse_eq:
  assumes S: "S = qs addr_cmp_by_count pages" and m: "move pid (map mg_addr S) = Some status"
  shows "bytes (hot_first status (length S) S) < 2 ^ 64 \<Longrightarrow>
    over_threshold threshold 0 (hot_first status (length S) S) = Some sw \<Longrightarrow>
    threshold_policy_parse qs move threshold pid pages [] = (0, Some (rev sw), [])"
proof -
  assume sw: "over_threshold threshold 0 (hot_first status (length S) S) = Some sw"
  from threshold_loop_Some [OF sw, of 0] obtain S' where
    "threshold_loop status threshold (length S) S 0 0 = Some (S', length sw)" "length S' = length S"
    "drop (length S - length sw) S' = rev sw" by auto
  with m show ?thesis by (simp add: threshold_policy_parse_def S [symmetric])
qed

section \<open>Policies\<close>

text \<open>
  What the worker relies on of a policy: a successful \<open>parse\<close> returns a list, and the list is drawn
  from the collected pages.
\<close>

locale swap_policy =
  fixes parse :: policy_parse
  assumes parse_list: "parse pid pages al = (0, r, al') \<Longrightarrow> r \<noteq> None"
    and parse_pages: "counts_ok pages \<Longrightarrow> parse pid pages al = (0, Some sw, al') \<Longrightarrow>
      mset (map page_key sw) \<subseteq># mset (map page_key pages)"

definition request :: "migrate_page list \<Rightarrow> swap_request" where
  "request ps = \<lparr>sr_length = word_of_int (int (length ps)) * 16, sr_vma_addrs = map page_key ps\<rparr>"

lemma userswap_loop_step:
  assumes "0 < rest" "rest \<le> length pages" "rest < 2 ^ 31"
  shows "userswap_loop conn pages rest k ret sent =
    (if uc_fd (conn k) < 0 then Some (Inr (-1, sent))
     else userswap_loop conn pages (rest - min rest MAX_VMA_NUM) (k + 1)
       (if uswap_send_data (conn k) \<noteq> 0 then -1 else ret)
       (sent @ [request (take MAX_VMA_NUM (drop (length pages - rest) pages))]))"
proof -
  let ?batch = "take MAX_VMA_NUM (drop (length pages - rest) pages)"
  have size: "min_int (cast_int (int rest)) (int MAX_VMA_NUM) = int (min rest MAX_VMA_NUM)"
    using assms(3) by (simp add: min_int_def min_def)
  have len: "length ?batch = min rest MAX_VMA_NUM" using assms(2) by simp
  have "take (min rest MAX_VMA_NUM) (drop (length pages - rest) pages) = ?batch"
    using assms(2) by (simp add: min_def)
  with assms(1) size len show ?thesis
    by (subst userswap_loop.simps) (simp add: Let_def request_def page_key_def [abs_def])
qed

text \<open>With fewer than \<open>2 ^ 31\<close> pages the loop returns, the requests hold an initial part of the
  pages in batches of at most 512, and all of them when every connection is made.\<close>

lemma userswap_loop_result:
  "rest \<le> length pages \<Longrightarrow> rest < 2 ^ 31 \<Longrightarrow>
   \<exists>ret' cs. userswap_loop conn pages rest k ret sent = Some (Inr (ret', sent @ map request cs)) \<and>
     (\<exists>n. cs = take n (chunks MAX_VMA_NUM (drop (length pages - rest) pages))) \<and>
     ((\<forall>j. uc_fd (conn j) \<ge> 0) \<longrightarrow> cs = chunks MAX_VMA_NUM (drop (length pages - rest) pages))"
proof (induction rest arbitrary: k ret sent rule: less_induct)
  case (less rest)
  let ?rem = "drop (length pages - rest) pages"
  show ?case
  proof (cases "rest = 0")
    case True
    then show ?thesis by (subst userswap_loop.simps) simp
  next
    case False
    note step = userswap_loop_step [of rest pages conn k ret sent]
    have ch: "chunks MAX_VMA_NUM ?rem = take MAX_VMA_NUM ?rem # chunks MAX_VMA_NUM (drop MAX_VMA_NUM ?rem)"
      using False less.prems(1) by (intro chunks_step) auto
    show ?thesis
    proof (cases "uc_fd (conn k) < 0")
      case True
      with False less.prems step have l: "userswap_loop conn pages rest k ret sent = Some (Inr (-1, sent))"
        by simp
      have "\<not> (\<forall>j. uc_fd (conn j) \<ge> 0)" using True by (metis not_less)
      with l show ?thesis by (metis append_Nil2 list.simps(8) take0)
    next
      case conn: False
      let ?rest = "rest - min rest MAX_VMA_NUM"
      have rem: "drop (length pages - ?rest) pages = drop MAX_VMA_NUM ?rem"
        using less.prems(1) by (auto simp: min_def add.commute)
      have lt: "?rest < rest" "?rest \<le> length pages" "?rest < 2 ^ 31"
        using False less.prems by (auto simp: min_def)
      from less.IH [OF lt, of "k + 1" "if uswap_send_data (conn k) \<noteq> 0 then -1 else ret"
          "sent @ [request (take MAX_VMA_NUM ?rem)]"]
      obtain ret' cs n where
        IH: "userswap_loop conn pages ?rest (k + 1) (if uswap_send_data (conn k) \<noteq> 0 then -1 else ret)
              (sent @ [request (take MAX_VMA_NUM ?rem)]) =
            Some (Inr (ret', (sent @ [request (take MAX_VMA_NUM ?rem)]) @ map request cs))"
          "cs = take n (chunks MAX_VMA_NUM (drop MAX_VMA_NUM ?rem))"
          "(\<forall>j. uc_fd (conn j) \<ge> 0) \<longrightarrow> cs = chunks MAX_VMA_NUM (drop MAX_VMA_NUM ?rem)"
        unfolding rem by blast
      let ?cs = "take MAX_VMA_NUM ?rem # cs"
      have "userswap_loop conn pages rest k ret sent = Some (Inr (ret', sent @ map request ?cs))"
        using step False conn less.prems IH(1) by simp
      moreover have "?cs = take (Suc n) (chunks MAX_VMA_NUM ?rem)" unfolding ch by (simp add: IH(2))
      moreover have "(\<forall>j. uc_fd (conn j) \<ge> 0) \<longrightarrow> ?cs = chunks MAX_VMA_NUM ?rem"
        unfolding ch using IH(3) by simp
      ultimately show ?thesis by blast
    qed
  qed
qed

lemma send_result:
  assumes "length pages < 2 ^ 31"
  shows "\<exists>ret cs n. send_to_userswap conn pages al = Some (Inr (ret, map request cs)) \<and>
    cs = take n (chunks MAX_VMA_NUM pages)"
proof (cases "c_alloc al")
  case (Pair b al')
  show ?thesis
  proof (cases b)
    case True
    with Pair userswap_loop_result [of "length pages" pages conn 0 0 "[]"] assms show ?thesis
      by (auto simp: send_to_userswap_def)
  next
    case False
    then show ?thesis using Pair
      by (auto simp: send_to_userswap_def intro!: exI [of _ "[]"] exI [of _ 0])
  qed
qed

lemma request_keys: "concat (map sr_vma_addrs (map request cs)) = map page_key (concat cs)"
  by (induction cs) (simp_all add: request_def)

lemma concat_take_chunks:
  assumes "0 < n"
  shows "mset (concat (take k (chunks n xs))) \<subseteq># mset xs"
proof -
  have "concat (take k (chunks n xs)) @ concat (drop k (chunks n xs)) = xs"
    using assms by (metis append_take_drop_id concat_append concat_chunks)
  then show ?thesis by (metis mset_append mset_subset_eq_add_left)
qed

context swap_policy
begin

text \<open>The worker never faults, and every range it asks to swap is one of a collected page.\<close>

lemma worker_requests:
  assumes p: "counts_ok (mp_pages process)" "length (mp_pages process) < 2 ^ 31"
  shows "\<exists>reqs st'. memdcd_migrate (Some parse) conn process st al = Some (Inr (reqs, st')) \<and>
    mset (concat (map sr_vma_addrs reqs)) \<subseteq># mset (map page_key (mp_pages process))"
proof -
  obtain b al1 where al: "c_alloc al = (b, al1)" by (cases "c_alloc al")
  obtain ret r al2 where f: "parse (mp_pid process) (mp_pages process) al1 = (ret, r, al2)"
    by (cases "parse (mp_pid process) (mp_pages process) al1") auto
  have "ret = 0 \<Longrightarrow> r \<noteq> None" using f parse_list by blast
  then consider "\<not> b \<or> ret \<noteq> 0" | sw where "b" "ret = 0" "r = Some sw"
    by auto
  then show ?thesis
  proof cases
    case 1
    then show ?thesis using al f by (cases b) (auto simp: memdcd_migrate_def Let_def)
  next
    case 2
    have sub: "mset (map page_key sw) \<subseteq># mset (map page_key (mp_pages process))"
      using parse_pages [OF p(1)] f 2 by blast
    then have "length sw < 2 ^ 31" using p(2) size_mset_mono [OF sub] by simp
    from send_result [OF this, of conn al2] obtain ret' cs n where
      s: "send_to_userswap conn sw al2 = Some (Inr (ret', map request cs))"
      and cs: "cs = take n (chunks MAX_VMA_NUM sw)" by blast
    have "mset (map page_key (concat cs)) \<subseteq># mset (map page_key sw)"
      using concat_take_chunks [of MAX_VMA_NUM n sw] by (simp add: cs image_mset_subseteq_mono)
    with sub have "mset (concat (map sr_vma_addrs (map request cs))) \<subseteq># mset (map page_key (mp_pages process))"
      unfolding request_keys by (rule subset_mset.order_trans [rotated])
    with s f al 2 show ?thesis by (auto simp: memdcd_migrate_def Let_def)
  qed
qed

end

section \<open>The threshold policy is a policy\<close>

text \<open>A reference \<open>qsort\<close>: insertion sort with the given comparison.\<close>

fun cmp_insert :: "('a \<Rightarrow> 'a \<Rightarrow> int) \<Rightarrow> 'a \<Rightarrow> 'a list \<Rightarrow> 'a list" where
  "cmp_insert cmp x [] = [x]"
| "cmp_insert cmp x (y # ys) = (if cmp x y \<le> 0 then x # y # ys else y # cmp_insert cmp x ys)"

definition ref_qsort :: "'a qsort" where
  "ref_qsort cmp xs = foldr (cmp_insert cmp) xs []"

lemma mset_cmp_insert: "mset (cmp_insert cmp x ys) = add_mset x (mset ys)"
  by (induction ys) auto

lemma set_cmp_insert: "set (cmp_insert cmp x ys) = insert x (set ys)"
  by (induction ys) auto

lemma mset_ref_qsort: "mset (ref_qsort cmp xs) = mset xs"
  by (induction xs) (simp_all add: ref_qsort_def mset_cmp_insert)

lemma set_ref_qsort: "set (ref_qsort cmp xs) = set xs"
  by (rule mset_eq_setD [OF mset_ref_qsort])

lemma cmp_consistent_subset: "cmp_consistent cmp A \<Longrightarrow> B \<subseteq> A \<Longrightarrow> cmp_consistent cmp B"
  unfolding cmp_consistent_def by (meson subsetD)

lemma cmp_total: "cmp_consistent cmp A \<Longrightarrow> x \<in> A \<Longrightarrow> y \<in> A \<Longrightarrow> \<not> cmp x y \<le> 0 \<Longrightarrow> cmp y x \<le> 0"
  unfolding cmp_consistent_def by metis

lemma cmp_trans:
  "cmp_consistent cmp A \<Longrightarrow> x \<in> A \<Longrightarrow> y \<in> A \<Longrightarrow> z \<in> A \<Longrightarrow> cmp x y \<le> 0 \<Longrightarrow> cmp y z \<le> 0 \<Longrightarrow> cmp x z \<le> 0"
  unfolding cmp_consistent_def by metis

lemma sorted_cmp_insert:
  assumes "cmp_consistent cmp (insert x (set ys))" "sorted_wrt (\<lambda>a b. cmp a b \<le> 0) ys"
  shows "sorted_wrt (\<lambda>a b. cmp a b \<le> 0) (cmp_insert cmp x ys)"
  using assms
proof (induction ys)
  case (Cons y ys)
  note c = Cons.prems(1)
  have IH: "sorted_wrt (\<lambda>a b. cmp a b \<le> 0) (cmp_insert cmp x ys)"
    using Cons.prems(2) by (intro Cons.IH cmp_consistent_subset [OF c]) auto
  show ?case
  proof (cases "cmp x y \<le> 0")
    case True
    have "cmp x z \<le> 0" if "z \<in> set ys" for z
      using that Cons.prems(2) True by (intro cmp_trans [OF c, of x y z]) auto
    with True Cons.prems(2) show ?thesis by simp
  next
    case False
    then have "cmp y x \<le> 0" by (intro cmp_total [OF c, of x y]) auto
    with False IH Cons.prems(2) show ?thesis by (simp add: set_cmp_insert)
  qed
qed simp

lemma ref_qsort_ok: "qsort_ok ref_qsort"
  unfolding qsort_ok_def
proof (intro allI impI conjI mset_ref_qsort)
  fix cmp and xs :: "'a list"
  assume "cmp_consistent cmp (set xs)"
  then show "sorted_wrt (\<lambda>x y. cmp x y \<le> 0) (ref_qsort cmp xs)"
  proof (induction xs)
    case (Cons x xs)
    have "cmp_consistent cmp (set xs)" by (rule cmp_consistent_subset [OF Cons.prems]) auto
    with Cons.IH have "sorted_wrt (\<lambda>x y. cmp x y \<le> 0) (ref_qsort cmp xs)" by blast
    moreover have "cmp_consistent cmp (insert x (set (ref_qsort cmp xs)))"
      using Cons.prems by (simp add: set_ref_qsort)
    ultimately show ?case by (simp add: ref_qsort_def sorted_cmp_insert)
  qed (simp add: ref_qsort_def)
qed

lemma over_threshold_sub: "over_threshold th s ps = Some qs \<Longrightarrow> mset qs \<subseteq># mset ps"
proof (induction ps arbitrary: s qs)
  case (Cons p ps)
  have "M \<subseteq># N \<Longrightarrow> M \<subseteq># add_mset x N" for M N and x :: migrate_page
    by (metis add_mset_add_single mset_subset_eq_add_left subset_mset.order_trans)
  with Cons show ?case by (fastforce split: if_splits)
qed simp

lemma threshold_parse_result:
  assumes "threshold_policy_parse qs move th pid pages al = (0, r, al')"
  obtains status sw where "r = Some (rev sw)"
    and "over_threshold th 0 (hot_first status (length (qs addr_cmp_by_count pages)) (qs addr_cmp_by_count pages)) = Some sw"
proof -
  let ?S = "qs addr_cmp_by_count pages"
  from assms obtain status S' cnt where loop: "threshold_loop status th (length ?S) ?S 0 0 = Some (S', cnt)"
    and r: "r = Some (drop (length S' - cnt) S')"
    by (auto simp: threshold_policy_parse_def Let_def split: prod.splits bool.splits option.splits)
  let ?ov = "over_threshold th 0 (hot_first status (length ?S) ?S)"
  show thesis
  proof (cases ?ov)
    case None
    with threshold_loop_None [OF None, of 0] loop show ?thesis by simp
  next
    case (Some sw)
    with threshold_loop_Some [OF Some, of 0] loop r show ?thesis by (intro that [of sw status]) auto
  qed
qed

lemma threshold_swap_policy:
  assumes "qsort_ok qs"
  shows "swap_policy (threshold_policy_parse qs move th)"
proof
  fix pid pages al r al'
  assume "threshold_policy_parse qs move th pid pages al = (0, r, al')"
  then show "r \<noteq> None" by (rule threshold_parse_result) simp
next
  fix pid pages al sw al'
  assume c: "counts_ok pages" and r: "threshold_policy_parse qs move th pid pages al = (0, Some sw, al')"
  let ?S = "qs addr_cmp_by_count pages"
  from r obtain status qs' where sw: "sw = rev qs'"
    and ov: "over_threshold th 0 (hot_first status (length ?S) ?S) = Some qs'"
    by (elim threshold_parse_result) simp
  have "mset (map page_key qs') \<subseteq># mset (map page_key (hot_first status (length ?S) ?S))"
    using over_threshold_sub [OF ov] by (simp add: image_mset_subseteq_mono)
  also have "\<dots> \<subseteq># mset (map page_key ?S)"
    using hot_first_keys [of "length ?S" ?S status] by simp
  also have "\<dots> = mset (map page_key pages)" using qsort_pages(1) [OF assms c] by simp
  finally show "mset (map page_key sw) \<subseteq># mset (map page_key pages)" by (simp add: sw)
qed

interpretation threshold: swap_policy "threshold_policy_parse ref_qsort move th" for move th
  by (rule threshold_swap_policy [OF ref_qsort_ok])

lemma word_of_int_scale:
  assumes "0 \<le> v" "v < INT32_MAX" "f \<in> {0, 10, 20, 30 :: nat}"
  shows "word_of_int v * 2 ^ f = t \<longleftrightarrow> unat (t :: u64) = nat v * 2 ^ f"
proof -
  have "nat v < 2 ^ 31" using assms(2) by simp
  moreover have "(2 :: nat) ^ f \<le> 2 ^ 30" using assms(3) by (intro power_increasing) auto
  ultimately have b: "nat v * 2 ^ f < 2 ^ 31 * 2 ^ 30" by (intro mult_less_le_imp_less) auto
  have "word_of_int v * 2 ^ f = (of_nat (nat v * 2 ^ f) :: u64)" using assms(1) by simp
  moreover have "unat (of_nat (nat v * 2 ^ f) :: u64) = nat v * 2 ^ f"
    using b by (simp add: unat_of_nat del: of_nat_mult of_nat_power)
  ultimately show ?thesis by (metis of_nat_unat ucast_id)
qed

lemma threshold_policy_init_units:
  assumes "\<And>v. js_threshold js = Some v \<Longrightarrow> v \<le> INT32_MAX"
  shows "threshold_policy_init js [] = (0, Some t) \<longleftrightarrow>
     js_root js \<and> js_policy js \<and>
     (\<exists>u v f. js_unit js = Some (Some u) \<and> js_threshold js = Some v \<and> 0 \<le> v \<and> v < INT32_MAX \<and>
        (u, f) \<in> {(''B'', 0), (''KB'', 10), (''MB'', 20), (''GB'', 30)} \<and> word_of_int v * 2 ^ f = t)"
  using assms by (auto simp: threshold_policy_init_def mult.commute split: if_splits option.splits)

lemma cast_int_wraps:
  assumes "2 ^ 31 \<le> x" "x < 2 ^ 32"
  shows "cast_int x < 0"
proof -
  have "x + 2 ^ 31 = (x - 2 ^ 31) + 2 ^ 32" by simp
  then have "(x + 2 ^ 31) mod 2 ^ 32 = x - 2 ^ 31"
    using assms by (simp only: mod_add_self2) (simp add: mod_pos_pos_trivial)
  with assms show ?thesis by (simp add: cast_int_def signed_take_bit_eq_take_bit_shift take_bit_eq_mod)
qed

section \<open>Properties\<close>

text \<open>C34: the threshold policy keeps the most visited pages. With \<open>S\<close> the pages sorted by their
  visits and \<open>L\<close> those of them that are on a node, most visited first, there is a number \<open>k\<close> such
  that the first \<open>k\<close> pages of \<open>L\<close> stay in memory and exactly the others are returned to be swapped,
  least visited first; the pages that stay are smaller than the threshold together, and with one
  page more they would reach it. Selecting in place in the sorted array loses no page.\<close>

theorem threshold_policy_keeps_hottest:
  assumes "qsort_ok qs" "counts_ok pages"
    and S: "S = qs addr_cmp_by_count pages" and m: "move pid (map mg_addr S) = Some status"
    and L: "L = rev (map (\<lambda>i. (S ! i)\<lparr>mg_numanode := Some (status i)\<rparr>)
                      (filter (\<lambda>i. status i \<ge> 0) [0..<length S]))"
    and "bytes L < 2 ^ 64"
  shows "\<exists>k. threshold_policy_parse qs move threshold pid pages [] = (0, Some (rev (drop k L)), []) \<and>
    (k = 0 \<or> bytes (take k L) < unat threshold) \<and>
    (k < length L \<longrightarrow> unat threshold \<le> bytes (take (Suc k) L)) \<and>
    sorted_wrt (\<lambda>p q. mg_visit_count q \<le> mg_visit_count p) L \<and> mset S = mset pages"
proof -
  have L': "L = hot_first status (length S) S" by (simp add: L hot_first_eq)
  from over_threshold_drop [of 0 L threshold] assms(6) obtain k where
    k: "over_threshold threshold 0 L = Some (drop k L)" "k = 0 \<or> bytes (take k L) < unat threshold"
      "k < length L \<longrightarrow> unat threshold \<le> bytes (take (Suc k) L)" by auto
  have "threshold_policy_parse qs move threshold pid pages [] = (0, Some (rev (drop k L)), [])"
    using k(1) assms(6) unfolding L'
    by (rule threshold_policy_parse_eq [where qs = qs and pages = pages and S = S and move = move and
        pid = pid and status = status, OF S m, rotated])
  moreover have "sorted_wrt (\<lambda>p q. mg_visit_count q \<le> mg_visit_count p) L"
    unfolding L' S by (rule hot_first_sorted [OF qsort_pages(2) [OF assms(1,2)] order_refl])
  ultimately show ?thesis
    using k qsort_pages(1) [OF assms(1,2)] by (auto simp: S)
qed

definition demo_pages :: "migrate_page list" where
  "demo_pages = map (\<lambda>i. \<lparr>mg_addr = of_nat i * 0x1000, mg_length = 0x1000, mg_visit_count = int i,
     mg_numanode = None\<rparr>) [2, 1, 3]"

lemma threshold_policy_keeps_hottest_witness:
  "\<exists>k L. threshold_policy_parse ref_qsort (\<lambda>_ _. Some (\<lambda>_. 0)) 0x1800 7 demo_pages [] = (0, Some (rev (drop k L)), [])"
proof -
  let ?S = "ref_qsort addr_cmp_by_count demo_pages"
  let ?L = "rev (map (\<lambda>i. (?S ! i)\<lparr>mg_numanode := Some 0\<rparr>) (filter (\<lambda>i. (0 :: int) \<ge> 0) [0..<length ?S]))"
  have c: "counts_ok demo_pages" by (simp add: counts_ok_def demo_pages_def)
  have "bytes ?L < 2 ^ 64"
    by (simp add: demo_pages_def ref_qsort_def addr_cmp_by_count_def bytes_def upt_rec)
  then show ?thesis
    using threshold_policy_keeps_hottest [where move = "\<lambda>_ _. Some (\<lambda>_. 0)" and pid = 7 and status = "\<lambda>_. 0"
        and threshold = "0x1800", OF ref_qsort_ok c refl refl refl]
    by blast
qed

text \<open>a threshold is accepted exactly for the units B, KB, MB and GB and the values from 0 to
  \<open>INT32_MAX - 1\<close>, and its value is the product, which never wraps around.\<close>

theorem threshold_policy_init_exact:
  assumes "\<And>v. js_threshold js = Some v \<Longrightarrow> v \<le> INT32_MAX"
  shows "threshold_policy_init js [] = (0, Some t) \<longleftrightarrow>
     js_root js \<and> js_policy js \<and>
     (\<exists>u v f. js_unit js = Some (Some u) \<and> js_threshold js = Some v \<and> 0 \<le> v \<and> v < INT32_MAX \<and>
        (u, f) \<in> {(''B'', 0), (''KB'', 10), (''MB'', 20), (''GB'', 30)} \<and> unat t = nat v * 2 ^ f)"
proof -
  have u: "word_of_int v * 2 ^ f = t \<longleftrightarrow> unat t = nat v * 2 ^ f"
    if "0 \<le> v" "v < INT32_MAX" "(u, f) \<in> {(''B'', 0), (''KB'', 10), (''MB'', 20), (''GB'', 30)}" for u v and f :: nat
    using that by (intro word_of_int_scale) auto
  have iff: "js_unit js = Some (Some u) \<and> js_threshold js = Some v \<and> 0 \<le> v \<and> v < INT32_MAX \<and>
      (u, f) \<in> {(''B'', 0), (''KB'', 10), (''MB'', 20), (''GB'', 30)} \<and> word_of_int v * 2 ^ f = t \<longleftrightarrow>
    js_unit js = Some (Some u) \<and> js_threshold js = Some v \<and> 0 \<le> v \<and> v < INT32_MAX \<and>
      (u, f) \<in> {(''B'', 0), (''KB'', 10), (''MB'', 20), (''GB'', 30)} \<and> unat t = nat v * 2 ^ f" for u v f
    using u by blast
  show ?thesis
    by (rule trans [OF threshold_policy_init_units [OF assms]]) (simp_all only: iff)
qed

lemma threshold_policy_init_exact_witness:
  "threshold_policy_init \<lparr>js_root = True, js_policy = True, js_unit = Some (Some ''KB''),
     js_threshold = Some 4, js_type = None\<rparr> [] = (0, Some 4096)"
  by (subst threshold_policy_init_exact) auto

text \<open>C35: whatever the policy returns for collected pages, the worker thread does not fault, it
  terminates, and every range in a request to userswap is the range of a collected page, none
  more often than it was collected.\<close>

theorem worker_swaps_collected:
  assumes "qsort_ok qs" "counts_ok (mp_pages process)" "length (mp_pages process) < 2 ^ 31"
  shows "\<exists>reqs st'. memdcd_migrate (Some (threshold_policy_parse qs move th)) conn process st al = Some (Inr (reqs, st')) \<and>
    mset (concat (map sr_vma_addrs reqs)) \<subseteq># mset (map page_key (mp_pages process))"
  by (rule swap_policy.worker_requests [OF threshold_swap_policy [OF assms(1)] assms(2,3)])

abbreviation demo_process :: migrate_process where
  "demo_process \<equiv> \<lparr>mp_pid = 7, mp_length = 3, mp_pages = demo_pages, mp_offset = 3, mp_timestamp = Some 1, mp_worker = 1\<rparr>"

lemma worker_swaps_collected_witness:
  "\<exists>reqs st'. memdcd_migrate (Some (threshold_policy_parse ref_qsort (\<lambda>_ _. Some (\<lambda>_. 0)) 0x1800))
     (\<lambda>_. \<lparr>uc_fd = 3, uc_write = 1, uc_read = ''success''\<rparr>) demo_process
     \<lparr>ms_procs = [demo_process], ms_last = 0, ms_timeout = 60\<rparr> [] = Some (Inr (reqs, st')) \<and>
    mset (concat (map sr_vma_addrs reqs)) \<subseteq># mset (map page_key (mp_pages demo_process))"
  by (rule worker_swaps_collected [OF ref_qsort_ok]) (simp_all add: counts_ok_def demo_pages_def)

text \<open>up to \<open>2 ^ 31 - 1\<close> pages, and with every connection made, the requests sent to userswap
  are the pages cut into batches of 512, in order. From \<open>2 ^ 31\<close> pages on, the size of the first batch is negative as an \<open>int\<close> and the
  copy runs out of bounds.\<close>

theorem send_to_userswap_batches:
  assumes "\<And>k. uc_fd (conn k) \<ge> 0"
  shows "(length pages < 2 ^ 31 \<longrightarrow> (\<exists>ret. send_to_userswap conn pages [] =
      Some (Inr (ret, map request (chunks MAX_VMA_NUM pages))))) \<and>
    (2 ^ 31 \<le> length pages \<and> length pages < 2 ^ 32 \<longrightarrow> send_to_userswap conn pages [] = Some (Inl Out_of_bounds))"
proof (intro conjI impI)
  assume "length pages < 2 ^ 31"
  with userswap_loop_result [of "length pages" pages conn 0 0 "[]"] assms
  show "\<exists>ret. send_to_userswap conn pages [] = Some (Inr (ret, map request (chunks MAX_VMA_NUM pages)))"
    by (auto simp: send_to_userswap_def)
next
  assume len: "2 ^ 31 \<le> length pages \<and> length pages < 2 ^ 32"
  then have "cast_int (int (length pages)) < 0" by (intro cast_int_wraps) auto
  moreover have "pages \<noteq> []" using len by auto
  ultimately show "send_to_userswap conn pages [] = Some (Inl Out_of_bounds)"
    using assms [of 0] by (simp add: send_to_userswap_def) (subst userswap_loop.simps, simp add: min_int_def)
qed

lemma send_to_userswap_batches_witness:
  "\<exists>ret. send_to_userswap (\<lambda>_. \<lparr>uc_fd = 3, uc_write = 1, uc_read = ''success''\<rparr>) demo_pages [] =
     Some (Inr (ret, map request (chunks MAX_VMA_NUM demo_pages)))"
  using send_to_userswap_batches [of "\<lambda>_. \<lparr>uc_fd = 3, uc_write = 1, uc_read = ''success''\<rparr>" demo_pages]
  by (auto simp: demo_pages_def)

end
