(* ===== verification/Memdcd_Engine.thy ===== *)
theory Memdcd_Engine
  imports Memdcd_Client Project
begin

text \<open>
  The memdcd engine as a client of the registry: its operations on tasks, and that they keep the
  contract the registry relies on.
\<close>

section \<open>Operations\<close>

abbreviation (input) set_memdcd_executor :: "bool \<Rightarrow> ('q, memdcd_params) task \<Rightarrow> ('q, memdcd_params) task" where
  "set_memdcd_executor b tk \<equiv> tk\<lparr>tk_params := map_option (\<lambda>p. p\<lparr>md_executor := b\<rparr>) (tk_params tk)\<rparr>"

definition memdcd_clear_task :: "('q, memdcd_params) task \<Rightarrow> ('q, memdcd_params) task" where
  "memdcd_clear_task tk = tk\<lparr>tk_params := None\<rparr>"

definition memdcd_start_task :: "start_env \<Rightarrow> ('q, memdcd_params) task \<Rightarrow> int \<times> ('q, memdcd_params) task" where
  "memdcd_start_task se tk =
     (if \<not> se_malloc se then (-1, set_memdcd_executor False tk)
      else case start_threadpool_work se (set_memdcd_executor True tk) of
        (ret, tk') \<Rightarrow> if ret \<noteq> 0 then (-1, set_memdcd_executor False tk') else (0, tk'))"

definition memdcd_stop_task :: "('q, memdcd_params) task \<Rightarrow> ('q, memdcd_params) task" where
  "memdcd_stop_task tk = set_memdcd_executor False (stop_and_delete_threadpool_work tk)"

definition g_memdcd_eng_ops ::
  "securec \<Rightarrow> (('q, memdcd_params) task \<Rightarrow> start_env) \<Rightarrow> ('q, memdcd_params, 'e) engine_ops" where
  "g_memdcd_eng_ops S se =
     \<lparr>op_fill_eng_params = None,
      op_fill_task_params = Some (\<lambda>config tk. case memdcd_fill_task S config [] of
          (None, _) \<Rightarrow> (-1, tk)
        | (Some p, _) \<Rightarrow> (0, tk\<lparr>tk_params := Some p\<rparr>)),
      op_clear_task_params = Some memdcd_clear_task,
      op_start_task = Some (\<lambda>tk. memdcd_start_task (se tk) tk),
      op_stop_task = Some memdcd_stop_task,
      op_eng_mgt_func = None\<rparr>"

section \<open>The contract\<close>

interpretation memdcd_ops: engine_contract "\<lambda>eng. g_memdcd_eng_ops S se" for S se
  by unfold_locales
    (auto simp: g_memdcd_eng_ops_def memdcd_clear_task_def memdcd_start_task_def start_threadpool_work_def
      memdcd_stop_task_def stop_and_delete_threadpool_work_def Let_def
      split: prod.splits option.splits if_splits)

text \<open>A task that was started and is stopped again has neither a timer nor an executor left.\<close>

lemma memdcd_stop_clean:
  "\<not> tk_timer (memdcd_stop_task tk) \<and>
   (tk_params (memdcd_stop_task tk) = Some p \<longrightarrow> \<not> md_executor p)"
  by (auto simp: memdcd_stop_task_def stop_and_delete_threadpool_work_def)

end
