(* ===== verification/Userswap.thy ===== *)
theory Userswap
  imports C_Library
begin

text \<open>
  The userswap library: registration (\<open>lib_uswap.c\<close>), the server that receives requests
  (\<open>uswap_server.c\<close>), merging of the requested ranges, the swap-out loop, and the copy of pages on
  a fault. The operations a program registers and the kernel are parameters.
\<close>

unbundle bit_operations_syntax

section \<open>State and constants\<close>

abbreviation (input) USWAP_SUCCESS :: int where "USWAP_SUCCESS \<equiv> 0"
abbreviation (input) USWAP_ERROR :: int where "USWAP_ERROR \<equiv> -1"
abbreviation (input) USWAP_ALREADY_SWAPPED :: int where "USWAP_ALREADY_SWAPPED \<equiv> -3"
abbreviation (input) USWAP_ABORT :: int where "USWAP_ABORT \<equiv> -4"
abbreviation (input) USWAP_ALREADY_SWAPIN :: int where "USWAP_ALREADY_SWAPIN \<equiv> -5"
abbreviation (input) SSIZE_MAX :: u64 where "SSIZE_MAX \<equiv> 0x7FFFFFFFFFFFFFFF"
abbreviation (input) MAX_USWAP_NAME_LEN :: nat where "MAX_USWAP_NAME_LEN \<equiv> 32"
abbreviation (input) MAX_TRY_NUMS :: nat where "MAX_TRY_NUMS \<equiv> 10"
abbreviation (input) MAX_SWAPIN_THREAD_NUMS :: int where "MAX_SWAPIN_THREAD_NUMS \<equiv> 5"
abbreviation (input) USWAP_MAX_VMA_NUM :: nat where "USWAP_MAX_VMA_NUM \<equiv> 512"

text \<open>\<open>struct swap_data\<close>; the buffer is the bytes it holds.\<close>

record swap_data =
  sd_start_va :: u64
  sd_len :: u64
  sd_buf :: "u8 list"
  sd_flag :: u64

abbreviation (input) USWAP_DATA_DIRTY :: u64 where "USWAP_DATA_DIRTY \<equiv> 1"
abbreviation (input) USWAP_DATA_ABORT :: u64 where "USWAP_DATA_ABORT \<equiv> 2"

text \<open>The registered callbacks; \<open>nat\<close> numbers the calls of a swap-out, so that a callback may answer
  differently each time. None is a NULL pointer.\<close>

record uswap_operations =
  uo_get_swapout_buf :: "(nat \<Rightarrow> u64 \<Rightarrow> u64 \<Rightarrow> swap_data \<Rightarrow> int \<times> swap_data) option"
  uo_do_swapout :: "(nat \<Rightarrow> swap_data \<Rightarrow> int) option"
  uo_do_swapin :: "(u64 \<Rightarrow> int \<times> swap_data) option"
  uo_release_buf :: "(swap_data \<Rightarrow> int) option"

record uswap_dev =
  ud_name :: string
  ud_ops :: "uswap_operations option"
  ud_enabled :: bool
  ud_alive :: bool
  ud_uffd :: int

definition g_dev :: uswap_dev where
  "g_dev = \<lparr>ud_name = [], ud_ops = None, ud_enabled = False, ud_alive = False, ud_uffd = -1\<rparr>"

section \<open>Registration\<close>

definition set_uswap_uffd :: "int \<Rightarrow> uswap_dev \<Rightarrow> int \<times> uswap_dev" where
  "set_uswap_uffd uffd dev =
     (if ud_uffd dev \<noteq> -1 then (USWAP_ERROR, dev) else (USWAP_SUCCESS, dev\<lparr>ud_uffd := uffd\<rparr>))"

text \<open>The kernel as \<open>register_userfaultfd\<close> meets it: the new descriptor, the results of the ioctls,
  and the page size.\<close>

record uffd_env =
  ue_syscall :: int
  ue_api :: int
  ue_register :: int
  ue_unregister :: int
  ue_page_size :: u64

definition init_userfaultfd :: "uffd_env \<Rightarrow> uswap_dev \<Rightarrow> int \<times> uswap_dev" where
  "init_userfaultfd env dev =
     (if ue_syscall env < 0 then (USWAP_ERROR, dev)
      else if ue_api env < 0 then (ue_api env, dev)
      else set_uswap_uffd (ue_syscall env) dev)"

text \<open>The result, the device and the range that was given to the kernel.\<close>

definition register_userfaultfd ::
  "uffd_env \<Rightarrow> u64 \<Rightarrow> u64 \<Rightarrow> uswap_dev \<Rightarrow> int \<times> uswap_dev \<times> (u64 \<times> u64) option" where
  "register_userfaultfd env addr len dev =
     (if len > SSIZE_MAX \<or> addr = 0 then (USWAP_ERROR, dev, None)
      else
        let (ret, dev') = (if ud_uffd dev < 0 then init_userfaultfd env dev else (USWAP_SUCCESS, dev)) in
        if ret = USWAP_ERROR then (USWAP_ERROR, dev', None)
        else if len \<ge> ue_page_size env then
          (if ue_register env < 0 then (USWAP_ERROR, dev', None) else (USWAP_SUCCESS, dev', Some (addr, len)))
        else (USWAP_ERROR, dev', None))"

definition unregister_userfaultfd :: "uffd_env \<Rightarrow> u64 \<Rightarrow> u64 \<Rightarrow> uswap_dev \<Rightarrow> int" where
  "unregister_userfaultfd env addr len dev =
     (if ud_uffd dev < 0 \<or> len > SSIZE_MAX \<or> addr = 0 then USWAP_ERROR
      else if ue_unregister env < 0 then USWAP_ERROR
      else USWAP_SUCCESS)"

definition register_uswap :: "string option \<Rightarrow> u64 \<Rightarrow> uswap_operations option \<Rightarrow> uswap_dev \<Rightarrow> int \<times> uswap_dev" where
  "register_uswap name len ops dev =
     (case name of
        None \<Rightarrow> (USWAP_ERROR, dev)
      | Some s \<Rightarrow>
          if len > of_nat (MAX_USWAP_NAME_LEN - 1) then (USWAP_ERROR, dev)
          else case ops of
            None \<Rightarrow> (USWAP_ERROR, dev)
          | Some o1 \<Rightarrow>
              if uo_get_swapout_buf o1 = None \<or> uo_do_swapout o1 = None \<or> uo_do_swapin o1 = None \<or>
                 uo_release_buf o1 = None then (USWAP_ERROR, dev)
              else (USWAP_SUCCESS,
                    dev\<lparr>ud_name := take (MAX_USWAP_NAME_LEN - 1) s, ud_ops := Some o1, ud_enabled := True\<rparr>))"

text \<open>
  \<open>mlock_pthread_stack\<close>: the results of \<open>pthread_getattr_np\<close>, \<open>pthread_attr_getstack\<close> and \<open>mlock\<close> for one thread.
\<close>

record stack_env =
  st_getattr :: int
  st_getstack :: int
  st_mlock :: int

definition mlock_pthread_stack :: "stack_env \<Rightarrow> int" where
  "mlock_pthread_stack e =
     (if st_getattr e < 0 then USWAP_ERROR
      else if st_getstack e < 0 then USWAP_ERROR
      else if st_mlock e < 0 then USWAP_ERROR
      else USWAP_SUCCESS)"

text \<open>
  \<open>create_uswap_threads\<close>: \<open>pc i\<close> is the result of the \<open>i\<close>-th \<open>pthread_create\<close> (0 or a positive
  error number), \<open>ml i\<close> the calls that lock the stack of that thread; thread 0 swaps out. The result is
  the return value and the numbers of the threads that were cancelled.
\<close>

fun create_swapin :: "(nat \<Rightarrow> int) \<Rightarrow> (nat \<Rightarrow> stack_env) \<Rightarrow> nat \<Rightarrow> nat \<Rightarrow> int \<times> nat list" where
  "create_swapin pc ml i 0 = (USWAP_SUCCESS, [])"
| "create_swapin pc ml i (Suc n) =
     (if pc i < 0 then (USWAP_ERROR, [0..<i])
      else if mlock_pthread_stack (ml i) = USWAP_ERROR then (USWAP_ERROR, [0..<Suc i])
      else create_swapin pc ml (Suc i) n)"

definition create_uswap_threads :: "(nat \<Rightarrow> int) \<Rightarrow> (nat \<Rightarrow> stack_env) \<Rightarrow> int \<Rightarrow> int \<times> nat list" where
  "create_uswap_threads pc ml swapin_nums =
     (if swapin_nums \<le> 0 \<or> swapin_nums > MAX_SWAPIN_THREAD_NUMS then (USWAP_ERROR, [])
      else if pc 0 < 0 then (USWAP_ERROR, [])
      else if mlock_pthread_stack (ml 0) = USWAP_ERROR then (USWAP_ERROR, [0])
      else create_swapin pc ml 1 (nat swapin_nums))"

definition uswap_init :: "(nat \<Rightarrow> int) \<Rightarrow> (nat \<Rightarrow> stack_env) \<Rightarrow> int \<Rightarrow> uswap_dev \<Rightarrow> int \<times> uswap_dev" where
  "uswap_init pc ml swapin_nums dev =
     (if \<not> ud_enabled dev \<or> ud_alive dev then (USWAP_ERROR, dev)
      else if fst (create_uswap_threads pc ml swapin_nums) = USWAP_ERROR then (USWAP_ERROR, dev)
      else (USWAP_SUCCESS, dev\<lparr>ud_alive := True\<rparr>))"

section \<open>Merging a request\<close>

text \<open>The inner loop: consecutive entries that start one page further. It does not look at their
  lengths.\<close>

fun merge_run :: "u64 \<Rightarrow> u64 \<Rightarrow> u64 \<Rightarrow> (u64 \<times> u64) list \<Rightarrow> u64 \<times> (u64 \<times> u64) list" where
  "merge_run page_size start len [] = (len, [])"
| "merge_run page_size start len ((s, l) # rest) =
     (if start + page_size = s then merge_run page_size s (len + page_size) rest else (len, (s, l) # rest))"

lemma merge_run_shorter: "merge_run p start len r = (len', r') \<Longrightarrow> length r' \<le> length r"
  by (induction p start len r arbitrary: len' r' rule: merge_run.induct) (fastforce split: if_splits)+

function merge_loop :: "u64 \<Rightarrow> (u64 \<times> u64) list \<Rightarrow> (u64 \<times> u64) list" where
  "merge_loop page_size [] = []"
| "merge_loop page_size ((s, l) # rest) =
     (if l = 0 \<or> l > SSIZE_MAX then merge_loop page_size rest
      else if l = page_size then
        (case merge_run page_size s page_size rest of (len, rest') \<Rightarrow> (s, len) # merge_loop page_size rest')
      else (s, l) # merge_loop page_size rest)"
  by pat_completeness auto
termination
  by (relation "measure (\<lambda>(p, xs). length xs)") (auto dest: merge_run_shorter [OF sym])

text \<open>A request is its length in bytes and the array of 512 entries; the number of entries is
  narrowed to \<open>int\<close>. The result is the new length and the entries written to \<open>dst\<close>.\<close>

definition vma_merge :: "u64 \<Rightarrow> u64 \<Rightarrow> (u64 \<times> u64) list \<Rightarrow> u64 \<times> (u64 \<times> u64) list" where
  "vma_merge page_size len addrs =
     (let nums = cast_int (uint (len div 16));
          nums' = (if nums > int USWAP_MAX_VMA_NUM then int USWAP_MAX_VMA_NUM else nums);
          dst = merge_loop page_size (take (nat nums') addrs)
      in (of_nat (length dst) * 16, dst))"

section \<open>Swapping out a range\<close>

text \<open>\<open>mmap_tmpva\<close>: None when the pages cannot be replaced, otherwise the bytes of the range and the
  dirty bit.\<close>

definition do_swapout_once ::
  "uswap_operations \<Rightarrow> (nat \<Rightarrow> u64 \<Rightarrow> u64 \<Rightarrow> (u8 list \<times> bool) option) \<Rightarrow> nat \<Rightarrow> u64 \<Rightarrow> u64 \<Rightarrow> swap_data \<Rightarrow>
   (int \<times> swap_data) c_res" where
  "do_swapout_once ops tmpva k start len sd =
     (case (uo_get_swapout_buf ops, uo_do_swapout ops) of
        (Some get_buf, Some swapout) \<Rightarrow>
          (case get_buf k start len sd of (ret, sd1) \<Rightarrow>
             if ret = USWAP_ALREADY_SWAPPED then Inr (USWAP_SUCCESS, sd1)
             else if ret < 0 then Inr (ret, sd1)
             else
               let sd2 = (case tmpva k (sd_start_va sd1) (sd_len sd1) of
                            Some (bytes, dirty) \<Rightarrow>
                              sd1\<lparr>sd_buf := bytes, sd_flag := (if dirty then USWAP_DATA_DIRTY else 0)\<rparr>
                          | None \<Rightarrow> sd1\<lparr>sd_flag := USWAP_DATA_ABORT OR USWAP_DATA_DIRTY\<rparr>)
               in Inr (swapout k sd2, sd2))
      | _ \<Rightarrow> Inl Null_deref)"

text \<open>
  \<open>do_swapout\<close>: the result and the ranges asked for. The last step is not added to \<open>succ_len\<close>, and
  a callback that swaps nothing keeps the loop running, so the function may not return.
\<close>

partial_function (option) swapout_loop ::
  "uswap_operations \<Rightarrow> (nat \<Rightarrow> u64 \<Rightarrow> u64 \<Rightarrow> (u8 list \<times> bool) option) \<Rightarrow> u64 \<Rightarrow> u64 \<Rightarrow> nat \<Rightarrow> u64 \<Rightarrow> swap_data \<Rightarrow>
   (u64 \<times> u64) list \<Rightarrow> (int \<times> (u64 \<times> u64) list) c_res option" where
  "swapout_loop ops tmpva start len k succ_len sd done =
     (if succ_len < len then
        (case do_swapout_once ops tmpva k (start + succ_len) (len - succ_len) sd of
           Inl f \<Rightarrow> Some (Inl f)
         | Inr (ret, sd') \<Rightarrow>
             let done' = done @ [(start + succ_len, sd_len sd')] in
             if ret < 0 then Some (Inr (ret, done))
             else if succ_len \<ge> len - sd_len sd' then Some (Inr (cast_int (uint succ_len), done'))
             else swapout_loop ops tmpva start len (k + 1) (succ_len + sd_len sd') sd' done')
      else Some (Inr (cast_int (uint succ_len), done)))"

definition do_swapout ::
  "uswap_operations option \<Rightarrow> (nat \<Rightarrow> u64 \<Rightarrow> u64 \<Rightarrow> (u8 list \<times> bool) option) \<Rightarrow> swap_data \<Rightarrow> u64 \<Rightarrow> u64 \<Rightarrow>
   (int \<times> (u64 \<times> u64) list) c_res option" where
  "do_swapout ops tmpva sd start len =
     (case ops of
        None \<Rightarrow> if 0 < len then Some (Inl Null_deref) else Some (Inr (0, []))
      | Some o1 \<Rightarrow> swapout_loop o1 tmpva start len 0 0 sd [])"

definition force_swapout ::
  "uswap_dev \<Rightarrow> (nat \<Rightarrow> u64 \<Rightarrow> u64 \<Rightarrow> (u8 list \<times> bool) option) \<Rightarrow> swap_data \<Rightarrow> u64 \<Rightarrow> u64 \<Rightarrow>
   (int \<times> (u64 \<times> u64) list) c_res option" where
  "force_swapout dev tmpva sd addr len =
     (if \<not> ud_enabled dev \<or> \<not> ud_alive dev then Some (Inr (USWAP_ERROR, []))
      else if addr = 0 \<or> len \<ge> SSIZE_MAX then Some (Inr (USWAP_ERROR, []))
      else do_swapout (ud_ops dev) tmpva sd addr len)"

section \<open>Faults\<close>

text \<open>One \<open>read\<close> of the descriptor: the event, or an error that is \<open>EAGAIN\<close> or not.\<close>

datatype uffd_read = Read_fault u64 | Read_other | Read_again | Read_error

fun read_uffd_msg :: "(nat \<Rightarrow> uffd_read) \<Rightarrow> nat \<Rightarrow> nat \<Rightarrow> int \<times> u64 option" where
  "read_uffd_msg rd i 0 = (USWAP_ABORT, None)"
| "read_uffd_msg rd i (Suc n) =
     (case rd i of
        Read_again \<Rightarrow> read_uffd_msg rd (Suc i) n
      | Read_error \<Rightarrow> (USWAP_ERROR, None)
      | Read_other \<Rightarrow> (USWAP_ERROR, None)
      | Read_fault a \<Rightarrow> (USWAP_SUCCESS, Some a))"

datatype copy_result = Copy_ok | Copy_again | Copy_exists | Copy_error

text \<open>Page by page; \<open>offset\<close> is an \<open>int\<close> that is compared as an unsigned number. The result and the
  destinations that were tried.\<close>

partial_function (option) copy_pages_loop ::
  "(u64 \<Rightarrow> copy_result) \<Rightarrow> u64 \<Rightarrow> swap_data \<Rightarrow> int \<Rightarrow> u64 list \<Rightarrow> (int \<times> u64 list) option" where
  "copy_pages_loop ioctl page_size sd offset done =
     (if word_of_int offset < sd_len sd then
        let dst = sd_start_va sd + word_of_int offset in
        if ioctl dst \<noteq> Copy_ok \<and> ioctl dst \<noteq> Copy_exists then Some (USWAP_ERROR, done @ [dst])
        else copy_pages_loop ioctl page_size sd (cast_int (offset + uint page_size)) (done @ [dst])
      else Some (USWAP_SUCCESS, done))"

definition ioctl_uffd_copy_pages ::
  "(u64 \<Rightarrow> copy_result) \<Rightarrow> u64 \<Rightarrow> swap_data \<Rightarrow> (int \<times> u64 list) option" where
  "ioctl_uffd_copy_pages ioctl page_size sd = copy_pages_loop ioctl page_size sd 0 []"

fun ioctl_uffd_copy ::
  "(nat \<Rightarrow> copy_result) \<Rightarrow> (u64 \<Rightarrow> copy_result) \<Rightarrow> u64 \<Rightarrow> swap_data \<Rightarrow> nat \<Rightarrow> nat \<Rightarrow> int option" where
  "ioctl_uffd_copy whole ioctl page_size sd i 0 = Some USWAP_ERROR"
| "ioctl_uffd_copy whole ioctl page_size sd i (Suc n) =
     (case whole i of
        Copy_again \<Rightarrow> ioctl_uffd_copy whole ioctl page_size sd (Suc i) n
      | Copy_exists \<Rightarrow> Some USWAP_ALREADY_SWAPIN
      | Copy_error \<Rightarrow>
          (case ioctl_uffd_copy_pages ioctl page_size sd of
             None \<Rightarrow> None
           | Some (ret, _) \<Rightarrow> Some (if ret = USWAP_ERROR then USWAP_ERROR else USWAP_SUCCESS))
      | Copy_ok \<Rightarrow> Some USWAP_SUCCESS)"

text \<open>One round of \<open>swapin_thread\<close> after \<open>poll\<close>: whether the process goes on (True) or exits, and the data given to
  \<open>release_buf\<close>.\<close>

definition swapin_round ::
  "uswap_operations \<Rightarrow> (nat \<Rightarrow> uffd_read) \<Rightarrow> (nat \<Rightarrow> copy_result) \<Rightarrow> (u64 \<Rightarrow> copy_result) \<Rightarrow> u64 \<Rightarrow>
   (bool \<times> swap_data list) c_res option" where
  "swapin_round ops rd whole ioctl page_size =
     (case read_uffd_msg rd 0 MAX_TRY_NUMS of
        (ret, None) \<Rightarrow> Some (Inr (True, []))
      | (ret, Some fault_addr) \<Rightarrow>
          (case (uo_do_swapin ops, uo_release_buf ops) of
             (Some swapin, Some release) \<Rightarrow>
               (case swapin fault_addr of (r, sd) \<Rightarrow>
                  if r = USWAP_ERROR then Some (Inr (False, []))
                  else (case ioctl_uffd_copy whole ioctl page_size sd 0 MAX_TRY_NUMS of
                          None \<Rightarrow> None
                        | Some c \<Rightarrow> Some (Inr (if c = USWAP_ERROR then (False, []) else (True, [sd])))))
           | _ \<Rightarrow> Some (Inl Null_deref)))"

text \<open>\<open>swapin_thread\<close>: \<open>uffds\<close> are the values of the descriptor the thread sees, the first one before it waits; then
  one entry per call of \<open>poll\<close>, with its result and what the round after it meets. The thread never ends by itself: the lists
  are what has happened so far.\<close>

fun wait_uffd :: "int list \<Rightarrow> int option" where
  "wait_uffd [] = None"
| "wait_uffd (uffd # uffds) = (if uffd < 0 then wait_uffd uffds else Some uffd)"

record swapin_env =
  se_poll :: int
  se_read :: "nat \<Rightarrow> uffd_read"
  se_whole :: "nat \<Rightarrow> copy_result"
  se_page :: "u64 \<Rightarrow> copy_result"

fun swapin_loop ::
  "uswap_operations \<Rightarrow> u64 \<Rightarrow> swapin_env list \<Rightarrow> swap_data list \<Rightarrow> (bool \<times> swap_data list) c_res option" where
  "swapin_loop ops page_size [] done = Some (Inr (True, done))"
| "swapin_loop ops page_size (e # es) done =
     (if se_poll e < 0 then swapin_loop ops page_size es done
      else case swapin_round ops (se_read e) (se_whole e) (se_page e) page_size of
        None \<Rightarrow> None
      | Some (Inl f) \<Rightarrow> Some (Inl f)
      | Some (Inr (True, rel)) \<Rightarrow> swapin_loop ops page_size es (done @ rel)
      | Some (Inr (False, rel)) \<Rightarrow> Some (Inr (False, done @ rel)))"

definition swapin_thread ::
  "uswap_operations \<Rightarrow> u64 \<Rightarrow> int list \<Rightarrow> swapin_env list \<Rightarrow> (bool \<times> swap_data list) c_res option" where
  "swapin_thread ops page_size uffds es =
     (case wait_uffd uffds of
        None \<Rightarrow> Some (Inr (True, []))
      | Some uffd \<Rightarrow> swapin_loop ops page_size es [])"

section \<open>The server\<close>

definition check_socket_permission :: "(u32 \<times> u32) option \<Rightarrow> (u32 \<times> u32) option \<Rightarrow> int" where
  "check_socket_permission local client =
     (case local of
        None \<Rightarrow> -1
      | Some l \<Rightarrow>
          (case client of
             None \<Rightarrow> -1
           | Some c \<Rightarrow> if fst l \<noteq> fst c \<or> snd l \<noteq> snd c then -1 else 0))"

text \<open>
  \<open>read\<close> overwrites the first \<open>n\<close> bytes of the buffer and leaves the others. On a
  64-bit machine the header takes 16 bytes, with the length at 8; entry \<open>i\<close> is at \<open>16 + 16 * i\<close>. A field that was received
  in part (its lower bytes, in little-endian order) keeps the upper bytes of the old value.
\<close>

definition upd_field :: "nat \<Rightarrow> nat \<Rightarrow> u64 \<Rightarrow> u64 \<Rightarrow> u64" where
  "upd_field n pos new old =
     (let m = mask (8 * (n - pos)) in (new AND m) OR (old AND NOT m))"

definition recv_entries :: "nat \<Rightarrow> (u64 \<times> u64) list \<Rightarrow> (u64 \<times> u64) list \<Rightarrow> (u64 \<times> u64) list" where
  "recv_entries n new old =
     map (\<lambda>i. if i < length new
              then (upd_field n (16 + 16 * i) (fst (new ! i)) (fst (old ! i)),
                    upd_field n (24 + 16 * i) (snd (new ! i)) (snd (old ! i)))
              else old ! i) [0..<length old]"

definition sock_handle_respond :: "int \<Rightarrow> int \<Rightarrow> bool \<Rightarrow> int \<times> string" where
  "sock_handle_respond client_fd result write_ok =
     (if client_fd < 0 then (-22, [])
      else
        let buff = (if result = 0 then ''success'' else ''failed'') in
        if \<not> write_ok then (-5, buff) else (0, buff))"

text \<open>One round of \<open>swapout_thread\<close> on a received request: the answer and the ranges swapped out.
  The callbacks of the \<open>i\<close>-th range are \<open>ops i\<close>.\<close>

fun swapout_ranges ::
  "(nat \<Rightarrow> uswap_operations option) \<Rightarrow> (nat \<Rightarrow> nat \<Rightarrow> u64 \<Rightarrow> u64 \<Rightarrow> (u8 list \<times> bool) option) \<Rightarrow> swap_data \<Rightarrow> nat \<Rightarrow>
   (u64 \<times> u64) list \<Rightarrow> int \<Rightarrow> (u64 \<times> u64) list \<Rightarrow> (int \<times> (u64 \<times> u64) list) c_res option" where
  "swapout_ranges ops tmpva sd i [] ret done = Some (Inr (ret, done))"
| "swapout_ranges ops tmpva sd i ((start, len) # rest) ret done =
     (case do_swapout (ops i) (tmpva i) sd start len of
        None \<Rightarrow> None
      | Some (Inl f) \<Rightarrow> Some (Inl f)
      | Some (Inr (succ_count, segs)) \<Rightarrow>
          swapout_ranges ops tmpva sd (Suc i) rest (if succ_count < 0 then USWAP_ERROR else ret) (done @ segs))"

definition swapout_round ::
  "(nat \<Rightarrow> uswap_operations option) \<Rightarrow> (nat \<Rightarrow> nat \<Rightarrow> u64 \<Rightarrow> u64 \<Rightarrow> (u8 list \<times> bool) option) \<Rightarrow> swap_data \<Rightarrow> u64 \<Rightarrow>
   u64 \<Rightarrow> (u64 \<times> u64) list \<Rightarrow> (int \<times> (u64 \<times> u64) list) c_res option" where
  "swapout_round ops tmpva sd page_size len addrs =
     swapout_ranges ops tmpva sd 0 (snd (vma_merge page_size len addrs)) USWAP_SUCCESS []"

section \<open>Log level\<close>

definition uswap_log_level_init :: "int \<Rightarrow> int \<Rightarrow> int \<times> int" where
  "uswap_log_level_init level g_log_level =
     (if level < 0 \<or> level \<ge> 4 then (-22, g_log_level) else (0, level))"

section \<open>Address ranges\<close>

definition addr_range :: "u64 \<times> u64 \<Rightarrow> nat set" where
  "addr_range r = {unat (fst r)..<unat (fst r) + unat (snd r)}"

definition cover :: "(u64 \<times> u64) list \<Rightarrow> nat set" where
  "cover rs = (\<Union>r\<in>set rs. addr_range r)"

definition swappable :: "u64 \<times> u64 \<Rightarrow> bool" where
  "swappable r \<longleftrightarrow> snd r \<noteq> 0 \<and> snd r \<le> SSIZE_MAX"

lemma swappable_pair [simp]: "swappable (s, l) \<longleftrightarrow> l \<noteq> 0 \<and> l \<le> SSIZE_MAX"
  by (simp add: swappable_def)

text \<open>No range reaches the end of the address space.\<close>

definition in_space :: "(u64 \<times> u64) list \<Rightarrow> bool" where
  "in_space rs \<longleftrightarrow> (\<forall>r\<in>set rs. unat (fst r) + unat (snd r) < 2 ^ 64)"

text \<open>An entry that starts right behind an entry of one page is one page too.\<close>

fun runs_ok :: "u64 \<Rightarrow> (u64 \<times> u64) list \<Rightarrow> bool" where
  "runs_ok p ((s, l) # (s', l') # rs) \<longleftrightarrow> (l = p \<and> s + p = s' \<longrightarrow> l' = p) \<and> runs_ok p ((s', l') # rs)"
| "runs_ok p _ \<longleftrightarrow> True"

lemma runs_ok_tl: "runs_ok p (r # rs) \<Longrightarrow> runs_ok p rs"
  by (cases rs; cases r) auto

lemma cover_Nil [simp]: "cover [] = {}"
  by (simp add: cover_def)

lemma cover_Cons [simp]: "cover (r # rs) = addr_range r \<union> cover rs"
  by (auto simp: cover_def)

lemma in_space_Nil [simp]: "in_space []"
  by (simp add: in_space_def)

lemma in_space_Cons [simp]: "in_space (r # rs) \<longleftrightarrow> unat (fst r) + unat (snd r) < 2 ^ 64 \<and> in_space rs"
  by (auto simp: in_space_def)

lemma unat_add_lt:
  fixes a b :: u64
  shows "unat a + unat b < 2 ^ 64 \<Longrightarrow> unat (a + b) = unat a + unat b"
  by (simp add: unat_word_ariths)

lemma addr_range_join:
  assumes "unat a + unat len = unat s" "unat s + unat p < 2 ^ 64"
  shows "addr_range (a, len + p) = addr_range (a, len) \<union> addr_range (s, p)"
    and "unat (len + p) = unat len + unat p"
proof -
  show u: "unat (len + p) = unat len + unat p" using assms by (intro unat_add_lt) simp
  show "addr_range (a, len + p) = addr_range (a, len) \<union> addr_range (s, p)"
    using assms(1) by (auto simp: addr_range_def u)
qed

text \<open>A run that has reached the end of the page at \<open>s\<close> covers the entries it consumes.\<close>

lemma merge_run_cover:
  assumes "merge_run p s len r = (len', r')" "runs_ok p ((s, p) # r)" "in_space ((s, p) # r)"
    and "unat a + unat len = unat s + unat p" "swappable (s, p)"
  shows "addr_range (a, len') \<union> cover (filter swappable r') = addr_range (a, len) \<union> cover (filter swappable r) \<and>
    runs_ok p r' \<and> in_space r'"
  using assms
proof (induction r arbitrary: s len)
  case (Cons e r)
  obtain s' l' where e: "e = (s', l')" by (cases e)
  show ?case
  proof (cases "s + p = s'")
    case True
    with Cons.prems(2) e have l': "l' = p" by simp
    have us: "unat s' = unat s + unat p" using True Cons.prems(3) unat_add_lt [of s p] by simp
    have "unat s' + unat p < 2 ^ 64" using Cons.prems(3) by (simp add: e l')
    note j = addr_range_join [of a len s' p, OF _ this]
    have "merge_run p s' (len + p) r = (len', r')" using Cons.prems(1) True by (simp add: e)
    moreover have "runs_ok p ((s', p) # r)" using Cons.prems(2) by (simp add: e l')
    moreover have "in_space ((s', p) # r)" "swappable (s', p)"
      using Cons.prems(3,5) by (simp_all add: e l')
    ultimately have "addr_range (a, len') \<union> cover (filter swappable r') =
        addr_range (a, len + p) \<union> cover (filter swappable r) \<and> runs_ok p r' \<and> in_space r'"
      using Cons.prems(4) us j(2) by (intro Cons.IH) auto
    then show ?thesis using j(1) Cons.prems(4,5) us by (simp add: e l' Un_assoc)
  next
    case False
    with Cons.prems show ?thesis by (auto simp: e intro: runs_ok_tl)
  qed
qed auto

lemma merge_loop_cover:
  "runs_ok p rs \<Longrightarrow> in_space rs \<Longrightarrow> p \<noteq> 0 \<Longrightarrow> p \<le> SSIZE_MAX \<Longrightarrow> cover (merge_loop p rs) = cover (filter swappable rs)"
proof (induction p rs rule: merge_loop.induct)
  case (2 p s l rest)
  consider "l = 0 \<or> l > SSIZE_MAX" | "\<not> (l = 0 \<or> l > SSIZE_MAX)" "l = p" | "\<not> (l = 0 \<or> l > SSIZE_MAX)" "l \<noteq> p"
    by blast
  then show ?case
  proof cases
    case 1
    then have "merge_loop p ((s, l) # rest) = merge_loop p rest" "\<not> swappable (s, l)"
      by (simp, metis swappable_pair not_less)
    with 2(1) [OF 1 runs_ok_tl [OF 2(4)]] 2(5-7) show ?thesis by (simp only: in_space_Cons filter.simps if_False simp_thms)
  next
    case c: 2
    obtain len r' where m: "merge_run p s p rest = (len, r')" by (cases "merge_run p s p rest")
    have "addr_range (s, len) \<union> cover (filter swappable r') = addr_range (s, p) \<union> cover (filter swappable rest) \<and>
        runs_ok p r' \<and> in_space r'"
      using 2(4-7) c by (intro merge_run_cover [OF m]) simp_all
    with 2(2) [OF c m [symmetric]] 2(6,7) c m show ?thesis by simp
  next
    case 3
    then have "merge_loop p ((s, l) # rest) = (s, l) # merge_loop p rest" "swappable (s, l)"
      by (simp, metis swappable_pair not_less)
    with 2(3) [OF 3 runs_ok_tl [OF 2(4)]] 2(5-7) show ?thesis
      by (simp only: in_space_Cons filter.simps if_True simp_thms cover_Cons)
  qed
qed simp

lemma vma_merge_eq:
  assumes "n \<le> USWAP_MAX_VMA_NUM"
  shows "vma_merge p (of_nat n * 16) addrs = (of_nat (length (merge_loop p (take n addrs))) * 16, merge_loop p (take n addrs))"
proof -
  have "unat (of_nat n * 16 :: u64) = n * 16" using assms by (simp add: unat_word_ariths unat_of_nat)
  then have "unat (of_nat n * 16 div 16 :: u64) = n" by (simp add: unat_div)
  then have "uint (of_nat n * 16 div 16 :: u64) = int n" by (simp add: uint_nat)
  then show ?thesis using assms by (simp add: vma_merge_def Let_def)
qed

section \<open>The swap-out loop\<close>

text \<open>Callbacks that make progress: a buffer for a part of the range that was asked for, which is not
  empty, and a successful transfer.\<close>

definition progressing :: "uswap_operations \<Rightarrow> bool" where
  "progressing ops \<longleftrightarrow> (\<exists>g w. uo_get_swapout_buf ops = Some g \<and> uo_do_swapout ops = Some w \<and>
     (\<forall>k start len sd. 0 < len \<longrightarrow>
        (0 \<le> fst (g k start len sd) \<or> fst (g k start len sd) = USWAP_ALREADY_SWAPPED) \<and>
        0 < sd_len (snd (g k start len sd)) \<and> sd_len (snd (g k start len sd)) \<le> len) \<and>
     (\<forall>k sd. 0 \<le> w k sd))"

text \<open>The ranges follow each other from \<open>start\<close> and add up to \<open>len\<close>.\<close>

fun tiles :: "u64 \<Rightarrow> u64 \<Rightarrow> (u64 \<times> u64) list \<Rightarrow> bool" where
  "tiles start len [] \<longleftrightarrow> len = 0"
| "tiles start len ((s, l) # rs) \<longleftrightarrow> s = start \<and> 0 < l \<and> l \<le> len \<and> tiles (start + l) (len - l) rs"

lemma swapout_once_progress:
  assumes "progressing ops" "0 < len"
  obtains ret sd' where "do_swapout_once ops tmpva k start len sd = Inr (ret, sd')" "0 \<le> ret"
    "0 < sd_len sd'" "sd_len sd' \<le> len"
proof -
  from assms(1) obtain g w where g: "uo_get_swapout_buf ops = Some g" "uo_do_swapout ops = Some w"
    and gw: "0 \<le> fst (g k start len sd) \<or> fst (g k start len sd) = USWAP_ALREADY_SWAPPED"
      "0 < sd_len (snd (g k start len sd))" "sd_len (snd (g k start len sd)) \<le> len" "\<And>k sd. 0 \<le> w k sd"
    using assms(2) unfolding progressing_def by metis
  obtain ret sd1 where r: "g k start len sd = (ret, sd1)" by (cases "g k start len sd")
  show thesis
  proof (cases "ret = USWAP_ALREADY_SWAPPED")
    case True
    with g gw r show ?thesis by (intro that [of 0 sd1]) (auto simp: do_swapout_once_def)
  next
    case False
    let ?sd2 = "case tmpva k (sd_start_va sd1) (sd_len sd1) of
        Some (bytes, dirty) \<Rightarrow> sd1\<lparr>sd_buf := bytes, sd_flag := (if dirty then USWAP_DATA_DIRTY else 0)\<rparr>
      | None \<Rightarrow> sd1\<lparr>sd_flag := USWAP_DATA_ABORT OR USWAP_DATA_DIRTY\<rparr>"
    have "do_swapout_once ops tmpva k start len sd = Inr (w k ?sd2, ?sd2)"
      using False g gw(1) r by (simp add: do_swapout_once_def Let_def)
    moreover have "sd_len ?sd2 = sd_len sd1" by (simp split: option.split prod.split)
    ultimately show ?thesis using gw r by (intro that [of "w k ?sd2" ?sd2]) auto
  qed
qed

lemma swapout_loop_tiles:
  assumes p: "progressing ops"
  shows "succ_len < len \<Longrightarrow> \<exists>segs. swapout_loop ops tmpva start len k succ_len sd done =
      Some (Inr (cast_int (uint (len - snd (last segs))), done @ segs)) \<and> segs \<noteq> [] \<and>
      tiles (start + succ_len) (len - succ_len) segs"
proof (induction "unat (len - succ_len)" arbitrary: k succ_len sd "done" rule: less_induct)
  case less
  have pos: "0 < len - succ_len" using less.prems by (simp add: word_neq_0_conv [symmetric])
  from swapout_once_progress [OF p pos, of tmpva k "start + succ_len" sd] obtain ret sd' where
    o1: "do_swapout_once ops tmpva k (start + succ_len) (len - succ_len) sd = Inr (ret, sd')"
    and sd: "0 \<le> ret" "0 < sd_len sd'" "sd_len sd' \<le> len - succ_len" by blast
  let ?l = "sd_len sd'"
  have u: "unat (len - succ_len) = unat len - unat succ_len" "unat succ_len < unat len"
    using less.prems by (simp_all add: unat_sub word_less_nat_alt order_less_imp_le)
  have ul: "unat ?l \<le> unat len - unat succ_len" "0 < unat ?l"
    using sd(2,3) u by (simp_all add: word_le_nat_alt word_less_nat_alt)
  have ld: "unat (len - ?l) = unat len - unat ?l"
    using ul u by (intro unat_sub) (simp add: word_le_nat_alt)
  show ?case
  proof (cases "succ_len \<ge> len - ?l")
    case True
    then have "unat ?l = unat (len - succ_len)" using ul u ld by (simp add: word_le_nat_alt)
    then have l: "?l = len - succ_len" by (simp add: word_unat_eq_iff)
    let ?segs = "[(start + succ_len, ?l)]"
    have "swapout_loop ops tmpva start len k succ_len sd done =
        Some (Inr (cast_int (uint succ_len), done @ ?segs))"
      using less.prems o1 sd(1) True by (subst swapout_loop.simps) simp
    then show ?thesis using l sd(2) by (intro exI [of _ ?segs]) simp
  next
    case False
    then have lt: "unat ?l + unat succ_len < unat len" using ul u ld by (simp add: word_le_nat_alt)
    then have us: "unat (succ_len + ?l) = unat succ_len + unat ?l"
      using unat_u64 [of len] by (intro unat_add_lt) simp
    have lt': "succ_len + ?l < len" using lt us by (simp add: word_less_nat_alt)
    have dec: "unat (len - (succ_len + ?l)) < unat (len - succ_len)"
      using lt' us ul(2) u less.prems by (simp add: unat_sub order_less_imp_le word_less_nat_alt)
    from less.hyps [OF dec lt', of "k + 1" sd' "done @ [(start + succ_len, ?l)]"] obtain segs where
      s: "swapout_loop ops tmpva start len (k + 1) (succ_len + ?l) sd' (done @ [(start + succ_len, ?l)]) =
        Some (Inr (cast_int (uint (len - snd (last segs))), (done @ [(start + succ_len, ?l)]) @ segs))"
      "segs \<noteq> []" "tiles (start + (succ_len + ?l)) (len - (succ_len + ?l)) segs" by blast
    have "swapout_loop ops tmpva start len k succ_len sd done =
        Some (Inr (cast_int (uint (len - snd (last segs))), done @ (start + succ_len, ?l) # segs))"
      using less.prems o1 sd(1) False s(1) by (subst swapout_loop.simps) (simp add: Let_def)
    moreover have "tiles (start + succ_len) (len - succ_len) ((start + succ_len, ?l) # segs)"
      using sd(2,3) s(3) by (simp add: add.assoc diff_diff_eq)
    ultimately show ?thesis using s(2) by (intro exI [of _ "(start + succ_len, ?l) # segs"]) simp
  qed
qed

section \<open>Copying page by page\<close>

text \<open>The number of pages the loop reaches: those that start below the length and below \<open>2 ^ 31\<close>.\<close>

definition reached_pages :: "nat \<Rightarrow> nat \<Rightarrow> nat" where
  "reached_pages len p = (min len (2 ^ 31) + p - 1) div p"

lemma reached_pages_less:
  assumes "0 < p"
  shows "j < reached_pages len p \<longleftrightarrow> j * p < min len (2 ^ 31)"
proof -
  have "j < reached_pages len p \<longleftrightarrow> Suc j * p \<le> min len (2 ^ 31) + p - 1"
    unfolding reached_pages_def Suc_le_eq [symmetric] by (rule less_eq_div_iff_mult_less_eq [OF assms])
  also have "\<dots> \<longleftrightarrow> j * p < min len (2 ^ 31)" using assms by auto
  finally show ?thesis .
qed

lemma reached_pages_end:
  assumes p: "0 < p" "p dvd 2 ^ 31"
  shows "reached_pages len p * p \<ge> min len (2 ^ 31)" "reached_pages len p * p \<le> 2 ^ 31"
proof -
  let ?n = "reached_pages len p"
  show "?n * p \<ge> min len (2 ^ 31)" using reached_pages_less [OF p(1), of ?n len] by linarith
  from p(2) obtain m where m: "2 ^ 31 = p * m" by (elim dvdE)
  have "?n \<le> m"
  proof (rule ccontr)
    assume "\<not> ?n \<le> m"
    then have "m < ?n" by simp
    then have "m * p < min len (2 ^ 31)" by (simp add: reached_pages_less [OF p(1)])
    then show False using m by (simp add: mult.commute)
  qed
  then have "?n * p \<le> m * p" by (rule mult_right_mono) simp
  then show "?n * p \<le> 2 ^ 31" by (simp only: m mult.commute)
qed

lemma copy_loop_exit:
  assumes p: "0 < p" "p dvd 2 ^ 31" and len: "unat (sd_len sd) \<le> 2 ^ 63"
    and n: "n = reached_pages (unat (sd_len sd)) p"
  shows "\<not> word_of_int (cast_int (int (n * p))) < sd_len sd"
proof -
  note e = reached_pages_end [OF p, of "unat (sd_len sd)", folded n]
  show ?thesis
  proof (cases "n * p = 2 ^ 31")
    case True
    have "cast_int (2 ^ 31) = - (2 ^ 31)" by (simp add: cast_int_def)
    with True have "cast_int (int (n * p)) = - (2 ^ 31)" by (metis of_nat_numeral of_nat_power)
    then have "unat (word_of_int (cast_int (int (n * p))) :: u64) = 2 ^ 64 - 2 ^ 31" by simp
    with len show ?thesis by (simp add: word_less_nat_alt)
  next
    case False
    with e(2) have lt: "n * p < 2 ^ 31" by simp
    with e(1) have "unat (sd_len sd) \<le> n * p" by (simp add: min_def split: if_splits)
    moreover have "cast_int (int (n * p)) = int (n * p)" using lt by (intro cast_int_id) (simp_all del: of_nat_mult)
    moreover have "unat (of_nat (n * p) :: u64) = n * p"
      using lt by (simp add: unat_of_nat del: of_nat_mult)
    ultimately show ?thesis by (simp add: word_less_nat_alt del: of_nat_mult)
  qed
qed

lemma copy_pages_from:
  assumes p: "0 < p" "p dvd 2 ^ 31" and ok: "\<And>dst. ioctl dst = Copy_ok \<or> ioctl dst = Copy_exists"
    and len: "unat (sd_len sd) \<le> 2 ^ 63" and n: "n = reached_pages (unat (sd_len sd)) p"
  shows "j \<le> n \<Longrightarrow> copy_pages_loop ioctl (of_nat p) sd (cast_int (int (j * p))) done =
      Some (USWAP_SUCCESS, done @ map (\<lambda>i. sd_start_va sd + of_nat (i * p)) [j..<n])"
proof (induction "n - j" arbitrary: j "done")
  case 0
  then have "j = n" by simp
  with copy_loop_exit [OF p len n] show ?case by (subst copy_pages_loop.simps) simp
next
  case (Suc d)
  then have j: "j < n" by simp
  have jp: "j * p < unat (sd_len sd)" "j * p < 2 ^ 31"
    using j reached_pages_less [OF p(1), of j] by (simp_all add: n)
  have off: "cast_int (int (j * p)) = int (j * p)" using jp(2) by (intro cast_int_id) (simp_all del: of_nat_mult)
  have "unat (of_nat (j * p) :: u64) = j * p" using jp(2) by (simp add: unat_of_nat del: of_nat_mult)
  then have go: "of_nat (j * p) < sd_len sd" using jp(1) by (simp add: word_less_nat_alt del: of_nat_mult)
  have "p \<le> 2 ^ 31" using p(2) by (rule dvd_imp_le) simp
  then have up: "uint (of_nat p :: u64) = int p" by (simp add: uint_nat unat_of_nat)
  have nx: "int (j * p) + uint (of_nat p :: u64) = int (Suc j * p)" by (simp add: up)
  have "copy_pages_loop ioctl (of_nat p) sd (cast_int (int (Suc j * p))) (done @ [sd_start_va sd + of_nat (j * p)]) =
      Some (USWAP_SUCCESS, (done @ [sd_start_va sd + of_nat (j * p)]) @
        map (\<lambda>i. sd_start_va sd + of_nat (i * p)) [Suc j..<n])"
    using Suc.hyps(2) j by (intro Suc.hyps(1)) auto
  then show ?case
    using go ok [of "sd_start_va sd + of_nat (j * p)"] j
    by (subst copy_pages_loop.simps)
      (auto simp: off nx Let_def upt_conv_Cons simp del: of_nat_mult mult_Suc)
qed

section \<open>Receiving a request\<close>

lemma low_half: "(0xFFFFFFFF :: u64) = mask 32"
  by (simp add: mask_eq_exp_minus_1)

lemma high_half: "(0xFFFFFFFF00000000 :: u64) = NOT (mask 32)"
  by (simp add: mask_eq_exp_minus_1)

lemma upper_half:
  fixes a b :: u64
  shows "(a AND 0xFFFFFFFF) OR (b AND 0xFFFFFFFF00000000) = a \<longleftrightarrow>
    b AND 0xFFFFFFFF00000000 = a AND 0xFFFFFFFF00000000"
  unfolding low_half high_half by (auto simp: bit_eq_iff bit_simps)

lemma upd_field_all [simp]: "pos + 8 \<le> n \<Longrightarrow> upd_field n pos new old = new"
proof -
  assume "pos + 8 \<le> n"
  then have "64 \<le> 8 * (n - pos)" by simp
  then have "mask (8 * (n - pos)) = (- 1 :: u64)" by (auto simp: bit_eq_iff bit_simps)
  then show ?thesis by (simp add: upd_field_def)
qed

lemma upd_field_half [simp]:
  "upd_field (pos + 4) pos new old = (new AND 0xFFFFFFFF) OR (old AND 0xFFFFFFFF00000000)"
  by (simp only: low_half high_half) (simp add: upd_field_def Let_def)

lemma recv_entries_nth:
  assumes "n = 12 + 16 * length new" "length new \<le> length old" "i < length new"
  shows "recv_entries n new old ! i =
    (if Suc i < length new then new ! i
     else (fst (new ! i), (snd (new ! i) AND 0xFFFFFFFF) OR (snd (old ! i) AND 0xFFFFFFFF00000000)))"
proof -
  have "n = (24 + 16 * i) + 4" if "\<not> Suc i < length new" using that assms by simp
  then have "upd_field n (24 + 16 * i) a b = (a AND 0xFFFFFFFF) OR (b AND 0xFFFFFFFF00000000)"
    if "\<not> Suc i < length new" for a b
    using that upd_field_half [of "24 + 16 * i"] by simp
  then show ?thesis using assms by (auto simp: recv_entries_def)
qed

lemma recv_entries_exact:
  assumes "n = 12 + 16 * length new" "length new \<le> length old" "new \<noteq> []"
  shows "take (length new) (recv_entries n new old) = new \<longleftrightarrow>
    snd (old ! (length new - 1)) AND 0xFFFFFFFF00000000 = snd (last new) AND 0xFFFFFFFF00000000"
proof -
  let ?m = "length new" and ?r = "recv_entries n new old"
  have m: "0 < ?m" using assms(3) by simp
  have len: "length ?r = length old" by (simp add: recv_entries_def)
  have last: "last new = new ! (?m - 1)" by (rule last_conv_nth [OF assms(3)])
  have "take ?m ?r = new \<longleftrightarrow> (\<forall>i<?m. ?r ! i = new ! i)"
    using assms(2) len by (simp add: list_eq_iff_nth_eq)
  also have "\<dots> \<longleftrightarrow> ?r ! (?m - 1) = new ! (?m - 1)"
  proof
    assume eq: "?r ! (?m - 1) = new ! (?m - 1)"
    show "\<forall>i<?m. ?r ! i = new ! i"
    proof (intro allI impI)
      fix i assume "i < ?m"
      then consider "Suc i < ?m" | "i = ?m - 1" by linarith
      then show "?r ! i = new ! i" using eq recv_entries_nth [OF assms(1,2)] by cases simp_all
    qed
  qed (use m in simp)
  also have "\<dots> \<longleftrightarrow> (snd (last new) AND 0xFFFFFFFF) OR (snd (old ! (?m - 1)) AND 0xFFFFFFFF00000000) = snd (last new)"
    using m recv_entries_nth [OF assms(1,2), of "?m - 1"] by (auto simp: last prod_eq_iff)
  also have "\<dots> \<longleftrightarrow> snd (old ! (?m - 1)) AND 0xFFFFFFFF00000000 = snd (last new) AND 0xFFFFFFFF00000000"
    by (rule upper_half)
  finally show ?thesis .
qed

section \<open>Properties\<close>

text \<open>merging the entries of a request keeps the addresses: if an entry that starts right behind
  a page-sized entry is page-sized too, the merged ranges cover exactly the addresses of the entries
  whose length is neither 0 nor above \<open>SSIZE_MAX\<close>.\<close>

theorem vma_merge_covers:
  assumes "n \<le> USWAP_MAX_VMA_NUM" "runs_ok page_size (take n addrs)" "in_space (take n addrs)"
    and "page_size \<noteq> 0" "page_size \<le> SSIZE_MAX"
  shows "cover (snd (vma_merge page_size (of_nat n * 16) addrs)) = cover (filter swappable (take n addrs))"
  by (simp only: vma_merge_eq [OF assms(1)] snd_conv merge_loop_cover [OF assms(2-5)])

lemma vma_merge_covers_witness:
  "cover (snd (vma_merge 0x1000 (of_nat 3 * 16) [(0x1000, 0x1000), (0x2000, 0x1000), (0x8000, 0x2000)])) =
   cover (filter swappable (take 3 [(0x1000, 0x1000), (0x2000, 0x1000), (0x8000, 0x2000)]))"
  by (rule vma_merge_covers) simp_all

text \<open>without that condition addresses are lost: an entry of any length that starts right behind
  a page is merged as if it were one page.\<close>

theorem vma_merge_cuts_huge_page:
  assumes "page_size \<noteq> 0" "page_size \<le> SSIZE_MAX"
  shows "vma_merge page_size (of_nat 2 * 16) [(a, page_size), (a + page_size, huge)] = (16, [(a, page_size + page_size)])"
proof -
  have "merge_loop page_size [(a, page_size), (a + page_size, huge)] = [(a, page_size + page_size)]"
    using assms by (simp add: not_less [symmetric])
  then show ?thesis by (subst vma_merge_eq) simp_all
qed

lemma vma_merge_cuts_huge_page_witness:
  "vma_merge 0x1000 (of_nat 2 * 16) [(0x1FF000, 0x1000), (0x1FF000 + 0x1000, 0x200000)] = (16, [(0x1FF000, 0x1000 + 0x1000)])"
  by (rule vma_merge_cuts_huge_page) simp_all


definition page_ops :: uswap_operations where
  "page_ops = \<lparr>uo_get_swapout_buf = Some (\<lambda>k start len sd. (0, sd\<lparr>sd_start_va := start, sd_len := min len 0x1000\<rparr>)),
     uo_do_swapout = Some (\<lambda>k sd. 0), uo_do_swapin = None, uo_release_buf = None\<rparr>"

definition no_data :: swap_data where
  "no_data = \<lparr>sd_start_va = 0, sd_len = 0, sd_buf = [], sd_flag = 0\<rparr>"

lemma page_ops_progressing: "progressing page_ops"
  by (auto simp: progressing_def page_ops_def min_def word_neq_0_conv)


text \<open>copying page by page, with a page size that divides \<open>2 ^ 31\<close> and no failing ioctl, ends with
  success after exactly the pages that start below \<open>min len (2 ^ 31)\<close>: every page up to 2 GB, and
  none of those beyond.\<close>

theorem copy_pages_exact:
  assumes "0 < p" "p dvd 2 ^ 31" "\<And>dst. ioctl dst = Copy_ok \<or> ioctl dst = Copy_exists"
    and "unat (sd_len sd) \<le> 2 ^ 63"
  shows "\<exists>n. ioctl_uffd_copy_pages ioctl (of_nat p) sd =
      Some (USWAP_SUCCESS, map (\<lambda>i. sd_start_va sd + of_nat (i * p)) [0..<n]) \<and>
    (\<forall>i. i < n \<longleftrightarrow> i * p < min (unat (sd_len sd)) (2 ^ 31))"
proof (intro exI conjI allI)
  let ?n = "reached_pages (unat (sd_len sd)) p"
  have "cast_int 0 = 0" by (simp add: cast_int_def)
  then show "ioctl_uffd_copy_pages ioctl (of_nat p) sd =
      Some (USWAP_SUCCESS, map (\<lambda>i. sd_start_va sd + of_nat (i * p)) [0..<?n])"
    using copy_pages_from [OF assms refl, of 0] by (simp add: ioctl_uffd_copy_pages_def)
  show "i < ?n \<longleftrightarrow> i * p < min (unat (sd_len sd)) (2 ^ 31)" for i
    by (rule reached_pages_less [OF assms(1)])
qed

abbreviation two_pages :: swap_data where
  "two_pages \<equiv> no_data\<lparr>sd_start_va := 0x10000, sd_len := 0x2000\<rparr>"

lemma copy_pages_exact_witness:
  "\<exists>n. ioctl_uffd_copy_pages (\<lambda>_. Copy_ok) (of_nat 4096) two_pages =
      Some (USWAP_SUCCESS, map (\<lambda>i. sd_start_va two_pages + of_nat (i * 4096)) [0..<n]) \<and>
    (\<forall>i. i < n \<longleftrightarrow> i * 4096 < min (unat (sd_len two_pages)) (2 ^ 31))"
  by (rule copy_pages_exact) simp_all

text \<open>memRouter writes \<open>12 + 16 * m\<close> bytes of a request with \<open>m\<close> entries, four less than the
  structure takes, so the entries arrive exactly if and only if the upper half of the last length
  equals the one left in the buffer by an earlier request.\<close>

theorem request_received:
  assumes "0 < length new" "length new \<le> length old"
  shows "take (length new) (recv_entries (12 + 16 * length new) new old) = new \<longleftrightarrow>
    snd (old ! (length new - 1)) AND 0xFFFFFFFF00000000 = snd (last new) AND 0xFFFFFFFF00000000"
  using assms by (intro recv_entries_exact) auto

lemma request_received_witness:
  "take (length [(0x1000, 0x1000)]) (recv_entries (12 + 16 * length [(0x1000 :: u64, 0x1000 :: u64)])
     [(0x1000, 0x1000)] [(0, 0x100000000)]) \<noteq> [(0x1000, 0x1000)]"
  using request_received [of "[(0x1000, 0x1000)]" "[(0, 0x100000000)]"] by simp

end
