(* ===== verification/Cslide_Pages.thy ===== *)
theory Cslide_Pages
  imports Scan_Process Migrate
begin

text \<open>
  Pages of the cslide engine (\<open>etmemd_cslide.c\<close>): after a scan the pages of a process are
  asked for their NUMA node in batches and sorted by access count and node
  (\<open>cslide_count_node_pfs\<close>), counted for the statistics (\<open>update_pages_info\<close>), taken from those
  lists by the policy (\<open>move_npf_to_list\<close>), and migrated in batches (\<open>do_migrate_pages\<close>).

  A list with head and tail pointers is the list of its pages: \<open>tail\<close> is NULL iff it is empty, and
  \<open>npf_setup_tail\<close> cuts the link behind the last page. An \<open>int64_t\<close> is an \<open>int\<close>: the sums of
  bytes stay far below \<open>2 ^ 63\<close>.
\<close>

section \<open>Lists of pages by node\<close>

record 'd node_page_refs =
  np_pages :: "'d page_refs list"
  np_size :: int
  np_num :: u32

text \<open>\<open>struct count_page_refs\<close> is the array \<open>node_pfs\<close>, whose length is \<open>node_num\<close>.\<close>

type_synonym 'd count_page_refs = "'d node_page_refs list"

definition init_node_page_refs :: "'d node_page_refs" where
  "init_node_page_refs = \<lparr>np_pages = [], np_size = 0, np_num = 0\<rparr>"

definition clean_node_page_refs :: "'d node_page_refs \<Rightarrow> 'd node_page_refs" where
  "clean_node_page_refs npf = npf\<lparr>np_pages := [], np_size := 0, np_num := 0\<rparr>"

definition npf_add_pf :: "u64 list \<Rightarrow> 'd node_page_refs \<Rightarrow> 'd page_refs \<Rightarrow> 'd node_page_refs c_res" where
  "npf_add_pf gps npf p =
     c_bind (page_type_to_size gps (pr_type p)) (\<lambda>sz.
       Inr \<lparr>np_pages = np_pages npf @ [p], np_size = np_size npf + sz, np_num = np_num npf + 1\<rparr>)"

text \<open>The loop of \<open>move_npf_to_list\<close>: how many pages fit into \<open>lim\<close> bytes, and their bytes.\<close>

fun fit_pages :: "u64 list \<Rightarrow> int \<Rightarrow> int \<Rightarrow> 'd page_refs list \<Rightarrow> (nat \<times> int) c_res" where
  "fit_pages gps lim moved_size [] = Inr (0, moved_size)"
| "fit_pages gps lim moved_size (p # ps) =
     c_bind (page_type_to_size gps (pr_type p)) (\<lambda>sz.
       if lim \<ge> moved_size + sz then
         c_bind (fit_pages gps lim (moved_size + sz) ps) (\<lambda>(k, m). Inr (Suc k, m))
       else Inr (0, moved_size))"

definition move_npf_to_list ::
  "u64 list \<Rightarrow> 'd node_page_refs \<Rightarrow> 'd page_refs list \<Rightarrow> int \<Rightarrow> ('d node_page_refs \<times> 'd page_refs list) c_res" where
  "move_npf_to_list gps npf lst lim =
     c_bind (if np_size npf \<le> lim then Inr (length (np_pages npf), np_size npf)
             else fit_pages gps lim 0 (np_pages npf)) (\<lambda>(k, moved_size).
       Inr (npf\<lparr>np_pages := drop k (np_pages npf), np_size := np_size npf - moved_size\<rparr>,
            take k (np_pages npf) @ lst))"

definition init_count_page_refs :: "nat \<Rightarrow> alloc \<Rightarrow> 'd count_page_refs option \<times> alloc" where
  "init_count_page_refs node_num al =
     (case c_alloc al of
        (False, al') \<Rightarrow> (None, al')
      | (True, al') \<Rightarrow> (Some (replicate node_num init_node_page_refs), al'))"

definition clean_count_page_refs :: "'d count_page_refs \<Rightarrow> 'd count_page_refs" where
  "clean_count_page_refs cpf = map clean_node_page_refs cpf"

text \<open>\<open>cpfs\<close> is the array over the counts. The number of nodes is that of the first entry; a page
  on another node is released.\<close>

fun insert_count_pfs ::
  "u64 list \<Rightarrow> 'd page_refs list \<Rightarrow> int list \<Rightarrow> 'd count_page_refs list \<Rightarrow> 'd count_page_refs list c_res" where
  "insert_count_pfs gps pf [] cpfs = Inr cpfs"
| "insert_count_pfs gps [] (node # nodes) cpfs = Inl Null_deref"
| "insert_count_pfs gps (p # pf) (node # nodes) cpfs =
     (if cpfs = [] then Inl Out_of_bounds
      else if node < 0 \<or> node \<ge> int (length (hd cpfs)) then insert_count_pfs gps pf nodes cpfs
      else if pr_count p < 0 \<or> pr_count p \<ge> int (length cpfs) then Inl Out_of_bounds
      else
        let c = nat (pr_count p); cpf = cpfs ! c; n = nat node in
        if n \<ge> length cpf then Inl Out_of_bounds
        else c_bind (npf_add_pf gps (cpf ! n) p) (\<lambda>npf.
               insert_count_pfs gps pf nodes (cpfs[c := cpf[n := npf]])))"

section \<open>Sorting the pages of a process by count and node\<close>

abbreviation (input) BATCHSIZE :: nat where "BATCHSIZE \<equiv> 65536"

text \<open>\<open>next_vma_pf\<close> on the lists of the areas from \<open>*cur\<close> on.\<close>

fun next_vma_pf :: "'d page_refs list list \<Rightarrow> 'd page_refs list \<times> 'd page_refs list list" where
  "next_vma_pf [] = ([], [])"
| "next_vma_pf (pf # rest) = (if pf \<noteq> [] then (pf, rest) else next_vma_pf rest)"

lemma next_vma_pf_concat: "next_vma_pf rest = (pf, rest') \<Longrightarrow> pf @ concat rest' = concat rest"
  by (induction rest arbitrary: pf rest') (auto split: if_splits)

lemma next_vma_pf_Nil: "next_vma_pf rest = ([], rest') \<Longrightarrow> rest' = []"
  by (induction rest) (auto split: if_splits)

lemma next_chain:
  "(pf', rest') = (if pf = [] then next_vma_pf rest else (pf, rest)) \<Longrightarrow>
   pf' @ concat rest' = pf @ concat rest"
  by (cases "pf = []") (auto dest!: sym [of "(pf', rest')"] next_vma_pf_concat)

lemma next_chain_length:
  "(pf', rest') = (if pf = [] then next_vma_pf rest else (pf, rest)) \<Longrightarrow>
   length pf' + length (concat rest') = length pf + length (concat rest)"
  by (drule next_chain) (metis length_append)

text \<open>
  The loop of \<open>cslide_count_node_pfs\<close>: \<open>batch\<close> is the chain from \<open>last\<close> up to the current page,
  \<open>pf\<close> the chain from the current page on, \<open>rest\<close> the areas not yet taken. \<open>move_pages\<close> without
  target nodes gives the node of each address, or fails. The results are the return value, the
  sorted pages, and the areas not taken; when the call fails the pages of the chain are released.
\<close>

function count_loop ::
  "nat \<Rightarrow> u64 list \<Rightarrow> (u64 list \<Rightarrow> int list option) \<Rightarrow> 'd page_refs list \<Rightarrow> 'd page_refs list \<Rightarrow>
   'd page_refs list list \<Rightarrow> 'd count_page_refs list \<Rightarrow>
   (int \<times> 'd count_page_refs list \<times> 'd page_refs list list) c_res" where
  "count_loop bs gps move_pages batch [] rest cpfs = Inr (0, cpfs, rest)"
| "count_loop bs gps move_pages batch (p # pf) rest cpfs =
     (let batch' = batch @ [p];
          (pf', rest') = (if pf = [] then next_vma_pf rest else (pf, rest))
      in if length batch' = bs \<or> pf' = [] then
           (case move_pages (map pr_addr batch') of
              None \<Rightarrow> Inr (-1, cpfs, rest')
            | Some status \<Rightarrow>
                c_bind (insert_count_pfs gps batch' (take (length batch') status) cpfs) (\<lambda>cpfs'.
                  count_loop bs gps move_pages [] pf' rest' cpfs'))
         else count_loop bs gps move_pages batch' pf' rest' cpfs)"
  by pat_completeness auto
termination
  by (relation "measure (\<lambda>(bs, gps, mp, batch, pf, rest, cpfs). length pf + length (concat rest))")
    (auto dest: next_chain_length)

declare count_loop.simps [simp del]

section \<open>Parameters of a process\<close>

datatype pid_param_state = STATE_NONE | STATE_WORKING | STATE_REMOVE | STATE_FREE

record node_pages_info =
  ni_hot :: u32
  ni_cold :: u32

record cslide_task_params =
  ct_anon_only :: bool
  ct_vmflags :: "string list"
  ct_scan_flags :: u32

text \<open>\<open>cp_vma_pf\<close> is the array of the areas with the pages found in each.\<close>

record 'd cslide_pid_params =
  cp_state :: pid_param_state
  cp_count :: int
  cp_cpfs :: "'d count_page_refs list"
  cp_grade :: "'d memory_grade list"
  cp_info :: "node_pages_info list"
  cp_vmas :: "vmas option"
  cp_vma_pf :: "(vma \<times> 'd page_refs list) list option"
  cp_pid :: u32
  cp_task :: cslide_task_params

definition cslide_count_node_pfs ::
  "u64 list \<Rightarrow> (u64 list \<Rightarrow> int list option) \<Rightarrow> 'd cslide_pid_params \<Rightarrow> alloc \<Rightarrow>
   (int \<times> 'd cslide_pid_params \<times> alloc) c_res" where
  "cslide_count_node_pfs gps move_pages p al =
     (case (cp_vmas p, cp_vma_pf p) of
        (Some _, Some vpf) \<Rightarrow>
          (case c_alloc al of
             (False, al1) \<Rightarrow> Inr (-1, p, al1)
           | (True, al1) \<Rightarrow>
               (case c_alloc al1 of
                  (False, al2) \<Rightarrow> Inr (-1, p, al2)
                | (True, al2) \<Rightarrow>
                    let (pf, rest) = next_vma_pf (map snd vpf) in
                    c_bind (count_loop BATCHSIZE gps move_pages [] pf rest (cp_cpfs p)) (\<lambda>(ret, cpfs, rest').
                      let k = length vpf - length rest' in
                      Inr (ret, p\<lparr>cp_cpfs := cpfs,
                                  cp_vma_pf := Some (map (\<lambda>v. (fst v, [])) (take k vpf) @ drop k vpf)\<rparr>, al2))))
      | _ \<Rightarrow> Inr (0, p, al))"

text \<open>\<open>update_pages_info\<close>: kilobytes in a \<open>uint32_t\<close>, every page counted as 2 MB.\<close>

definition info_sum :: "'d count_page_refs list \<Rightarrow> nat \<Rightarrow> u32" where
  "info_sum cpfs n = sum_list (map (\<lambda>cpf. push_bit 11 (np_num (cpf ! n))) cpfs)"

definition update_pages_info ::
  "int \<Rightarrow> 'd cslide_pid_params \<Rightarrow> node_pages_info list \<Rightarrow> 'd cslide_pid_params \<times> node_pages_info list" where
  "update_pages_info t p host_pages =
     (let actual_t = nat (if t > cp_count p then cp_count p + 1 else t);
          node_num = length (hd (cp_cpfs p));
          task_pages = map (\<lambda>n. \<lparr>ni_hot = info_sum (drop actual_t (cp_cpfs p)) n,
                                  ni_cold = info_sum (take actual_t (cp_cpfs p)) n\<rparr>) [0..<node_num]
      in (p\<lparr>cp_info := task_pages\<rparr>,
          map2 (\<lambda>h q. \<lparr>ni_hot = ni_hot h + ni_hot q, ni_cold = ni_cold h + ni_cold q\<rparr>) host_pages task_pages))"

section \<open>Migration\<close>

text \<open>A call of \<open>move_pages\<close>: the process, the addresses and the node they go to. The outcome of a
  call is asked from \<open>ok\<close> by its number.\<close>

type_synonym move_request = "u32 \<times> u64 list \<times> int"

fun migrate_pages_loop ::
  "nat \<Rightarrow> (nat \<Rightarrow> bool) \<Rightarrow> u32 \<Rightarrow> int \<Rightarrow> u64 list \<Rightarrow> 'd page_refs list \<Rightarrow> int \<Rightarrow> move_request list \<Rightarrow>
   int \<times> move_request list" where
  "migrate_pages_loop bs ok pid node batch [] moved reqs = (moved, reqs)"
| "migrate_pages_loop bs ok pid node batch (p # ps) moved reqs =
     (let batch' = batch @ [pr_addr p] in
      if length batch' = bs \<or> ps = [] then
        let reqs' = reqs @ [(pid, batch', node)] in
        if \<not> ok (length reqs) then (-1, reqs')
        else migrate_pages_loop bs ok pid node [] ps (moved + int (length batch')) reqs'
      else migrate_pages_loop bs ok pid node batch' ps moved reqs)"

definition do_migrate_pages ::
  "(nat \<Rightarrow> bool) \<Rightarrow> u32 \<Rightarrow> 'd page_refs list \<Rightarrow> int \<Rightarrow> move_request list \<Rightarrow> alloc \<Rightarrow>
   int \<times> move_request list \<times> alloc" where
  "do_migrate_pages ok pid page_refs node reqs al =
     (if page_refs = [] then (0, reqs, al)
      else case c_alloc al of
        (False, al1) \<Rightarrow> (-1, reqs, al1)
      | (True, al1) \<Rightarrow>
          (case c_alloc al1 of
             (False, al2) \<Rightarrow> (-1, reqs, al2)
           | (True, al2) \<Rightarrow>
               (case c_alloc al2 of
                  (False, al3) \<Rightarrow> (-1, reqs, al3)
                | (True, al3) \<Rightarrow>
                    (case migrate_pages_loop BATCHSIZE ok pid node [] page_refs 0 reqs of
                       (moved, reqs') \<Rightarrow> (moved, reqs', al3)))))"

definition migrate_single_task ::
  "(nat \<Rightarrow> bool) \<Rightarrow> u32 \<Rightarrow> 'd memory_grade \<Rightarrow> int \<Rightarrow> int \<Rightarrow> move_request list \<Rightarrow> alloc \<Rightarrow>
   int \<times> move_request list \<times> alloc" where
  "migrate_single_task ok pid grade hot_node cold_node reqs al =
     (case do_migrate_pages ok pid (cold_pages grade) cold_node reqs al of
        (moved, reqs1, al1) \<Rightarrow>
          if moved = -1 then (-1, reqs1, al1)
          else case do_migrate_pages ok pid (hot_pages grade) hot_node reqs1 al1 of
            (moved2, reqs2, al2) \<Rightarrow> if moved2 = -1 then (-1, reqs2, al2) else (0, reqs2, al2))"

section \<open>Sizes of pages\<close>

definition psize :: "u64 list \<Rightarrow> 'd page_refs \<Rightarrow> int" where
  "psize gps p = (case page_type_to_size gps (pr_type p) of Inl f \<Rightarrow> 0 | Inr sz \<Rightarrow> sz)"

abbreviation bytes :: "u64 list \<Rightarrow> 'd page_refs list \<Rightarrow> int" where
  "bytes gps ps \<equiv> sum_list (map (psize gps) ps)"

text \<open>A page whose type has a size of at most \<open>M\<close> bytes.\<close>

definition page_ok :: "u64 list \<Rightarrow> int \<Rightarrow> 'd page_refs \<Rightarrow> bool" where
  "page_ok gps M p \<longleftrightarrow>
     page_type_to_size gps (pr_type p) = Inr (psize gps p) \<and> 0 < psize gps p \<and> psize gps p \<le> M"

definition npf_ok :: "u64 list \<Rightarrow> int \<Rightarrow> 'd node_page_refs \<Rightarrow> bool" where
  "npf_ok gps M npf \<longleftrightarrow> (\<forall>p\<in>set (np_pages npf). page_ok gps M p) \<and> np_size npf = bytes gps (np_pages npf)"

lemma page_okD: "page_ok gps M p \<Longrightarrow> page_type_to_size gps (pr_type p) = Inr (psize gps p)"
  by (simp add: page_ok_def)

lemma bytes_nonneg: "\<forall>p\<in>set ps. page_ok gps M p \<Longrightarrow> 0 \<le> bytes gps ps"
  by (induction ps) (auto simp: page_ok_def)

lemma bytes_pos: "\<forall>p\<in>set ps. page_ok gps M p \<Longrightarrow> ps \<noteq> [] \<Longrightarrow> 0 < bytes gps ps"
  using bytes_nonneg [of "tl ps"] by (cases ps) (fastforce simp: page_ok_def)+

lemma bytes_take_drop: "bytes gps ps = bytes gps (take k ps) + bytes gps (drop k ps)"
  by (metis append_take_drop_id map_append sum_list_append)

lemma fit_pages_spec:
  "\<forall>p\<in>set ps. page_ok gps M p \<Longrightarrow>
   \<exists>k \<le> length ps. fit_pages gps lim m ps = Inr (k, m + bytes gps (take k ps)) \<and>
     (m \<le> lim \<longrightarrow> m + bytes gps (take k ps) \<le> lim) \<and>
     (k < length ps \<longrightarrow> lim < m + bytes gps (take k ps) + M)"
proof (induction ps arbitrary: m)
  case (Cons p ps)
  note ok = page_okD [of gps M p]
  show ?case
  proof (cases "m + psize gps p \<le> lim")
    case True
    from Cons obtain k where "k \<le> length ps"
      "fit_pages gps lim (m + psize gps p) ps = Inr (k, m + psize gps p + bytes gps (take k ps))"
      "m + psize gps p + bytes gps (take k ps) \<le> lim"
      "k < length ps \<longrightarrow> lim < m + psize gps p + bytes gps (take k ps) + M"
      using True by (metis list.set_intros(2))
    with True Cons.prems ok show ?thesis by (intro exI [of _ "Suc k"]) (auto simp: algebra_simps)
  next
    case False
    with Cons.prems ok show ?thesis by (intro exI [of _ 0]) (auto simp: page_ok_def)
  qed
qed simp

text \<open>\<open>move_npf_to_list\<close> moves the longest prefix that fits.\<close>

lemma move_npf_spec:
  assumes "npf_ok gps M npf" "0 \<le> lim"
  shows "\<exists>k \<le> length (np_pages npf).
    move_npf_to_list gps npf lst lim =
      Inr (npf\<lparr>np_pages := drop k (np_pages npf), np_size := bytes gps (drop k (np_pages npf))\<rparr>,
           take k (np_pages npf) @ lst) \<and>
    bytes gps (take k (np_pages npf)) \<le> lim \<and>
    (k < length (np_pages npf) \<longrightarrow> lim < bytes gps (take k (np_pages npf)) + M \<and> lim < np_size npf)"
proof (cases "np_size npf \<le> lim")
  case True
  with assms show ?thesis
    by (intro exI [of _ "length (np_pages npf)"]) (auto simp: move_npf_to_list_def npf_ok_def)
next
  case False
  from assms fit_pages_spec [of "np_pages npf" gps M lim 0] obtain k where k: "k \<le> length (np_pages npf)"
    "fit_pages gps lim 0 (np_pages npf) = Inr (k, bytes gps (take k (np_pages npf)))"
    "bytes gps (take k (np_pages npf)) \<le> lim"
    "k < length (np_pages npf) \<longrightarrow> lim < bytes gps (take k (np_pages npf)) + M"
    by (auto simp: npf_ok_def)
  with assms(1) False bytes_take_drop [of gps "np_pages npf" k] show ?thesis
    by (intro exI [of _ k]) (auto simp: move_npf_to_list_def npf_ok_def)
qed

lemma npf_ok_drop:
  "npf_ok gps M npf \<Longrightarrow>
   npf_ok gps M (npf\<lparr>np_pages := drop k (np_pages npf), np_size := bytes gps (drop k (np_pages npf))\<rparr>)"
  by (auto simp: npf_ok_def dest: in_set_dropD)

section \<open>Sorting\<close>

text \<open>The reference: page by page to the list of its count and its node.\<close>

definition add_pages :: "u64 list \<Rightarrow> 'd page_refs list \<Rightarrow> 'd node_page_refs \<Rightarrow> 'd node_page_refs" where
  "add_pages gps ps npf =
     npf\<lparr>np_pages := np_pages npf @ ps, np_size := np_size npf + bytes gps ps,
         np_num := np_num npf + of_nat (length ps)\<rparr>"

definition sorted_in ::
  "u64 list \<Rightarrow> (u64 \<Rightarrow> int) \<Rightarrow> 'd page_refs list \<Rightarrow> 'd count_page_refs list \<Rightarrow> 'd count_page_refs list" where
  "sorted_in gps nd ps cpfs =
     map (\<lambda>c. map (\<lambda>n. add_pages gps (filter (\<lambda>p. pr_count p = int c \<and> nd (pr_addr p) = int n) ps) (cpfs ! c ! n))
                   [0..<length (cpfs ! c)]) [0..<length cpfs]"

definition rect :: "nat \<Rightarrow> 'd count_page_refs list \<Rightarrow> bool" where
  "rect N cpfs \<longleftrightarrow> cpfs \<noteq> [] \<and> (\<forall>cpf\<in>set cpfs. length cpf = N)"

definition counts_ok :: "'d count_page_refs list \<Rightarrow> 'd page_refs list \<Rightarrow> bool" where
  "counts_ok cpfs ps \<longleftrightarrow> (\<forall>p\<in>set ps. 0 \<le> pr_count p \<and> pr_count p < int (length cpfs))"

lemma add_pages_Nil [simp]: "add_pages gps [] npf = npf"
  by (simp add: add_pages_def)

lemma add_pages_add_pages [simp]:
  "add_pages gps qs (add_pages gps ps npf) = add_pages gps (ps @ qs) npf"
  by (simp add: add_pages_def algebra_simps)

lemma sorted_in_length [simp]: "length (sorted_in gps nd ps cpfs) = length cpfs"
  by (simp add: sorted_in_def)

lemma sorted_in_nth [simp]:
  "c < length cpfs \<Longrightarrow> length (sorted_in gps nd ps cpfs ! c) = length (cpfs ! c)"
  "c < length cpfs \<Longrightarrow> n < length (cpfs ! c) \<Longrightarrow> sorted_in gps nd ps cpfs ! c ! n =
     add_pages gps (filter (\<lambda>p. pr_count p = int c \<and> nd (pr_addr p) = int n) ps) (cpfs ! c ! n)"
  by (simp_all add: sorted_in_def)

lemma cpfs_eqI:
  assumes "length xs = length ys" "\<And>c. c < length ys \<Longrightarrow> length (xs ! c) = length (ys ! c)"
    and "\<And>c n. c < length ys \<Longrightarrow> n < length (ys ! c) \<Longrightarrow> xs ! c ! n = ys ! c ! n"
  shows "xs = (ys :: 'a list list)"
  using assms by (metis nth_equalityI)

lemma sorted_in_Nil [simp]: "sorted_in gps nd [] cpfs = cpfs"
  by (rule cpfs_eqI) auto

lemma sorted_in_append: "sorted_in gps nd (ps @ qs) cpfs = sorted_in gps nd qs (sorted_in gps nd ps cpfs)"
  by (rule cpfs_eqI) auto

lemma rect_sorted_in [simp]: "rect N (sorted_in gps nd ps cpfs) \<longleftrightarrow> rect N cpfs"
  by (force simp: rect_def in_set_conv_nth sorted_in_def)

lemma rect_nth: "rect N cpfs \<Longrightarrow> c < length cpfs \<Longrightarrow> length (cpfs ! c) = N"
  by (simp add: rect_def)

lemma rect_hd: "rect N cpfs \<Longrightarrow> length (hd cpfs) = N"
  by (simp add: rect_def)

lemma counts_ok_sorted_in [simp]: "counts_ok (sorted_in gps nd qs cpfs) ps \<longleftrightarrow> counts_ok cpfs ps"
  by (simp add: counts_ok_def)

lemma counts_ok_Nil [simp]: "counts_ok cpfs []"
  by (simp add: counts_ok_def)

lemma counts_ok_Cons [simp]:
  "counts_ok cpfs (p # ps) \<longleftrightarrow> 0 \<le> pr_count p \<and> pr_count p < int (length cpfs) \<and> counts_ok cpfs ps"
  by (auto simp: counts_ok_def)

lemma counts_ok_append [simp]: "counts_ok cpfs (ps @ qs) \<longleftrightarrow> counts_ok cpfs ps \<and> counts_ok cpfs qs"
  by (auto simp: counts_ok_def)

lemma sorted_in_one:
  assumes "rect N cpfs" "0 \<le> pr_count p" "pr_count p < int (length cpfs)" "0 \<le> nd (pr_addr p)" "nd (pr_addr p) < int N"
  shows "cpfs[nat (pr_count p) := (cpfs ! nat (pr_count p))[nat (nd (pr_addr p)) :=
            add_pages gps [p] (cpfs ! nat (pr_count p) ! nat (nd (pr_addr p)))]] = sorted_in gps nd [p] cpfs"
  using assms by (intro cpfs_eqI) (auto simp: nth_list_update rect_nth split: if_splits)

lemma sorted_in_invalid:
  assumes "rect N cpfs" "nd (pr_addr p) < 0 \<or> int N \<le> nd (pr_addr p)"
  shows "sorted_in gps nd [p] cpfs = cpfs"
  using assms by (intro cpfs_eqI) (auto simp: rect_nth)

lemma insert_count_pfs_sorts:
  "rect N cpfs \<Longrightarrow> \<forall>p\<in>set ps. page_ok gps M p \<Longrightarrow> counts_ok cpfs ps \<Longrightarrow>
   insert_count_pfs gps ps (map (\<lambda>p. nd (pr_addr p)) ps) cpfs = Inr (sorted_in gps nd ps cpfs)"
proof (induction ps arbitrary: cpfs)
  case (Cons p ps)
  note app = sorted_in_append [of gps nd "[p]" ps cpfs, simplified]
  have ne: "cpfs \<noteq> []" and hd: "length (hd cpfs) = N" using Cons.prems(1) by (auto simp: rect_def)
  show ?case
  proof (cases "nd (pr_addr p) < 0 \<or> int N \<le> nd (pr_addr p)")
    case True
    with Cons ne hd sorted_in_invalid [where nd = nd and p = p and gps = gps, OF Cons.prems(1) True] show ?thesis by (simp add: app)
  next
    case False
    have add: "npf_add_pf gps x p = Inr (add_pages gps [p] x)" for x
      using Cons.prems(2) by (simp add: npf_add_pf_def page_okD [of gps M] add_pages_def)
    from False Cons.prems have one: "cpfs[nat (pr_count p) := (cpfs ! nat (pr_count p))[nat (nd (pr_addr p)) :=
            add_pages gps [p] (cpfs ! nat (pr_count p) ! nat (nd (pr_addr p)))]] = sorted_in gps nd [p] cpfs"
      by (intro sorted_in_one [of N]) auto
    from Cons.IH [of "sorted_in gps nd [p] cpfs"] Cons.prems
    have "insert_count_pfs gps ps (map (\<lambda>p. nd (pr_addr p)) ps) (sorted_in gps nd [p] cpfs) = Inr (sorted_in gps nd (p # ps) cpfs)"
      by (simp add: app)
    with False Cons.prems ne hd show ?thesis
      by (auto simp: Let_def add one rect_nth)
  qed
qed simp

lemma count_loop_sorts:
  assumes "rect N cpfs" "\<forall>p\<in>set (batch @ pf @ concat rest). page_ok gps M p"
    and "counts_ok cpfs (batch @ pf @ concat rest)" "pf = [] \<longrightarrow> batch = [] \<and> rest = []"
  shows "count_loop bs gps (\<lambda>as. Some (map nd as)) batch pf rest cpfs =
    Inr (0, sorted_in gps nd (batch @ pf @ concat rest) cpfs, [])"
  using assms
proof (induction "length pf + length (concat rest)" arbitrary: batch pf rest cpfs rule: less_induct)
  case less
  show ?case
  proof (cases pf)
    case Nil
    with less.prems show ?thesis by (simp add: count_loop.simps)
  next
    case (Cons p pf1)
    obtain pf' rest' where nx: "(pf', rest') = (if pf1 = [] then next_vma_pf rest else (pf1, rest))"
      by (metis surj_pair)
    have cat: "pf1 @ concat rest = pf' @ concat rest'" by (rule next_chain [OF nx, symmetric])
    have len: "length pf' + length (concat rest') < length pf + length (concat rest)"
      using next_chain_length [OF nx] Cons by simp
    have emp: "pf' = [] \<longrightarrow> rest' = []"
      using nx by (cases "pf1 = []") (auto dest!: sym [of "(pf', rest')"] next_vma_pf_Nil)
    note ok = less.prems(2,3) [unfolded Cons append_Cons cat]
    show ?thesis
    proof (cases "length (batch @ [p]) = bs \<or> pf' = []")
      case True
      have ins: "insert_count_pfs gps (batch @ [p]) (map (\<lambda>p. nd (pr_addr p)) (batch @ [p])) cpfs
          = Inr (sorted_in gps nd (batch @ [p]) cpfs)"
        using ok by (intro insert_count_pfs_sorts [OF less.prems(1)]) auto
      have "count_loop bs gps (\<lambda>as. Some (map nd as)) [] pf' rest' (sorted_in gps nd (batch @ [p]) cpfs)
          = Inr (0, sorted_in gps nd ([] @ pf' @ concat rest') (sorted_in gps nd (batch @ [p]) cpfs), [])"
        using ok emp less.prems(1) by (intro less.hyps [OF len]) auto
      moreover have "count_loop bs gps (\<lambda>as. Some (map nd as)) batch pf rest cpfs =
          count_loop bs gps (\<lambda>as. Some (map nd as)) [] pf' rest' (sorted_in gps nd (batch @ [p]) cpfs)"
        using True ins by (simp add: Cons count_loop.simps nx [symmetric] Let_def comp_def)
      ultimately show ?thesis
        using sorted_in_append [of gps nd "batch @ [p]" "pf' @ concat rest'" cpfs]
        by (simp add: Cons cat)
    next
      case False
      with less.hyps [OF len, of cpfs "batch @ [p]"] ok emp less.prems(1) show ?thesis
        by (simp add: Cons cat count_loop.simps nx [symmetric] Let_def)
    qed
  qed
qed

lemma count_node_pfs_eq:
  assumes "cp_vmas p = Some w" "cp_vma_pf p = Some vpf" "rect N (cp_cpfs p)"
    and "\<forall>q\<in>set (concat (map snd vpf)). page_ok gps M q" "counts_ok (cp_cpfs p) (concat (map snd vpf))"
  shows "cslide_count_node_pfs gps (\<lambda>as. Some (map nd as)) p [] =
    Inr (0, p\<lparr>cp_cpfs := sorted_in gps nd (concat (map snd vpf)) (cp_cpfs p),
              cp_vma_pf := Some (map (\<lambda>v. (fst v, [])) vpf)\<rparr>, [])"
proof -
  obtain pf rest where nx: "next_vma_pf (map snd vpf) = (pf, rest)" by fastforce
  note cat = next_vma_pf_concat [OF nx]
  have "pf = [] \<longrightarrow> rest = []" using nx next_vma_pf_Nil by auto
  with assms(3-5) cat have
    "count_loop BATCHSIZE gps (\<lambda>as. Some (map nd as)) [] pf rest (cp_cpfs p) =
      Inr (0, sorted_in gps nd ([] @ pf @ concat rest) (cp_cpfs p), [])"
    by (intro count_loop_sorts) (auto simp del: set_concat)
  with assms(1,2) cat show ?thesis by (simp add: cslide_count_node_pfs_def nx)
qed

section \<open>Batches of a migration\<close>

lemma migrate_pages_loop_batches:
  assumes "length batch < bs" "ps = [] \<longrightarrow> batch = []"
  shows "\<exists>k ret. migrate_pages_loop bs ok pid node batch ps moved reqs =
      (ret, reqs @ map (\<lambda>b. (pid, b, node)) (take k (chunks bs (batch @ map pr_addr ps)))) \<and>
    (ret = -1 \<or> ret = moved + int (length batch + length ps) \<and> length (chunks bs (batch @ map pr_addr ps)) \<le> k)"
  using assms
proof (induction ps arbitrary: batch moved reqs)
  case Nil
  then show ?case by auto
next
  case (Cons p ps)
  let ?b = "batch @ [pr_addr p]"
  show ?case
  proof (cases "length ?b = bs \<or> ps = []")
    case True
    have ch: "chunks bs (?b @ map pr_addr ps) = ?b # chunks bs (map pr_addr ps)"
      using True Cons.prems(1) by (subst chunks_step) auto
    show ?thesis
    proof (cases "ok (length reqs)")
      case False
      with True ch show ?thesis by (intro exI [of _ "1 :: nat"] exI [of _ "-1 :: int"]) (auto simp: Let_def)
    next
      case ok: True
      from Cons.prems(1) Cons.IH [of "[]" "moved + int (length ?b)" "reqs @ [(pid, ?b, node)]"]
      obtain k ret where "migrate_pages_loop bs ok pid node [] ps (moved + int (length ?b)) (reqs @ [(pid, ?b, node)]) =
          (ret, (reqs @ [(pid, ?b, node)]) @ map (\<lambda>b. (pid, b, node)) (take k (chunks bs (map pr_addr ps))))"
        "ret = -1 \<or> ret = moved + int (length ?b) + int (length ps) \<and> length (chunks bs (map pr_addr ps)) \<le> k"
        by auto
      with True ok ch show ?thesis by (intro exI [of _ "Suc k"] exI [of _ ret]) (auto simp: Let_def)
    qed
  next
    case False
    with Cons.IH [of ?b moved reqs] Cons.prems(1) show ?thesis by (simp add: Let_def)
  qed
qed

text \<open>The requests for one list of pages: a prefix of its batches, all of them unless a call or an
  allocation fails.\<close>

lemma do_migrate_pages_batches:
  "\<exists>k ret al'. do_migrate_pages ok pid ps node reqs al =
      (ret, reqs @ map (\<lambda>b. (pid, b, node)) (take k (chunks BATCHSIZE (map pr_addr ps))), al') \<and>
    (ret = -1 \<or> ret = int (length ps) \<and> length (chunks BATCHSIZE (map pr_addr ps)) \<le> k)"
proof (cases "ps = []")
  case False
  obtain k ret where "migrate_pages_loop BATCHSIZE ok pid node [] ps 0 reqs =
      (ret, reqs @ map (\<lambda>b. (pid, b, node)) (take k (chunks BATCHSIZE (map pr_addr ps))))"
    "ret = -1 \<or> ret = int (length ps) \<and> length (chunks BATCHSIZE (map pr_addr ps)) \<le> k"
    using migrate_pages_loop_batches [of "[]" BATCHSIZE ps ok pid node 0 reqs] by auto
  moreover have "\<exists>k. reqs = reqs @ map (\<lambda>b. (pid, b, node)) (take k (chunks BATCHSIZE (map pr_addr ps)))"
    by (rule exI [of _ 0]) simp
  ultimately show ?thesis
    using False by (auto simp: do_migrate_pages_def split: prod.splits bool.splits)
qed (simp add: do_migrate_pages_def)

definition grade_requests :: "u32 \<Rightarrow> 'd memory_grade \<Rightarrow> int \<Rightarrow> int \<Rightarrow> move_request list" where
  "grade_requests pid grade hot_node cold_node =
     map (\<lambda>b. (pid, b, cold_node)) (chunks BATCHSIZE (map pr_addr (cold_pages grade))) @
     map (\<lambda>b. (pid, b, hot_node)) (chunks BATCHSIZE (map pr_addr (hot_pages grade)))"

lemma migrate_single_task_requests:
  "\<exists>k ret al'. migrate_single_task ok pid grade h c reqs al =
      (ret, reqs @ take k (grade_requests pid grade h c), al') \<and>
    (ret = -1 \<or> ret = 0 \<and> length (grade_requests pid grade h c) \<le> k)"
proof -
  let ?C = "map (\<lambda>b. (pid, b, c)) (chunks BATCHSIZE (map pr_addr (cold_pages grade)))"
  obtain k1 r1 al1 where c: "do_migrate_pages ok pid (cold_pages grade) c reqs al = (r1, reqs @ take k1 ?C, al1)"
    "r1 = -1 \<or> r1 = int (length (cold_pages grade)) \<and> length ?C \<le> k1"
    using do_migrate_pages_batches [of ok pid "cold_pages grade" c reqs al] by (auto simp: take_map)
  obtain k2 r2 al2 where h: "do_migrate_pages ok pid (hot_pages grade) h (reqs @ take k1 ?C) al1 =
      (r2, (reqs @ take k1 ?C) @ map (\<lambda>b. (pid, b, h)) (take k2 (chunks BATCHSIZE (map pr_addr (hot_pages grade)))), al2)"
    "r2 = -1 \<or> r2 = int (length (hot_pages grade)) \<and> length (chunks BATCHSIZE (map pr_addr (hot_pages grade))) \<le> k2"
    using do_migrate_pages_batches [of ok pid "hot_pages grade" h "reqs @ take k1 ?C" al1] by blast
  show ?thesis
  proof (cases "r1 = -1")
    case True
    with c(1) show ?thesis
      by (intro exI [of _ "min k1 (length ?C)"]) (auto simp: migrate_single_task_def grade_requests_def min_def)
  next
    case False
    with c h show ?thesis
      by (intro exI [of _ "length ?C + k2"])
        (auto simp: migrate_single_task_def grade_requests_def take_map)
  qed
qed

section \<open>Properties\<close>

text \<open>Sorting pages. When the kernel reports a node for every page, the pages of all areas of a
  process end, in their order, in the list of their access count and their node; pages on a node that
  does not exist are dropped. The batches of 65536 addresses are not visible in the result, and no
  area keeps pages.\<close>

theorem cslide_pages_sorted:
  assumes "cp_vmas p = Some w" "cp_vma_pf p = Some vpf" "rect N (cp_cpfs p)"
    and "\<forall>q\<in>set (concat (map snd vpf)). page_ok gps M q" "counts_ok (cp_cpfs p) (concat (map snd vpf))"
  shows "\<exists>p'. cslide_count_node_pfs gps (\<lambda>as. Some (map nd as)) p [] = Inr (0, p', []) \<and>
    (\<forall>c < length (cp_cpfs p). \<forall>n < N. np_pages (cp_cpfs p' ! c ! n) = np_pages (cp_cpfs p ! c ! n) @
       filter (\<lambda>q. pr_count q = int c \<and> nd (pr_addr q) = int n) (concat (map snd vpf))) \<and>
    cp_vma_pf p' = Some (map (\<lambda>v. (fst v, [])) vpf)"
  using assms by (auto simp: count_node_pfs_eq rect_nth add_pages_def)

text \<open>Two huge pages of a process, on two nodes.\<close>

definition huge_page :: "u64 \<Rightarrow> int \<Rightarrow> int page_refs" where
  "huge_page a c = \<lparr>pr_addr = a, pr_count = c, pr_type = PMD_TYPE, pr_possibility = 0, pr_m = 0,
     pr_avg = 0, pr_std = 0, pr_last_time = 0\<rparr>"

definition huge_vma :: vma where
  "huge_vma = zero_vma\<lparr>vm_start := 0x200000, vm_end := 0x600000\<rparr>"

definition huge_process :: "int page_refs list \<Rightarrow> int cslide_pid_params" where
  "huge_process ps = \<lparr>cp_state = STATE_WORKING, cp_count = 3,
     cp_cpfs = replicate 4 (replicate 2 init_node_page_refs),
     cp_grade = [\<lparr>hot_pages = [], cold_pages = []\<rparr>], cp_info = replicate 2 \<lparr>ni_hot = 0, ni_cold = 0\<rparr>,
     cp_vmas = Some \<lparr>vma_cnt = 1, vma_list = [huge_vma]\<rparr>, cp_vma_pf = Some [(huge_vma, ps)],
     cp_pid = 42, cp_task = \<lparr>ct_anon_only = False, ct_vmflags = [''ht''], ct_scan_flags = 0\<rparr>\<rparr>"

lemma huge_page_psize [simp]: "psize std_page_size (huge_page a c) = 2097152"
  by (simp add: psize_def huge_page_def page_type_to_size_def std_page_size_def)

lemma huge_page_ok [simp]: "page_ok std_page_size 2097152 (huge_page a c)"
  by (simp add: page_ok_def) (simp add: huge_page_def page_type_to_size_def std_page_size_def)

lemma huge_page_count: "pr_count (huge_page a c) = c"
  by (simp add: huge_page_def)

lemma cslide_pages_sorted_witness:
  "\<exists>p'. cslide_count_node_pfs std_page_size (\<lambda>as. Some (map (\<lambda>a. if a < 0x400000 then 0 else 1) as))
      (huge_process [huge_page 0x200000 0, huge_page 0x400000 3]) [] = Inr (0, p', []) \<and>
    np_pages (cp_cpfs p' ! 0 ! 0) = [huge_page 0x200000 0] \<and>
    np_pages (cp_cpfs p' ! 3 ! 1) = [huge_page 0x400000 3]"
proof -
  let ?ps = "[huge_page 0x200000 0, huge_page 0x400000 3]"
  let ?nd = "\<lambda>a :: u64. if a < 0x400000 then 0 else 1 :: int"
  have "\<exists>p'. cslide_count_node_pfs std_page_size (\<lambda>as. Some (map ?nd as)) (huge_process ?ps) [] = Inr (0, p', []) \<and>
      (\<forall>c < length (cp_cpfs (huge_process ?ps)). \<forall>n < 2.
        np_pages (cp_cpfs p' ! c ! n) = np_pages (cp_cpfs (huge_process ?ps) ! c ! n) @
          filter (\<lambda>q. pr_count q = int c \<and> ?nd (pr_addr q) = int n) (concat (map snd [(huge_vma, ?ps)]))) \<and>
      cp_vma_pf p' = Some (map (\<lambda>v. (fst v, [])) [(huge_vma, ?ps)])"
    by (rule cslide_pages_sorted [where M = 2097152])
      (auto simp: huge_process_def rect_def counts_ok_def huge_page_count)
  then obtain p' where r: "cslide_count_node_pfs std_page_size (\<lambda>as. Some (map ?nd as)) (huge_process ?ps) [] = Inr (0, p', [])"
    and s: "\<And>c n. c < 4 \<Longrightarrow> n < 2 \<Longrightarrow> np_pages (cp_cpfs p' ! c ! n) =
      filter (\<lambda>q. pr_count q = int c \<and> ?nd (pr_addr q) = int n) ?ps"
    by (auto simp: huge_process_def init_node_page_refs_def)
  show ?thesis using r s [of 0 0] s [of 3 1] by (intro exI [of _ p']) (simp add: huge_page_def)
qed

end
