(* ===== verification/Cslide_Flow.thy ===== *)
theory Cslide_Flow
  imports Cslide_Pages
begin

text \<open>
  The policy of the cslide engine (\<open>etmemd_cslide.c\<close>): nodes are configured in pairs of a hot and a
  cold node; per pair the flow control computes how many bytes may move (hot pages to the hot node,
  further pages prefetched into what is left free, cold pages back to the cold node), and
  \<open>do_filter\<close> takes pages from the lists of the processes until the amounts are used up.

  The three stages differ in the counters they use. What they share is the locale \<open>flow_stage\<close>,
  interpreted for each of them.
\<close>

section \<open>Memory of the nodes\<close>

record node_mem =
  nm_huge_total :: int
  nm_huge_free :: int

text \<open>\<open>strtoull\<close> with base 0.\<close>

definition c_strtoull0 :: "string \<Rightarrow> u64" where
  "c_strtoull0 s =
     (let t = dropWhile c_isspace s;
          u = (case t of c # r \<Rightarrow> if c = CHR ''-'' \<or> c = CHR ''+'' then r else t | [] \<Rightarrow> t);
          base = (if skip_prefix 16 u \<noteq> u then 16 else if take 1 u = ''0'' then 8 else 10)
      in fst (c_strtoul s base))"

text \<open>The file is None when it cannot be opened; \<open>getline\<close> fails on an empty one.\<close>

definition read_hugepage_num :: "string option \<Rightarrow> int" where
  "read_hugepage_num file =
     (case file of
        None \<Rightarrow> -1
      | Some s \<Rightarrow> if s = [] then -1
                  else cast_int (uint (c_strtoull0 (takeWhile (\<lambda>c. c \<noteq> c_newline) s))))"

text \<open>The path always fits into \<open>PATH_MAX\<close> bytes.\<close>

definition get_single_huge_mem :: "(string \<Rightarrow> string option) \<Rightarrow> nat \<Rightarrow> nat \<Rightarrow> string \<Rightarrow> int" where
  "get_single_huge_mem files node huge_size huge_state =
     (let path = ''/sys/devices/system/node/node'' @ nat_to_base 10 node @ ''/hugepages/hugepages-'' @
                 nat_to_base 10 huge_size @ ''kB/'' @ huge_state @ ''_hugepages'';
          nr = read_hugepage_num (files path)
      in if nr < 0 then -1 else nr * int huge_size * 1024)"

definition get_node_huge_total :: "(string \<Rightarrow> string option) \<Rightarrow> nat \<Rightarrow> string \<Rightarrow> int" where
  "get_node_huge_total files node huge_state =
     (let size_2m = get_single_huge_mem files node 2048 huge_state in if size_2m < 0 then -1 else size_2m)"

definition get_node_huge_mem :: "(string \<Rightarrow> string option) \<Rightarrow> nat \<Rightarrow> node_mem \<Rightarrow> int \<times> node_mem" where
  "get_node_huge_mem files node mem =
     (let total = get_node_huge_total files node ''nr''; mem1 = mem\<lparr>nm_huge_total := total\<rparr> in
      if total \<le> 0 then (-1, mem1)
      else
        let free = get_node_huge_total files node ''free''; mem2 = mem1\<lparr>nm_huge_free := free\<rparr> in
        if free < 0 then (-1, mem2) else (0, mem2))"

definition get_node_mem :: "(string \<Rightarrow> string option) \<Rightarrow> nat \<Rightarrow> node_mem \<Rightarrow> int \<times> node_mem" where
  "get_node_mem files node mem =
     (case get_node_huge_mem files node mem of (ret, mem') \<Rightarrow> if ret \<noteq> 0 then (-1, mem') else (0, mem'))"

fun get_sys_mem :: "(string \<Rightarrow> string option) \<Rightarrow> nat \<Rightarrow> node_mem list \<Rightarrow> int \<times> node_mem list" where
  "get_sys_mem files i [] = (0, [])"
| "get_sys_mem files i (mem # mems) =
     (case get_node_mem files i mem of
        (ret, mem') \<Rightarrow>
          if ret \<noteq> 0 then (-1, mem' # mems)
          else case get_sys_mem files (Suc i) mems of (ret', mems') \<Rightarrow> (ret', mem' # mems'))"

section \<open>Pairs of nodes\<close>

record node_pair =
  nd_index :: nat
  nd_hot :: int
  nd_cold :: int

text \<open>\<open>nm_pairs\<close> is the part of the array in use, \<open>cur_num\<close> its length.\<close>

record node_map =
  nm_pairs :: "node_pair list"
  nm_total_num :: nat

definition init_node_map :: "nat \<Rightarrow> alloc \<Rightarrow> node_map option \<times> alloc" where
  "init_node_map node_num al =
     (if node_num mod 2 \<noteq> 0 then (None, al)
      else case c_alloc al of
        (False, al') \<Rightarrow> (None, al')
      | (True, al') \<Rightarrow> (Some \<lparr>nm_pairs = [], nm_total_num = node_num div 2\<rparr>, al'))"

definition add_node_pair :: "node_map \<Rightarrow> int \<Rightarrow> int \<Rightarrow> int \<times> node_map" where
  "add_node_pair nmap cold_node hot_node =
     (if length (nm_pairs nmap) = nm_total_num nmap then (-1, nmap)
      else (0, nmap\<lparr>nm_pairs := nm_pairs nmap @
              [\<lparr>nd_index = length (nm_pairs nmap), nd_hot = hot_node, nd_cold = cold_node\<rparr>]\<rparr>))"

text \<open>\<open>struct node_verifier\<close> is the array \<open>nodes_map_count\<close>.\<close>

definition is_node_valid :: "int list \<Rightarrow> int \<Rightarrow> bool \<times> int list" where
  "is_node_valid nv node =
     (if node < 0 \<or> node \<ge> int (length nv) then (False, nv)
      else if nv ! nat node \<noteq> 0 then (False, nv)
      else (True, nv[nat node := nv ! nat node + 1]))"

definition has_node_unmap :: "int list \<Rightarrow> bool" where
  "has_node_unmap nv \<longleftrightarrow> (\<exists>c\<in>set nv. c = 0)"

text \<open>The loop of \<open>fill_node_pair\<close> over the tokens; the label \<open>err\<close> is the result \<open>-1\<close>.\<close>

fun fill_pairs :: "string list \<Rightarrow> int list \<Rightarrow> node_map \<Rightarrow> int \<times> int list \<times> node_map" where
  "fill_pairs [] nv nmap = (0, nv, nmap)"
| "fill_pairs (pair # pairs) nv nmap =
     (case strtok_n 2 '' ,'' pair of
        hot_node_str # cold_node_str # _ \<Rightarrow>
          (case get_int_value hot_node_str of
             None \<Rightarrow> (-1, nv, nmap)
           | Some hot_node \<Rightarrow>
               (case get_int_value cold_node_str of
                  None \<Rightarrow> (-1, nv, nmap)
                | Some cold_node \<Rightarrow>
                    (case is_node_valid nv hot_node of
                       (False, nv1) \<Rightarrow> (-1, nv1, nmap)
                     | (True, nv1) \<Rightarrow>
                         (case is_node_valid nv1 cold_node of
                            (False, nv2) \<Rightarrow> (-1, nv2, nmap)
                          | (True, nv2) \<Rightarrow>
                              (case add_node_pair nmap cold_node hot_node of
                                 (ret, nmap') \<Rightarrow>
                                   if ret \<noteq> 0 then (-1, nv2, nmap') else fill_pairs pairs nv2 nmap')))))
      | _ \<Rightarrow> (-1, nv, nmap))"

text \<open>A token has a character, so that a string has at most as many tokens as characters.\<close>

definition fill_pairs_of :: "nat \<Rightarrow> string \<Rightarrow> node_map \<Rightarrow> alloc \<Rightarrow> (int \<times> node_map) \<times> alloc" where
  "fill_pairs_of node_num str nmap al =
     (case c_alloc al of
        (False, al') \<Rightarrow> ((-1, nmap), al')
      | (True, al') \<Rightarrow>
          (case fill_pairs (strtok_n (length str) '' ;'' str) (replicate node_num 0) nmap of
             (ret, nv, nmap') \<Rightarrow>
               ((if ret \<noteq> 0 then -1 else if has_node_unmap nv then -1 else 0, nmap'), al')))"

section \<open>Flow control\<close>

record ctrl_cap =
  cc_cap :: int
  cc_used :: int

record node_ctrl =
  nc_hot_move_cap :: ctrl_cap
  nc_hot_prefetch_cap :: ctrl_cap
  nc_cold_move_cap :: ctrl_cap
  nc_cold_replaced :: int
  nc_cold_free :: int
  nc_free :: int
  nc_cold :: int
  nc_total :: int
  nc_quota :: int
  nc_reserve :: int

text \<open>\<open>pair_num\<close> is the length of \<open>fl_node_ctrl\<close>.\<close>

record flow_ctrl =
  fl_node_ctrl :: "node_ctrl list"
  fl_hot_enough :: int
  fl_prefetch_enough :: int
  fl_cold_enough :: int

definition cap_avail :: "ctrl_cap \<Rightarrow> bool" where
  "cap_avail cap \<longleftrightarrow> cc_used cap < cc_cap cap"

text \<open>Whether the amount is still available, the amount granted, and the new counter.\<close>

definition cap_cost :: "ctrl_cap \<Rightarrow> int \<Rightarrow> bool \<times> int \<times> ctrl_cap" where
  "cap_cost cap cost =
     (if cost < cc_cap cap - cc_used cap then (True, cost, cap\<lparr>cc_used := cc_used cap + cost\<rparr>)
      else (False, cc_cap cap - cc_used cap, cap\<lparr>cc_used := cc_cap cap\<rparr>))"

definition node_cal_hot_can_move :: "node_ctrl \<Rightarrow> bool \<times> node_ctrl" where
  "node_cal_hot_can_move nc =
     (let can_move =
            (if nc_quota nc < nc_free nc then nc_quota nc
             else
               let c = nc_free nc + (nc_quota nc - nc_free nc) div 2 in
               if c > nc_free nc + nc_cold_free nc then nc_free nc + nc_cold_free nc else c);
          can_move' = (if can_move > nc_cold nc + nc_free nc then nc_cold nc + nc_free nc else can_move)
      in (can_move' > 0, nc\<lparr>nc_hot_move_cap := (nc_hot_move_cap nc)\<lparr>cc_cap := can_move'\<rparr>\<rparr>))"

definition node_update_hot_move :: "node_ctrl \<Rightarrow> node_ctrl" where
  "node_update_hot_move nc =
     (let hot_move = cc_used (nc_hot_move_cap nc) in
      if hot_move > nc_free nc then
        nc\<lparr>nc_cold_replaced := nc_cold_replaced nc + (hot_move - nc_free nc),
           nc_quota := nc_quota nc - (nc_free nc + (hot_move - nc_free nc) * 2),
           nc_cold_free := nc_cold_free nc + nc_free nc,
           nc_free := 0\<rparr>
      else
        nc\<lparr>nc_free := nc_free nc - hot_move, nc_quota := nc_quota nc - hot_move,
           nc_cold_free := nc_cold_free nc + hot_move\<rparr>)"

definition node_cal_hot_can_prefetch :: "node_ctrl \<Rightarrow> bool \<times> node_ctrl" where
  "node_cal_hot_can_prefetch nc =
     (let can_prefetch =
            (if nc_free nc \<le> nc_reserve nc then 0
             else let c = nc_free nc - nc_reserve nc in if c > nc_quota nc then nc_quota nc else c)
      in (can_prefetch > 0, nc\<lparr>nc_hot_prefetch_cap := (nc_hot_prefetch_cap nc)\<lparr>cc_cap := can_prefetch\<rparr>\<rparr>))"

definition node_update_hot_prefetch :: "node_ctrl \<Rightarrow> node_ctrl" where
  "node_update_hot_prefetch nc =
     (let hot_prefetch = cc_used (nc_hot_prefetch_cap nc) in
      nc\<lparr>nc_free := nc_free nc - hot_prefetch, nc_quota := nc_quota nc - hot_prefetch,
         nc_cold_free := nc_cold_free nc + hot_prefetch\<rparr>)"

definition node_cal_cold_can_move :: "node_ctrl \<Rightarrow> bool \<times> node_ctrl" where
  "node_cal_cold_can_move nc =
     (let c1 = (if nc_quota nc < nc_reserve nc - nc_free nc then nc_quota nc else nc_reserve nc - nc_free nc);
          c2 = (if c1 > nc_cold_free nc then nc_cold_free nc else c1);
          c3 = (if c2 < 0 then 0 else c2);
          cap = c3 + nc_cold_replaced nc
      in (cap > 0, nc\<lparr>nc_cold_move_cap := (nc_cold_move_cap nc)\<lparr>cc_cap := cap\<rparr>\<rparr>))"

text \<open>The three stages. A stage first computes the amounts of all pairs (\<open>flow_cal\<close>) and counts the
  pairs that can move nothing; a move asks the counter of one pair.\<close>

definition count_failed :: "(bool \<times> node_ctrl) list \<Rightarrow> int" where
  "count_failed rs = int (length (filter (\<lambda>r. \<not> fst r) rs))"

definition flow_cal_hot_can_move :: "flow_ctrl \<Rightarrow> flow_ctrl" where
  "flow_cal_hot_can_move ctrl =
     (let rs = map node_cal_hot_can_move (fl_node_ctrl ctrl) in
      ctrl\<lparr>fl_node_ctrl := map snd rs, fl_hot_enough := fl_hot_enough ctrl + count_failed rs\<rparr>)"

definition is_hot_enough :: "flow_ctrl \<Rightarrow> bool" where
  "is_hot_enough ctrl \<longleftrightarrow> fl_hot_enough ctrl = int (length (fl_node_ctrl ctrl))"

definition ctrl_hot_move :: "flow_ctrl \<Rightarrow> int \<Rightarrow> nat \<Rightarrow> (int \<times> flow_ctrl) c_res" where
  "ctrl_hot_move ctrl target node =
     c_bind (c_nth (fl_node_ctrl ctrl) (int node)) (\<lambda>nc.
       if \<not> cap_avail (nc_hot_move_cap nc) then Inr (0, ctrl)
       else case cap_cost (nc_hot_move_cap nc) target of
         (ok, target', cap) \<Rightarrow>
           Inr (target', ctrl\<lparr>fl_node_ctrl := (fl_node_ctrl ctrl)[node := nc\<lparr>nc_hot_move_cap := cap\<rparr>],
                             fl_hot_enough := fl_hot_enough ctrl + (if ok then 0 else 1)\<rparr>))"

definition flow_cal_hot_can_prefetch :: "flow_ctrl \<Rightarrow> flow_ctrl" where
  "flow_cal_hot_can_prefetch ctrl =
     (let rs = map (node_cal_hot_can_prefetch \<circ> node_update_hot_move) (fl_node_ctrl ctrl) in
      ctrl\<lparr>fl_node_ctrl := map snd rs, fl_prefetch_enough := fl_prefetch_enough ctrl + count_failed rs\<rparr>)"

definition is_prefetch_enough :: "flow_ctrl \<Rightarrow> bool" where
  "is_prefetch_enough ctrl \<longleftrightarrow> fl_prefetch_enough ctrl = int (length (fl_node_ctrl ctrl))"

definition ctrl_prefetch_hot :: "flow_ctrl \<Rightarrow> int \<Rightarrow> nat \<Rightarrow> (int \<times> flow_ctrl) c_res" where
  "ctrl_prefetch_hot ctrl target node =
     c_bind (c_nth (fl_node_ctrl ctrl) (int node)) (\<lambda>nc.
       if \<not> cap_avail (nc_hot_prefetch_cap nc) then Inr (0, ctrl)
       else case cap_cost (nc_hot_prefetch_cap nc) target of
         (ok, target', cap) \<Rightarrow>
           Inr (target', ctrl\<lparr>fl_node_ctrl := (fl_node_ctrl ctrl)[node := nc\<lparr>nc_hot_prefetch_cap := cap\<rparr>],
                             fl_prefetch_enough := fl_prefetch_enough ctrl + (if ok then 0 else 1)\<rparr>))"

definition flow_cal_cold_can_move :: "flow_ctrl \<Rightarrow> flow_ctrl" where
  "flow_cal_cold_can_move ctrl =
     (let rs = map (node_cal_cold_can_move \<circ> node_update_hot_prefetch) (fl_node_ctrl ctrl) in
      ctrl\<lparr>fl_node_ctrl := map snd rs, fl_cold_enough := fl_cold_enough ctrl + count_failed rs\<rparr>)"

definition is_cold_enough :: "flow_ctrl \<Rightarrow> bool" where
  "is_cold_enough ctrl \<longleftrightarrow> fl_cold_enough ctrl = int (length (fl_node_ctrl ctrl))"

definition ctrl_cold_move :: "flow_ctrl \<Rightarrow> int \<Rightarrow> nat \<Rightarrow> (int \<times> flow_ctrl) c_res" where
  "ctrl_cold_move ctrl target node =
     c_bind (c_nth (fl_node_ctrl ctrl) (int node)) (\<lambda>nc.
       if \<not> cap_avail (nc_cold_move_cap nc) then Inr (0, ctrl)
       else case cap_cost (nc_cold_move_cap nc) target of
         (ok, target', cap) \<Rightarrow>
           Inr (target', ctrl\<lparr>fl_node_ctrl := (fl_node_ctrl ctrl)[node := nc\<lparr>nc_cold_move_cap := cap\<rparr>],
                             fl_cold_enough := fl_cold_enough ctrl + (if ok then 0 else 1)\<rparr>))"

section \<open>The engine\<close>

abbreviation (input) MAX_ACCESS_WEIGHT :: int where "MAX_ACCESS_WEIGHT \<equiv> 3"
abbreviation (input) HUGE_1M_SIZE :: int where "HUGE_1M_SIZE \<equiv> 1048576"

text \<open>The parameters of the engine except the factory, which is passed as the list behind
  \<open>working_head\<close>.\<close>

record cslide_eng_params =
  ce_mem :: "node_mem list"
  ce_node_map :: node_map
  ce_hot_threshold :: int
  ce_hot_reserve :: int
  ce_mig_quota :: int
  ce_loop :: int
  ce_interval :: int
  ce_sleep :: int
  ce_host_pages_info :: "node_pages_info list"
  ce_finish :: bool

definition new_node_ctrl :: "cslide_eng_params \<Rightarrow> node_pair \<Rightarrow> node_ctrl c_res" where
  "new_node_ctrl eng pair =
     c_bind (c_nth (ce_mem eng) (nd_cold pair)) (\<lambda>cold_mem.
     c_bind (c_nth (ce_mem eng) (nd_hot pair)) (\<lambda>hot_mem.
     c_bind (c_nth (ce_host_pages_info eng) (nd_hot pair)) (\<lambda>info.
       Inr \<lparr>nc_hot_move_cap = \<lparr>cc_cap = 0, cc_used = 0\<rparr>, nc_hot_prefetch_cap = \<lparr>cc_cap = 0, cc_used = 0\<rparr>,
            nc_cold_move_cap = \<lparr>cc_cap = 0, cc_used = 0\<rparr>, nc_cold_replaced = 0,
            nc_cold_free = nm_huge_free cold_mem, nc_free = nm_huge_free hot_mem,
            nc_cold = uint (ni_cold info) * 1024, nc_total = nm_huge_total hot_mem,
            nc_quota = ce_mig_quota eng * HUGE_1M_SIZE, nc_reserve = ce_hot_reserve eng * HUGE_1M_SIZE\<rparr>)))"

definition init_flow_ctrl :: "cslide_eng_params \<Rightarrow> alloc \<Rightarrow> (flow_ctrl option \<times> alloc) c_res" where
  "init_flow_ctrl eng al =
     (case c_alloc al of
        (False, al') \<Rightarrow> Inr (None, al')
      | (True, al') \<Rightarrow>
          c_bind (c_map (new_node_ctrl eng) (nm_pairs (ce_node_map eng))) (\<lambda>ncs.
            Inr (Some \<lparr>fl_node_ctrl = ncs, fl_hot_enough = 0, fl_prefetch_enough = 0, fl_cold_enough = 0\<rparr>, al')))"

section \<open>Filtering\<close>

type_synonym flow_move = "flow_ctrl \<Rightarrow> int \<Rightarrow> nat \<Rightarrow> (int \<times> flow_ctrl) c_res"

type_synonym 'd filter_policy =
  "flow_move \<Rightarrow> u64 list \<Rightarrow> flow_ctrl \<Rightarrow> node_pair \<Rightarrow> 'd count_page_refs \<Rightarrow> 'd memory_grade \<Rightarrow>
   (flow_ctrl \<times> 'd count_page_refs \<times> 'd memory_grade) c_res"

definition to_hot_policy :: "'d filter_policy" where
  "to_hot_policy mv gps ctrl pair cpf grade =
     c_bind (c_nth cpf (nd_cold pair)) (\<lambda>npf.
     c_bind (mv ctrl (np_size npf) (nd_index pair)) (\<lambda>(can_move, ctrl').
     c_bind (move_npf_to_list gps npf (hot_pages grade) can_move) (\<lambda>(npf', lst).
       Inr (ctrl', cpf[nat (nd_cold pair) := npf'], grade\<lparr>hot_pages := lst\<rparr>))))"

definition to_cold_policy :: "'d filter_policy" where
  "to_cold_policy mv gps ctrl pair cpf grade =
     c_bind (c_nth cpf (nd_hot pair)) (\<lambda>npf.
     c_bind (mv ctrl (np_size npf) (nd_index pair)) (\<lambda>(can_move, ctrl').
     c_bind (move_npf_to_list gps npf (cold_pages grade) can_move) (\<lambda>(npf', lst).
       Inr (ctrl', cpf[nat (nd_hot pair) := npf'], grade\<lparr>cold_pages := lst\<rparr>))))"

record 'd page_filter =
  flow_cal_func :: "flow_ctrl \<Rightarrow> flow_ctrl"
  flow_move_func :: flow_move
  flow_enough :: "flow_ctrl \<Rightarrow> bool"
  filter_policy :: "'d filter_policy"
  count_start :: int
  count_end :: int
  count_step :: int

text \<open>The three loops of \<open>do_filter\<close>; the flag tells that \<open>flow_enough\<close> ended the function.\<close>

fun filter_pairs ::
  "'d page_filter \<Rightarrow> u64 list \<Rightarrow> int \<Rightarrow> nat \<Rightarrow> node_pair list \<Rightarrow> flow_ctrl \<Rightarrow> 'd cslide_pid_params \<Rightarrow>
   (bool \<times> flow_ctrl \<times> 'd cslide_pid_params) c_res" where
  "filter_pairs fl gps i j [] ctrl p = Inr (False, ctrl, p)"
| "filter_pairs fl gps i j (pair # pairs) ctrl p =
     c_bind (c_nth (cp_cpfs p) i) (\<lambda>cpf.
     c_bind (c_nth (cp_grade p) (int j)) (\<lambda>grade.
     c_bind (filter_policy fl (flow_move_func fl) gps ctrl pair cpf grade) (\<lambda>(ctrl', cpf', grade').
       let p' = p\<lparr>cp_cpfs := (cp_cpfs p)[nat i := cpf'], cp_grade := (cp_grade p)[j := grade']\<rparr> in
       if flow_enough fl ctrl' then Inr (True, ctrl', p')
       else filter_pairs fl gps i (Suc j) pairs ctrl' p')))"

fun filter_pids ::
  "'d page_filter \<Rightarrow> u64 list \<Rightarrow> node_pair list \<Rightarrow> int \<Rightarrow> flow_ctrl \<Rightarrow> 'd cslide_pid_params list \<Rightarrow>
   (bool \<times> flow_ctrl \<times> 'd cslide_pid_params list) c_res" where
  "filter_pids fl gps pairs i ctrl [] = Inr (False, ctrl, [])"
| "filter_pids fl gps pairs i ctrl (p # ps) =
     c_bind (if cp_state p = STATE_WORKING then filter_pairs fl gps i 0 pairs ctrl p else Inr (False, ctrl, p))
       (\<lambda>(stop, ctrl', p').
          if stop then Inr (True, ctrl', p' # ps)
          else c_bind (filter_pids fl gps pairs i ctrl' ps) (\<lambda>(stop', ctrl'', ps').
                 Inr (stop', ctrl'', p' # ps')))"

fun filter_counts ::
  "'d page_filter \<Rightarrow> u64 list \<Rightarrow> node_pair list \<Rightarrow> int list \<Rightarrow> flow_ctrl \<Rightarrow> 'd cslide_pid_params list \<Rightarrow>
   (flow_ctrl \<times> 'd cslide_pid_params list) c_res" where
  "filter_counts fl gps pairs [] ctrl ps = Inr (ctrl, ps)"
| "filter_counts fl gps pairs (i # is) ctrl ps =
     c_bind (filter_pids fl gps pairs i ctrl ps) (\<lambda>(stop, ctrl', ps').
       if stop then Inr (ctrl', ps') else filter_counts fl gps pairs is ctrl' ps')"

text \<open>The values of \<open>i\<close> in \<open>for (i = start; i != end; i += step)\<close> for a step of 1 or -1; None when
  the loop runs past its end.\<close>

definition count_range :: "int \<Rightarrow> int \<Rightarrow> int \<Rightarrow> int list option" where
  "count_range start stop step =
     (if step = 1 \<and> start \<le> stop then Some [start..stop - 1]
      else if step = -1 \<and> stop \<le> start then Some (rev [stop + 1..start])
      else None)"

definition do_filter ::
  "'d page_filter \<Rightarrow> u64 list \<Rightarrow> node_pair list \<Rightarrow> flow_ctrl \<Rightarrow> 'd cslide_pid_params list \<Rightarrow>
   (flow_ctrl \<times> 'd cslide_pid_params list) c_res" where
  "do_filter fl gps pairs ctrl ps =
     (let ctrl' = flow_cal_func fl ctrl in
      if flow_enough fl ctrl' then Inr (ctrl', ps)
      else case count_range (count_start fl) (count_end fl) (count_step fl) of
        None \<Rightarrow> Inl Diverges
      | Some is \<Rightarrow> filter_counts fl gps pairs is ctrl' ps)"

definition move_hot_pages ::
  "u64 list \<Rightarrow> cslide_eng_params \<Rightarrow> flow_ctrl \<Rightarrow> 'd cslide_pid_params list \<Rightarrow> (flow_ctrl \<times> 'd cslide_pid_params list) c_res" where
  "move_hot_pages gps eng ctrl ps =
     do_filter \<lparr>flow_cal_func = flow_cal_hot_can_move, flow_move_func = ctrl_hot_move,
                flow_enough = is_hot_enough, filter_policy = to_hot_policy,
                count_start = ce_loop eng * MAX_ACCESS_WEIGHT, count_end = ce_hot_threshold eng - 1,
                count_step = -1\<rparr> gps (nm_pairs (ce_node_map eng)) ctrl ps"

definition prefetch_hot_pages ::
  "u64 list \<Rightarrow> cslide_eng_params \<Rightarrow> flow_ctrl \<Rightarrow> 'd cslide_pid_params list \<Rightarrow> (flow_ctrl \<times> 'd cslide_pid_params list) c_res" where
  "prefetch_hot_pages gps eng ctrl ps =
     do_filter \<lparr>flow_cal_func = flow_cal_hot_can_prefetch, flow_move_func = ctrl_prefetch_hot,
                flow_enough = is_prefetch_enough, filter_policy = to_hot_policy,
                count_start = ce_hot_threshold eng - 1, count_end = -1,
                count_step = -1\<rparr> gps (nm_pairs (ce_node_map eng)) ctrl ps"

definition move_cold_pages ::
  "u64 list \<Rightarrow> cslide_eng_params \<Rightarrow> flow_ctrl \<Rightarrow> 'd cslide_pid_params list \<Rightarrow> (flow_ctrl \<times> 'd cslide_pid_params list) c_res" where
  "move_cold_pages gps eng ctrl ps =
     do_filter \<lparr>flow_cal_func = flow_cal_cold_can_move, flow_move_func = ctrl_cold_move,
                flow_enough = is_cold_enough, filter_policy = to_cold_policy,
                count_start = 0, count_end = ce_hot_threshold eng,
                count_step = 1\<rparr> gps (nm_pairs (ce_node_map eng)) ctrl ps"

definition cslide_filter_pfs ::
  "u64 list \<Rightarrow> cslide_eng_params \<Rightarrow> 'd cslide_pid_params list \<Rightarrow> alloc \<Rightarrow>
   (int \<times> 'd cslide_pid_params list \<times> alloc) c_res" where
  "cslide_filter_pfs gps eng ps al =
     c_bind (init_flow_ctrl eng al) (\<lambda>(c, al').
       case c of
         None \<Rightarrow> Inr (-1, ps, al')
       | Some ctrl \<Rightarrow>
           c_bind (move_hot_pages gps eng ctrl ps) (\<lambda>(ctrl1, ps1).
           c_bind (prefetch_hot_pages gps eng ctrl1 ps1) (\<lambda>(ctrl2, ps2).
           c_bind (move_cold_pages gps eng ctrl2 ps2) (\<lambda>(ctrl3, ps3).
             Inr (0, ps3, al')))))"

section \<open>Statistics and the policy\<close>

definition init_host_pages_info :: "nat \<Rightarrow> node_pages_info list" where
  "init_host_pages_info node_num = replicate node_num \<lparr>ni_hot = 0, ni_cold = 0\<rparr>"

fun stat_pids ::
  "int \<Rightarrow> 'd cslide_pid_params list \<Rightarrow> node_pages_info list \<Rightarrow> 'd cslide_pid_params list \<times> node_pages_info list" where
  "stat_pids t [] host = ([], host)"
| "stat_pids t (p # ps) host =
     (let (p', host') = (if cp_state p = STATE_WORKING then update_pages_info t p host else (p, host));
          (ps', host'') = stat_pids t ps host'
      in (p' # ps', host''))"

definition cslide_stat ::
  "cslide_eng_params \<Rightarrow> 'd cslide_pid_params list \<Rightarrow> cslide_eng_params \<times> 'd cslide_pid_params list" where
  "cslide_stat eng ps =
     (case stat_pids (ce_hot_threshold eng) ps (init_host_pages_info (length (ce_mem eng))) of
        (ps', host) \<Rightarrow> (eng\<lparr>ce_host_pages_info := host\<rparr>, ps'))"

text \<open>\<open>move_pages pid\<close> is the answer of the kernel for the pages of a process.\<close>

fun count_pids ::
  "u64 list \<Rightarrow> (u32 \<Rightarrow> u64 list \<Rightarrow> int list option) \<Rightarrow> 'd cslide_pid_params list \<Rightarrow> alloc \<Rightarrow>
   (int \<times> 'd cslide_pid_params list \<times> alloc) c_res" where
  "count_pids gps move_pages [] al = Inr (0, [], al)"
| "count_pids gps move_pages (p # ps) al =
     (if cp_state p = STATE_WORKING then
        c_bind (cslide_count_node_pfs gps (move_pages (cp_pid p)) p al) (\<lambda>(ret, p', al').
          if ret \<noteq> 0 then Inr (ret, p' # ps, al')
          else c_bind (count_pids gps move_pages ps al') (\<lambda>(ret', ps', al''). Inr (ret', p' # ps', al'')))
      else c_bind (count_pids gps move_pages ps al) (\<lambda>(ret', ps', al''). Inr (ret', p # ps', al'')))"

definition cslide_policy ::
  "u64 list \<Rightarrow> (u32 \<Rightarrow> u64 list \<Rightarrow> int list option) \<Rightarrow> cslide_eng_params \<Rightarrow> 'd cslide_pid_params list \<Rightarrow> alloc \<Rightarrow>
   (int \<times> cslide_eng_params \<times> 'd cslide_pid_params list \<times> alloc) c_res" where
  "cslide_policy gps move_pages eng ps al =
     c_bind (count_pids gps move_pages ps al) (\<lambda>(ret, ps1, al1).
       if ret \<noteq> 0 then Inr (ret, eng, ps1, al1)
       else case cslide_stat eng ps1 of
         (eng', ps2) \<Rightarrow>
           c_bind (cslide_filter_pfs gps eng' ps2 al1) (\<lambda>(ret', ps3, al2). Inr (ret', eng', ps3, al2)))"

end
