(* ===== verification/Cslide_Policy.thy ===== *)
theory Cslide_Policy
  imports Cslide_Flow
begin

text \<open>
  Correctness of the policy of the cslide engine. The locale \<open>flow_stage\<close> states what
  \<open>do_filter\<close> relies on of a stage: a counter per pair that grants at most what is left, and a
  number of exhausted pairs. Inside it the effect of \<open>do_filter\<close> is proved once; the three stages
  are its interpretations, and the properties add up their results per pair.
\<close>

section \<open>One pair of a process\<close>

text \<open>Where a stage takes pages from, and the list it puts them on: \<open>True\<close> for hot pages.\<close>

definition src_node :: "bool \<Rightarrow> node_pair \<Rightarrow> nat" where
  "src_node b pair = nat (if b then nd_cold pair else nd_hot pair)"

definition graded :: "bool \<Rightarrow> 'd memory_grade \<Rightarrow> 'd page_refs list" where
  "graded b g = (if b then hot_pages g else cold_pages g)"

definition set_graded :: "bool \<Rightarrow> 'd page_refs list \<Rightarrow> 'd memory_grade \<Rightarrow> 'd memory_grade" where
  "set_graded b l g = (if b then g\<lparr>hot_pages := l\<rparr> else g\<lparr>cold_pages := l\<rparr>)"

definition side_policy :: "bool \<Rightarrow> 'd filter_policy" where
  "side_policy b = (if b then to_hot_policy else to_cold_policy)"

definition pairs_ok :: "nat \<Rightarrow> node_pair list \<Rightarrow> bool" where
  "pairs_ok N pairs \<longleftrightarrow>
     (\<forall>j < length pairs. nd_index (pairs ! j) = j \<and> 0 \<le> nd_hot (pairs ! j) \<and> nd_hot (pairs ! j) < int N \<and>
        0 \<le> nd_cold (pairs ! j) \<and> nd_cold (pairs ! j) < int N) \<and>
     distinct (map nd_hot pairs @ map nd_cold pairs)"

lemma graded_set [simp]:
  "graded b (set_graded b l g) = l" "graded (\<not> b) (set_graded b l g) = graded (\<not> b) g"
  by (simp_all add: graded_def set_graded_def)

lemma src_node_less: "pairs_ok N pairs \<Longrightarrow> j < length pairs \<Longrightarrow> src_node b (pairs ! j) < N"
  by (auto simp: pairs_ok_def src_node_def)

lemma src_node_eq:
  assumes "pairs_ok N pairs" "j < length pairs" "k < length pairs"
  shows "src_node b (pairs ! j) = src_node c (pairs ! k) \<longleftrightarrow> b = c \<and> j = k"
proof -
  have "distinct (map nd_hot pairs)" "distinct (map nd_cold pairs)"
    "set (map nd_hot pairs) \<inter> set (map nd_cold pairs) = {}"
    using assms(1) by (auto simp: pairs_ok_def)
  then have "nd_hot (pairs ! j) = nd_hot (pairs ! k) \<longleftrightarrow> j = k" "nd_cold (pairs ! j) = nd_cold (pairs ! k) \<longleftrightarrow> j = k"
    "nd_hot (pairs ! j) \<noteq> nd_cold (pairs ! k)" "nd_cold (pairs ! j) \<noteq> nd_hot (pairs ! k)"
    using assms(2,3) by (auto simp: distinct_conv_nth disjoint_iff) (metis imageI nth_mem)+
  with assms show ?thesis by (cases b; cases c) (auto simp: src_node_def pairs_ok_def nat_eq_iff)
qed

definition slot :: "node_pair list \<Rightarrow> bool \<Rightarrow> 'd cslide_pid_params \<Rightarrow> nat \<Rightarrow> nat \<Rightarrow> 'd node_page_refs" where
  "slot pairs b p i j = cp_cpfs p ! i ! src_node b (pairs ! j)"

definition side_pages :: "node_pair list \<Rightarrow> bool \<Rightarrow> 'd cslide_pid_params \<Rightarrow> nat \<Rightarrow> 'd page_refs multiset" where
  "side_pages pairs b p j = mset (graded b (cp_grade p ! j)) +
     sum_list (map (\<lambda>i. mset (np_pages (slot pairs b p i j))) [0..<length (cp_cpfs p)])"

definition pid_ok :: "u64 list \<Rightarrow> int \<Rightarrow> nat \<Rightarrow> nat \<Rightarrow> 'd cslide_pid_params \<Rightarrow> bool" where
  "pid_ok gps M N n p \<longleftrightarrow> rect N (cp_cpfs p) \<and> length (cp_grade p) = n \<and>
     (\<forall>i < length (cp_cpfs p). \<forall>m < N. npf_ok gps M (cp_cpfs p ! i ! m))"

definition pid_frame where
  "pid_frame p = (cp_state p, cp_count p, cp_info p, cp_vmas p, cp_vma_pf p, cp_pid p, cp_task p)"

text \<open>What a stage may do to the parameters of a process: pages go from the lists of the source
  nodes to the list of the stage, and nothing else changes.\<close>

definition pid_step ::
  "u64 list \<Rightarrow> int \<Rightarrow> nat \<Rightarrow> node_pair list \<Rightarrow> bool \<Rightarrow> 'd cslide_pid_params \<Rightarrow> 'd cslide_pid_params \<Rightarrow> bool" where
  "pid_step gps M N pairs b p q \<longleftrightarrow>
     pid_frame q = pid_frame p \<and> length (cp_cpfs q) = length (cp_cpfs p) \<and>
     (pid_ok gps M N (length pairs) p \<longrightarrow> pid_ok gps M N (length pairs) q) \<and>
     (\<forall>c. \<forall>j < length pairs. side_pages pairs c q j = side_pages pairs c p j) \<and>
     (\<forall>j < length pairs. graded (\<not> b) (cp_grade q ! j) = graded (\<not> b) (cp_grade p ! j)) \<and>
     (\<forall>i < length (cp_cpfs p). \<forall>j < length pairs. slot pairs (\<not> b) q i j = slot pairs (\<not> b) p i j) \<and>
     (\<forall>i < length (cp_cpfs p). \<forall>j < length pairs.
        set (np_pages (slot pairs b q i j)) \<subseteq> set (np_pages (slot pairs b p i j)))"

lemma pid_step_refl [simp]: "pid_step gps M N pairs b p p"
  by (simp add: pid_step_def)

lemma pid_step_trans: "pid_step gps M N pairs b p q \<Longrightarrow> pid_step gps M N pairs b q r \<Longrightarrow> pid_step gps M N pairs b p r"
  by (simp add: pid_step_def, blast)

lemma pid_step_state: "pid_step gps M N pairs b p q \<Longrightarrow> cp_state q = cp_state p"
  by (simp add: pid_step_def pid_frame_def)

lemma pid_step_subset:
  "pid_step gps M N pairs b p q \<Longrightarrow> i < length (cp_cpfs p) \<Longrightarrow> j < length pairs \<Longrightarrow>
   set (np_pages (slot pairs b q i j)) \<subseteq> set (np_pages (slot pairs b p i j))"
  by (simp add: pid_step_def)

lemma pid_step_slot:
  "pid_step gps M N pairs b p q \<Longrightarrow> i < length (cp_cpfs p) \<Longrightarrow> j < length pairs \<Longrightarrow>
   np_pages (slot pairs b q i j) \<noteq> [] \<Longrightarrow> np_pages (slot pairs b p i j) \<noteq> []"
  by (drule (2) pid_step_subset) auto

definition same_slots :: "node_pair list \<Rightarrow> bool \<Rightarrow> nat \<Rightarrow> 'd cslide_pid_params \<Rightarrow> 'd cslide_pid_params \<Rightarrow> bool" where
  "same_slots pairs b j p q \<longleftrightarrow> (\<forall>i < length (cp_cpfs p). slot pairs b q i j = slot pairs b p i j)"

text \<open>The bytes a stage has put on its lists for a pair.\<close>

definition total_graded :: "u64 list \<Rightarrow> bool \<Rightarrow> nat \<Rightarrow> 'd cslide_pid_params list \<Rightarrow> int" where
  "total_graded gps b j ps = sum_list (map (\<lambda>p. bytes gps (graded b (cp_grade p ! j))) ps)"

text \<open>A counter with limit \<open>cap\<close> went from \<open>u\<close> to \<open>v\<close> while \<open>d\<close> bytes were moved: all of what was granted,
  except in the grant that exhausts the counter, which may lack a part of a page.\<close>

definition granted :: "int \<Rightarrow> int \<Rightarrow> int \<Rightarrow> int \<Rightarrow> int \<Rightarrow> bool" where
  "granted M cap u v d \<longleftrightarrow>
     (if u < cap then u \<le> v \<and> v \<le> cap \<and> 0 \<le> d \<and> d \<le> v - u \<and> (v < cap \<longrightarrow> d = v - u) \<and> v - u < d + M
      else v = u \<and> d = 0)"

lemma granted_refl: "0 < M \<Longrightarrow> granted M cap u u 0"
  by (simp add: granted_def)

lemma granted_trans: "granted M cap u v d \<Longrightarrow> granted M cap v w e \<Longrightarrow> granted M cap u w (d + e)"
  by (auto simp: granted_def split: if_splits)

lemma sum_list_split_at:
  fixes f g :: "nat \<Rightarrow> 'a::comm_monoid_add"
  assumes "i < n" "f i = x + g i" "\<And>k. k < n \<Longrightarrow> k \<noteq> i \<Longrightarrow> f k = g k"
  shows "sum_list (map f [0..<n]) = x + sum_list (map g [0..<n])"
  using assms
proof (induction n)
  case (Suc n)
  show ?case
  proof (cases "i = n")
    case True
    with Suc.prems have "sum_list (map f [0..<n]) = sum_list (map g [0..<n])"
      by (intro arg_cong [where f = sum_list] map_cong) auto
    with True Suc.prems(2) show ?thesis by (simp add: algebra_simps)
  next
    case False
    with Suc show ?thesis by (simp add: algebra_simps)
  qed
qed simp

text \<open>Moving a prefix of one list.\<close>

definition take_pages ::
  "u64 list \<Rightarrow> node_pair list \<Rightarrow> bool \<Rightarrow> nat \<Rightarrow> nat \<Rightarrow> nat \<Rightarrow> 'd cslide_pid_params \<Rightarrow> 'd cslide_pid_params" where
  "take_pages gps pairs b i j k p =
     (let npf = slot pairs b p i j; m = src_node b (pairs ! j); g = cp_grade p ! j in
      p\<lparr>cp_cpfs := (cp_cpfs p)[i := (cp_cpfs p ! i)[m :=
           npf\<lparr>np_pages := drop k (np_pages npf), np_size := bytes gps (drop k (np_pages npf))\<rparr>]],
        cp_grade := (cp_grade p)[j := set_graded b (take k (np_pages npf) @ graded b g) g]\<rparr>)"

lemma take_pages_slot:
  assumes "pairs_ok N pairs" "pid_ok gps M N (length pairs) p" "j < length pairs" "i < length (cp_cpfs p)"
    and "h < length pairs" "r < length (cp_cpfs p)"
  shows "slot pairs c (take_pages gps pairs b i j k p) r h =
    (if c = b \<and> h = j \<and> r = i then
       (slot pairs b p i j)\<lparr>np_pages := drop k (np_pages (slot pairs b p i j)),
          np_size := bytes gps (drop k (np_pages (slot pairs b p i j)))\<rparr>
     else slot pairs c p r h)"
  using assms src_node_less [OF assms(1,3), of b] rect_nth [of N "cp_cpfs p" i]
    src_node_eq [OF assms(1,3,5), of b c]
  by (auto simp: take_pages_def slot_def Let_def nth_list_update pid_ok_def)

lemma take_pages_graded:
  assumes "pid_ok gps M N (length pairs) p" "j < length pairs" "h < length pairs"
  shows "graded c (cp_grade (take_pages gps pairs b i j k p) ! h) =
    (if c = b \<and> h = j then take k (np_pages (slot pairs b p i j)) @ graded b (cp_grade p ! j)
     else graded c (cp_grade p ! h))"
  using assms by (cases "c = b") (auto simp: take_pages_def Let_def nth_list_update pid_ok_def)

lemma take_pages_lengths [simp]:
  "length (cp_cpfs (take_pages gps pairs b i j k p)) = length (cp_cpfs p)"
  "length (cp_grade (take_pages gps pairs b i j k p)) = length (cp_grade p)"
  "pid_frame (take_pages gps pairs b i j k p) = pid_frame p"
  by (simp_all add: take_pages_def Let_def pid_frame_def)

lemma take_pages_ok:
  assumes "pid_ok gps M N (length pairs) p" "i < length (cp_cpfs p)" "pairs_ok N pairs" "j < length pairs"
  shows "pid_ok gps M N (length pairs) (take_pages gps pairs b i j k p)"
proof -
  have "npf_ok gps M (slot pairs b p i j)"
    using assms src_node_less [OF assms(3,4), of b] by (simp add: pid_ok_def slot_def)
  note ok = npf_ok_drop [OF this, of k]
  have len: "length (cp_cpfs p ! i) = N" using assms(1,2) by (simp add: pid_ok_def rect_nth)
  show ?thesis
    using assms ok len src_node_less [OF assms(3,4), of b]
    by (auto simp: pid_ok_def take_pages_def Let_def nth_list_update rect_def all_set_conv_all_nth)
qed

lemma take_pages_step:
  assumes "pairs_ok N pairs" "pid_ok gps M N (length pairs) p" "j < length pairs" "i < length (cp_cpfs p)"
  shows "pid_step gps M N pairs b p (take_pages gps pairs b i j k p)"
proof -
  let ?q = "take_pages gps pairs b i j k p"
  note slots = take_pages_slot [OF assms] and grades = take_pages_graded [OF assms(2,3)]
  have "side_pages pairs c ?q h = side_pages pairs c p h" if h: "h < length pairs" for c h
  proof (cases "c = b \<and> h = j")
    case False
    then have "sum_list (map (\<lambda>r. mset (np_pages (slot pairs c ?q r h))) [0..<length (cp_cpfs p)]) =
        sum_list (map (\<lambda>r. mset (np_pages (slot pairs c p r h))) [0..<length (cp_cpfs p)])"
      using slots [OF h] by (intro arg_cong [where f = sum_list] map_cong) auto
    with False grades [OF h] show ?thesis by (auto simp: side_pages_def)
  next
    case True
    have "sum_list (map (\<lambda>r. mset (np_pages (slot pairs b p r j))) [0..<length (cp_cpfs p)]) =
        mset (take k (np_pages (slot pairs b p i j))) +
        sum_list (map (\<lambda>r. mset (np_pages (slot pairs b ?q r j))) [0..<length (cp_cpfs p)])"
      using assms(4) slots [OF assms(3), of _ b]
      by (intro sum_list_split_at [of i]) (auto simp flip: mset_append)
    with True grades [OF h, of c] show ?thesis by (simp add: side_pages_def)
  qed
  with slots grades take_pages_ok [OF assms(2,4,1,3)] show ?thesis
    by (auto simp: pid_step_def dest: in_set_dropD)
qed

definition pids_ok where
  "pids_ok gps M N pairs i ps \<longleftrightarrow> (\<forall>p\<in>set ps. pid_ok gps M N (length pairs) p \<and> i < length (cp_cpfs p))"

text \<open>What the loop over the counts leaves alone: pages of a later count unless the earlier counts of the
  pair are used up, and all other counts.\<close>

definition later_untouched where
  "later_untouched pairs b is ps qs \<longleftrightarrow>
     (\<forall>a e h. a < e \<longrightarrow> e < length is \<longrightarrow> h < length pairs \<longrightarrow>
        (\<exists>q\<in>set qs. cp_state q = STATE_WORKING \<and> np_pages (slot pairs b q (nat (is ! a)) h) \<noteq> []) \<longrightarrow>
        list_all2 (\<lambda>p q. slot pairs b q (nat (is ! e)) h = slot pairs b p (nat (is ! e)) h) ps qs)"

definition others_untouched where
  "others_untouched is ps qs \<longleftrightarrow>
     (\<forall>r. int r \<notin> set is \<longrightarrow> list_all2 (\<lambda>p q. cp_cpfs q ! r = cp_cpfs p ! r) ps qs)"

section \<open>The stages\<close>

locale flow_stage =
  fixes cap :: "node_ctrl \<Rightarrow> ctrl_cap" and upd :: "int \<Rightarrow> node_ctrl \<Rightarrow> node_ctrl"
    and en :: "flow_ctrl \<Rightarrow> int" and rest :: "flow_ctrl \<Rightarrow> int \<times> int"
    and cal :: "node_ctrl \<Rightarrow> node_ctrl" and cal_all :: "flow_ctrl \<Rightarrow> flow_ctrl"
    and mv :: flow_move and enough :: "flow_ctrl \<Rightarrow> bool"
  assumes cap_upd: "cap (upd u nc) = (cap nc)\<lparr>cc_used := u\<rparr>"
    and upd_upd: "upd u (upd v nc) = upd u nc"
    and upd_same: "upd (cc_used (cap nc)) nc = nc"
    and mv_none: "j < length (fl_node_ctrl c) \<Longrightarrow> \<not> cap_avail (cap (fl_node_ctrl c ! j)) \<Longrightarrow> mv c t j = Inr (0, c)"
    and mv_grant: "j < length (fl_node_ctrl c) \<Longrightarrow> cap_avail (cap (fl_node_ctrl c ! j)) \<Longrightarrow>
      room = cc_cap (cap (fl_node_ctrl c ! j)) - cc_used (cap (fl_node_ctrl c ! j)) \<Longrightarrow> g = min t room \<Longrightarrow>
      \<exists>c'. mv c t j = Inr (g, c') \<and>
        fl_node_ctrl c' = (fl_node_ctrl c)[j := upd (cc_used (cap (fl_node_ctrl c ! j)) + g) (fl_node_ctrl c ! j)] \<and>
        en c' = en c + (if t < room then 0 else 1) \<and> rest c' = rest c"
    and cal_all: "fl_node_ctrl (cal_all c) = map cal (fl_node_ctrl c)" "rest (cal_all c) = rest c"
    and cal_all_en: "en (cal_all c) = en c + int (length (filter (\<lambda>nc. cc_cap (cap (cal nc)) \<le> 0) (fl_node_ctrl c)))"
    and cal_used: "cc_used (cap (cal nc)) = cc_used (cap nc)"
    and enough_iff: "enough c \<longleftrightarrow> en c = int (length (fl_node_ctrl c))"
begin

definition avail :: "flow_ctrl \<Rightarrow> nat \<Rightarrow> bool" where
  "avail c j \<longleftrightarrow> cap_avail (cap (fl_node_ctrl c ! j))"

definition exhausted :: "flow_ctrl \<Rightarrow> int" where
  "exhausted c = int (length (filter (\<lambda>nc. \<not> cap_avail (cap nc)) (fl_node_ctrl c)))"

definition ctrl_step :: "int \<Rightarrow> flow_ctrl \<Rightarrow> flow_ctrl \<Rightarrow> (nat \<Rightarrow> int) \<Rightarrow> bool" where
  "ctrl_step M c c' d \<longleftrightarrow> length (fl_node_ctrl c') = length (fl_node_ctrl c) \<and> rest c' = rest c \<and>
     (en c = exhausted c \<longrightarrow> en c' = exhausted c') \<and>
     (\<forall>j < length (fl_node_ctrl c). \<exists>v. fl_node_ctrl c' ! j = upd v (fl_node_ctrl c ! j) \<and>
        granted M (cc_cap (cap (fl_node_ctrl c ! j))) (cc_used (cap (fl_node_ctrl c ! j))) v (d j))"

lemma ctrl_step_refl: "0 < M \<Longrightarrow> (\<And>j. j < length (fl_node_ctrl c) \<Longrightarrow> d j = 0) \<Longrightarrow> ctrl_step M c c d"
  by (auto simp: ctrl_step_def) (metis granted_refl upd_same)

lemma ctrl_step_trans:
  assumes "ctrl_step M c1 c2 d" "ctrl_step M c2 c3 e"
    and f: "\<And>j. j < length (fl_node_ctrl c1) \<Longrightarrow> f j = d j + e j"
  shows "ctrl_step M c1 c3 f"
proof -
  have "\<exists>v. fl_node_ctrl c3 ! j = upd v (fl_node_ctrl c1 ! j) \<and>
      granted M (cc_cap (cap (fl_node_ctrl c1 ! j))) (cc_used (cap (fl_node_ctrl c1 ! j))) v (f j)"
    if j: "j < length (fl_node_ctrl c1)" for j
  proof -
    obtain v where v: "fl_node_ctrl c2 ! j = upd v (fl_node_ctrl c1 ! j)"
      "granted M (cc_cap (cap (fl_node_ctrl c1 ! j))) (cc_used (cap (fl_node_ctrl c1 ! j))) v (d j)"
      using assms(1) j by (auto simp: ctrl_step_def)
    obtain w where w: "fl_node_ctrl c3 ! j = upd w (fl_node_ctrl c2 ! j)"
      "granted M (cc_cap (cap (fl_node_ctrl c2 ! j))) (cc_used (cap (fl_node_ctrl c2 ! j))) w (e j)"
      using assms(1,2) j by (auto simp: ctrl_step_def)
    from v w granted_trans [OF v(2), of w "e j"] f [OF j] show ?thesis
      by (intro exI [of _ w]) (simp add: cap_upd upd_upd)
  qed
  with assms(1,2) show ?thesis by (simp add: ctrl_step_def)
qed

lemma ctrl_step_cong:
  "ctrl_step M c c' d \<Longrightarrow> (\<And>j. j < length (fl_node_ctrl c) \<Longrightarrow> f j = d j) \<Longrightarrow> ctrl_step M c c' f"
  by (simp add: ctrl_step_def)

lemma ctrl_step_avail: "ctrl_step M c c' d \<Longrightarrow> j < length (fl_node_ctrl c) \<Longrightarrow> \<not> avail c j \<Longrightarrow> \<not> avail c' j"
  by (auto simp: ctrl_step_def avail_def cap_avail_def granted_def cap_upd split: if_splits)

lemma enough_all:
  assumes "en c = exhausted c" "enough c" "j < length (fl_node_ctrl c)"
  shows "\<not> avail c j"
proof -
  have "length (filter (\<lambda>nc. \<not> cap_avail (cap nc)) (fl_node_ctrl c)) = length (fl_node_ctrl c)"
    using assms(1,2) by (simp add: enough_iff exhausted_def)
  then have "\<forall>nc\<in>set (fl_node_ctrl c). \<not> cap_avail (cap nc)"
    by (metis length_filter_less nat_less_le)
  with assms(3) show ?thesis by (simp add: avail_def)
qed

lemma mv_step:
  assumes j: "j < length (fl_node_ctrl c)" and s: "0 \<le> s" and M: "0 < M"
  obtains lim c' where "mv c s j = Inr (lim, c')" "0 \<le> lim" "lim \<le> s" "\<not> avail c j \<Longrightarrow> lim = 0" "avail c' j \<Longrightarrow> lim = s"
    "\<And>d. 0 \<le> d \<Longrightarrow> d \<le> lim \<Longrightarrow> lim < d + M \<Longrightarrow> (lim = s \<longrightarrow> d = lim) \<Longrightarrow>
       ctrl_step M c c' (\<lambda>k. if k = j then d else 0)"
proof (cases "avail c j")
  case False
  with j mv_none [of j c s] have "mv c s j = Inr (0, c)" by (simp add: avail_def)
  moreover have "ctrl_step M c c (\<lambda>k. if k = j then d else 0)" if "0 \<le> d" "d \<le> 0" for d
    using that M by (intro ctrl_step_refl) auto
  ultimately show ?thesis using that [of 0 c] False s by auto
next
  case True
  let ?nc = "fl_node_ctrl c ! j"
  define u where "u = cc_used (cap ?nc)"
  define room where "room = cc_cap (cap ?nc) - u"
  have room: "0 < room" using True by (simp add: avail_def cap_avail_def room_def u_def)
  obtain c' where c': "mv c s j = Inr (min s room, c')"
    "fl_node_ctrl c' = (fl_node_ctrl c)[j := upd (u + min s room) ?nc]"
    "en c' = en c + (if s < room then 0 else 1)" "rest c' = rest c"
    using mv_grant [OF j, of room "min s room" s] True by (auto simp: avail_def room_def u_def)
  have av: "cap_avail (cap (upd (u + min s room) ?nc)) \<longleftrightarrow> s < room"
    by (auto simp: cap_avail_def cap_upd room_def)
  have "length (filter P (xs[j := y])) = length (filter P xs) + (if P y then 1 else 0)"
    if "j < length xs" "\<not> P (xs ! j)" for P and xs :: "node_ctrl list" and y
    using that by (subst (2) id_take_nth_drop [of j]) (auto simp: upd_conv_take_nth_drop)
  from this [of "fl_node_ctrl c" "\<lambda>nc. \<not> cap_avail (cap nc)" "upd (u + min s room) ?nc"]
  have ex: "exhausted c' = exhausted c + (if s < room then 0 else 1)"
    using j True av by (simp add: exhausted_def c'(2) avail_def)
  have "ctrl_step M c c' (\<lambda>k. if k = j then d else 0)"
    if d: "0 \<le> d" "d \<le> min s room" "min s room < d + M" "min s room = s \<longrightarrow> d = min s room" for d
  proof -
    have "granted M (cc_cap (cap ?nc)) u (u + min s room) d"
      using d room s by (auto simp: granted_def room_def)
    then have "\<exists>v. fl_node_ctrl c' ! k = upd v (fl_node_ctrl c ! k) \<and>
        granted M (cc_cap (cap (fl_node_ctrl c ! k))) (cc_used (cap (fl_node_ctrl c ! k))) v (if k = j then d else 0)"
      if "k < length (fl_node_ctrl c)" for k
      using that M by (cases "k = j") (auto simp: c'(2) u_def intro: granted_refl upd_same [symmetric])
    with c' ex show ?thesis by (simp add: ctrl_step_def)
  qed
  with c'(1) room s av True show ?thesis
    by (intro that [of "min s room" c']) (auto simp: avail_def c'(2) j)
qed

text \<open>One call of the policy.\<close>

lemma policy_step:
  assumes pairs: "pairs_ok N pairs" and p: "pid_ok gps M N (length pairs) p" and j: "j < length pairs"
    and i: "i < length (cp_cpfs p)" and n: "length (fl_node_ctrl c) = length pairs" and M: "0 < M"
  obtains k c' where
    "side_policy b mv gps c (pairs ! j) (cp_cpfs p ! i) (cp_grade p ! j) =
       Inr (c', cp_cpfs (take_pages gps pairs b i j k p) ! i, cp_grade (take_pages gps pairs b i j k p) ! j)"
    "k \<le> length (np_pages (slot pairs b p i j))" "\<not> avail c j \<Longrightarrow> k = 0"
    "avail c' j \<Longrightarrow> k = length (np_pages (slot pairs b p i j))"
    "ctrl_step M c c' (\<lambda>h. if h = j then bytes gps (take k (np_pages (slot pairs b p i j))) else 0)"
proof -
  let ?npf = "slot pairs b p i j"
  have idx: "nd_index (pairs ! j) = j" using pairs j by (simp add: pairs_ok_def)
  have len: "length (cp_cpfs p ! i) = N" using p i by (simp add: pid_ok_def rect_nth)
  have npf: "npf_ok gps M ?npf"
    using p i src_node_less [OF pairs j, of b] by (simp add: pid_ok_def slot_def)
  then have s: "0 \<le> np_size ?npf" using bytes_nonneg [of "np_pages ?npf" gps M] by (simp add: npf_ok_def)
  obtain lim c' where mv: "mv c (np_size ?npf) j = Inr (lim, c')" "0 \<le> lim" "lim \<le> np_size ?npf" "\<not> avail c j \<Longrightarrow> lim = 0"
    "avail c' j \<Longrightarrow> lim = np_size ?npf"
    "\<And>d. 0 \<le> d \<Longrightarrow> d \<le> lim \<Longrightarrow> lim < d + M \<Longrightarrow> (lim = np_size ?npf \<longrightarrow> d = lim) \<Longrightarrow>
       ctrl_step M c c' (\<lambda>h. if h = j then d else 0)"
    using mv_step [of j c "np_size ?npf" M] j n s M by auto
  let ?g = "cp_grade p ! j"
  obtain k where k: "k \<le> length (np_pages ?npf)"
    "move_npf_to_list gps ?npf (graded b ?g) lim =
      Inr (?npf\<lparr>np_pages := drop k (np_pages ?npf), np_size := bytes gps (drop k (np_pages ?npf))\<rparr>,
           take k (np_pages ?npf) @ graded b ?g)"
    "bytes gps (take k (np_pages ?npf)) \<le> lim"
    "k < length (np_pages ?npf) \<longrightarrow> lim < bytes gps (take k (np_pages ?npf)) + M \<and> lim < np_size ?npf"
    using move_npf_spec [OF npf mv(2), of "graded b ?g"] by blast
  let ?d = "bytes gps (take k (np_pages ?npf))"
  have pages: "\<forall>q\<in>set (take k (np_pages ?npf)). page_ok gps M q"
    using npf by (auto simp: npf_ok_def dest: in_set_takeD)
  have full: "k = length (np_pages ?npf) \<Longrightarrow> ?d = np_size ?npf" using npf by (simp add: npf_ok_def)
  have "ctrl_step M c c' (\<lambda>h. if h = j then ?d else 0)"
    using k full mv(3) bytes_nonneg [OF pages] M by (intro mv(6)) (auto simp: le_less)
  moreover have "side_policy b mv gps c (pairs ! j) (cp_cpfs p ! i) ?g =
      Inr (c', cp_cpfs (take_pages gps pairs b i j k p) ! i, cp_grade (take_pages gps pairs b i j k p) ! j)"
    using pairs j i len p k(2) mv(1) idx
    by (cases b) (auto simp: side_policy_def to_hot_policy_def to_cold_policy_def take_pages_def Let_def
        slot_def src_node_def graded_def set_graded_def pairs_ok_def pid_ok_def)
  moreover have "k = 0" if "\<not> avail c j"
  proof -
    have "take k (np_pages ?npf) = []" using that mv(4) k(3) bytes_pos [OF pages] by fastforce
    with k(1) show ?thesis by auto
  qed
  ultimately show ?thesis
    using that [of c' k] k(1,4) mv(5) by (auto simp: le_less)
qed

text \<open>What the loops do: a relation between the states before and after, closed under composition.\<close>

definition stage_rel where
  "stage_rel gps M N pairs b c ps c' ps' \<longleftrightarrow>
     list_all2 (pid_step gps M N pairs b) ps ps' \<and>
     ctrl_step M c c' (\<lambda>j. total_graded gps b j ps' - total_graded gps b j ps) \<and>
     (\<forall>j < length pairs. \<not> avail c j \<longrightarrow> list_all2 (same_slots pairs b j) ps ps')"

lemma stage_rel_refl: "0 < M \<Longrightarrow> stage_rel gps M N pairs b c ps c ps"
  by (auto simp: stage_rel_def ctrl_step_refl same_slots_def list.rel_refl)

lemma stage_rel_trans:
  assumes "stage_rel gps M N pairs b c1 ps1 c2 ps2" "stage_rel gps M N pairs b c2 ps2 c3 ps3"
    and n: "length (fl_node_ctrl c1) = length pairs"
  shows "stage_rel gps M N pairs b c1 ps1 c3 ps3"
proof -
  have "list_all2 (pid_step gps M N pairs b) ps1 ps3"
  proof (rule list_all2_trans)
    show "list_all2 (pid_step gps M N pairs b) ps1 ps2" "list_all2 (pid_step gps M N pairs b) ps2 ps3"
      using assms(1,2) by (simp_all add: stage_rel_def)
  qed (rule pid_step_trans)
  moreover have "ctrl_step M c1 c3 (\<lambda>j. total_graded gps b j ps3 - total_graded gps b j ps1)"
    using assms(1,2) unfolding stage_rel_def by (intro ctrl_step_trans [of M c1 c2 _ c3]) auto
  moreover have "list_all2 (same_slots pairs b j) ps1 ps3" if j: "j < length pairs" "\<not> avail c1 j" for j
  proof -
    have "\<not> avail c2 j" using assms(1) j n ctrl_step_avail unfolding stage_rel_def by auto
    then have "list_all2 (same_slots pairs b j) ps1 ps2" "list_all2 (same_slots pairs b j) ps2 ps3"
      "list_all2 (pid_step gps M N pairs b) ps1 ps2"
      using assms(1,2) j by (simp_all add: stage_rel_def)
    then show ?thesis by (auto simp: list_all2_conv_all_nth same_slots_def pid_step_def)
  qed
  ultimately show ?thesis by (simp add: stage_rel_def)
qed

lemma stage_rel_Cons:
  assumes "stage_rel gps M N pairs b c1 [p] c2 [q]" "stage_rel gps M N pairs b c2 ps c3 qs"
    and n: "length (fl_node_ctrl c1) = length pairs"
  shows "stage_rel gps M N pairs b c1 (p # ps) c3 (q # qs)"
proof -
  have "list_all2 (same_slots pairs b j) (p # ps) (q # qs)" if j: "j < length pairs" "\<not> avail c1 j" for j
  proof -
    have "\<not> avail c2 j" using assms(1) j n ctrl_step_avail unfolding stage_rel_def by auto
    with assms(1,2) j show ?thesis by (simp add: stage_rel_def)
  qed
  moreover have "ctrl_step M c1 c3 (\<lambda>j. total_graded gps b j (q # qs) - total_graded gps b j (p # ps))"
    using assms(1,2) unfolding stage_rel_def
    by (intro ctrl_step_trans [of M c1 c2 _ c3]) (auto simp: total_graded_def)
  ultimately show ?thesis using assms(1,2) by (simp add: stage_rel_def)
qed

lemma stage_rel_len: "stage_rel gps M N pairs b c ps c' ps' \<Longrightarrow> length (fl_node_ctrl c') = length (fl_node_ctrl c)"
  by (simp add: stage_rel_def ctrl_step_def)

lemma stage_rel_en: "stage_rel gps M N pairs b c ps c' ps' \<Longrightarrow> en c = exhausted c \<Longrightarrow> en c' = exhausted c'"
  by (simp add: stage_rel_def ctrl_step_def)

definition done_slot where
  "done_slot pairs b c p i j \<longleftrightarrow> \<not> avail c j \<or> np_pages (slot pairs b p i j) = []"

lemma done_slot_step:
  assumes "done_slot pairs b c p i j" "stage_rel gps M N pairs b c ps c' ps'" "pid_step gps M N pairs b p q"
    and "j < length pairs" "i < length (cp_cpfs p)" "length (fl_node_ctrl c) = length pairs"
  shows "done_slot pairs b c' q i j"
  using assms(1,2,4,6) ctrl_step_avail pid_step_slot [OF assms(3,5,4)] by (auto simp: done_slot_def stage_rel_def)

lemma enough_done:
  assumes "en c = exhausted c" "enough c" "j < length pairs" "length (fl_node_ctrl c) = length pairs"
  shows "done_slot pairs b c p i j"
  using enough_all [OF assms(1,2)] assms(3,4) by (simp add: done_slot_def)

text \<open>The loop over the pairs, for one process and one count.\<close>

lemma take_pages_fields:
  assumes "i < length (cp_cpfs p)" "j < length (cp_grade p)"
  shows "p\<lparr>cp_cpfs := (cp_cpfs p)[i := cp_cpfs (take_pages gps pairs b i j k p) ! i],
           cp_grade := (cp_grade p)[j := cp_grade (take_pages gps pairs b i j k p) ! j]\<rparr> = take_pages gps pairs b i j k p"
  using assms by (simp add: take_pages_def Let_def)

lemma take_pages_count: "r \<noteq> i \<Longrightarrow> cp_cpfs (take_pages gps pairs b i j k p) ! r = cp_cpfs p ! r"
  by (simp add: take_pages_def Let_def)

lemma filter_step:
  assumes fl: "filter_policy fl = side_policy b" "flow_move_func fl = mv" "flow_enough fl = enough"
    and pairs: "pairs_ok N pairs" and p: "pid_ok gps M N (length pairs) p" and j: "j < length pairs"
    and i: "i < length (cp_cpfs p)" and n: "length (fl_node_ctrl c) = length pairs" and M: "0 < M"
  obtains c' q where
    "filter_pairs fl gps (int i) j (drop j pairs) c p =
       (if enough c' then Inr (True, c', q) else filter_pairs fl gps (int i) (Suc j) (drop (Suc j) pairs) c' q)"
    "stage_rel gps M N pairs b c [p] c' [q]" "done_slot pairs b c' q i j" "\<forall>r. r \<noteq> i \<longrightarrow> cp_cpfs q ! r = cp_cpfs p ! r"
proof -
  obtain k c' where k: "side_policy b mv gps c (pairs ! j) (cp_cpfs p ! i) (cp_grade p ! j) =
       Inr (c', cp_cpfs (take_pages gps pairs b i j k p) ! i, cp_grade (take_pages gps pairs b i j k p) ! j)"
    "k \<le> length (np_pages (slot pairs b p i j))" "\<not> avail c j \<Longrightarrow> k = 0"
    "avail c' j \<Longrightarrow> k = length (np_pages (slot pairs b p i j))"
    "ctrl_step M c c' (\<lambda>h. if h = j then bytes gps (take k (np_pages (slot pairs b p i j))) else 0)"
    using policy_step [OF pairs p j i n M] by metis
  let ?q = "take_pages gps pairs b i j k p"
  note slots = take_pages_slot [OF pairs p j i] and grades = take_pages_graded [OF p j]
  have npf: "npf_ok gps M (slot pairs b p i j)"
    using p i src_node_less [OF pairs j, of b] by (simp add: pid_ok_def slot_def)
  have "ctrl_step M c c' (\<lambda>h. total_graded gps b h [?q] - total_graded gps b h [p])"
    by (rule ctrl_step_cong [OF k(5)]) (use n grades in \<open>auto simp: total_graded_def\<close>)
  moreover have "same_slots pairs b h p ?q" if "h < length pairs" "\<not> avail c h" for h
  proof -
    have "slot pairs b ?q r h = slot pairs b p r h" if r: "r < length (cp_cpfs p)" for r
    proof (cases "h = j \<and> r = i")
      case True
      with \<open>\<not> avail c h\<close> k(3) have "k = 0" by simp
      with True npf slots [OF \<open>h < length pairs\<close> r, of b b k] show ?thesis by (simp add: npf_ok_def)
    qed (use slots [OF \<open>h < length pairs\<close> r, of b] in auto)
    then show ?thesis by (simp add: same_slots_def)
  qed
  ultimately have "stage_rel gps M N pairs b c [p] c' [?q]"
    using take_pages_step [OF pairs p j i] by (simp add: stage_rel_def)
  moreover have "done_slot pairs b c' ?q i j"
    using k(4) slots [OF j i, of b] by (auto simp: done_slot_def)
  moreover have "filter_pairs fl gps (int i) j (drop j pairs) c p =
      (if enough c' then Inr (True, c', ?q) else filter_pairs fl gps (int i) (Suc j) (drop (Suc j) pairs) c' ?q)"
    using j i p k(1) fl take_pages_fields [of i p j gps pairs b k]
    by (subst Cons_nth_drop_Suc [OF j, symmetric]) (simp add: c_nth_in pid_ok_def Let_def)
  ultimately show ?thesis using that take_pages_count by blast
qed

lemma filter_pairs_stage:
  assumes fl: "filter_policy fl = side_policy b" "flow_move_func fl = mv" "flow_enough fl = enough"
    and pairs: "pairs_ok N pairs" and M: "0 < M"
    and "pid_ok gps M N (length pairs) p" "i < length (cp_cpfs p)" "length (fl_node_ctrl c) = length pairs"
    and "j \<le> length pairs" "en c = exhausted c"
  shows "\<exists>stop c' q. filter_pairs fl gps (int i) j (drop j pairs) c p = Inr (stop, c', q) \<and>
    stage_rel gps M N pairs b c [p] c' [q] \<and> (stop \<longrightarrow> enough c') \<and>
    (\<forall>h \<ge> j. h < length pairs \<longrightarrow> done_slot pairs b c' q i h) \<and> (\<forall>r. r \<noteq> i \<longrightarrow> cp_cpfs q ! r = cp_cpfs p ! r)"
  using assms(6-)
proof (induction "length pairs - j" arbitrary: j c p)
  case 0
  then show ?case using stage_rel_refl [OF M, of gps N pairs b c "[p]"] by auto
next
  case (Suc m)
  then have j: "j < length pairs" by simp
  obtain c1 p1 where 1: "filter_pairs fl gps (int i) j (drop j pairs) c p =
       (if enough c1 then Inr (True, c1, p1) else filter_pairs fl gps (int i) (Suc j) (drop (Suc j) pairs) c1 p1)"
    "stage_rel gps M N pairs b c [p] c1 [p1]" "done_slot pairs b c1 p1 i j" "\<forall>r. r \<noteq> i \<longrightarrow> cp_cpfs p1 ! r = cp_cpfs p ! r"
    using filter_step [OF fl pairs Suc.prems(1) j Suc.prems(2,3) M] by metis
  have n1: "length (fl_node_ctrl c1) = length pairs" using stage_rel_len [OF 1(2)] Suc.prems(3) by simp
  have en1: "en c1 = exhausted c1" using stage_rel_en [OF 1(2) Suc.prems(5)] .
  have step1: "pid_step gps M N pairs b p p1" using 1(2) by (simp add: stage_rel_def)
  show ?case
  proof (cases "enough c1")
    case True
    with 1 show ?thesis by (auto simp: enough_done [OF en1 True _ n1])
  next
    case False
    have "m = length pairs - Suc j" using Suc.hyps(2) by simp
    moreover have "pid_ok gps M N (length pairs) p1" "i < length (cp_cpfs p1)"
      using step1 Suc.prems(1,2) by (simp_all add: pid_step_def)
    ultimately obtain stop c2 p2 where 2: "filter_pairs fl gps (int i) (Suc j) (drop (Suc j) pairs) c1 p1 = Inr (stop, c2, p2)"
      "stage_rel gps M N pairs b c1 [p1] c2 [p2]" "stop \<longrightarrow> enough c2"
      "\<forall>h \<ge> Suc j. h < length pairs \<longrightarrow> done_slot pairs b c2 p2 i h" "\<forall>r. r \<noteq> i \<longrightarrow> cp_cpfs p2 ! r = cp_cpfs p1 ! r"
      using Suc.hyps(1) [of "Suc j" p1 c1] n1 en1 j by auto
    have "pid_step gps M N pairs b p1 p2" using 2(2) by (simp add: stage_rel_def)
    with done_slot_step [OF 1(3) 2(2)] j n1 \<open>i < length (cp_cpfs p1)\<close>
    have "done_slot pairs b c2 p2 i j" by simp
    with 2(4) have "\<forall>h \<ge> j. h < length pairs \<longrightarrow> done_slot pairs b c2 p2 i h"
      by (metis Suc_leI le_neq_implies_less)
    with 1(1,4) 2(1,3,5) False stage_rel_trans [OF 1(2) 2(2) Suc.prems(3)] show ?thesis by simp
  qed
qed

text \<open>The loop over the processes, for one count.\<close>

lemma filter_pids_stage:
  assumes fl: "filter_policy fl = side_policy b" "flow_move_func fl = mv" "flow_enough fl = enough"
    and pairs: "pairs_ok N pairs" and M: "0 < M"
    and "pids_ok gps M N pairs i ps" "length (fl_node_ctrl c) = length pairs" "en c = exhausted c"
  shows "\<exists>stop c' qs. filter_pids fl gps pairs (int i) c ps = Inr (stop, c', qs) \<and>
    stage_rel gps M N pairs b c ps c' qs \<and> (stop \<longrightarrow> enough c') \<and>
    (\<forall>q\<in>set qs. cp_state q = STATE_WORKING \<longrightarrow> (\<forall>h < length pairs. done_slot pairs b c' q i h)) \<and>
    (\<forall>r. r \<noteq> i \<longrightarrow> list_all2 (\<lambda>p q. cp_cpfs q ! r = cp_cpfs p ! r) ps qs)"
  using assms(6-)
proof (induction ps arbitrary: c)
  case Nil
  then show ?case using stage_rel_refl [OF M, of gps N pairs b c "[]"] by auto
next
  case (Cons p ps)
  have p: "pid_ok gps M N (length pairs) p" "i < length (cp_cpfs p)" and ps: "pids_ok gps M N pairs i ps"
    using Cons.prems(1) by (auto simp: pids_ok_def)
  obtain stop c1 p1 where
    1: "(if cp_state p = STATE_WORKING then filter_pairs fl gps (int i) 0 pairs c p else Inr (False, c, p)) = Inr (stop, c1, p1)"
    "stage_rel gps M N pairs b c [p] c1 [p1]" "stop \<longrightarrow> enough c1"
    "cp_state p = STATE_WORKING \<longrightarrow> (\<forall>h < length pairs. done_slot pairs b c1 p1 i h)"
    "\<forall>r. r \<noteq> i \<longrightarrow> cp_cpfs p1 ! r = cp_cpfs p ! r"
  proof (cases "cp_state p = STATE_WORKING")
    case True
    with filter_pairs_stage [OF fl pairs M p Cons.prems(2) _ Cons.prems(3), of 0] show ?thesis
      using that by auto
  next
    case False
    with that [of False c p] stage_rel_refl [OF M, of gps N pairs b c "[p]"] show ?thesis by auto
  qed
  have n1: "length (fl_node_ctrl c1) = length pairs" using stage_rel_len [OF 1(2)] Cons.prems(2) by simp
  have en1: "en c1 = exhausted c1" using stage_rel_en [OF 1(2) Cons.prems(3)] .
  have step1: "pid_step gps M N pairs b p p1" using 1(2) by (simp add: stage_rel_def)
  then have st: "cp_state p1 = cp_state p" "i < length (cp_cpfs p1)"
    using p(2) by (simp_all add: pid_step_def pid_frame_def)
  show ?case
  proof (cases stop)
    case True
    with 1(3) have "enough c1" by simp
    then have "\<forall>q\<in>set (p1 # ps). \<forall>h < length pairs. done_slot pairs b c1 q i h"
      by (simp add: enough_done [OF en1 _ _ n1])
    moreover have "list_all2 (\<lambda>p q. cp_cpfs q ! r = cp_cpfs p ! r) (p # ps) (p1 # ps)" if "r \<noteq> i" for r
      using 1(5) that by (simp add: list.rel_refl)
    ultimately show ?thesis
      using True 1(1,3) stage_rel_Cons [OF 1(2) stage_rel_refl [OF M] Cons.prems(2)] by auto
  next
    case False
    obtain stop' c2 qs where 2: "filter_pids fl gps pairs (int i) c1 ps = Inr (stop', c2, qs)"
      "stage_rel gps M N pairs b c1 ps c2 qs" "stop' \<longrightarrow> enough c2"
      "\<forall>q\<in>set qs. cp_state q = STATE_WORKING \<longrightarrow> (\<forall>h < length pairs. done_slot pairs b c2 q i h)"
      "\<forall>r. r \<noteq> i \<longrightarrow> list_all2 (\<lambda>p q. cp_cpfs q ! r = cp_cpfs p ! r) ps qs"
      using Cons.IH [OF ps n1 en1] by blast
    have "done_slot pairs b c2 p1 i h" if "cp_state p1 = STATE_WORKING" "h < length pairs" for h
      using that 1(4) st by (intro done_slot_step [OF _ 2(2) pid_step_refl _ _ n1]) simp_all
    with 2(4) have "\<forall>q\<in>set (p1 # qs). cp_state q = STATE_WORKING \<longrightarrow> (\<forall>h < length pairs. done_slot pairs b c2 q i h)"
      by simp
    with False 1(1,5) 2(1,3,5) stage_rel_Cons [OF 1(2) 2(2) Cons.prems(2)] show ?thesis by simp
  qed
qed

text \<open>The loop over the counts.\<close>

lemma stage_rel_pids_ok:
  "stage_rel gps M N pairs b c ps c' qs \<Longrightarrow> pids_ok gps M N pairs i ps \<Longrightarrow> pids_ok gps M N pairs i qs"
  by (auto simp: stage_rel_def pids_ok_def list_all2_conv_all_nth all_set_conv_all_nth pid_step_def)

lemma stage_rel_prev: "stage_rel gps M N pairs b c ps c' qs \<Longrightarrow> q \<in> set qs \<Longrightarrow> \<exists>p\<in>set ps. pid_step gps M N pairs b p q"
  by (auto simp: stage_rel_def dest: list_all2_in2)

lemma slot_count: "cp_cpfs q ! r = cp_cpfs p ! r \<Longrightarrow> slot pairs b q r h = slot pairs b p r h"
  by (simp add: slot_def)

lemma filter_counts_stage:
  assumes fl: "filter_policy fl = side_policy b" "flow_move_func fl = mv" "flow_enough fl = enough"
    and pairs: "pairs_ok N pairs" and M: "0 < M"
    and "\<forall>i\<in>set is. 0 \<le> i \<and> pids_ok gps M N pairs (nat i) ps" "distinct is"
    and "length (fl_node_ctrl c) = length pairs" "en c = exhausted c"
  shows "\<exists>c' qs. filter_counts fl gps pairs is c ps = Inr (c', qs) \<and> stage_rel gps M N pairs b c ps c' qs \<and>
    (\<forall>i\<in>set is. \<forall>q\<in>set qs. cp_state q = STATE_WORKING \<longrightarrow> (\<forall>h < length pairs. done_slot pairs b c' q (nat i) h)) \<and>
    later_untouched pairs b is ps qs \<and> others_untouched is ps qs"
  using assms(6-)
proof (induction "is" arbitrary: c ps)
  case Nil
  then show ?case using stage_rel_refl [OF M, of gps N pairs b c ps] by (auto simp: later_untouched_def others_untouched_def list.rel_refl)
next
  case (Cons i0 "is")
  define i where "i = nat i0"
  have i: "i0 = int i" "pids_ok gps M N pairs i ps" using Cons.prems(1) by (auto simp: i_def)
  obtain stop c1 ps1 where 1: "filter_pids fl gps pairs (int i) c ps = Inr (stop, c1, ps1)"
    "stage_rel gps M N pairs b c ps c1 ps1" "stop \<longrightarrow> enough c1"
    "\<forall>q\<in>set ps1. cp_state q = STATE_WORKING \<longrightarrow> (\<forall>h < length pairs. done_slot pairs b c1 q i h)"
    "\<forall>r. r \<noteq> i \<longrightarrow> list_all2 (\<lambda>p q. cp_cpfs q ! r = cp_cpfs p ! r) ps ps1"
    using filter_pids_stage [OF fl pairs M i(2) Cons.prems(3,4)] by blast
  have n1: "length (fl_node_ctrl c1) = length pairs" using stage_rel_len [OF 1(2)] Cons.prems(3) by simp
  have en1: "en c1 = exhausted c1" using stage_rel_en [OF 1(2) Cons.prems(4)] .
  have later: "nat (is ! e) \<noteq> i" if "e < length is" for e
  proof -
    have "is ! e \<in> set is" using that by simp
    with Cons.prems(1,2) show ?thesis by (auto simp: i_def nat_eq_iff2)
  qed
  have slots1: "list_all2 (\<lambda>p q. slot pairs b q (nat (is ! e)) h = slot pairs b p (nat (is ! e)) h) ps ps1"
    if "e < length is" for e h
    using 1(5) later [OF that] by (auto elim!: list_all2_mono intro: slot_count)
  show ?case
  proof (cases stop)
    case True
    with 1(3) have "enough c1" by simp
    then have "\<forall>i\<in>set (i0 # is). \<forall>q\<in>set ps1. \<forall>h < length pairs. done_slot pairs b c1 q (nat i) h"
      by (simp add: enough_done [OF en1 _ _ n1])
    moreover have "later_untouched pairs b (i0 # is) ps ps1"
      using slots1 by (auto simp: later_untouched_def nth_Cons')
    moreover have "others_untouched (i0 # is) ps ps1" using 1(5) i(1) by (simp add: others_untouched_def)
    ultimately show ?thesis using True 1(1,2) i(1) by simp
  next
    case False
    have "\<forall>i\<in>set is. 0 \<le> i \<and> pids_ok gps M N pairs (nat i) ps1"
      using Cons.prems(1) stage_rel_pids_ok [OF 1(2)] by simp
    from Cons.IH [OF this _ n1 en1] Cons.prems(2) obtain c2 qs where 2:
      "filter_counts fl gps pairs is c1 ps1 = Inr (c2, qs)" "stage_rel gps M N pairs b c1 ps1 c2 qs"
      "\<forall>i\<in>set is. \<forall>q\<in>set qs. cp_state q = STATE_WORKING \<longrightarrow> (\<forall>h < length pairs. done_slot pairs b c2 q (nat i) h)"
      "later_untouched pairs b is ps1 qs" "others_untouched is ps1 qs"
      by auto
    have prev: "\<exists>p1\<in>set ps1. pid_step gps M N pairs b p1 q \<and> i < length (cp_cpfs p1) \<and>
        cp_state p1 = cp_state q" if "q \<in> set qs" for q
      using stage_rel_prev [OF 2(2) that] stage_rel_pids_ok [OF 1(2) i(2)] pid_step_state
      by (fastforce simp: pids_ok_def)
    have "done_slot pairs b c2 q i h" if "q \<in> set qs" "cp_state q = STATE_WORKING" "h < length pairs" for q h
      using prev [OF that(1)] that 1(4) done_slot_step [OF _ 2(2)] n1 by metis
    moreover have "later_untouched pairs b (i0 # is) ps qs"
      unfolding later_untouched_def
    proof (intro allI impI)
      fix a e h
      assume a: "a < e" "e < length (i0 # is)" and h: "h < length pairs"
        and left: "\<exists>q\<in>set qs. cp_state q = STATE_WORKING \<and> np_pages (slot pairs b q (nat ((i0 # is) ! a)) h) \<noteq> []"
      then obtain e' where e: "e = Suc e'" "e' < length is" by (cases e) auto
      have "list_all2 (\<lambda>p q. slot pairs b q (nat (is ! e')) h = slot pairs b p (nat (is ! e')) h) ps1 qs"
      proof (cases a)
        case 0
        with left obtain q where q: "q \<in> set qs" "cp_state q = STATE_WORKING" "np_pages (slot pairs b q i h) \<noteq> []"
          by (auto simp: i_def)
        from prev [OF q(1)] obtain p1 where "p1 \<in> set ps1" "cp_state p1 = STATE_WORKING"
          "np_pages (slot pairs b p1 i h) \<noteq> []"
          using q(2,3) h pid_step_slot by metis
        with 1(4) h have "\<not> avail c1 h" by (auto simp: done_slot_def)
        with 2(2) h have "list_all2 (same_slots pairs b h) ps1 qs" by (simp add: stage_rel_def)
        moreover have "pids_ok gps M N pairs (nat (is ! e')) ps1"
          using e(2) Cons.prems(1) stage_rel_pids_ok [OF 1(2)] by simp
        ultimately show ?thesis by (auto simp: list_all2_conv_all_nth same_slots_def pids_ok_def)
      next
        case (Suc a')
        with a e left h 2(4) show ?thesis by (auto simp: later_untouched_def)
      qed
      with slots1 [OF e(2), of h]
      show "list_all2 (\<lambda>p q. slot pairs b q (nat ((i0 # is) ! e)) h = slot pairs b p (nat ((i0 # is) ! e)) h) ps qs"
        by (simp add: e(1) list_all2_conv_all_nth)
    qed
    moreover have "others_untouched (i0 # is) ps qs"
      using 1(5) 2(5) i(1) by (auto simp: others_untouched_def list_all2_conv_all_nth)
    ultimately show ?thesis
      using False 1(1) 2(1,3) i(1) stage_rel_trans [OF 1(2) 2(2) Cons.prems(3)] by simp
  qed
qed

text \<open>A stage as a whole, from counters that are all zero.\<close>

lemma do_filter_stage:
  assumes fl: "filter_policy fl = side_policy b" "flow_move_func fl = mv" "flow_enough fl = enough" "flow_cal_func fl = cal_all"
    and pairs: "pairs_ok N pairs" and M: "0 < M"
    and r: "count_range (count_start fl) (count_end fl) (count_step fl) = Some is"
    and ps: "\<forall>i\<in>set is. 0 \<le> i \<and> pids_ok gps M N pairs (nat i) ps"
    and c: "length (fl_node_ctrl c) = length pairs" "en c = 0" "\<forall>nc\<in>set (fl_node_ctrl c). cc_used (cap nc) = 0"
  shows "\<exists>c' qs. do_filter fl gps pairs c ps = Inr (c', qs) \<and> stage_rel gps M N pairs b (cal_all c) ps c' qs \<and>
    (\<forall>i\<in>set is. \<forall>q\<in>set qs. cp_state q = STATE_WORKING \<longrightarrow> (\<forall>h < length pairs. done_slot pairs b c' q (nat i) h)) \<and>
    later_untouched pairs b is ps qs \<and> others_untouched is ps qs"
proof -
  have n: "length (fl_node_ctrl (cal_all c)) = length pairs" using c(1) by (simp add: cal_all)
  have av: "(\<not> cap_avail (cap (cal nc))) = (cc_cap (cap (cal nc)) \<le> 0)" if "nc \<in> set (fl_node_ctrl c)" for nc
    using c(3) that by (auto simp: cap_avail_def cal_used)
  have "filter (\<lambda>nc. \<not> cap_avail (cap (cal nc))) (fl_node_ctrl c) = filter (\<lambda>nc. cc_cap (cap (cal nc)) \<le> 0) (fl_node_ctrl c)"
    using av by (rule filter_cong [OF refl])
  then have en: "en (cal_all c) = exhausted (cal_all c)"
    by (simp add: exhausted_def cal_all cal_all_en c(2) filter_map comp_def)
  have "distinct is" using r by (auto simp: count_range_def split: if_splits)
  show ?thesis
  proof (cases "enough (cal_all c)")
    case True
    have "later_untouched pairs b is ps ps \<and> others_untouched is ps ps"
      by (auto simp: later_untouched_def others_untouched_def list.rel_refl)
    with True fl stage_rel_refl [OF M, of gps N pairs b "cal_all c" ps] show ?thesis
      by (simp add: do_filter_def enough_done [OF en True _ n])
  next
    case False
    with filter_counts_stage [OF fl(1-3) pairs M ps \<open>distinct is\<close> n en] fl r show ?thesis
      by (simp add: do_filter_def)
  qed
qed

text \<open>The same with the counters and the bytes of each pair: the counter \<open>v j\<close>, that no page is left
  unless it has reached its limit, and that nothing is taken when the limit is not positive.\<close>

definition stage_flow where
  "stage_flow gps M pairs b is c ps c' qs v \<longleftrightarrow>
     (\<forall>j < length pairs. fl_node_ctrl c' ! j = upd (v j) (cal (fl_node_ctrl c ! j)) \<and>
        granted M (cc_cap (cap (cal (fl_node_ctrl c ! j)))) 0 (v j) (total_graded gps b j qs - total_graded gps b j ps) \<and>
        (v j < cc_cap (cap (cal (fl_node_ctrl c ! j))) \<longrightarrow>
           (\<forall>i\<in>set is. \<forall>q\<in>set qs. cp_state q = STATE_WORKING \<longrightarrow> np_pages (slot pairs b q (nat i) j) = [])) \<and>
        (cc_cap (cap (cal (fl_node_ctrl c ! j))) \<le> 0 \<longrightarrow> list_all2 (same_slots pairs b j) ps qs))"

lemma do_filter_result:
  assumes fl: "filter_policy fl = side_policy b" "flow_move_func fl = mv" "flow_enough fl = enough" "flow_cal_func fl = cal_all"
    and pairs: "pairs_ok N pairs" and M: "0 < M"
    and r: "count_range (count_start fl) (count_end fl) (count_step fl) = Some cs"
    and ps: "\<forall>i\<in>set cs. 0 \<le> i \<and> pids_ok gps M N pairs (nat i) ps"
    and c: "length (fl_node_ctrl c) = length pairs" "en c = 0" "\<forall>nc\<in>set (fl_node_ctrl c). cc_used (cap nc) = 0"
  shows "\<exists>c' qs v. do_filter fl gps pairs c ps = Inr (c', qs) \<and> list_all2 (pid_step gps M N pairs b) ps qs \<and>
    length (fl_node_ctrl c') = length pairs \<and> rest c' = rest c \<and> stage_flow gps M pairs b cs c ps c' qs v \<and>
    later_untouched pairs b cs ps qs \<and> others_untouched cs ps qs"
proof -
  obtain c' qs where s: "do_filter fl gps pairs c ps = Inr (c', qs)" "stage_rel gps M N pairs b (cal_all c) ps c' qs"
    "\<forall>i\<in>set cs. \<forall>q\<in>set qs. cp_state q = STATE_WORKING \<longrightarrow> (\<forall>h < length pairs. done_slot pairs b c' q (nat i) h)"
    "later_untouched pairs b cs ps qs" "others_untouched cs ps qs"
    using do_filter_stage [OF fl pairs M r ps c] by blast
  let ?d = "\<lambda>j. total_graded gps b j qs - total_graded gps b j ps"
  have step: "ctrl_step M (cal_all c) c' ?d" using s(2) by (simp add: stage_rel_def)
  have "\<exists>v. fl_node_ctrl c' ! j = upd v (cal (fl_node_ctrl c ! j)) \<and>
      granted M (cc_cap (cap (cal (fl_node_ctrl c ! j)))) 0 v (?d j)" if "j < length pairs" for j
    using step that c by (simp add: ctrl_step_def cal_all cal_used)
  then obtain v where v: "\<And>j. j < length pairs \<Longrightarrow> fl_node_ctrl c' ! j = upd (v j) (cal (fl_node_ctrl c ! j)) \<and>
      granted M (cc_cap (cap (cal (fl_node_ctrl c ! j)))) 0 (v j) (?d j)"
    by metis
  have same: "list_all2 (same_slots pairs b j) ps qs"
    if "j < length pairs" "cc_cap (cap (cal (fl_node_ctrl c ! j))) \<le> 0" for j
  proof -
    have "\<not> avail (cal_all c) j" using that c by (simp add: avail_def cap_avail_def cal_all cal_used)
    with s(2) that(1) show ?thesis by (simp add: stage_rel_def)
  qed
  have "stage_flow gps M pairs b cs c ps c' qs v"
    unfolding stage_flow_def
  proof (intro allI impI conjI ballI)
    fix j i q assume j: "j < length pairs" and "v j < cc_cap (cap (cal (fl_node_ctrl c ! j)))" "i \<in> set cs"
      "q \<in> set qs" "cp_state q = STATE_WORKING"
    with v [OF j] s(3) show "np_pages (slot pairs b q (nat i) j) = []"
      by (fastforce simp: done_slot_def avail_def cap_avail_def cap_upd)
  qed (use v same in blast)+
  moreover have "list_all2 (pid_step gps M N pairs b) ps qs" "length (fl_node_ctrl c') = length pairs" "rest c' = rest c"
    using s(2) step c(1) by (simp_all add: stage_rel_def ctrl_step_def cal_all)
  ultimately show ?thesis using s by blast
qed

end

interpretation hot_stage: flow_stage nc_hot_move_cap
  "\<lambda>u nc. nc\<lparr>nc_hot_move_cap := (nc_hot_move_cap nc)\<lparr>cc_used := u\<rparr>\<rparr>" fl_hot_enough
  "\<lambda>c. (fl_prefetch_enough c, fl_cold_enough c)" "\<lambda>nc. snd (node_cal_hot_can_move nc)"
  flow_cal_hot_can_move ctrl_hot_move is_hot_enough
  by unfold_locales
    (auto simp: ctrl_hot_move_def cap_cost_def cap_avail_def flow_cal_hot_can_move_def is_hot_enough_def
      Let_def count_failed_def node_cal_hot_can_move_def filter_map comp_def not_less)

interpretation prefetch_stage: flow_stage nc_hot_prefetch_cap
  "\<lambda>u nc. nc\<lparr>nc_hot_prefetch_cap := (nc_hot_prefetch_cap nc)\<lparr>cc_used := u\<rparr>\<rparr>" fl_prefetch_enough
  "\<lambda>c. (fl_hot_enough c, fl_cold_enough c)" "\<lambda>nc. snd (node_cal_hot_can_prefetch (node_update_hot_move nc))"
  flow_cal_hot_can_prefetch ctrl_prefetch_hot is_prefetch_enough
  by unfold_locales
    (auto simp: ctrl_prefetch_hot_def cap_cost_def cap_avail_def flow_cal_hot_can_prefetch_def is_prefetch_enough_def
      Let_def count_failed_def node_cal_hot_can_prefetch_def node_update_hot_move_def filter_map comp_def not_less)

interpretation cold_stage: flow_stage nc_cold_move_cap
  "\<lambda>u nc. nc\<lparr>nc_cold_move_cap := (nc_cold_move_cap nc)\<lparr>cc_used := u\<rparr>\<rparr>" fl_cold_enough
  "\<lambda>c. (fl_hot_enough c, fl_prefetch_enough c)" "\<lambda>nc. snd (node_cal_cold_can_move (node_update_hot_prefetch nc))"
  flow_cal_cold_can_move ctrl_cold_move is_cold_enough
  by unfold_locales
    (auto simp: ctrl_cold_move_def cap_cost_def cap_avail_def flow_cal_cold_can_move_def is_cold_enough_def
      Let_def count_failed_def node_cal_cold_can_move_def node_update_hot_prefetch_def filter_map comp_def not_less)

end
