(* ===== verification/Cslide_Balance.thy ===== *)
theory Cslide_Balance
  imports Cslide_Policy
begin

text \<open>
  The three stages of the cslide policy together: per pair of nodes the amounts moved stay within the
  quota, neither node takes more than it has room for, the hottest pages are promoted and the coldest
  demoted first, and no page is lost.
\<close>

section \<open>The amounts of one pair\<close>

abbreviation (input) use_hot :: "int \<Rightarrow> node_ctrl \<Rightarrow> node_ctrl" where
  "use_hot u nc \<equiv> nc\<lparr>nc_hot_move_cap := (nc_hot_move_cap nc)\<lparr>cc_used := u\<rparr>\<rparr>"
abbreviation (input) use_prefetch :: "int \<Rightarrow> node_ctrl \<Rightarrow> node_ctrl" where
  "use_prefetch u nc \<equiv> nc\<lparr>nc_hot_prefetch_cap := (nc_hot_prefetch_cap nc)\<lparr>cc_used := u\<rparr>\<rparr>"

definition hot_cap :: "node_ctrl \<Rightarrow> node_ctrl" where
  "hot_cap nc = snd (node_cal_hot_can_move nc)"

definition prefetch_cap :: "int \<Rightarrow> node_ctrl \<Rightarrow> node_ctrl" where
  "prefetch_cap h nc = snd (node_cal_hot_can_prefetch (node_update_hot_move (use_hot h (hot_cap nc))))"

definition cold_cap :: "int \<Rightarrow> int \<Rightarrow> node_ctrl \<Rightarrow> node_ctrl" where
  "cold_cap h p nc = snd (node_cal_cold_can_move (node_update_hot_prefetch (use_prefetch p (prefetch_cap h nc))))"

definition fresh_ctrl :: "node_ctrl \<Rightarrow> bool" where
  "fresh_ctrl nc \<longleftrightarrow> cc_used (nc_hot_move_cap nc) = 0 \<and> cc_used (nc_hot_prefetch_cap nc) = 0 \<and>
     cc_used (nc_cold_move_cap nc) = 0 \<and> nc_cold_replaced nc = 0 \<and> 0 \<le> nc_cold_free nc \<and> 0 \<le> nc_free nc \<and>
     0 \<le> nc_cold nc \<and> 0 \<le> nc_quota nc \<and> 0 \<le> nc_reserve nc"

text \<open>\<open>h\<close>, \<open>p\<close>, \<open>c\<close> are the counters after the stages, \<open>dh\<close>, \<open>dp\<close>, \<open>dc\<close> the bytes moved.\<close>

definition pair_flow :: "int \<Rightarrow> node_ctrl \<Rightarrow> int \<Rightarrow> int \<Rightarrow> int \<Rightarrow> int \<Rightarrow> int \<Rightarrow> int \<Rightarrow> bool" where
  "pair_flow M nc h p c dh dp dc \<longleftrightarrow>
     granted M (cc_cap (nc_hot_move_cap (hot_cap nc))) 0 h dh \<and>
     granted M (cc_cap (nc_hot_prefetch_cap (prefetch_cap h nc))) 0 p dp \<and>
     granted M (cc_cap (nc_cold_move_cap (cold_cap h p nc))) 0 c dc"

lemma hot_cap_value:
  "cc_cap (nc_hot_move_cap (hot_cap nc)) =
     min (if nc_quota nc < nc_free nc then nc_quota nc
          else nc_free nc + min ((nc_quota nc - nc_free nc) div 2) (nc_cold_free nc)) (nc_cold nc + nc_free nc)"
  by (auto simp: hot_cap_def node_cal_hot_can_move_def Let_def)

lemma prefetch_cap_value:
  "cc_cap (nc_hot_prefetch_cap (prefetch_cap h nc)) =
     (if h > nc_free nc then
        (if 0 \<le> nc_reserve nc then 0 else min (- nc_reserve nc) (nc_quota nc - (nc_free nc + (h - nc_free nc) * 2)))
      else if nc_free nc - h \<le> nc_reserve nc then 0
      else min (nc_free nc - h - nc_reserve nc) (nc_quota nc - h))"
  by (auto simp: prefetch_cap_def hot_cap_def node_cal_hot_can_prefetch_def node_update_hot_move_def
      node_cal_hot_can_move_def Let_def)

lemma hot_cap_fields [simp]:
  "nc_free (hot_cap nc) = nc_free nc" "nc_quota (hot_cap nc) = nc_quota nc" "nc_reserve (hot_cap nc) = nc_reserve nc"
  "nc_cold_free (hot_cap nc) = nc_cold_free nc" "nc_cold_replaced (hot_cap nc) = nc_cold_replaced nc"
  by (simp_all add: hot_cap_def node_cal_hot_can_move_def Let_def)

lemma prefetch_cap_fields:
  "nc_reserve (prefetch_cap h nc) = nc_reserve nc"
  "nc_free (prefetch_cap h nc) = (if h > nc_free nc then 0 else nc_free nc - h)"
  "nc_quota (prefetch_cap h nc) =
     (if h > nc_free nc then nc_quota nc - (nc_free nc + (h - nc_free nc) * 2) else nc_quota nc - h)"
  "nc_cold_free (prefetch_cap h nc) = nc_cold_free nc + (if h > nc_free nc then nc_free nc else h)"
  "nc_cold_replaced (prefetch_cap h nc) = nc_cold_replaced nc + (if h > nc_free nc then h - nc_free nc else 0)"
  by (simp_all add: prefetch_cap_def node_cal_hot_can_prefetch_def node_update_hot_move_def Let_def)

lemma cold_cap_value:
  "cc_cap (nc_cold_move_cap (cold_cap h p nc)) =
     max 0 (min (min (nc_quota (prefetch_cap h nc) - p) (nc_reserve nc - (nc_free (prefetch_cap h nc) - p)))
       (nc_cold_free (prefetch_cap h nc) + p)) + nc_cold_replaced (prefetch_cap h nc)"
  by (simp add: cold_cap_def node_cal_cold_can_move_def node_update_hot_prefetch_def Let_def prefetch_cap_fields(1))

lemma granted_bounds: "granted M cap 0 v d \<Longrightarrow> 0 \<le> d \<and> d \<le> v \<and> v \<le> max 0 cap \<and> (0 < M \<longrightarrow> v < d + M) \<and> (d \<noteq> v \<longrightarrow> v = cap)"
  by (auto simp: granted_def split: if_splits)

text \<open>Once the hot pages of a pair are cut off, nothing is prefetched for it.\<close>

lemma hot_exhausted_no_prefetch:
  assumes "fresh_ctrl nc" "h \<ge> cc_cap (nc_hot_move_cap (hot_cap nc))"
  shows "cc_cap (nc_hot_prefetch_cap (prefetch_cap h nc)) \<le> 0"
  using assms by (auto simp: fresh_ctrl_def hot_cap_value prefetch_cap_value min_def split: if_splits)

lemma pair_within_quota:
  assumes "fresh_ctrl nc" "pair_flow M nc h p c dh dp dc"
  shows "dh + dp + dc \<le> nc_quota nc"
proof -
  have g: "dh \<le> h" "h \<le> max 0 (cc_cap (nc_hot_move_cap (hot_cap nc)))"
    "dp \<le> p" "p \<le> max 0 (cc_cap (nc_hot_prefetch_cap (prefetch_cap h nc)))"
    "dc \<le> c" "c \<le> max 0 (cc_cap (nc_cold_move_cap (cold_cap h p nc)))" "0 \<le> p" "0 \<le> h"
    using assms(2) granted_bounds by (fastforce simp: pair_flow_def)+
  have h: "h \<le> (if nc_quota nc < nc_free nc then nc_quota nc else nc_free nc + (nc_quota nc - nc_free nc) div 2)"
    using g(2) assms(1) by (auto simp: fresh_ctrl_def hot_cap_value)
  show ?thesis
  proof (cases "h > nc_free nc")
    case True
    then have p: "p = 0" using g(4,7) assms(1) by (simp add: prefetch_cap_value fresh_ctrl_def)
    have "2 * (h - nc_free nc) \<le> nc_quota nc - nc_free nc" using h True by (auto split: if_splits)
    with True p g assms(1) show ?thesis by (auto simp: cold_cap_value prefetch_cap_fields fresh_ctrl_def)
  next
    case False
    have "h \<le> nc_quota nc" using h assms(1) False by (auto simp: fresh_ctrl_def split: if_splits)
    with False g assms(1) show ?thesis
      by (auto simp: cold_cap_value prefetch_cap_fields prefetch_cap_value fresh_ctrl_def max_def min_def split: if_splits)
  qed
qed

lemma dvd_less_add:
  fixes a b M :: int
  assumes "M dvd a" "M dvd b" "a < b + M" "0 < M"
  shows "a \<le> b"
proof -
  obtain k l where kl: "a = M * k" "b = M * l" using assms(1,2) by (auto elim!: dvdE)
  with assms(3) have "M * k < M * (l + 1)" by (simp add: algebra_simps)
  with assms(4) have "k < l + 1" by (simp only: mult_less_cancel_left_pos)
  with kl assms(4) show ?thesis by simp
qed

text \<open>With pages of one size neither node of a pair takes more than it has room for.\<close>

lemma pair_balanced:
  assumes nc: "fresh_ctrl nc" and fl: "pair_flow M nc h p c dh dp dc" and M: "0 < M"
    and dvd: "M dvd nc_free nc" "M dvd nc_cold_free nc" "M dvd dh" "M dvd dp" "M dvd dc"
    and cold: "c < cc_cap (nc_cold_move_cap (cold_cap h p nc)) \<Longrightarrow> nc_cold nc \<le> dc"
  shows "dh + dp \<le> nc_free nc + dc" "dc \<le> nc_cold_free nc + dh + dp"
proof -
  let ?H = "cc_cap (nc_hot_move_cap (hot_cap nc))"
  let ?P = "cc_cap (nc_hot_prefetch_cap (prefetch_cap h nc))"
  let ?C = "cc_cap (nc_cold_move_cap (cold_cap h p nc))"
  from fl have H: "0 \<le> dh" "dh \<le> h" "h \<le> max 0 ?H" "h < dh + M" "dh \<noteq> h \<longrightarrow> h = ?H"
    and P: "0 \<le> dp" "dp \<le> p" "p \<le> max 0 ?P" "dp \<noteq> p \<longrightarrow> p = ?P"
    and C: "0 \<le> dc" "dc \<le> c" "c \<le> max 0 ?C" "c < dc + M"
    using granted_bounds M unfolding pair_flow_def by metis+
  note f = nc [unfolded fresh_ctrl_def]
  have "dh + dp \<le> nc_free nc + dc \<and> dc \<le> nc_cold_free nc + dh + dp"
  proof (cases "h > nc_free nc")
    case True
    have p: "p = 0" "dp = 0" using P True f by (auto simp: prefetch_cap_value)
    have C': "?C \<ge> h - nc_free nc" "?C \<le> nc_cold_free nc + h"
      using True f p(1) by (auto simp: cold_cap_value prefetch_cap_fields)
    have "dh \<le> nc_free nc + dc"
    proof (cases "c < ?C")
      case True
      have "h \<le> nc_cold nc + nc_free nc" using H(3) \<open>h > nc_free nc\<close> f by (auto simp: hot_cap_value)
      with cold [OF True] H(2) show ?thesis by simp
    next
      case False
      with C' C(4) H(2) have "dh < nc_free nc + dc + M" by simp
      with dvd M show ?thesis by (intro dvd_less_add [of M]) auto
    qed
    moreover have "dc \<le> nc_cold_free nc + dh"
    proof -
      have "dc < nc_cold_free nc + dh + M" using C(2,3) C' True f H(4) by auto
      with dvd M show ?thesis by (intro dvd_less_add [of M]) auto
    qed
    ultimately show ?thesis using p by simp
  next
    case False
    have "dh + dp \<le> nc_free nc"
      using H P False f by (auto simp: prefetch_cap_value split: if_splits)
    moreover have "dc \<le> nc_cold_free nc + dh + dp"
    proof (cases "dh = h")
      case True
      have "dc \<le> nc_cold_free nc + h + dp"
        using P C(2,3) H(1,2) f False
        by (auto simp: cold_cap_value prefetch_cap_value prefetch_cap_fields max_def min_def split: if_splits)
      with True show ?thesis by simp
    next
      case h: False
      with H(5) hot_exhausted_no_prefetch [OF nc] have "?P \<le> 0" by simp
      with P have p: "p = 0" "dp = 0" by auto
      have "dc < nc_cold_free nc + dh + M"
        using C(2,3) H(4) f False p H(1,2) M by (auto simp: cold_cap_value prefetch_cap_fields)
      with dvd M have "dc \<le> nc_cold_free nc + dh" by (intro dvd_less_add [of M]) auto
      with p show ?thesis by simp
    qed
    ultimately show ?thesis using C(1) by simp
  qed
  then show "dh + dp \<le> nc_free nc + dc" "dc \<le> nc_cold_free nc + dh + dp" by simp_all
qed

section \<open>The three stages\<close>

definition node_ctrl0 :: "cslide_eng_params \<Rightarrow> node_pair \<Rightarrow> node_ctrl" where
  "node_ctrl0 eng pair =
     \<lparr>nc_hot_move_cap = \<lparr>cc_cap = 0, cc_used = 0\<rparr>, nc_hot_prefetch_cap = \<lparr>cc_cap = 0, cc_used = 0\<rparr>,
      nc_cold_move_cap = \<lparr>cc_cap = 0, cc_used = 0\<rparr>, nc_cold_replaced = 0,
      nc_cold_free = nm_huge_free (ce_mem eng ! nat (nd_cold pair)), nc_free = nm_huge_free (ce_mem eng ! nat (nd_hot pair)),
      nc_cold = uint (ni_cold (ce_host_pages_info eng ! nat (nd_hot pair))) * 1024,
      nc_total = nm_huge_total (ce_mem eng ! nat (nd_hot pair)),
      nc_quota = ce_mig_quota eng * HUGE_1M_SIZE, nc_reserve = ce_hot_reserve eng * HUGE_1M_SIZE\<rparr>"

abbreviation eng_pairs :: "cslide_eng_params \<Rightarrow> node_pair list" where
  "eng_pairs eng \<equiv> nm_pairs (ce_node_map eng)"

definition flow0 :: "cslide_eng_params \<Rightarrow> flow_ctrl" where
  "flow0 eng = \<lparr>fl_node_ctrl = map (node_ctrl0 eng) (eng_pairs eng),
     fl_hot_enough = 0, fl_prefetch_enough = 0, fl_cold_enough = 0\<rparr>"

text \<open>A configured engine on a machine with \<open>N\<close> nodes.\<close>

definition eng_ok :: "nat \<Rightarrow> cslide_eng_params \<Rightarrow> bool" where
  "eng_ok N eng \<longleftrightarrow> pairs_ok N (eng_pairs eng) \<and> length (ce_mem eng) = N \<and> length (ce_host_pages_info eng) = N \<and>
     (\<forall>m\<in>set (ce_mem eng). 0 \<le> nm_huge_free m) \<and> 0 \<le> ce_mig_quota eng \<and> 0 \<le> ce_hot_reserve eng \<and> 0 \<le> ce_loop eng \<and>
     0 \<le> ce_hot_threshold eng \<and> ce_hot_threshold eng \<le> ce_loop eng * MAX_ACCESS_WEIGHT + 1"

definition params_ok :: "u64 list \<Rightarrow> int \<Rightarrow> nat \<Rightarrow> cslide_eng_params \<Rightarrow> 'd cslide_pid_params list \<Rightarrow> bool" where
  "params_ok gps M N eng ps \<longleftrightarrow> (\<forall>p\<in>set ps. pid_ok gps M N (length (eng_pairs eng)) p \<and>
     int (length (cp_cpfs p)) = ce_loop eng * MAX_ACCESS_WEIGHT + 1)"

lemma init_flow_ctrl_ok: "eng_ok N eng \<Longrightarrow> init_flow_ctrl eng [] = Inr (Some (flow0 eng), [])"
  by (auto simp: init_flow_ctrl_def flow0_def eng_ok_def pairs_ok_def in_set_conv_nth new_node_ctrl_def node_ctrl0_def
      c_nth_in intro!: c_map_Inr)

lemma node_ctrl0_fresh:
  assumes "eng_ok N eng" "j < length (eng_pairs eng)"
  shows "fresh_ctrl (node_ctrl0 eng (eng_pairs eng ! j))"
proof -
  have "nat (nd_hot (eng_pairs eng ! j)) < length (ce_mem eng)" "nat (nd_cold (eng_pairs eng ! j)) < length (ce_mem eng)"
    using assms by (auto simp: eng_ok_def pairs_ok_def)
  then show ?thesis using assms(1) by (auto simp: fresh_ctrl_def node_ctrl0_def eng_ok_def)
qed

lemma flow0_simps [simp]:
  "length (fl_node_ctrl (flow0 eng)) = length (eng_pairs eng)"
  "j < length (eng_pairs eng) \<Longrightarrow> fl_node_ctrl (flow0 eng) ! j = node_ctrl0 eng (eng_pairs eng ! j)"
  "fl_hot_enough (flow0 eng) = 0" "fl_prefetch_enough (flow0 eng) = 0" "fl_cold_enough (flow0 eng) = 0"
  by (simp_all add: flow0_def)

lemma params_ok_pids:
  assumes "eng_ok N eng" "params_ok gps M N eng ps" "i \<le> ce_loop eng * MAX_ACCESS_WEIGHT" "0 \<le> i"
  shows "pids_ok gps M N (eng_pairs eng) (nat i) ps"
  using assms by (fastforce simp: params_ok_def pids_ok_def)

lemma stage_params_ok:
  "list_all2 (pid_step gps M N (eng_pairs eng) b) ps qs \<Longrightarrow> params_ok gps M N eng ps \<Longrightarrow> params_ok gps M N eng qs"
  by (auto simp: params_ok_def list_all2_conv_all_nth all_set_conv_all_nth pid_step_def)

definition no_pages_left :: "node_pair list \<Rightarrow> bool \<Rightarrow> int list \<Rightarrow> nat \<Rightarrow> 'd cslide_pid_params list \<Rightarrow> bool" where
  "no_pages_left pairs b is j qs \<longleftrightarrow>
     (\<forall>i\<in>set is. \<forall>q\<in>set qs. cp_state q = STATE_WORKING \<longrightarrow> np_pages (slot pairs b q (nat i) j) = [])"

text \<open>Each stage on a configured engine. \<open>hot_counts\<close> and \<open>cold_counts\<close> are the access counts from the threshold
  on and below it.\<close>

definition hot_counts :: "cslide_eng_params \<Rightarrow> int list" where
  "hot_counts eng = [ce_hot_threshold eng..ce_loop eng * MAX_ACCESS_WEIGHT]"

definition cold_counts :: "cslide_eng_params \<Rightarrow> int list" where
  "cold_counts eng = [0..ce_hot_threshold eng - 1]"

lemma counts_pids:
  assumes "eng_ok N eng" "params_ok gps M N eng ps"
  shows "\<forall>i\<in>set (rev (hot_counts eng)). 0 \<le> i \<and> pids_ok gps M N (eng_pairs eng) (nat i) ps"
    "\<forall>i\<in>set (rev (cold_counts eng)). 0 \<le> i \<and> pids_ok gps M N (eng_pairs eng) (nat i) ps"
    "\<forall>i\<in>set (cold_counts eng). 0 \<le> i \<and> pids_ok gps M N (eng_pairs eng) (nat i) ps"
  using assms params_ok_pids [OF assms] by (auto simp: eng_ok_def hot_counts_def cold_counts_def)

lemma counts_range:
  assumes "eng_ok N eng"
  shows "count_range (ce_loop eng * MAX_ACCESS_WEIGHT) (ce_hot_threshold eng - 1) (-1) = Some (rev (hot_counts eng))"
    "count_range (ce_hot_threshold eng - 1) (-1) (-1) = Some (rev (cold_counts eng))"
    "count_range 0 (ce_hot_threshold eng) 1 = Some (cold_counts eng)"
  using assms by (simp_all add: eng_ok_def hot_counts_def cold_counts_def count_range_def)

lemma hot_stage_result:
  assumes eng: "eng_ok N eng" and ps: "params_ok gps M N eng ps" and M: "0 < M"
  shows "\<exists>c1 ps1 h. move_hot_pages gps eng (flow0 eng) ps = Inr (c1, ps1) \<and>
    list_all2 (pid_step gps M N (eng_pairs eng) True) ps ps1 \<and> length (fl_node_ctrl c1) = length (eng_pairs eng) \<and>
    (fl_prefetch_enough c1, fl_cold_enough c1) = (fl_prefetch_enough (flow0 eng), fl_cold_enough (flow0 eng)) \<and>
    hot_stage.stage_flow gps M (eng_pairs eng) True (rev (hot_counts eng)) (flow0 eng) ps c1 ps1 h \<and>
    later_untouched (eng_pairs eng) True (rev (hot_counts eng)) ps ps1 \<and> others_untouched (rev (hot_counts eng)) ps ps1"
  unfolding move_hot_pages_def
  by (rule hot_stage.do_filter_result)
    (use eng M counts_pids [OF eng ps] counts_range [OF eng] in
      \<open>auto simp: side_policy_def eng_ok_def flow0_def node_ctrl0_def\<close>)

lemma prefetch_stage_result:
  assumes eng: "eng_ok N eng" and ps: "params_ok gps M N eng ps" and M: "0 < M"
    and c: "length (fl_node_ctrl c) = length (eng_pairs eng)" "fl_prefetch_enough c = 0"
      "\<forall>nc\<in>set (fl_node_ctrl c). cc_used (nc_hot_prefetch_cap nc) = 0"
  shows "\<exists>c1 ps1 h. prefetch_hot_pages gps eng c ps = Inr (c1, ps1) \<and>
    list_all2 (pid_step gps M N (eng_pairs eng) True) ps ps1 \<and> length (fl_node_ctrl c1) = length (eng_pairs eng) \<and>
    (fl_hot_enough c1, fl_cold_enough c1) = (fl_hot_enough c, fl_cold_enough c) \<and>
    prefetch_stage.stage_flow gps M (eng_pairs eng) True (rev (cold_counts eng)) c ps c1 ps1 h \<and>
    later_untouched (eng_pairs eng) True (rev (cold_counts eng)) ps ps1 \<and> others_untouched (rev (cold_counts eng)) ps ps1"
  unfolding prefetch_hot_pages_def
  by (rule prefetch_stage.do_filter_result)
    (use eng M c counts_pids [OF eng ps] counts_range [OF eng] in \<open>auto simp: side_policy_def eng_ok_def\<close>)

lemma cold_stage_result:
  assumes eng: "eng_ok N eng" and ps: "params_ok gps M N eng ps" and M: "0 < M"
    and c: "length (fl_node_ctrl c) = length (eng_pairs eng)" "fl_cold_enough c = 0"
      "\<forall>nc\<in>set (fl_node_ctrl c). cc_used (nc_cold_move_cap nc) = 0"
  shows "\<exists>c1 ps1 h. move_cold_pages gps eng c ps = Inr (c1, ps1) \<and>
    list_all2 (pid_step gps M N (eng_pairs eng) False) ps ps1 \<and> length (fl_node_ctrl c1) = length (eng_pairs eng) \<and>
    (fl_hot_enough c1, fl_prefetch_enough c1) = (fl_hot_enough c, fl_prefetch_enough c) \<and>
    cold_stage.stage_flow gps M (eng_pairs eng) False (cold_counts eng) c ps c1 ps1 h \<and>
    later_untouched (eng_pairs eng) False (cold_counts eng) ps ps1 \<and> others_untouched (cold_counts eng) ps ps1"
  unfolding move_cold_pages_def
  by (rule cold_stage.do_filter_result)
    (use eng M c counts_pids [OF eng ps] counts_range [OF eng] in \<open>auto simp: side_policy_def eng_ok_def\<close>)

text \<open>All three, with the lists of processes after each of them.\<close>

abbreviation ctrl_of :: "cslide_eng_params \<Rightarrow> nat \<Rightarrow> node_ctrl" where
  "ctrl_of eng j \<equiv> node_ctrl0 eng (eng_pairs eng ! j)"

lemma filter_stages:
  assumes eng: "eng_ok N eng" and ps: "params_ok gps M N eng ps" and M: "0 < M"
  obtains ps1 ps2 qs h p c where "cslide_filter_pfs gps eng ps [] = Inr (0, qs, [])"
    "list_all2 (pid_step gps M N (eng_pairs eng) True) ps ps1" "list_all2 (pid_step gps M N (eng_pairs eng) True) ps1 ps2"
    "list_all2 (pid_step gps M N (eng_pairs eng) False) ps2 qs"
    "\<And>j. j < length (eng_pairs eng) \<Longrightarrow> pair_flow M (ctrl_of eng j) (h j) (p j) (c j)
       (total_graded gps True j ps1 - total_graded gps True j ps) (total_graded gps True j ps2 - total_graded gps True j ps1)
       (total_graded gps False j qs - total_graded gps False j ps2)"
    "\<And>j. j < length (eng_pairs eng) \<Longrightarrow> h j < cc_cap (nc_hot_move_cap (hot_cap (ctrl_of eng j))) \<Longrightarrow>
       no_pages_left (eng_pairs eng) True (rev (hot_counts eng)) j ps1"
    "\<And>j. j < length (eng_pairs eng) \<Longrightarrow> c j < cc_cap (nc_cold_move_cap (cold_cap (h j) (p j) (ctrl_of eng j))) \<Longrightarrow>
       no_pages_left (eng_pairs eng) False (cold_counts eng) j qs"
    "\<And>j. j < length (eng_pairs eng) \<Longrightarrow> cc_cap (nc_hot_move_cap (hot_cap (ctrl_of eng j))) \<le> h j \<Longrightarrow>
       list_all2 (same_slots (eng_pairs eng) True j) ps1 ps2"
    "later_untouched (eng_pairs eng) True (rev (hot_counts eng)) ps ps1" "others_untouched (rev (hot_counts eng)) ps ps1"
    "later_untouched (eng_pairs eng) True (rev (cold_counts eng)) ps1 ps2" "others_untouched (rev (cold_counts eng)) ps1 ps2"
    "later_untouched (eng_pairs eng) False (cold_counts eng) ps2 qs" "others_untouched (cold_counts eng) ps2 qs"
proof -
  let ?n = "length (eng_pairs eng)"
  obtain c1 ps1 h where 1: "move_hot_pages gps eng (flow0 eng) ps = Inr (c1, ps1)"
    "list_all2 (pid_step gps M N (eng_pairs eng) True) ps ps1" "length (fl_node_ctrl c1) = ?n"
    "(fl_prefetch_enough c1, fl_cold_enough c1) = (fl_prefetch_enough (flow0 eng), fl_cold_enough (flow0 eng))"
    "hot_stage.stage_flow gps M (eng_pairs eng) True (rev (hot_counts eng)) (flow0 eng) ps c1 ps1 h"
    "later_untouched (eng_pairs eng) True (rev (hot_counts eng)) ps ps1" "others_untouched (rev (hot_counts eng)) ps ps1"
    using hot_stage_result [OF assms] by blast
  note ps1 = stage_params_ok [OF 1(2) ps]
  have nc1: "fl_node_ctrl c1 ! j = use_hot (h j) (hot_cap (ctrl_of eng j))" if "j < ?n" for j
    using 1(5) that by (simp add: hot_stage.stage_flow_def hot_cap_def)
  have used1: "\<forall>nc\<in>set (fl_node_ctrl c1). cc_used (nc_hot_prefetch_cap nc) = 0"
    using nc1 1(3) node_ctrl0_fresh [OF eng]
    by (auto simp: all_set_conv_all_nth hot_cap_def node_cal_hot_can_move_def Let_def fresh_ctrl_def)
  have "fl_prefetch_enough c1 = 0" using 1(4) by simp
  then obtain c2 ps2 p where 2: "prefetch_hot_pages gps eng c1 ps1 = Inr (c2, ps2)"
    "list_all2 (pid_step gps M N (eng_pairs eng) True) ps1 ps2" "length (fl_node_ctrl c2) = ?n"
    "(fl_hot_enough c2, fl_cold_enough c2) = (fl_hot_enough c1, fl_cold_enough c1)"
    "prefetch_stage.stage_flow gps M (eng_pairs eng) True (rev (cold_counts eng)) c1 ps1 c2 ps2 p"
    "later_untouched (eng_pairs eng) True (rev (cold_counts eng)) ps1 ps2" "others_untouched (rev (cold_counts eng)) ps1 ps2"
    using prefetch_stage_result [OF eng ps1 M 1(3) _ used1] by blast
  note ps2 = stage_params_ok [OF 2(2) ps1]
  have nc2: "fl_node_ctrl c2 ! j = use_prefetch (p j) (prefetch_cap (h j) (ctrl_of eng j))" if "j < ?n" for j
    using 2(5) that nc1 [OF that] by (simp add: prefetch_stage.stage_flow_def prefetch_cap_def)
  have used2: "\<forall>nc\<in>set (fl_node_ctrl c2). cc_used (nc_cold_move_cap nc) = 0"
    using nc2 2(3) node_ctrl0_fresh [OF eng]
    by (auto simp: all_set_conv_all_nth prefetch_cap_def hot_cap_def node_cal_hot_can_move_def Let_def fresh_ctrl_def
        node_cal_hot_can_prefetch_def node_update_hot_move_def)
  have "fl_cold_enough c2 = 0" using 1(4) 2(4) by simp
  then obtain c3 qs c where 3: "move_cold_pages gps eng c2 ps2 = Inr (c3, qs)"
    "list_all2 (pid_step gps M N (eng_pairs eng) False) ps2 qs"
    "cold_stage.stage_flow gps M (eng_pairs eng) False (cold_counts eng) c2 ps2 c3 qs c"
    "later_untouched (eng_pairs eng) False (cold_counts eng) ps2 qs" "others_untouched (cold_counts eng) ps2 qs"
    using cold_stage_result [OF eng ps2 M 2(3) _ used2] by blast
  show ?thesis
  proof (rule that [OF _ 1(2) 2(2) 3(2) _ _ _ _ 1(6,7) 2(6,7) 3(4,5)])
    show "cslide_filter_pfs gps eng ps [] = Inr (0, qs, [])"
      using 1(1) 2(1) 3(1) by (simp add: cslide_filter_pfs_def init_flow_ctrl_ok [OF eng])
    fix j assume j: "j < ?n"
    show "pair_flow M (ctrl_of eng j) (h j) (p j) (c j)
       (total_graded gps True j ps1 - total_graded gps True j ps) (total_graded gps True j ps2 - total_graded gps True j ps1)
       (total_graded gps False j qs - total_graded gps False j ps2)"
      using 1(5) 2(5) 3(3) j nc1 [OF j] nc2 [OF j]
      by (simp add: hot_stage.stage_flow_def prefetch_stage.stage_flow_def cold_stage.stage_flow_def pair_flow_def
          hot_cap_def prefetch_cap_def cold_cap_def)
    show "h j < cc_cap (nc_hot_move_cap (hot_cap (ctrl_of eng j))) \<Longrightarrow>
        no_pages_left (eng_pairs eng) True (rev (hot_counts eng)) j ps1"
      using 1(5) j by (simp add: hot_stage.stage_flow_def hot_cap_def no_pages_left_def)
    show "c j < cc_cap (nc_cold_move_cap (cold_cap (h j) (p j) (ctrl_of eng j))) \<Longrightarrow>
        no_pages_left (eng_pairs eng) False (cold_counts eng) j qs"
      using 3(3) j nc2 [OF j] by (simp add: cold_stage.stage_flow_def cold_cap_def no_pages_left_def)
    show "cc_cap (nc_hot_move_cap (hot_cap (ctrl_of eng j))) \<le> h j \<Longrightarrow> list_all2 (same_slots (eng_pairs eng) True j) ps1 ps2"
      using 2(5) j nc1 [OF j] hot_exhausted_no_prefetch [OF node_ctrl0_fresh [OF eng j]]
      by (simp add: prefetch_stage.stage_flow_def prefetch_cap_def)
  qed
qed

lemma total_other:
  "list_all2 (pid_step gps M N pairs b) ps qs \<Longrightarrow> j < length pairs \<Longrightarrow>
   total_graded gps (\<not> b) j qs = total_graded gps (\<not> b) j ps"
  by (induction ps qs rule: list_all2_induct) (auto simp: total_graded_def pid_step_def)

section \<open>Before the filter\<close>

text \<open>A process as the policy finds it: its lists are empty, and the pages found by the scan are in its areas.\<close>

definition found_pages :: "'d cslide_pid_params \<Rightarrow> 'd page_refs list" where
  "found_pages p =
     (case (cp_vmas p, cp_vma_pf p) of (Some _, Some vpf) \<Rightarrow> concat (map snd vpf) | _ \<Rightarrow> [])"

definition scanned_ok :: "u64 list \<Rightarrow> int \<Rightarrow> nat \<Rightarrow> cslide_eng_params \<Rightarrow> 'd cslide_pid_params \<Rightarrow> bool" where
  "scanned_ok gps M N eng p \<longleftrightarrow>
     cp_count p = ce_loop eng * MAX_ACCESS_WEIGHT \<and>
     cp_cpfs p = replicate (nat (cp_count p + 1)) (replicate N init_node_page_refs) \<and>
     cp_grade p = replicate (length (eng_pairs eng)) \<lparr>hot_pages = [], cold_pages = []\<rparr> \<and>
     (\<forall>q\<in>set (found_pages p). page_ok gps M q \<and> 0 \<le> pr_count q \<and> pr_count q \<le> cp_count p)"

definition counted :: "u64 list \<Rightarrow> (u32 \<Rightarrow> u64 \<Rightarrow> int) \<Rightarrow> 'd cslide_pid_params \<Rightarrow> 'd cslide_pid_params" where
  "counted gps nd p =
     (case (cp_vmas p, cp_vma_pf p) of
        (Some _, Some vpf) \<Rightarrow>
          if cp_state p = STATE_WORKING then
            p\<lparr>cp_cpfs := sorted_in gps (nd (cp_pid p)) (found_pages p) (cp_cpfs p),
              cp_vma_pf := Some (map (\<lambda>v. (fst v, [])) vpf)\<rparr>
          else p
      | _ \<Rightarrow> p)"

lemma count_pids_counted:
  assumes "\<forall>p\<in>set ps. scanned_ok gps M N eng p" "0 \<le> ce_loop eng"
  shows "count_pids gps (\<lambda>pid as. Some (map (nd pid) as)) ps [] = Inr (0, map (counted gps nd) ps, [])"
  using assms
proof (induction ps)
  case (Cons p ps)
  then have p: "scanned_ok gps M N eng p" by simp
  have "cslide_count_node_pfs gps (\<lambda>as. Some (map (nd (cp_pid p)) as)) p [] = Inr (0, counted gps nd p, [])"
    if w: "cp_state p = STATE_WORKING"
  proof (cases "\<exists>w vpf. cp_vmas p = Some w \<and> cp_vma_pf p = Some vpf")
    case True
    then obtain w' vpf where v: "cp_vmas p = Some w'" "cp_vma_pf p = Some vpf" by blast
    have "rect N (cp_cpfs p)" "counts_ok (cp_cpfs p) (concat (map snd vpf))"
      "\<forall>q\<in>set (concat (map snd vpf)). page_ok gps M q"
      using p v Cons.prems(2) by (auto simp: scanned_ok_def found_pages_def rect_def counts_ok_def)
    from count_node_pfs_eq [OF v this(1) this(3) this(2)] v w show ?thesis
      by (simp add: counted_def found_pages_def)
  qed (auto simp: cslide_count_node_pfs_def counted_def split: option.splits)
  moreover have "counted gps nd p = p" if "cp_state p \<noteq> STATE_WORKING"
    using that by (simp add: counted_def split: option.splits)
  ultimately show ?case using Cons by simp
qed simp

text \<open>After counting: every list holds its pages, its bytes and their number.\<close>

definition npf_full :: "u64 list \<Rightarrow> int \<Rightarrow> 'd node_page_refs \<Rightarrow> bool" where
  "npf_full gps M npf \<longleftrightarrow> npf_ok gps M npf \<and> np_num npf = of_nat (length (np_pages npf))"

lemma counted_ok:
  assumes "scanned_ok gps M N eng p" "0 \<le> ce_loop eng"
  shows "pid_ok gps M N (length (eng_pairs eng)) (counted gps nd p)"
    "int (length (cp_cpfs (counted gps nd p))) = ce_loop eng * MAX_ACCESS_WEIGHT + 1"
    "i < length (cp_cpfs p) \<Longrightarrow> m < N \<Longrightarrow> npf_full gps M (cp_cpfs (counted gps nd p) ! i ! m)"
    "cp_grade (counted gps nd p) = cp_grade p" "cp_state (counted gps nd p) = cp_state p"
    "cp_count (counted gps nd p) = cp_count p"
proof -
  have empty: "npf_full gps M (init_node_page_refs :: 'a node_page_refs)"
    by (simp add: npf_full_def npf_ok_def init_node_page_refs_def)
  have full: "npf_full gps M (cp_cpfs (counted gps nd p) ! i ! m)" if "i < length (cp_cpfs p)" "m < N" for i m
    using that assms empty
    by (auto simp: counted_def scanned_ok_def npf_full_def npf_ok_def add_pages_def init_node_page_refs_def found_pages_def
        split: option.splits)
  then show "i < length (cp_cpfs p) \<Longrightarrow> m < N \<Longrightarrow> npf_full gps M (cp_cpfs (counted gps nd p) ! i ! m)" by simp
  have len: "length (cp_cpfs (counted gps nd p)) = length (cp_cpfs p)"
    by (simp add: counted_def split: option.splits)
  then show "int (length (cp_cpfs (counted gps nd p))) = ce_loop eng * MAX_ACCESS_WEIGHT + 1"
    using assms by (simp add: scanned_ok_def)
  have "rect N (cp_cpfs p)" using assms by (auto simp: scanned_ok_def rect_def)
  then have "rect N (cp_cpfs (counted gps nd p))" by (simp add: counted_def split: option.splits)
  with full len show "pid_ok gps M N (length (eng_pairs eng)) (counted gps nd p)"
    using assms by (auto simp: pid_ok_def npf_full_def counted_def scanned_ok_def split: option.splits)
qed (simp_all add: counted_def split: option.splits)

text \<open>The statistics count in 32 bits; a wrap-around only makes the amount of cold memory smaller.\<close>

definition cold_len :: "int \<Rightarrow> nat \<Rightarrow> 'd cslide_pid_params \<Rightarrow> int" where
  "cold_len t m p = sum_list (map (\<lambda>cpf. int (length (np_pages (cpf ! m)))) (take (nat t) (cp_cpfs p)))"

lemma uint_add_le: "uint (a + b :: u32) \<le> uint a + uint b"
  using zmod_le_nonneg_dividend [of "uint a + uint b" "2 ^ 32"] by (simp add: uint_word_ariths)

lemma uint_pages_le: "uint (push_bit 11 (of_nat k :: u32)) \<le> 2048 * int k"
proof -
  have "uint (push_bit 11 (of_nat k :: u32)) = (2048 * int k) mod 2 ^ 32"
    by (simp add: push_bit_eq_mult uint_word_ariths unsigned_of_nat take_bit_eq_mod mod_mult_right_eq mult.commute zmod_int)
  also have "\<dots> \<le> 2048 * int k" by (rule zmod_le_nonneg_dividend) simp
  finally show ?thesis .
qed

lemma info_sum_le:
  "\<forall>cpf\<in>set cpfs. np_num (cpf ! m) = of_nat (length (np_pages (cpf ! m))) \<Longrightarrow>
   uint (info_sum cpfs m) \<le> 2048 * sum_list (map (\<lambda>cpf. int (length (np_pages (cpf ! m)))) cpfs)"
proof (induction cpfs)
  case (Cons cpf cpfs)
  have "uint (info_sum (cpf # cpfs) m) \<le> uint (push_bit 11 (np_num (cpf ! m))) + uint (info_sum cpfs m)"
    by (simp add: info_sum_def uint_add_le)
  with Cons uint_pages_le [of "length (np_pages (cpf ! m))"] show ?case by simp
qed (simp add: info_sum_def)

lemma stat_pids_frame:
  "stat_pids t ps host = (qs, host') \<Longrightarrow> list_all2 (\<lambda>p q. \<exists>info. q = p\<lparr>cp_info := info\<rparr>) ps qs"
proof (induction ps arbitrary: host qs host')
  case (Cons p ps)
  then show ?case
    by (auto simp: update_pages_info_def Let_def split: prod.splits if_splits)
      (metis cslide_pid_params.surjective cslide_pid_params.update_convs(5))+
qed simp

lemma cold_len_frame:
  "list_all2 (\<lambda>p q. \<exists>info. q = p\<lparr>cp_info := info\<rparr>) ps qs \<Longrightarrow>
   map (cold_len t m) (filter (\<lambda>p. cp_state p = STATE_WORKING) ps) =
   map (cold_len t m) (filter (\<lambda>p. cp_state p = STATE_WORKING) qs)"
  by (induction ps qs rule: list_all2_induct) (auto simp: cold_len_def)

definition pid_full :: "u64 list \<Rightarrow> int \<Rightarrow> nat \<Rightarrow> 'd cslide_pid_params \<Rightarrow> bool" where
  "pid_full gps M N p \<longleftrightarrow> rect N (cp_cpfs p) \<and> int (length (cp_cpfs p)) = cp_count p + 1 \<and>
     (\<forall>i < length (cp_cpfs p). \<forall>m < N. npf_full gps M (cp_cpfs p ! i ! m))"

lemma counted_full:
  assumes "scanned_ok gps M N eng p" "0 \<le> ce_loop eng"
  shows "pid_full gps M N (counted gps nd p)"
proof -
  have "length (cp_cpfs (counted gps nd p)) = length (cp_cpfs p)" by (simp add: counted_def split: option.splits)
  with counted_ok(1-3,6) [OF assms, where nd = nd] assms(1) show ?thesis
    by (simp add: pid_full_def pid_ok_def scanned_ok_def)
qed

lemma stat_pids_len:
  "stat_pids t ps host = (qs, host') \<Longrightarrow> \<forall>p\<in>set ps. length (hd (cp_cpfs p)) = length host \<Longrightarrow> length host' = length host"
proof (induction ps arbitrary: host qs)
  case (Cons p ps)
  then show ?case
    by (fastforce simp: update_pages_info_def Let_def split: prod.splits if_splits)
qed simp

lemma stat_pids_cold:
  assumes "stat_pids t ps host = (qs, host')" "length host = N" "\<forall>p\<in>set ps. pid_full gps M N p" "m < N" "0 \<le> t"
  shows "length host' = N \<and> uint (ni_cold (host' ! m)) \<le> uint (ni_cold (host ! m)) +
    2048 * sum_list (map (cold_len t m) (filter (\<lambda>p. cp_state p = STATE_WORKING) ps))"
  using assms
proof (induction ps arbitrary: host qs)
  case (Cons p ps)
  show ?case
  proof (cases "cp_state p = STATE_WORKING")
    case False
    with Cons show ?thesis by (auto split: prod.splits)
  next
    case True
    obtain p1 host1 where u: "update_pages_info t p host = (p1, host1)" by fastforce
    obtain qs1 where r: "stat_pids t ps host1 = (qs1, host')" using Cons.prems(1) True u by (auto split: prod.splits)
    have p: "pid_full gps M N p" using Cons.prems(3) by simp
    let ?a = "nat (if t > cp_count p then cp_count p + 1 else t)"
    have take: "take ?a (cp_cpfs p) = take (nat t) (cp_cpfs p)"
      using p by (auto simp: pid_full_def)
    have "\<forall>cpf\<in>set (take (nat t) (cp_cpfs p)). np_num (cpf ! m) = of_nat (length (np_pages (cpf ! m)))"
      using p Cons.prems(4) by (auto simp: pid_full_def npf_full_def in_set_conv_nth)
    from info_sum_le [OF this] have i: "uint (info_sum (take (nat t) (cp_cpfs p)) m) \<le> 2048 * cold_len t m p"
      by (simp add: cold_len_def)
    have h1: "length host1 = N" "ni_cold (host1 ! m) = ni_cold (host ! m) + info_sum (take (nat t) (cp_cpfs p)) m"
      using u p Cons.prems(2,4) take by (auto simp: update_pages_info_def Let_def pid_full_def rect_hd)
    have "uint (ni_cold (host1 ! m)) \<le> uint (ni_cold (host ! m)) + 2048 * cold_len t m p"
      using uint_add_le [of "ni_cold (host ! m)" "info_sum (take (nat t) (cp_cpfs p)) m"] i by (simp add: h1(2))
    with Cons.IH [OF r h1(1) _ Cons.prems(4,5)] Cons.prems(3) True show ?thesis by (simp add: algebra_simps)
  qed
qed simp

text \<open>The whole policy: \<open>rs\<close> are the processes when the filter starts.\<close>

lemma policy_stages:
  assumes eng: "eng_ok N eng" and ps: "\<forall>p\<in>set ps. scanned_ok gps M N eng p" and M: "0 < M"
  obtains eng' rs ret where "eng' = eng\<lparr>ce_host_pages_info := ret\<rparr>" "eng_ok N eng'" "params_ok gps M N eng' rs"
    "list_all2 (\<lambda>p r. \<exists>info. r = (counted gps nd p)\<lparr>cp_info := info\<rparr>) ps rs"
    "\<And>m. m < N \<Longrightarrow> uint (ni_cold (ce_host_pages_info eng' ! m)) \<le>
       2048 * sum_list (map (cold_len (ce_hot_threshold eng) m) (filter (\<lambda>p. cp_state p = STATE_WORKING) rs))"
    "\<And>qs. cslide_filter_pfs gps eng' rs [] = Inr (0, qs, []) \<Longrightarrow>
       cslide_policy gps (\<lambda>pid as. Some (map (nd pid) as)) eng ps [] = Inr (0, eng', qs, [])"
proof -
  have L: "0 \<le> ce_loop eng" and t: "0 \<le> ce_hot_threshold eng" and N: "length (ce_mem eng) = N"
    using eng by (simp_all add: eng_ok_def)
  let ?cs = "map (counted gps nd) ps" and ?h0 = "init_host_pages_info N"
  obtain rs host where st: "stat_pids (ce_hot_threshold eng) ?cs ?h0 = (rs, host)" by fastforce
  let ?eng = "eng\<lparr>ce_host_pages_info := host\<rparr>"
  note fr = stat_pids_frame [OF st]
  have full: "\<forall>p\<in>set ?cs. pid_full gps M N p"
    using ps by (simp add: counted_full [OF _ L])
  have host: "length host = N"
    using stat_pids_len [OF st] full by (simp add: init_host_pages_info_def pid_full_def rect_hd)
  have cold: "uint (ni_cold (host ! m)) \<le> 2048 * sum_list (map (cold_len (ce_hot_threshold eng) m)
      (filter (\<lambda>p. cp_state p = STATE_WORKING) rs))" if "m < N" for m
    using stat_pids_cold [OF st _ full that t] that cold_len_frame [OF fr, of "ce_hot_threshold eng" m]
    by (simp add: init_host_pages_info_def)
  show ?thesis
  proof (rule that [of ?eng host rs])
    show "params_ok gps M N ?eng rs"
      unfolding params_ok_def
    proof
      fix r assume "r \<in> set rs"
      from list_all2_in2 [OF fr this] obtain p info where "p \<in> set ps" "r = (counted gps nd p)\<lparr>cp_info := info\<rparr>"
        by auto
      with ps counted_ok(1,2) [OF _ L, of gps M N p nd] show "pid_ok gps M N (length (eng_pairs ?eng)) r \<and>
          int (length (cp_cpfs r)) = ce_loop ?eng * MAX_ACCESS_WEIGHT + 1"
        by (simp add: pid_ok_def)
    qed
    show "list_all2 (\<lambda>p r. \<exists>info. r = (counted gps nd p)\<lparr>cp_info := info\<rparr>) ps rs"
      using fr by (simp add: list_all2_map1)
    fix qs assume "cslide_filter_pfs gps ?eng rs [] = Inr (0, qs, [])"
    then show "cslide_policy gps (\<lambda>pid as. Some (map (nd pid) as)) eng ps [] = Inr (0, ?eng, qs, [])"
      by (simp add: cslide_policy_def count_pids_counted [OF ps L] cslide_stat_def N st)
  qed (use eng host cold in \<open>simp_all add: eng_ok_def\<close>)
qed

section \<open>What the lists hold\<close>

lemma sum_mset_image_mset_list: "sum_mset (image_mset f (mset xs)) = sum_list (map f xs)"
  by (metis mset_map sum_mset_sum_list)

lemma side_pages_bytes:
  "sum_mset (image_mset (psize gps) (side_pages pairs b p j)) =
     bytes gps (graded b (cp_grade p ! j)) +
     sum_list (map (\<lambda>i. bytes gps (np_pages (slot pairs b p i j))) [0..<length (cp_cpfs p)])"
proof -
  have "sum_mset (image_mset (psize gps) (sum_list (map (\<lambda>i. mset (np_pages (slot pairs b p i j))) is))) =
      sum_list (map (\<lambda>i. bytes gps (np_pages (slot pairs b p i j))) is)" for "is"
    by (induction "is") (simp_all add: sum_mset_image_mset_list)
  then show ?thesis by (simp add: side_pages_def sum_mset_image_mset_list)
qed

text \<open>When no cold page is left on the hot node of a pair, all of them were demoted.\<close>

lemma demoted_all:
  assumes st: "pid_step gps M N pairs False p q" and j: "j < length pairs" and t: "0 \<le> t"
    and left: "\<forall>i\<in>set [0..t - 1]. np_pages (slot pairs False q (nat i) j) = []"
    and others: "\<forall>r. int r \<notin> set [0..t - 1] \<longrightarrow> cp_cpfs q ! r = cp_cpfs p ! r"
  shows "bytes gps (graded False (cp_grade q ! j)) = bytes gps (graded False (cp_grade p ! j)) +
    sum_list (map (\<lambda>cpf. bytes gps (np_pages (cpf ! src_node False (pairs ! j)))) (take (nat t) (cp_cpfs p)))"
proof -
  let ?n = "length (cp_cpfs p)" and ?f = "\<lambda>p i. bytes gps (np_pages (slot pairs False p i j))"
  have len: "length (cp_cpfs q) = ?n" using st by (simp add: pid_step_def)
  have "side_pages pairs False q j = side_pages pairs False p j" using st j by (simp add: pid_step_def)
  then have "bytes gps (graded False (cp_grade q ! j)) + sum_list (map (?f q) [0..<?n]) =
      bytes gps (graded False (cp_grade p ! j)) + sum_list (map (?f p) [0..<?n])"
    by (metis side_pages_bytes len)
  moreover have "sum_list (map (?f p) [0..<?n]) = sum_list (map (?f p) [0..<min (nat t) ?n]) + sum_list (map (?f q) [0..<?n])"
  proof -
    have split: "sum_list (map g [0..<?n]) = sum_list (map g [0..<min (nat t) ?n]) + sum_list (map g [min (nat t) ?n..<?n])"
      for g :: "nat \<Rightarrow> int"
      using upt_add_eq_append [of 0 "min (nat t) ?n" "?n - min (nat t) ?n"] by simp
    have "?f q x = 0" if "x < nat t" for x
      using left that t by (auto dest!: bspec [where x = "int x"])
    then have "map (?f q) [0..<min (nat t) ?n] = map (\<lambda>_. 0) [0..<min (nat t) ?n]"
      by (intro map_cong) auto
    moreover have "map (?f q) [min (nat t) ?n..<?n] = map (?f p) [min (nat t) ?n..<?n]"
      using others t by (intro map_cong) (auto simp: slot_def)
    ultimately show ?thesis by (simp only: split sum_list_0 sum_list_triv)
  qed
  moreover have "map (\<lambda>cpf. bytes gps (np_pages (cpf ! src_node False (pairs ! j)))) (take (nat t) (cp_cpfs p)) =
      map (?f p) [0..<min (nat t) ?n]"
    by (intro nth_equalityI) (auto simp: slot_def)
  ultimately show ?thesis by simp
qed

lemma bytes_uniform: "\<forall>r\<in>set ps. psize gps r = M \<Longrightarrow> bytes gps ps = M * int (length ps)"
  by (induction ps) (auto simp: algebra_simps)

definition uniform_slots :: "u64 list \<Rightarrow> int \<Rightarrow> node_pair list \<Rightarrow> nat \<Rightarrow> 'd cslide_pid_params \<Rightarrow> bool" where
  "uniform_slots gps M pairs j p \<longleftrightarrow>
     (\<forall>i < length (cp_cpfs p). \<forall>r\<in>set (np_pages (slot pairs False p i j)). psize gps r = M)"

lemma cold_covered:
  assumes "list_all2 (pid_step gps M' N pairs False) ps qs" "others_untouched [0..t - 1] ps qs" "j < length pairs" "0 \<le> t"
    and "\<forall>q\<in>set qs. \<forall>i\<in>set [0..t - 1]. np_pages (slot pairs False q (nat i) j) = []"
    and "\<forall>p\<in>set ps. uniform_slots gps M pairs j p"
  shows "total_graded gps False j qs - total_graded gps False j ps =
    M * sum_list (map (cold_len t (src_node False (pairs ! j))) ps)"
proof -
  let ?m = "src_node False (pairs ! j)"
  have one: "bytes gps (graded False (cp_grade q ! j)) = bytes gps (graded False (cp_grade p ! j)) + M * cold_len t ?m p"
    if "pid_step gps M' N pairs False p q" "\<forall>r. int r \<notin> set [0..t - 1] \<longrightarrow> cp_cpfs q ! r = cp_cpfs p ! r"
      "\<forall>i\<in>set [0..t - 1]. np_pages (slot pairs False q (nat i) j) = []" "uniform_slots gps M pairs j p" for p q
  proof -
    have "bytes gps (np_pages (cpf ! ?m)) = M * int (length (np_pages (cpf ! ?m)))" if "cpf \<in> set (take (nat t) (cp_cpfs p))" for cpf
      using that \<open>uniform_slots gps M pairs j p\<close>
      by (intro bytes_uniform) (auto simp: uniform_slots_def slot_def in_set_conv_nth)
    then have "sum_list (map (\<lambda>cpf. bytes gps (np_pages (cpf ! ?m))) (take (nat t) (cp_cpfs p))) = M * cold_len t ?m p"
      by (simp add: cold_len_def sum_list_const_mult cong: map_cong)
    with demoted_all [OF that(1) assms(3,4) that(3,2)] show ?thesis by simp
  qed
  have "list_all2 (\<lambda>p q. bytes gps (graded False (cp_grade q ! j)) =
      bytes gps (graded False (cp_grade p ! j)) + M * cold_len t ?m p) ps qs"
    unfolding list_all2_conv_all_nth
  proof (intro conjI allI impI)
    fix x assume x: "x < length ps"
    then have "x < length qs" "ps ! x \<in> set ps" "qs ! x \<in> set qs" using assms(1) list_all2_lengthD by fastforce+
    moreover have "\<forall>r. int r \<notin> set [0..t - 1] \<longrightarrow> cp_cpfs (qs ! x) ! r = cp_cpfs (ps ! x) ! r"
      using assms(2) x unfolding others_untouched_def list_all2_conv_all_nth by blast
    moreover have "pid_step gps M' N pairs False (ps ! x) (qs ! x)"
      using assms(1) x by (simp add: list_all2_conv_all_nth)
    ultimately show "bytes gps (graded False (cp_grade (qs ! x) ! j)) =
        bytes gps (graded False (cp_grade (ps ! x) ! j)) + M * cold_len t ?m (ps ! x)"
      using one assms(5,6) by blast
  qed (use assms(1) list_all2_lengthD in blast)
  then show ?thesis
    by (induction ps qs rule: list_all2_induct) (auto simp: total_graded_def algebra_simps)
qed

text \<open>Slots of the processes when the filter starts.\<close>

lemma counted_slot:
  assumes "scanned_ok gps M N eng p" "i < length (cp_cpfs p)" "m < N"
  shows "np_pages (cp_cpfs (counted gps nd p) ! i ! m) =
    (if cp_state p = STATE_WORKING
     then filter (\<lambda>q. pr_count q = int i \<and> nd (cp_pid p) (pr_addr q) = int m) (found_pages p) else [])"
  using assms
  by (auto simp: counted_def scanned_ok_def found_pages_def add_pages_def init_node_page_refs_def split: option.splits)

lemma counted_length: "length (cp_cpfs (counted gps nd p)) = length (cp_cpfs p)"
  by (simp add: counted_def split: option.splits)

lemma counted_state: "cp_state (counted gps nd p) = cp_state p"
  by (simp add: counted_def split: option.splits)

lemma started_graded:
  assumes "\<forall>p\<in>set ps. scanned_ok gps M N eng p" "list_all2 (\<lambda>p r. \<exists>info. r = (counted gps nd p)\<lparr>cp_info := info\<rparr>) ps rs"
    and "j < length (eng_pairs eng)" "r \<in> set rs"
  shows "graded b (cp_grade r ! j) = []"
proof -
  from list_all2_in2 [OF assms(2,4)] obtain p info where "p \<in> set ps" "r = (counted gps nd p)\<lparr>cp_info := info\<rparr>" by auto
  with assms(1,3) show ?thesis by (auto simp: graded_def counted_def scanned_ok_def split: option.splits)
qed

lemma started_total:
  assumes "\<forall>p\<in>set ps. scanned_ok gps M N eng p" "list_all2 (\<lambda>p r. \<exists>info. r = (counted gps nd p)\<lparr>cp_info := info\<rparr>) ps rs"
    and "j < length (eng_pairs eng)"
  shows "total_graded gps b j rs = 0"
proof -
  have "map (\<lambda>p. bytes gps (graded b (cp_grade p ! j))) rs = map (\<lambda>_. 0) rs"
    using started_graded [OF assms] by (intro map_cong) auto
  then show ?thesis by (simp only: total_graded_def sum_list_0)
qed

text \<open>From the start of the filter to its end.\<close>

definition kept :: "node_pair list \<Rightarrow> 'd cslide_pid_params \<Rightarrow> 'd cslide_pid_params \<Rightarrow> bool" where
  "kept pairs r q \<longleftrightarrow> (\<forall>b. \<forall>j < length pairs. side_pages pairs b q j = side_pages pairs b r j \<and>
     (\<forall>i < length (cp_cpfs r). set (np_pages (slot pairs b q i j)) \<subseteq> set (np_pages (slot pairs b r i j)))) \<and>
     cp_state q = cp_state r \<and> length (cp_cpfs q) = length (cp_cpfs r)"

lemma pid_step_kept: "pid_step gps M N pairs b p q \<Longrightarrow> kept pairs p q"
proof -
  assume a: "pid_step gps M N pairs b p q"
  have "set (np_pages (slot pairs c q i j)) \<subseteq> set (np_pages (slot pairs c p i j))"
    if "i < length (cp_cpfs p)" "j < length pairs" for c i j
    using a that by (cases "c = b") (auto simp: pid_step_def)
  with a show ?thesis by (simp add: kept_def pid_step_def pid_frame_def)
qed

lemma kept_trans: "kept pairs p q \<Longrightarrow> kept pairs q r \<Longrightarrow> kept pairs p r"
  by (simp add: kept_def) blast

lemma kept_step: "list_all2 (kept pairs) rs ps \<Longrightarrow> list_all2 (pid_step gps M N pairs b) ps qs \<Longrightarrow> list_all2 (kept pairs) rs qs"
proof (rule list_all2_trans [of "kept pairs" "kept pairs" "kept pairs"])
  show "\<And>a b c. kept pairs a b \<Longrightarrow> kept pairs b c \<Longrightarrow> kept pairs a c" by (rule kept_trans)
qed (auto elim: list_all2_mono intro: pid_step_kept)

lemma kept_refl: "list_all2 (kept pairs) rs rs"
  by (simp add: kept_def list.rel_refl)

lemma kept_graded:
  assumes "kept pairs r q" "j < length pairs" "graded b (cp_grade r ! j) = []" "s \<in> set (graded b (cp_grade q ! j))"
  shows "\<exists>i < length (cp_cpfs r). s \<in> set (np_pages (slot pairs b r i j))"
proof -
  have "s \<in># side_pages pairs b q j" using assms(4) by (simp add: side_pages_def)
  then have "s \<in># side_pages pairs b r j" using assms(1,2) by (simp add: kept_def)
  with assms(3) show ?thesis by (auto simp: side_pages_def set_mset_sum_list)
qed

text \<open>The pages listed when the filter starts were found in a working process.\<close>

lemma started_slot:
  assumes "\<forall>p\<in>set ps. scanned_ok gps M N eng p" "list_all2 (\<lambda>p r. \<exists>info. r = (counted gps nd p)\<lparr>cp_info := info\<rparr>) ps rs"
    and "r \<in> set rs" "i < length (cp_cpfs r)" "m < N" "s \<in> set (np_pages (cp_cpfs r ! i ! m))"
  shows "cp_state r = STATE_WORKING \<and> pr_count s = int i \<and> (\<exists>p\<in>set ps. s \<in> set (found_pages p))"
proof -
  from list_all2_in2 [OF assms(2,3)] obtain p info where p: "p \<in> set ps" "r = (counted gps nd p)\<lparr>cp_info := info\<rparr>" by auto
  with assms(1,4,5,6) show ?thesis
    by (auto simp: counted_slot [of gps M N eng p] counted_length counted_state split: if_splits)
qed

definition all_size :: "u64 list \<Rightarrow> int \<Rightarrow> 'd cslide_pid_params list \<Rightarrow> bool" where
  "all_size gps M ps \<longleftrightarrow> (\<forall>p\<in>set ps. \<forall>s\<in>set (found_pages p). psize gps s = M)"

lemma kept_total_dvd:
  assumes "\<forall>p\<in>set ps. scanned_ok gps M N eng p" "list_all2 (\<lambda>p r. \<exists>info. r = (counted gps nd p)\<lparr>cp_info := info\<rparr>) ps rs"
    and "list_all2 (kept (eng_pairs eng)) rs qs" "j < length (eng_pairs eng)" "pairs_ok N (eng_pairs eng)" "all_size gps M ps"
  shows "M dvd total_graded gps b j qs"
proof -
  have "M dvd bytes gps (graded b (cp_grade q ! j))" if "q \<in> set qs" for q
  proof -
    from list_all2_in2 [OF assms(3) that] obtain r where r: "r \<in> set rs" "kept (eng_pairs eng) r q" by blast
    have "psize gps s = M" if s: "s \<in> set (graded b (cp_grade q ! j))" for s
    proof -
      obtain i where "i < length (cp_cpfs r)" "s \<in> set (np_pages (slot (eng_pairs eng) b r i j))"
        using kept_graded [OF r(2) assms(4) started_graded [OF assms(1,2,4) r(1)] s] by blast
      with started_slot [OF assms(1,2) r(1)] src_node_less [OF assms(5,4)] assms(6) show ?thesis
        by (fastforce simp: slot_def all_size_def)
    qed
    then have "\<forall>s\<in>set (graded b (cp_grade q ! j)). psize gps s = M" by blast
    then show ?thesis by (simp only: bytes_uniform dvd_triv_left)
  qed
  then show ?thesis unfolding total_graded_def by (induction qs) auto
qed

text \<open>All of it, from the scanned processes \<open>ps\<close> over those at the start of the filter, \<open>rs\<close>, and after its
  stages, \<open>ps1\<close>, \<open>ps2\<close>, \<open>qs\<close>.\<close>

definition started where
  "started gps nd ps rs \<longleftrightarrow> list_all2 (\<lambda>p r. \<exists>info. r = (counted gps nd p)\<lparr>cp_info := info\<rparr>) ps rs"

lemma policy_run:
  assumes eng: "eng_ok N eng" and ps: "\<forall>p\<in>set ps. scanned_ok gps M N eng p" and M: "0 < M"
  obtains eng' rs ps1 ps2 qs h p c ret where
    "cslide_policy gps (\<lambda>pid as. Some (map (nd pid) as)) eng ps [] = Inr (0, eng', qs, [])"
    "eng' = eng\<lparr>ce_host_pages_info := ret\<rparr>" "eng_ok N eng'" "params_ok gps M N eng' rs" "started gps nd ps rs"
    "\<And>m. m < N \<Longrightarrow> uint (ni_cold (ce_host_pages_info eng' ! m)) \<le>
       2048 * sum_list (map (cold_len (ce_hot_threshold eng) m) (filter (\<lambda>p. cp_state p = STATE_WORKING) rs))"
    "list_all2 (pid_step gps M N (eng_pairs eng) True) rs ps1" "list_all2 (pid_step gps M N (eng_pairs eng) True) ps1 ps2"
    "list_all2 (pid_step gps M N (eng_pairs eng) False) ps2 qs"
    "\<And>j. j < length (eng_pairs eng) \<Longrightarrow> pair_flow M (node_ctrl0 eng' (eng_pairs eng ! j)) (h j) (p j) (c j)
       (total_graded gps True j ps1) (total_graded gps True j qs - total_graded gps True j ps1) (total_graded gps False j qs)"
    "\<And>j. j < length (eng_pairs eng) \<Longrightarrow> h j < cc_cap (nc_hot_move_cap (hot_cap (node_ctrl0 eng' (eng_pairs eng ! j)))) \<Longrightarrow>
       no_pages_left (eng_pairs eng) True (rev (hot_counts eng)) j ps1"
    "\<And>j. j < length (eng_pairs eng) \<Longrightarrow> c j < cc_cap (nc_cold_move_cap (cold_cap (h j) (p j) (node_ctrl0 eng' (eng_pairs eng ! j)))) \<Longrightarrow>
       no_pages_left (eng_pairs eng) False (cold_counts eng) j qs"
    "\<And>j. j < length (eng_pairs eng) \<Longrightarrow> cc_cap (nc_hot_move_cap (hot_cap (node_ctrl0 eng' (eng_pairs eng ! j)))) \<le> h j \<Longrightarrow>
       list_all2 (same_slots (eng_pairs eng) True j) ps1 ps2"
    "later_untouched (eng_pairs eng) True (rev (hot_counts eng)) rs ps1" "others_untouched (rev (hot_counts eng)) rs ps1"
    "later_untouched (eng_pairs eng) True (rev (cold_counts eng)) ps1 ps2" "others_untouched (rev (cold_counts eng)) ps1 ps2"
    "later_untouched (eng_pairs eng) False (cold_counts eng) ps2 qs" "others_untouched (cold_counts eng) ps2 qs"
proof (rule policy_stages [OF assms, where nd = nd])
  fix eng' rs ret
  assume e: "eng' = eng\<lparr>ce_host_pages_info := ret\<rparr>" "eng_ok N eng'" "params_ok gps M N eng' rs"
    "list_all2 (\<lambda>p r. \<exists>info. r = (counted gps nd p)\<lparr>cp_info := info\<rparr>) ps rs"
    and cold: "\<And>m. m < N \<Longrightarrow> uint (ni_cold (ce_host_pages_info eng' ! m)) \<le>
       2048 * sum_list (map (cold_len (ce_hot_threshold eng) m) (filter (\<lambda>p. cp_state p = STATE_WORKING) rs))"
    and pol: "\<And>qs. cslide_filter_pfs gps eng' rs [] = Inr (0, qs, []) \<Longrightarrow>
       cslide_policy gps (\<lambda>pid as. Some (map (nd pid) as)) eng ps [] = Inr (0, eng', qs, [])"
  have same: "eng_pairs eng' = eng_pairs eng" "hot_counts eng' = hot_counts eng" "cold_counts eng' = cold_counts eng"
    by (simp_all add: e(1) hot_counts_def cold_counts_def)
  show ?thesis
  proof (rule filter_stages [OF e(2,3) M], unfold same)
    fix ps1 ps2 qs h p c
    assume f: "cslide_filter_pfs gps eng' rs [] = Inr (0, qs, [])"
      "list_all2 (pid_step gps M N (eng_pairs eng) True) rs ps1" "list_all2 (pid_step gps M N (eng_pairs eng) True) ps1 ps2"
      "list_all2 (pid_step gps M N (eng_pairs eng) False) ps2 qs"
      and fl: "\<And>j. j < length (eng_pairs eng) \<Longrightarrow> pair_flow M (node_ctrl0 eng' (eng_pairs eng ! j)) (h j) (p j) (c j)
         (total_graded gps True j ps1 - total_graded gps True j rs) (total_graded gps True j ps2 - total_graded gps True j ps1)
         (total_graded gps False j qs - total_graded gps False j ps2)"
      and l: "\<And>j. j < length (eng_pairs eng) \<Longrightarrow> h j < cc_cap (nc_hot_move_cap (hot_cap (node_ctrl0 eng' (eng_pairs eng ! j)))) \<Longrightarrow>
           no_pages_left (eng_pairs eng) True (rev (hot_counts eng)) j ps1"
        "\<And>j. j < length (eng_pairs eng) \<Longrightarrow> c j < cc_cap (nc_cold_move_cap (cold_cap (h j) (p j) (node_ctrl0 eng' (eng_pairs eng ! j)))) \<Longrightarrow>
           no_pages_left (eng_pairs eng) False (cold_counts eng) j qs"
        "\<And>j. j < length (eng_pairs eng) \<Longrightarrow> cc_cap (nc_hot_move_cap (hot_cap (node_ctrl0 eng' (eng_pairs eng ! j)))) \<le> h j \<Longrightarrow>
           list_all2 (same_slots (eng_pairs eng) True j) ps1 ps2"
      and u: "later_untouched (eng_pairs eng) True (rev (hot_counts eng)) rs ps1" "others_untouched (rev (hot_counts eng)) rs ps1"
        "later_untouched (eng_pairs eng) True (rev (cold_counts eng)) ps1 ps2" "others_untouched (rev (cold_counts eng)) ps1 ps2"
        "later_untouched (eng_pairs eng) False (cold_counts eng) ps2 qs" "others_untouched (cold_counts eng) ps2 qs"
    have z: "total_graded gps b j rs = 0" if "j < length (eng_pairs eng)" for b j
      by (rule started_total [OF ps e(4) that])
    have flow: "pair_flow M (node_ctrl0 eng' (eng_pairs eng ! j)) (h j) (p j) (c j)
       (total_graded gps True j ps1) (total_graded gps True j qs - total_graded gps True j ps1) (total_graded gps False j qs)"
      if "j < length (eng_pairs eng)" for j
      using fl [OF that] z [OF that] total_other [OF f(2) that] total_other [OF f(3) that] total_other [OF f(4) that]
      by simp
    show ?thesis
      by (rule that [OF pol [OF f(1)] e(1-3) e(4) [folded started_def] _ f(2-4)]) (fact cold flow l u)+
  qed
qed

end
