(* ===== verification/Cslide_Result.thy ===== *)
theory Cslide_Result
  imports Cslide_Balance
begin

text \<open>
  What one round of the cslide policy achieves: the quota is kept, no node of a pair is given more than it has
  room for, hotter pages go before colder ones, and no page is lost. The proofs put together the run of the
  policy (\<open>policy_run\<close>) and the facts on the lists of the previous theory.
\<close>

section \<open>Lists after the filter\<close>

lemma started_kept:
  assumes "list_all2 (pid_step gps M N pairs True) rs ps1" "list_all2 (pid_step gps M N pairs True) ps1 ps2"
    and "list_all2 (pid_step gps M N pairs False) ps2 qs"
  shows "list_all2 (kept pairs) rs ps1" "list_all2 (kept pairs) rs ps2" "list_all2 (kept pairs) rs qs"
proof -
  show 1: "list_all2 (kept pairs) rs ps1" by (rule kept_step [OF kept_refl assms(1)])
  show 2: "list_all2 (kept pairs) rs ps2" by (rule kept_step [OF 1 assms(2)])
  show "list_all2 (kept pairs) rs qs" by (rule kept_step [OF 2 assms(3)])
qed

text \<open>A page listed after some stages was listed before them.\<close>

lemma kept_slot:
  assumes "\<forall>p\<in>set ps. scanned_ok gps M N eng p" "started gps nd ps rs" "pairs_ok N (eng_pairs eng)"
    and "list_all2 (kept (eng_pairs eng)) rs qs" "q \<in> set qs" "i < length (cp_cpfs q)" "j < length (eng_pairs eng)"
    and "s \<in> set (np_pages (slot (eng_pairs eng) b q i j))"
  shows "cp_state q = STATE_WORKING \<and> pr_count s = int i \<and> (\<exists>p\<in>set ps. s \<in> set (found_pages p))"
proof -
  from list_all2_in2 [OF assms(4,5)] obtain r where r: "r \<in> set rs" "kept (eng_pairs eng) r q" by blast
  then have "i < length (cp_cpfs r)" "s \<in> set (np_pages (cp_cpfs r ! i ! src_node b (eng_pairs eng ! j)))" "cp_state q = cp_state r"
    using assms(6-8) by (auto simp: kept_def slot_def)
  with started_slot [OF assms(1) assms(2) [unfolded started_def] r(1), of i "src_node b (eng_pairs eng ! j)" s] src_node_less [OF assms(3,7), of b]
  show ?thesis by simp
qed

text \<open>A count whose lists did not change gave no page to the lists of the stage.\<close>

lemma sum_list_filter_mset:
  "filter_mset P (sum_list xs) = sum_list (map (filter_mset P) xs)"
  by (induction xs) auto

lemma side_pages_count:
  assumes "i < length (cp_cpfs p)" "\<And>k s. k < length (cp_cpfs p) \<Longrightarrow> s \<in> set (np_pages (slot pairs b p k j)) \<Longrightarrow> pr_count s = int k"
  shows "filter_mset (\<lambda>s. pr_count s = int i) (side_pages pairs b p j) =
    filter_mset (\<lambda>s. pr_count s = int i) (mset (graded b (cp_grade p ! j))) + mset (np_pages (slot pairs b p i j))"
proof -
  let ?F = "\<lambda>k. filter_mset (\<lambda>s. pr_count s = int i) (mset (np_pages (slot pairs b p k j)))"
  have "?F i = mset (np_pages (slot pairs b p i j)) + {#}" "\<And>k. k < length (cp_cpfs p) \<Longrightarrow> k \<noteq> i \<Longrightarrow> ?F k = {#}"
    using assms by (auto simp: filter_empty_conv simp flip: mset_filter)
  then have "sum_list (map ?F [0..<length (cp_cpfs p)]) =
      mset (np_pages (slot pairs b p i j)) + sum_list (map (\<lambda>_. {#}) [0..<length (cp_cpfs p)])"
    using assms(1) by (intro sum_list_split_at [of i]) auto
  then show ?thesis by (simp add: side_pages_def sum_list_filter_mset comp_def)
qed

lemma untouched_not_graded:
  assumes ps: "\<forall>p\<in>set ps. scanned_ok gps M N eng p" and st: "started gps nd ps rs" and pairs: "pairs_ok N (eng_pairs eng)"
    and k: "list_all2 (kept (eng_pairs eng)) rs qs" and j: "j < length (eng_pairs eng)"
    and same: "list_all2 (\<lambda>p q. slot (eng_pairs eng) b q i j = slot (eng_pairs eng) b p i j) rs qs"
    and q: "q \<in> set qs" and s: "s \<in> set (graded b (cp_grade q ! j))"
  shows "pr_count s \<noteq> int i"
proof
  assume i: "pr_count s = int i"
  from q obtain x where x: "x < length qs" "q = qs ! x" by (auto simp: in_set_conv_nth)
  define r where "r = rs ! x"
  have r: "r \<in> set rs" "kept (eng_pairs eng) r q" "slot (eng_pairs eng) b q i j = slot (eng_pairs eng) b r i j"
    using x k same by (auto simp: list_all2_conv_all_nth r_def)
  have gr: "graded b (cp_grade r ! j) = []" by (rule started_graded [OF ps st [unfolded started_def] j r(1)])
  have len: "length (cp_cpfs q) = length (cp_cpfs r)" using r(2) by (simp add: kept_def)
  obtain i' where "i' < length (cp_cpfs r)" "s \<in> set (np_pages (slot (eng_pairs eng) b r i' j))"
    using kept_graded [OF r(2) j gr s] by blast
  with kept_slot [OF ps st pairs kept_refl r(1) _ j] i have i': "i < length (cp_cpfs r)" by fastforce
  note cnt = side_pages_count [where pairs = "eng_pairs eng" and b = b and j = j]
  have "filter_mset (\<lambda>s. pr_count s = int i) (side_pages (eng_pairs eng) b q j) =
      filter_mset (\<lambda>s. pr_count s = int i) (side_pages (eng_pairs eng) b r j)"
    using r(2) j by (simp add: kept_def)
  moreover have "filter_mset (\<lambda>s. pr_count s = int i) (side_pages (eng_pairs eng) b q j) =
      filter_mset (\<lambda>s. pr_count s = int i) (mset (graded b (cp_grade q ! j))) + mset (np_pages (slot (eng_pairs eng) b r i j))"
    using i' len r(3) kept_slot [OF ps st pairs k q _ j] by (subst cnt) auto
  moreover have "filter_mset (\<lambda>s. pr_count s = int i) (side_pages (eng_pairs eng) b r j) = mset (np_pages (slot (eng_pairs eng) b r i j))"
    using i' gr kept_slot [OF ps st pairs kept_refl r(1) _ j] by (subst cnt) auto
  ultimately have "filter_mset (\<lambda>s. pr_count s = int i) (mset (graded b (cp_grade q ! j))) = {#}" by simp
  with s i show False by (auto simp: filter_empty_conv simp flip: mset_filter)
qed

lemma slots_trans:
  assumes "list_all2 (\<lambda>p q. slot pairs b q i j = slot pairs b p i j) ps qs"
    and "list_all2 (\<lambda>p q. slot pairs b q i j = slot pairs b p i j) qs rs"
  shows "list_all2 (\<lambda>p q. slot pairs b q i j = slot pairs b p i j) ps rs"
  using assms by (auto simp: list_all2_conv_all_nth)

lemma slots_others:
  "others_untouched is ps qs \<Longrightarrow> int i \<notin> set is \<Longrightarrow> list_all2 (\<lambda>p q. slot pairs b q i j = slot pairs b p i j) ps qs"
  by (auto simp: others_untouched_def slot_def elim!: list_all2_mono)

lemma slots_other_side:
  assumes "list_all2 (pid_step gps M N pairs b) ps qs" "j < length pairs" "\<forall>p\<in>set ps. i < length (cp_cpfs p)"
  shows "list_all2 (\<lambda>p q. slot pairs (\<not> b) q i j = slot pairs (\<not> b) p i j) ps qs"
  using assms by (auto simp: list_all2_conv_all_nth pid_step_def)

lemma slots_later:
  assumes "later_untouched pairs b is ps qs" "a < e" "e < length is" "j < length pairs" "q \<in> set qs" "cp_state q = STATE_WORKING"
    and "np_pages (slot pairs b q (nat (is ! a)) j) \<noteq> []"
  shows "list_all2 (\<lambda>p q. slot pairs b q (nat (is ! e)) j = slot pairs b p (nat (is ! e)) j) ps qs"
  using assms unfolding later_untouched_def by blast

lemma slots_later_upto:
  assumes "later_untouched pairs b [m..n] ps qs" "m \<le> int k" "k < i" "int i \<le> n" "j < length pairs" "q \<in> set qs"
    "cp_state q = STATE_WORKING" "np_pages (slot pairs b q k j) \<noteq> []"
  shows "list_all2 (\<lambda>p q. slot pairs b q i j = slot pairs b p i j) ps qs"
proof -
  have "[m..n] ! nat (int k - m) = int k" "[m..n] ! nat (int i - m) = int i" using assms(2-4) by (simp_all add: nth_upto)
  with slots_later [OF assms(1), of "nat (int k - m)" "nat (int i - m)" j q] assms(2-8) show ?thesis by simp
qed

lemma slots_later_downto:
  assumes "later_untouched pairs b (rev [m..n]) ps qs" "m \<le> int i" "i < k" "int k \<le> n" "j < length pairs" "q \<in> set qs"
    "cp_state q = STATE_WORKING" "np_pages (slot pairs b q k j) \<noteq> []"
  shows "list_all2 (\<lambda>p q. slot pairs b q i j = slot pairs b p i j) ps qs"
proof -
  have "rev [m..n] ! nat (n - int k) = int k" "rev [m..n] ! nat (n - int i) = int i"
    using assms(2-4) by (auto simp: rev_nth nth_upto nat_diff_distrib' Suc_diff_Suc)
  with slots_later [OF assms(1), of "nat (n - int k)" "nat (n - int i)" j q] assms(2-8) show ?thesis by simp
qed

section \<open>Properties\<close>


lemma cold_len_step:
  assumes "pid_step gps M N pairs True p q" "j < length pairs"
  shows "cold_len t (src_node False (pairs ! j)) q = cold_len t (src_node False (pairs ! j)) p"
proof -
  have "length (cp_cpfs q) = length (cp_cpfs p)" "slot pairs False q i j = slot pairs False p i j" if "i < length (cp_cpfs p)" for i
    using assms that by (simp_all add: pid_step_def)
  moreover have "length (cp_cpfs q) = length (cp_cpfs p)" using assms(1) by (simp add: pid_step_def)
  ultimately show ?thesis
    unfolding cold_len_def slot_def by (intro arg_cong [where f = sum_list] nth_equalityI) auto
qed

lemma cold_len_steps:
  "list_all2 (pid_step gps M N pairs True) ps qs \<Longrightarrow> j < length pairs \<Longrightarrow>
   map (cold_len t (src_node False (pairs ! j))) qs = map (cold_len t (src_node False (pairs ! j))) ps"
  by (induction ps qs rule: list_all2_induct) (simp_all add: cold_len_step)

lemma cold_len_nonneg: "0 \<le> cold_len t m p"
  by (auto simp: cold_len_def intro!: sum_list_nonneg)

lemma sum_list_filter_le: "(\<And>x. 0 \<le> (f x :: int)) \<Longrightarrow> sum_list (map f (filter P xs)) \<le> sum_list (map f xs)"
  by (induction xs) (auto intro: add_increasing)

text \<open>The statistics never report more cold memory on the hot node of a pair than the last stage can demote.\<close>

lemma cold_demoted:
  assumes ps: "\<forall>p\<in>set ps. scanned_ok gps M N eng p" and st: "started gps nd ps rs" and pairs: "pairs_ok N (eng_pairs eng)"
    and steps: "list_all2 (pid_step gps M N (eng_pairs eng) True) rs ps1" "list_all2 (pid_step gps M N (eng_pairs eng) True) ps1 ps2"
      "list_all2 (pid_step gps M N (eng_pairs eng) False) ps2 qs"
    and oth: "others_untouched (cold_counts eng) ps2 qs" and j: "j < length (eng_pairs eng)" and t: "0 \<le> ce_hot_threshold eng"
      "ce_hot_threshold eng \<le> ce_loop eng * MAX_ACCESS_WEIGHT + 1" "params_ok gps M N eng qs"
    and left: "no_pages_left (eng_pairs eng) False (cold_counts eng) j qs" and sz: "all_size gps M ps" "0 < M"
  shows "M * sum_list (map (cold_len (ce_hot_threshold eng) (src_node False (eng_pairs eng ! j)))
      (filter (\<lambda>p. cp_state p = STATE_WORKING) rs)) \<le> total_graded gps False j qs"
proof -
  let ?m = "src_node False (eng_pairs eng ! j)" and ?t = "ce_hot_threshold eng"
  note k = started_kept [OF steps]
  have "np_pages (slot (eng_pairs eng) False q (nat i) j) = []" if q: "q \<in> set qs" and i: "i \<in> set [0..?t - 1]" for q i
  proof (cases "cp_state q = STATE_WORKING")
    case True
    with left q i show ?thesis by (auto simp: no_pages_left_def cold_counts_def)
  next
    case False
    have "nat i < length (cp_cpfs q)" using t q i by (auto simp: params_ok_def dest!: bspec)
    with False kept_slot [OF ps st pairs k(3) q _ j] show ?thesis by (meson last_in_set)
  qed
  moreover have "\<forall>p\<in>set ps2. uniform_slots gps M (eng_pairs eng) j p"
    using kept_slot [OF ps st pairs k(2) _ _ j] sz(1) by (fastforce simp: uniform_slots_def all_size_def)
  ultimately have "total_graded gps False j qs - total_graded gps False j ps2 = M * sum_list (map (cold_len ?t ?m) ps2)"
    using oth by (intro cold_covered [OF steps(3) _ j t(1)]) (auto simp: cold_counts_def)
  moreover have "total_graded gps False j ps2 = 0"
    using total_other [OF steps(1) j] total_other [OF steps(2) j] started_total [OF ps st [unfolded started_def] j, of False] by simp
  moreover have "sum_list (map (cold_len ?t ?m) (filter (\<lambda>p. cp_state p = STATE_WORKING) rs)) \<le> sum_list (map (cold_len ?t ?m) ps2)"
    using sum_list_filter_le [OF cold_len_nonneg] by (simp add: cold_len_steps [OF steps(1) j] cold_len_steps [OF steps(2) j])
  ultimately show ?thesis using sz(2) by simp
qed


text \<open>A list that is not empty after a stage was not empty before it.\<close>

lemma step_slot_before:
  assumes "list_all2 (pid_step gps M N pairs b) ps qs" "q \<in> set qs" "cp_state q = STATE_WORKING" "i < length (cp_cpfs q)"
    "j < length pairs" "np_pages (slot pairs c q i j) \<noteq> []"
  shows "\<exists>p\<in>set ps. cp_state p = STATE_WORKING \<and> i < length (cp_cpfs p) \<and> np_pages (slot pairs c p i j) \<noteq> []"
proof -
  from list_all2_in2 [OF assms(1,2)] obtain p where p: "p \<in> set ps" "pid_step gps M N pairs b p q" by blast
  have k: "kept pairs p q" by (rule pid_step_kept [OF p(2)])
  then have "i < length (cp_cpfs p)" "cp_state p = STATE_WORKING" using assms(3,4) by (simp_all add: kept_def)
  moreover from k this(1) assms(5) have "set (np_pages (slot pairs c q i j)) \<subseteq> set (np_pages (slot pairs c p i j))"
    by (simp add: kept_def)
  ultimately show ?thesis using p(1) assms(6) by (intro bexI [of _ p]) auto
qed

lemma kept_lengths:
  "list_all2 (kept pairs) rs qs \<Longrightarrow> \<forall>r\<in>set rs. k < length (cp_cpfs r) \<Longrightarrow> \<forall>q\<in>set qs. k < length (cp_cpfs q)"
  by (auto simp: kept_def dest!: list_all2_in2)

lemma graded_count:
  assumes "\<forall>p\<in>set ps. scanned_ok gps M N eng p" "started gps nd ps rs" "pairs_ok N (eng_pairs eng)"
    and "list_all2 (kept (eng_pairs eng)) rs qs" "j < length (eng_pairs eng)" "q \<in> set qs" "s \<in> set (graded b (cp_grade q ! j))"
    and "params_ok gps M N eng rs"
  obtains i where "pr_count s = int i" "\<forall>r\<in>set rs. i < length (cp_cpfs r)"
proof -
  from list_all2_in2 [OF assms(4,6)] obtain r where r: "r \<in> set rs" "kept (eng_pairs eng) r q" by blast
  from kept_graded [OF r(2) assms(5) started_graded [OF assms(1) assms(2) [unfolded started_def] assms(5) r(1)] assms(7)]
  obtain i where i: "i < length (cp_cpfs r)" "s \<in> set (np_pages (slot (eng_pairs eng) b r i j))" by blast
  have "length (cp_cpfs r') = length (cp_cpfs r)" if "r' \<in> set rs" for r'
    using assms(8) r(1) that by (simp add: params_ok_def) (metis of_nat_eq_iff)
  with kept_slot [OF assms(1-3) kept_refl r(1) i(1) assms(5) i(2)] i(1) show ?thesis by (intro that [of i]) auto
qed

text \<open>What the first two stages left on a cold node is not hotter than what they took.\<close>

lemma promoted_hotter:
  assumes ps: "\<forall>p\<in>set ps. scanned_ok gps M N eng p" and st: "started gps nd ps rs" and pairs: "pairs_ok N (eng_pairs eng)"
    and rs: "params_ok gps M N eng rs"
    and steps: "list_all2 (pid_step gps M N (eng_pairs eng) True) rs ps1" "list_all2 (pid_step gps M N (eng_pairs eng) True) ps1 ps2"
      "list_all2 (pid_step gps M N (eng_pairs eng) False) ps2 qs"
    and unt: "later_untouched (eng_pairs eng) True (rev (hot_counts eng)) rs ps1" "others_untouched (rev (hot_counts eng)) rs ps1"
      "later_untouched (eng_pairs eng) True (rev (cold_counts eng)) ps1 ps2" "others_untouched (rev (cold_counts eng)) ps1 ps2"
    and j: "j < length (eng_pairs eng)"
    and hot: "no_pages_left (eng_pairs eng) True (rev (hot_counts eng)) j ps1 \<or> list_all2 (same_slots (eng_pairs eng) True j) ps1 ps2"
    and q: "q \<in> set qs" "cp_state q = STATE_WORKING" "i < length (cp_cpfs q)" "np_pages (slot (eng_pairs eng) True q i j) \<noteq> []"
    and s: "q' \<in> set qs" "s \<in> set (graded True (cp_grade q' ! j))"
  shows "int i \<le> pr_count s"
proof (rule graded_count [OF ps st pairs started_kept(3) [OF steps] j s rs])
  fix k assume k: "pr_count s = int k" "\<forall>r\<in>set rs. k < length (cp_cpfs r)"
  let ?eq = "\<lambda>p q. slot (eng_pairs eng) True q k j = slot (eng_pairs eng) True p k j" and ?t = "ce_hot_threshold eng"
  note later = slots_later_downto [where pairs = "eng_pairs eng" and b = True]
  obtain q2 where q2: "q2 \<in> set ps2" "cp_state q2 = STATE_WORKING" "i < length (cp_cpfs q2)" "np_pages (slot (eng_pairs eng) True q2 i j) \<noteq> []"
    using step_slot_before [OF steps(3) q(1-3) j q(4)] by blast
  obtain q1 where q1: "q1 \<in> set ps1" "cp_state q1 = STATE_WORKING" "i < length (cp_cpfs q1)" "np_pages (slot (eng_pairs eng) True q1 i j) \<noteq> []"
    using step_slot_before [OF steps(2) q2(1-3) j q2(4)] by blast
  have "params_ok gps M N eng ps1" "params_ok gps M N eng ps2"
    using stage_params_ok steps(1,2) rs by blast+
  then have len: "int i \<le> ce_loop eng * MAX_ACCESS_WEIGHT" "\<forall>p\<in>set ps2. k < length (cp_cpfs p)" "\<forall>p\<in>set ps1. k < length (cp_cpfs p)"
    using q1(1,3) kept_lengths [OF started_kept(1) [OF steps] k(2)] kept_lengths [OF started_kept(2) [OF steps] k(2)]
    by (force simp: params_ok_def)+
  show ?thesis
  proof (rule ccontr)
    assume "\<not> int i \<le> pr_count s"
    then have lt: "k < i" by (simp add: k(1))
    have "list_all2 ?eq rs ps1"
    proof (cases "?t \<le> int k")
      case True
      with later [OF unt(1) [unfolded hot_counts_def] True lt len(1) j q1(1,2,4)] show ?thesis by simp
    next
      case False
      then show ?thesis using unt(2) by (intro slots_others) (auto simp: hot_counts_def)
    qed
    moreover have "list_all2 ?eq ps1 ps2"
    proof -
      consider "?t \<le> int k" | "int i \<le> ?t - 1" | "int k < ?t" "?t \<le> int i" by linarith
      then show ?thesis
      proof cases
        case 1
        then show ?thesis using unt(4) by (intro slots_others) (auto simp: cold_counts_def)
      next
        case 2
        with later [OF unt(3) [unfolded cold_counts_def] _ lt _ j q2(1,2,4)] show ?thesis by simp
      next
        case 3
        then have "int i \<in> set (rev (hot_counts eng))" using len(1) by (simp add: hot_counts_def)
        with q1 have "\<not> no_pages_left (eng_pairs eng) True (rev (hot_counts eng)) j ps1"
          unfolding no_pages_left_def by (metis nat_int)
        with hot have "list_all2 (same_slots (eng_pairs eng) True j) ps1 ps2" by simp
        with len(3) show ?thesis by (auto simp: same_slots_def list_all2_conv_all_nth)
      qed
    qed
    moreover have "list_all2 ?eq ps2 qs" using slots_other_side [OF steps(3) j len(2)] by simp
    ultimately have "list_all2 ?eq rs qs" by (blast intro: slots_trans)
    from untouched_not_graded [OF ps st pairs started_kept(3) [OF steps] j this s] k(1) show False by simp
  qed
qed

text \<open>What the last stage took from a hot node is below the threshold, and not hotter than what it left.\<close>

lemma demoted_colder:
  assumes ps: "\<forall>p\<in>set ps. scanned_ok gps M N eng p" and st: "started gps nd ps rs" and pairs: "pairs_ok N (eng_pairs eng)"
    and rs: "params_ok gps M N eng rs"
    and steps: "list_all2 (pid_step gps M N (eng_pairs eng) True) rs ps1" "list_all2 (pid_step gps M N (eng_pairs eng) True) ps1 ps2"
      "list_all2 (pid_step gps M N (eng_pairs eng) False) ps2 qs"
    and unt: "later_untouched (eng_pairs eng) False (cold_counts eng) ps2 qs" "others_untouched (cold_counts eng) ps2 qs"
    and j: "j < length (eng_pairs eng)" and s: "q' \<in> set qs" "s \<in> set (graded False (cp_grade q' ! j))"
  shows "pr_count s < ce_hot_threshold eng"
    "q \<in> set qs \<Longrightarrow> cp_state q = STATE_WORKING \<Longrightarrow> np_pages (slot (eng_pairs eng) False q i j) \<noteq> [] \<Longrightarrow> pr_count s \<le> int i"
proof -
  obtain k where k: "pr_count s = int k" "\<forall>r\<in>set rs. k < length (cp_cpfs r)"
    using graded_count [OF ps st pairs started_kept(3) [OF steps] j s rs] by blast
  let ?eq = "\<lambda>p q. slot (eng_pairs eng) False q k j = slot (eng_pairs eng) False p k j" and ?t = "ce_hot_threshold eng"
  have len: "\<forall>p\<in>set ps1. k < length (cp_cpfs p)"
    by (rule kept_lengths [OF started_kept(1) [OF steps] k(2)])
  have "list_all2 ?eq rs ps2"
    using slots_trans [OF slots_other_side [OF steps(1) j k(2)] slots_other_side [OF steps(2) j len]] by simp
  then have not: "\<not> list_all2 ?eq ps2 qs"
    using untouched_not_graded [OF ps st pairs started_kept(3) [OF steps] j _ s] k(1) slots_trans by blast
  show t: "pr_count s < ?t"
    using not slots_others [OF unt(2), of k] by (fastforce simp: cold_counts_def k(1))
  show "pr_count s \<le> int i" if "q \<in> set qs" "cp_state q = STATE_WORKING" "np_pages (slot (eng_pairs eng) False q i j) \<noteq> []"
    using slots_later_upto [OF unt(1) [unfolded cold_counts_def], of i k j q] not that j t k(1) by fastforce
qed


text \<open>The lists by count together hold the pages found on a node.\<close>

lemma sum_filter_counts:
  assumes "\<forall>s\<in>set xs. 0 \<le> f s \<and> f s < int n"
  shows "sum_list (map (\<lambda>i. mset (filter (\<lambda>s. f s = int i \<and> P s) xs)) [0..<n]) = mset (filter P xs)"
  using assms
proof (induction xs)
  case (Cons x xs)
  let ?F = "\<lambda>xs i. mset (filter (\<lambda>s. f s = int i \<and> P s) xs)"
  show ?case
  proof (cases "P x")
    case False
    with Cons show ?thesis by simp
  next
    case True
    have "sum_list (map (?F (x # xs)) [0..<n]) = {#x#} + sum_list (map (?F xs) [0..<n])"
      using Cons.prems True by (intro sum_list_split_at [of "nat (f x)"]) auto
    with Cons True show ?thesis by simp
  qed
qed simp

lemma started_side_pages:
  assumes "scanned_ok gps M N eng p" "cp_state p = STATE_WORKING" "pairs_ok N (eng_pairs eng)" "j < length (eng_pairs eng)" "0 \<le> ce_loop eng"
  shows "side_pages (eng_pairs eng) b ((counted gps nd p)\<lparr>cp_info := info\<rparr>) j =
    mset (filter (\<lambda>s. nd (cp_pid p) (pr_addr s) = int (src_node b (eng_pairs eng ! j))) (found_pages p))"
proof -
  let ?r = "(counted gps nd p)\<lparr>cp_info := info\<rparr>" and ?m = "src_node b (eng_pairs eng ! j)"
  have m: "?m < N" by (rule src_node_less [OF assms(3,4)])
  have "graded b (cp_grade ?r ! j) = []"
    using assms(1,4) counted_ok(4) [OF assms(1,5)] by (simp add: scanned_ok_def graded_def)
  moreover have "map (\<lambda>i. mset (np_pages (slot (eng_pairs eng) b ?r i j))) [0..<length (cp_cpfs p)] =
      map (\<lambda>i. mset (filter (\<lambda>s. pr_count s = int i \<and> nd (cp_pid p) (pr_addr s) = int ?m) (found_pages p))) [0..<length (cp_cpfs p)]"
    using assms(2) m by (intro map_cong) (auto simp: slot_def counted_slot [OF assms(1)])
  moreover have "\<forall>s\<in>set (found_pages p). 0 \<le> pr_count s \<and> pr_count s < int (length (cp_cpfs p))"
    using assms(1,5) by (auto simp: scanned_ok_def)
  moreover have "length (cp_cpfs ?r) = length (cp_cpfs p)" by (simp add: counted_length)
  ultimately show ?thesis by (simp only: side_pages_def sum_filter_counts mset.simps add_0)
qed


section \<open>An example\<close>

text \<open>Two nodes, one pair, room for one huge page on either node, a quota of 8 MB, and a process with a hot page on the
  cold node and a cold page on the hot one.\<close>

definition two_nodes :: cslide_eng_params where
  "two_nodes = \<lparr>ce_mem = [\<lparr>nm_huge_total = 8388608, nm_huge_free = 2097152\<rparr>, \<lparr>nm_huge_total = 8388608, nm_huge_free = 2097152\<rparr>],
     ce_node_map = \<lparr>nm_pairs = [\<lparr>nd_index = 0, nd_hot = 0, nd_cold = 1\<rparr>], nm_total_num = 1\<rparr>,
     ce_hot_threshold = 2, ce_hot_reserve = 4, ce_mig_quota = 8, ce_loop = 1, ce_interval = 1, ce_sleep = 1,
     ce_host_pages_info = replicate 2 \<lparr>ni_hot = 0, ni_cold = 0\<rparr>, ce_finish = False\<rparr>"

definition two_pages :: "int cslide_pid_params" where
  "two_pages = huge_process [huge_page 0x200000 0, huge_page 0x400000 3]"

definition page_node :: "u32 \<Rightarrow> u64 \<Rightarrow> int" where
  "page_node pid a = (if a < 0x400000 then 0 else 1)"

lemma two_nodes_ok: "eng_ok 2 two_nodes"
  by (simp add: eng_ok_def two_nodes_def pairs_ok_def)

lemma two_pages_ok: "\<forall>p\<in>set [two_pages]. scanned_ok std_page_size 2097152 2 two_nodes p"
  by (auto simp: scanned_ok_def two_pages_def huge_process_def two_nodes_def found_pages_def huge_page_count)

lemma two_pages_size: "all_size std_page_size 2097152 [two_pages]"
  by (auto simp: all_size_def two_pages_def huge_process_def found_pages_def)





end
