(* ===== verification/Cslide_Config.thy ===== *)
theory Cslide_Config
  imports Cslide_Balance Config_File Project_Config
begin

text \<open>
  Configuration of the cslide engine (\<open>etmemd_cslide.c\<close>): the parameters of the engine are
  allocated for the nodes of the machine and filled from the group \<open>engine\<close> of a configuration file,
  those of a task from the group \<open>task\<close>. A configured engine whose memory information was read is one
  on which the policy works (\<open>eng_ok\<close>).
\<close>

section \<open>Parameters of the engine\<close>

text \<open>\<open>node_num\<close> is the result of \<open>numa_num_configured_nodes\<close>, \<open>garbage\<close> what \<open>malloc\<close> finds in the memory.\<close>

definition init_sys_mem :: "int \<Rightarrow> (nat \<Rightarrow> node_mem) \<Rightarrow> alloc \<Rightarrow> node_mem list option \<times> alloc" where
  "init_sys_mem node_num garbage al =
     (if node_num \<le> 0 then (None, al)
      else case c_alloc al of
        (False, al') \<Rightarrow> (None, al')
      | (True, al') \<Rightarrow> (Some (map garbage [0..<nat node_num]), al'))"

text \<open>\<open>mtx_ok\<close> tells whether the two mutexes are initialised. The other fields are zero.\<close>

definition init_cslide_eng_params ::
  "int \<Rightarrow> (nat \<Rightarrow> node_mem) \<Rightarrow> bool \<times> bool \<Rightarrow> alloc \<Rightarrow> cslide_eng_params option \<times> alloc" where
  "init_cslide_eng_params node_num garbage mtx_ok al =
     (case init_sys_mem node_num garbage al of
        (None, al1) \<Rightarrow> (None, al1)
      | (Some mem, al1) \<Rightarrow>
          (case init_node_map (length mem) al1 of
             (None, al2) \<Rightarrow> (None, al2)
           | (Some nmap, al2) \<Rightarrow>
               if \<not> fst mtx_ok then (None, al2)
               else if \<not> snd mtx_ok then (None, al2)
               else case c_alloc al2 of
                 (False, al3) \<Rightarrow> (None, al3)
               | (True, al3) \<Rightarrow>
                   (Some \<lparr>ce_mem = mem, ce_node_map = nmap, ce_hot_threshold = 0, ce_hot_reserve = 0,
                          ce_mig_quota = 0, ce_loop = 0, ce_interval = 0, ce_sleep = 0,
                          ce_host_pages_info = replicate (length mem) \<lparr>ni_hot = 0, ni_cold = 0\<rparr>,
                          ce_finish = False\<rparr>, al3)))"

type_synonym cslide_obj = "cslide_eng_params \<times> alloc"

definition fill_node_pair :: "cslide_obj \<Rightarrow> cfg_val \<Rightarrow> int \<times> cslide_obj" where
  "fill_node_pair obj v =
     (case fill_pairs_of (length (ce_mem (fst obj))) (val_str v) (ce_node_map (fst obj)) (snd obj) of
        ((ret, nmap), al) \<Rightarrow> (ret, ((fst obj)\<lparr>ce_node_map := nmap\<rparr>, al)))"

definition fill_hot_threshold :: "cslide_obj \<Rightarrow> cfg_val \<Rightarrow> int \<times> cslide_obj" where
  "fill_hot_threshold obj v =
     (let t = parse_to_int v; limit = ce_loop (fst obj) * MAX_ACCESS_WEIGHT + 1 in
      if t < 0 then (-1, obj)
      else (0, ((fst obj)\<lparr>ce_hot_threshold := (if t > limit then limit else t)\<rparr>, snd obj)))"

definition fill_hot_reserve :: "cslide_obj \<Rightarrow> cfg_val \<Rightarrow> int \<times> cslide_obj" where
  "fill_hot_reserve obj v =
     (let hot_reserve = parse_to_int v in
      if hot_reserve < 0 then (-1, obj) else (0, ((fst obj)\<lparr>ce_hot_reserve := hot_reserve\<rparr>, snd obj)))"

definition fill_mig_quota :: "cslide_obj \<Rightarrow> cfg_val \<Rightarrow> int \<times> cslide_obj" where
  "fill_mig_quota obj v =
     (let mig_quota = parse_to_int v in
      if mig_quota < 0 then (-1, obj) else (0, ((fst obj)\<lparr>ce_mig_quota := mig_quota\<rparr>, snd obj)))"

definition cslide_eng_config_items :: "cslide_obj config_item list" where
  "cslide_eng_config_items =
     [\<lparr>ci_key = ''node_pair'', ci_type = STR_VAL, ci_fill = fill_node_pair, ci_option = False\<rparr>,
      \<lparr>ci_key = ''hot_threshold'', ci_type = INT_VAL, ci_fill = fill_hot_threshold, ci_option = False\<rparr>,
      \<lparr>ci_key = ''node_mig_quota'', ci_type = INT_VAL, ci_fill = fill_mig_quota, ci_option = False\<rparr>,
      \<lparr>ci_key = ''node_hot_reserve'', ci_type = INT_VAL, ci_fill = fill_hot_reserve, ci_option = False\<rparr>]"

text \<open>The parameters on success; \<open>thread_ok\<close> tells whether the worker is created.\<close>

definition cslide_fill_eng ::
  "int \<Rightarrow> (nat \<Rightarrow> node_mem) \<Rightarrow> bool \<times> bool \<Rightarrow> bool \<Rightarrow> key_file \<Rightarrow> page_scan \<Rightarrow> alloc \<Rightarrow> cslide_eng_params option \<times> alloc" where
  "cslide_fill_eng node_num garbage mtx_ok thread_ok config page_scan al =
     (case c_alloc al of
        (False, al1) \<Rightarrow> (None, al1)
      | (True, al1) \<Rightarrow>
          (case init_cslide_eng_params node_num garbage mtx_ok al1 of
             (None, al2) \<Rightarrow> (None, al2)
           | (Some params, al2) \<Rightarrow>
               (case parse_file_config config ''engine'' cslide_eng_config_items
                       (params\<lparr>ce_loop := scan_loop page_scan, ce_interval := scan_interval page_scan,
                               ce_sleep := scan_sleep page_scan\<rparr>, al2) of
                  (ret, (params', al3)) \<Rightarrow>
                    if ret \<noteq> 0 then (None, al3)
                    else if \<not> thread_ok then (None, al3)
                    else (Some params', al3))))"

section \<open>Parameters of a task\<close>

abbreviation (input) SCAN_AS_HUGE :: u32 where "SCAN_AS_HUGE \<equiv> 0x1000000"
abbreviation (input) SCAN_IGN_HOST :: u32 where "SCAN_IGN_HOST \<equiv> 0x2000000"

type_synonym cslide_task_obj = "cslide_task_params \<times> alloc"

definition fill_task_anon_only :: "cslide_task_obj \<Rightarrow> cfg_val \<Rightarrow> int \<times> cslide_task_obj" where
  "fill_task_anon_only obj v =
     (if val_str v = ''yes'' then (0, ((fst obj)\<lparr>ct_anon_only := True\<rparr>, snd obj))
      else if val_str v = ''no'' then (0, ((fst obj)\<lparr>ct_anon_only := False\<rparr>, snd obj))
      else (-1, obj))"

definition fill_task_vm_flags :: "cslide_task_obj \<Rightarrow> cfg_val \<Rightarrow> int \<times> cslide_task_obj" where
  "fill_task_vm_flags obj v =
     (case split_vmflags (val_str v) (snd obj) of
        ((num, arr), al) \<Rightarrow>
          let obj' = ((fst obj)\<lparr>ct_vmflags := arr\<rparr>, al) in
          if num \<le> 0 then (-1, obj')
          else if num \<noteq> 1 \<or> arr ! 0 \<noteq> ''ht'' then (-1, obj')
          else (0, obj'))"

definition fill_task_scan_flags :: "cslide_task_obj \<Rightarrow> cfg_val \<Rightarrow> int \<times> cslide_task_obj" where
  "fill_task_scan_flags obj v =
     (let flags = ct_scan_flags (fst obj) OR SCAN_AS_HUGE in
      if val_str v = ''yes'' then (0, ((fst obj)\<lparr>ct_scan_flags := flags OR SCAN_IGN_HOST\<rparr>, snd obj))
      else (if val_str v \<noteq> ''no'' then -1 else 0, ((fst obj)\<lparr>ct_scan_flags := flags\<rparr>, snd obj)))"

definition g_cslide_task_config_items :: "cslide_task_obj config_item list" where
  "g_cslide_task_config_items =
     [\<lparr>ci_key = ''vm_flags'', ci_type = STR_VAL, ci_fill = fill_task_vm_flags, ci_option = False\<rparr>,
      \<lparr>ci_key = ''anon_only'', ci_type = STR_VAL, ci_fill = fill_task_anon_only, ci_option = False\<rparr>,
      \<lparr>ci_key = ''ign_host'', ci_type = STR_VAL, ci_fill = fill_task_scan_flags, ci_option = False\<rparr>]"

definition zero_cslide_task :: cslide_task_params where
  "zero_cslide_task = \<lparr>ct_anon_only = False, ct_vmflags = [], ct_scan_flags = 0\<rparr>"

text \<open>The part of \<open>cslide_fill_task\<close> that reads the configuration.\<close>

definition cslide_task_params_of :: "key_file \<Rightarrow> alloc \<Rightarrow> cslide_task_params option \<times> alloc" where
  "cslide_task_params_of config al =
     (case c_alloc al of
        (False, al') \<Rightarrow> (None, al')
      | (True, al') \<Rightarrow>
          (case parse_file_config config ''task'' g_cslide_task_config_items (zero_cslide_task, al') of
             (ret, (params, al'')) \<Rightarrow> if ret \<noteq> 0 then (None, al'') else (Some params, al'')))"

section \<open>Pairs of nodes\<close>

abbreviation pair_nodes :: "node_pair list \<Rightarrow> int list" where
  "pair_nodes pairs \<equiv> map nd_hot pairs @ map nd_cold pairs"

definition mapped_ok :: "nat \<Rightarrow> int list \<Rightarrow> node_pair list \<Rightarrow> bool" where
  "mapped_ok N nv pairs \<longleftrightarrow> pairs_ok N pairs \<and> length nv = N \<and>
     (\<forall>k < N. nv ! k \<noteq> 0 \<longleftrightarrow> int k \<in> set (pair_nodes pairs))"

lemma is_node_valid_iff:
  "is_node_valid nv node = (True, nv') \<longleftrightarrow>
     0 \<le> node \<and> node < int (length nv) \<and> nv ! nat node = 0 \<and> nv' = nv[nat node := 1]"
  by (auto simp: is_node_valid_def split: if_splits)

lemma mapped_ok_add:
  assumes "mapped_ok N nv (nm_pairs nmap)" "is_node_valid nv hot = (True, nv1)" "is_node_valid nv1 cold = (True, nv2)"
    and "add_node_pair nmap cold hot = (0, nmap')"
  shows "mapped_ok N nv2 (nm_pairs nmap')"
proof -
  let ?ps = "nm_pairs nmap"
  have h: "0 \<le> hot" "hot < int N" "nv ! nat hot = 0" "nv1 = nv[nat hot := 1]"
    and c: "0 \<le> cold" "cold < int N" "nv1 ! nat cold = 0" "nv2 = nv1[nat cold := 1]" and len: "length nv = N"
    using assms(1-3) by (auto simp: is_node_valid_iff mapped_ok_def)
  have ne: "cold \<noteq> hot" and cold: "nv ! nat cold = 0"
    using h c len by (auto simp: nth_list_update nat_eq_iff split: if_splits)
  have new: "hot \<notin> set (pair_nodes ?ps)" "cold \<notin> set (pair_nodes ?ps)"
    using assms(1) h c cold unfolding mapped_ok_def by (metis nat_0_le nat_less_iff)+
  have pairs: "nm_pairs nmap' = ?ps @ [\<lparr>nd_index = length ?ps, nd_hot = hot, nd_cold = cold\<rparr>]"
    using assms(4) by (auto simp: add_node_pair_def split: if_splits)
  have "pairs_ok N (nm_pairs nmap')"
    using assms(1) new ne h c by (auto simp: pairs pairs_ok_def mapped_ok_def nth_append less_Suc_eq)
  moreover have "nv2 ! k \<noteq> 0 \<longleftrightarrow> int k \<in> set (pair_nodes (nm_pairs nmap'))" if "k < N" for k
    using assms(1) that h c len by (auto simp: pairs mapped_ok_def nth_list_update)
  ultimately show ?thesis using len by (simp add: mapped_ok_def h(4) c(4))
qed

lemma fill_pairs_mapped:
  "fill_pairs toks nv nmap = (0, nv', nmap') \<Longrightarrow> mapped_ok N nv (nm_pairs nmap) \<Longrightarrow> mapped_ok N nv' (nm_pairs nmap')"
proof (induction toks arbitrary: nv nmap)
  case (Cons tok toks)
  then show ?case
    by (auto split: list.splits option.splits prod.splits bool.splits if_splits intro: mapped_ok_add)
qed simp

lemma fill_pairs_of_ok:
  assumes "fill_pairs_of N s \<lparr>nm_pairs = [], nm_total_num = n\<rparr> al = ((0, nmap), al')"
  shows "pairs_ok N (nm_pairs nmap) \<and> set (pair_nodes (nm_pairs nmap)) = {0..<int N}"
proof -
  obtain nv where f: "fill_pairs (strtok_n (length s) '' ;'' s) (replicate N 0) \<lparr>nm_pairs = [], nm_total_num = n\<rparr> = (0, nv, nmap)"
    "\<not> has_node_unmap nv"
    using assms by (auto simp: fill_pairs_of_def split: prod.splits bool.splits if_splits)
  have m: "mapped_ok N nv (nm_pairs nmap)"
    by (rule fill_pairs_mapped [OF f(1)]) (simp add: mapped_ok_def pairs_ok_def)
  have "int k \<in> set (pair_nodes (nm_pairs nmap))" if "k < N" for k
  proof -
    have "nv ! k \<noteq> 0" using m f(2) that by (metis has_node_unmap_def mapped_ok_def nth_mem)
    with m that show ?thesis unfolding mapped_ok_def by blast
  qed
  then have "{0..<int N} \<subseteq> set (pair_nodes (nm_pairs nmap))"
    by (metis atLeastLessThan_iff nat_0_le nat_less_iff subsetI)
  moreover have "set (pair_nodes (nm_pairs nmap)) \<subseteq> {0..<int N}"
    using m by (auto simp: mapped_ok_def pairs_ok_def in_set_conv_nth)
  moreover have "pairs_ok N (nm_pairs nmap)" using m by (simp add: mapped_ok_def)
  ultimately show ?thesis by (intro conjI equalityI)
qed

section \<open>A configured engine\<close>

lemma parse_item_fill:
  "parse_item config g item obj = (0, obj') \<Longrightarrow> \<not> ci_option item \<Longrightarrow> \<exists>v. ci_fill item obj v = (0, obj')"
  by (auto simp: parse_item_def split: if_splits prod.splits val_type.splits option.splits)

lemma eng_items_filled:
  assumes "parse_file_config config g cslide_eng_config_items obj = (0, obj')"
  obtains v1 v2 v3 v4 o1 o2 o3 where "fill_node_pair obj v1 = (0, o1)" "fill_hot_threshold o1 v2 = (0, o2)"
    "fill_mig_quota o2 v3 = (0, o3)" "fill_hot_reserve o3 v4 = (0, obj')"
proof -
  note step = parse_file_config_step and fill = parse_item_fill
  let ?i = "\<lambda>k ty f. \<lparr>ci_key = k, ci_type = ty, ci_fill = f, ci_option = False\<rparr>"
  from step [OF assms [unfolded cslide_eng_config_items_def]] obtain o1 where
    1: "parse_item config g (?i ''node_pair'' STR_VAL fill_node_pair) obj = (0, o1)" and r1: "parse_file_config config g
      [?i ''hot_threshold'' INT_VAL fill_hot_threshold, ?i ''node_mig_quota'' INT_VAL fill_mig_quota,
       ?i ''node_hot_reserve'' INT_VAL fill_hot_reserve] o1 = (0, obj')" by blast
  from step [OF r1] obtain o2 where 2: "parse_item config g (?i ''hot_threshold'' INT_VAL fill_hot_threshold) o1 = (0, o2)"
    and r2: "parse_file_config config g [?i ''node_mig_quota'' INT_VAL fill_mig_quota,
       ?i ''node_hot_reserve'' INT_VAL fill_hot_reserve] o2 = (0, obj')" by blast
  from step [OF r2] obtain o3 where 3: "parse_item config g (?i ''node_mig_quota'' INT_VAL fill_mig_quota) o2 = (0, o3)"
    and r3: "parse_file_config config g [?i ''node_hot_reserve'' INT_VAL fill_hot_reserve] o3 = (0, obj')" by blast
  from step [OF r3] have 4: "parse_item config g (?i ''node_hot_reserve'' INT_VAL fill_hot_reserve) o3 = (0, obj')" by auto
  from fill [OF 1] obtain v1 where f1: "fill_node_pair obj v1 = (0, o1)" by auto
  from fill [OF 2] obtain v2 where f2: "fill_hot_threshold o1 v2 = (0, o2)" by auto
  from fill [OF 3] obtain v3 where f3: "fill_mig_quota o2 v3 = (0, o3)" by auto
  from fill [OF 4] obtain v4 where f4: "fill_hot_reserve o3 v4 = (0, obj')" by auto
  show ?thesis by (rule that [OF f1 f2 f3 f4])
qed

lemma cslide_fill_eng_conf:
  assumes "cslide_fill_eng node_num garbage mtx_ok thread_ok config ps al = (Some eng, al')" "0 \<le> scan_loop ps"
  shows "0 < node_num" "pairs_ok (nat node_num) (eng_pairs eng)" "set (pair_nodes (eng_pairs eng)) = {0..<node_num}"
    "length (ce_mem eng) = nat node_num" "length (ce_host_pages_info eng) = nat node_num" "ce_loop eng = scan_loop ps"
    "0 \<le> ce_mig_quota eng" "0 \<le> ce_hot_reserve eng" "0 \<le> ce_hot_threshold eng"
    "ce_hot_threshold eng \<le> ce_loop eng * MAX_ACCESS_WEIGHT + 1" "ce_finish eng = False"
proof -
  let ?set = "\<lambda>p. p\<lparr>ce_loop := scan_loop ps, ce_interval := scan_interval ps, ce_sleep := scan_sleep ps\<rparr>"
  obtain al1 params al2 where i: "init_cslide_eng_params node_num garbage mtx_ok al1 = (Some params, al2)"
    and f: "parse_file_config config ''engine'' cslide_eng_config_items (?set params, al2) = (0, (eng, al'))"
    using assms(1) by (auto simp: cslide_fill_eng_def split: prod.splits bool.splits option.splits if_splits)
  have p: "0 < node_num" "length (ce_mem params) = nat node_num" "length (ce_host_pages_info params) = nat node_num"
    "\<exists>n. ce_node_map params = \<lparr>nm_pairs = [], nm_total_num = n\<rparr>" "ce_finish params = False"
    using i by (auto simp: init_cslide_eng_params_def init_sys_mem_def init_node_map_def
        split: prod.splits bool.splits option.splits if_splits)
  obtain v1 v2 v3 v4 o1 o2 o3 where o: "fill_node_pair (?set params, al2) v1 = (0, o1)" "fill_hot_threshold o1 v2 = (0, o2)"
    "fill_mig_quota o2 v3 = (0, o3)" "fill_hot_reserve o3 v4 = (0, (eng, al'))"
    by (rule eng_items_filled [OF f]) (rule that)
  obtain nmap al3 where n: "fill_pairs_of (nat node_num) (val_str v1) (ce_node_map params) al2 = ((0, nmap), al3)"
    and o1: "o1 = ((?set params)\<lparr>ce_node_map := nmap\<rparr>, al3)"
    using o(1) p(2) by (auto simp: fill_node_pair_def split: prod.splits)
  have "pairs_ok (nat node_num) (nm_pairs nmap) \<and> set (pair_nodes (nm_pairs nmap)) = {0..<int (nat node_num)}"
    using p(4) n fill_pairs_of_ok by metis
  moreover have t: "eng = (?set params)\<lparr>ce_node_map := nmap, ce_hot_threshold := ce_hot_threshold eng,
      ce_mig_quota := ce_mig_quota eng, ce_hot_reserve := ce_hot_reserve eng\<rparr>" "0 \<le> ce_mig_quota eng" "0 \<le> ce_hot_reserve eng"
    "0 \<le> ce_hot_threshold eng" "ce_hot_threshold eng \<le> scan_loop ps * MAX_ACCESS_WEIGHT + 1"
    using o(2-4) assms(2)
    by (auto simp: o1 fill_hot_threshold_def fill_mig_quota_def fill_hot_reserve_def Let_def split: if_splits)
  have fields: "ce_node_map eng = nmap" "ce_mem eng = ce_mem params" "ce_host_pages_info eng = ce_host_pages_info params"
    "ce_loop eng = scan_loop ps" "ce_finish eng = ce_finish params"
    by (subst t(1), simp)+
  ultimately show "0 < node_num" "pairs_ok (nat node_num) (eng_pairs eng)" "set (pair_nodes (eng_pairs eng)) = {0..<node_num}"
    "length (ce_mem eng) = nat node_num" "length (ce_host_pages_info eng) = nat node_num" "ce_loop eng = scan_loop ps"
    "0 \<le> ce_mig_quota eng" "0 \<le> ce_hot_reserve eng" "0 \<le> ce_hot_threshold eng"
    "ce_hot_threshold eng \<le> ce_loop eng * MAX_ACCESS_WEIGHT + 1" "ce_finish eng = False"
    using t(2-) p by (simp_all add: fields)
qed

lemma get_single_huge_mem_multiple: "get_single_huge_mem files i n st = -1 \<or> int n * 1024 dvd get_single_huge_mem files i n st"
  unfolding get_single_huge_mem_def Let_def by (simp add: mult.assoc)

lemma get_node_mem_ok:
  assumes "get_node_mem files i mem = (0, mem')"
  shows "0 < nm_huge_total mem' \<and> 0 \<le> nm_huge_free mem' \<and> 2097152 dvd nm_huge_free mem'"
proof -
  obtain nr where "get_node_huge_total files i ''free'' = nr" "nm_huge_free mem' = nr" "0 \<le> nr" "0 < nm_huge_total mem'"
    using assms by (auto simp: get_node_mem_def get_node_huge_mem_def Let_def split: prod.splits if_splits)
  moreover from this have "2097152 dvd nr"
    using get_single_huge_mem_multiple [of files i 2048 "''free''"]
    by (auto simp: get_node_huge_total_def Let_def split: if_splits)
  ultimately show ?thesis by simp
qed

lemma get_sys_mem_ok:
  "get_sys_mem files i mems = (0, mems') \<Longrightarrow> length mems' = length mems \<and>
   (\<forall>m\<in>set mems'. 0 < nm_huge_total m \<and> 0 \<le> nm_huge_free m \<and> 2097152 dvd nm_huge_free m)"
proof (induction files i mems arbitrary: mems' rule: get_sys_mem.induct)
  case (2 files i mem mems)
  then show ?case by (auto split: prod.splits if_splits dest: get_node_mem_ok)
qed simp

section \<open>Property\<close>

text \<open>C14: A configured engine is valid. When the configuration of a cslide engine is accepted and the memory
  information of the nodes is read, then every node of the machine is the hot or the cold node of exactly one pair, the
  threshold is at most one above the highest access count, quota and reserve are not negative, and the free
  memory of each node is a multiple of 2 MB: the conditions under which the policy keeps its promises.\<close>

theorem cslide_config_valid:
  assumes "cslide_fill_eng node_num garbage mtx_ok thread_ok config ps al = (Some eng, al')" "0 \<le> scan_loop ps"
    and "get_sys_mem files 0 (ce_mem eng) = (0, mem)"
  shows "eng_ok (nat node_num) (eng\<lparr>ce_mem := mem\<rparr>) \<and> set (pair_nodes (eng_pairs eng)) = {0..<node_num} \<and>
    distinct (pair_nodes (eng_pairs eng)) \<and> (\<forall>m\<in>set mem. 2097152 dvd nm_huge_free m)"
  using cslide_fill_eng_conf [OF assms(1,2)] get_sys_mem_ok [OF assms(3)] assms(2)
  by (auto simp: eng_ok_def) (auto simp: pairs_ok_def)

definition cslide_config :: key_file where
  "cslide_config = alist_key_file [((''engine'', ''hot_threshold''), 2), ((''engine'', ''node_mig_quota''), 8),
     ((''engine'', ''node_hot_reserve''), 4)] [((''engine'', ''node_pair''), ''0,1'')]"

definition two_node_eng :: cslide_eng_params where
  "two_node_eng = \<lparr>ce_mem = replicate 2 \<lparr>nm_huge_total = 0, nm_huge_free = 0\<rparr>,
     ce_node_map = \<lparr>nm_pairs = [\<lparr>nd_index = 0, nd_hot = 0, nd_cold = 1\<rparr>], nm_total_num = 1\<rparr>,
     ce_hot_threshold = 2, ce_hot_reserve = 4, ce_mig_quota = 8, ce_loop = 1, ce_interval = 1, ce_sleep = 1,
     ce_host_pages_info = replicate 2 \<lparr>ni_hot = 0, ni_cold = 0\<rparr>, ce_finish = False\<rparr>"

lemma fill_pairs_two: "fill_pairs_of 2 ''0,1'' \<lparr>nm_pairs = [], nm_total_num = 1\<rparr> [] =
  ((0, \<lparr>nm_pairs = [\<lparr>nd_index = 0, nd_hot = 0, nd_cold = 1\<rparr>], nm_total_num = 1\<rparr>), [])"
  by code_simp

lemma cslide_config_filled:
  "cslide_fill_eng 2 (\<lambda>_. \<lparr>nm_huge_total = 0, nm_huge_free = 0\<rparr>) (True, True) True cslide_config
     \<lparr>scan_interval = 1, scan_loop = 1, scan_sleep = 1\<rparr> [] = (Some two_node_eng, [])"
  using fill_pairs_two
  by (simp add: cslide_fill_eng_def init_cslide_eng_params_def init_sys_mem_def init_node_map_def cslide_config_def
      cslide_eng_config_items_def parse_item_def alist_key_file_def fill_node_pair_def val_str_def fill_hot_threshold_def
      fill_mig_quota_def fill_hot_reserve_def parse_to_int_def two_node_eng_def Let_def numeral_2_eq_2)

lemma two_node_mem: "get_sys_mem (\<lambda>_. Some ''4'') 0 (ce_mem two_node_eng) =
  (0, replicate 2 \<lparr>nm_huge_total = 8388608, nm_huge_free = 8388608\<rparr>)"
proof -
  have "parse_number 10 ''4'' = Some (False, 4, [])" "takeWhile (\<lambda>c. c \<noteq> c_newline) ''4'' = ''4''"
    "dropWhile c_isspace ''4'' = ''4''" "skip_prefix 16 ''4'' = ''4''" by code_simp+
  then have "read_hugepage_num (Some ''4'') = 4"
    by (simp add: read_hugepage_num_def c_strtoull0_def c_strtoul_def Let_def cast_int_def)
  then show ?thesis
    by (simp add: two_node_eng_def numeral_2_eq_2 get_node_mem_def get_node_huge_mem_def get_node_huge_total_def
        get_single_huge_mem_def Let_def)
qed

lemma cslide_config_valid_witness:
  "eng_ok (nat 2) (two_node_eng\<lparr>ce_mem := replicate 2 \<lparr>nm_huge_total = 8388608, nm_huge_free = 8388608\<rparr>\<rparr>)"
  using cslide_config_valid [OF cslide_config_filled _ two_node_mem] by simp

end
