(* ===== verification/Cslide_Engine.thy ===== *)
theory Cslide_Engine
  imports Cslide_Config
begin

text \<open>
  The worker of the cslide engine (\<open>etmemd_cslide.c\<close>). Tasks allocate parameters for their
  processes and start, stop and release them; a thread of the engine, \<open>cslide_main\<close>, takes over the
  started ones, works on them round by round, and releases those that were marked. Both sides share the
  factory: the parameters live in a store of addresses, a released address is no longer in it, and a use of it is
  the fault \<open>Use_after_free\<close>.
\<close>

section \<open>Parameters of a process\<close>

fun init_cpfs :: "nat \<Rightarrow> nat \<Rightarrow> alloc \<Rightarrow> 'd count_page_refs list option \<times> alloc" where
  "init_cpfs 0 node_num al = (Some [], al)"
| "init_cpfs (Suc n) node_num al =
     (case init_count_page_refs node_num al of
        (None, al') \<Rightarrow> (None, al')
      | (Some cpf, al') \<Rightarrow>
          (case init_cpfs n node_num al' of
             (None, al'') \<Rightarrow> (None, al'')
           | (Some cpfs, al'') \<Rightarrow> (Some (cpf # cpfs), al'')))"

definition alloc_pid_params :: "cslide_eng_params \<Rightarrow> alloc \<Rightarrow> 'd cslide_pid_params option \<times> alloc" where
  "alloc_pid_params eng al =
     (let count = ce_loop eng * MAX_ACCESS_WEIGHT; pair_num = length (eng_pairs eng); node_num = length (ce_mem eng) in
      case c_alloc al of
        (False, al1) \<Rightarrow> (None, al1)
      | (True, al1) \<Rightarrow>
          (case c_alloc al1 of
             (False, al2) \<Rightarrow> (None, al2)
           | (True, al2) \<Rightarrow>
               (case init_cpfs (nat (count + 1)) node_num al2 of
                  (None, al3) \<Rightarrow> (None, al3)
                | (Some cpfs, al3) \<Rightarrow>
                    (case c_alloc al3 of
                       (False, al4) \<Rightarrow> (None, al4)
                     | (True, al4) \<Rightarrow>
                         (case c_alloc al4 of
                            (False, al5) \<Rightarrow> (None, al5)
                          | (True, al5) \<Rightarrow>
                              (Some \<lparr>cp_state = STATE_NONE, cp_count = count, cp_cpfs = cpfs,
                                     cp_grade = replicate pair_num \<lparr>hot_pages = [], cold_pages = []\<rparr>,
                                     cp_info = replicate node_num \<lparr>ni_hot = 0, ni_cold = 0\<rparr>,
                                     cp_vmas = None, cp_vma_pf = None, cp_pid = 0, cp_task = zero_cslide_task\<rparr>, al5))))))"

definition cslide_alloc_pid_params ::
  "cslide_eng_params \<Rightarrow> u32 \<Rightarrow> cslide_task_params \<Rightarrow> alloc \<Rightarrow> 'd cslide_pid_params option \<times> alloc" where
  "cslide_alloc_pid_params eng pid task al =
     (case alloc_pid_params eng al of
        (None, al') \<Rightarrow> (None, al')
      | (Some p, al') \<Rightarrow> (Some (p\<lparr>cp_pid := pid, cp_task := task\<rparr>), al'))"

text \<open>The lists of grades and of counts have the lengths they were allocated with.\<close>

definition clean_pid_param :: "'d cslide_pid_params \<Rightarrow> 'd cslide_pid_params" where
  "clean_pid_param p =
     p\<lparr>cp_grade := map (\<lambda>g. g\<lparr>hot_pages := [], cold_pages := []\<rparr>) (cp_grade p),
       cp_cpfs := map clean_count_page_refs (cp_cpfs p)\<rparr>"

section \<open>The factory\<close>

text \<open>\<open>fa_params\<close> is the store, \<open>fa_to_add\<close> and \<open>fa_working\<close> are the lists behind \<open>to_add_head\<close> and
  \<open>working_head\<close>.\<close>

record 'd cslide_factory =
  fa_params :: "nat \<rightharpoonup> 'd cslide_pid_params"
  fa_to_add :: "nat list"
  fa_working :: "nat list"

definition deref :: "(nat \<rightharpoonup> 'a) \<Rightarrow> nat \<Rightarrow> 'a c_res" where
  "deref m x = (case m x of None \<Rightarrow> Inl Use_after_free | Some p \<Rightarrow> Inr p)"

definition set_state :: "pid_param_state \<Rightarrow> nat \<Rightarrow> 'd cslide_pid_params \<Rightarrow> 'd cslide_factory \<Rightarrow> 'd cslide_factory" where
  "set_state st x p fa = fa\<lparr>fa_params := (fa_params fa)(x \<mapsto> p\<lparr>cp_state := st\<rparr>)\<rparr>"

definition factory_add_pid_params :: "'d cslide_factory \<Rightarrow> nat \<Rightarrow> 'd cslide_factory c_res" where
  "factory_add_pid_params fa x =
     c_bind (deref (fa_params fa) x) (\<lambda>p.
       let fa' = set_state STATE_WORKING x p fa in
       Inr (if cp_state p = STATE_NONE then fa'\<lparr>fa_to_add := x # fa_to_add fa'\<rparr> else fa'))"

definition factory_remove_pid_params :: "'d cslide_factory \<Rightarrow> nat \<Rightarrow> 'd cslide_factory c_res" where
  "factory_remove_pid_params fa x =
     c_bind (deref (fa_params fa) x) (\<lambda>p. Inr (set_state STATE_REMOVE x p fa))"

definition free_pid_params :: "(nat \<rightharpoonup> 'd cslide_pid_params) \<Rightarrow> nat \<Rightarrow> (nat \<rightharpoonup> 'd cslide_pid_params) c_res" where
  "free_pid_params m x = c_bind (deref m x) (\<lambda>p. Inr (m(x := None)))"

definition factory_free_pid_params :: "'d cslide_factory \<Rightarrow> nat \<Rightarrow> 'd cslide_factory c_res" where
  "factory_free_pid_params fa x =
     c_bind (deref (fa_params fa) x) (\<lambda>p.
       if cp_state p = STATE_NONE then c_bind (free_pid_params (fa_params fa) x) (\<lambda>m. Inr (fa\<lparr>fa_params := m\<rparr>))
       else Inr (set_state STATE_FREE x p fa))"

text \<open>The loop of \<open>factory_update_pid_params\<close> that unlinks and releases the marked parameters.\<close>

fun free_marked :: "(nat \<rightharpoonup> 'd cslide_pid_params) \<Rightarrow> nat list \<Rightarrow> ((nat \<rightharpoonup> 'd cslide_pid_params) \<times> nat list) c_res" where
  "free_marked m [] = Inr (m, [])"
| "free_marked m (x # xs) =
     c_bind (deref m x) (\<lambda>p.
       if cp_state p \<noteq> STATE_FREE then c_bind (free_marked m xs) (\<lambda>(m', ys). Inr (m', x # ys))
       else c_bind (free_pid_params m x) (\<lambda>m'. free_marked m' xs))"

definition factory_update_pid_params :: "'d cslide_factory \<Rightarrow> 'd cslide_factory c_res" where
  "factory_update_pid_params fa =
     c_bind (free_marked (fa_params fa) (fa_to_add fa @ fa_working fa)) (\<lambda>(m, ids).
       Inr \<lparr>fa_params = m, fa_to_add = [], fa_working = ids\<rparr>)"

definition working_list :: "'d cslide_factory \<Rightarrow> 'd cslide_pid_params list c_res" where
  "working_list fa = c_map (deref (fa_params fa)) (fa_working fa)"

definition factory_working_empty :: "'d cslide_factory \<Rightarrow> bool c_res" where
  "factory_working_empty fa =
     c_bind (working_list fa) (\<lambda>ps. Inr (\<not> (\<exists>p\<in>set ps. cp_state p = STATE_WORKING)))"

text \<open>Running a function over the parameters behind \<open>working_head\<close>.\<close>

definition on_working ::
  "('d cslide_pid_params list \<Rightarrow> ('a \<times> 'd cslide_pid_params list) c_res) \<Rightarrow> 'd cslide_factory \<Rightarrow>
   ('a \<times> 'd cslide_factory) c_res" where
  "on_working f fa =
     c_bind (working_list fa) (\<lambda>ps.
     c_bind (f ps) (\<lambda>(a, qs).
       Inr (a, fa\<lparr>fa_params := fa_params fa ++ map_of (zip (fa_working fa) qs)\<rparr>)))"

section \<open>Scanning\<close>

definition cslide_get_vmas ::
  "securec \<Rightarrow> fs \<Rightarrow> 'd cslide_pid_params \<Rightarrow> alloc \<Rightarrow> (int \<times> 'd cslide_pid_params \<times> alloc) c_res" where
  "cslide_get_vmas S fs p al =
     (case sec_snprintf_s S PID_STR_MAX_LEN (PID_STR_MAX_LEN - 1) (nat_to_base 10 (unat (cp_pid p))) of
        None \<Rightarrow> Inr (-1, p, al)
      | Some pid \<Rightarrow>
          c_bind (get_vmas_with_flags S fs pid (ct_vmflags (cp_task p)) (ct_anon_only (cp_task p)) al) (\<lambda>r.
            case r of
              (None, al1) \<Rightarrow> Inr (-1, p\<lparr>cp_vmas := None\<rparr>, al1)
            | (Some vmas, al1) \<Rightarrow>
                if vma_cnt vmas = 0 then Inr (0, p\<lparr>cp_vmas := None\<rparr>, al1)
                else case c_alloc al1 of
                  (False, al2) \<Rightarrow> Inr (-1, p\<lparr>cp_vmas := None, cp_vma_pf := None\<rparr>, al2)
                | (True, al2) \<Rightarrow>
                    if length (vma_list vmas) < unat (vma_cnt vmas) then Inl Null_deref
                    else Inr (0, p\<lparr>cp_vmas := Some vmas,
                                   cp_vma_pf := Some (map (\<lambda>v. (v, [])) (take (unat (vma_cnt vmas)) (vma_list vmas)))\<rparr>,
                              al2)))"

text \<open>\<open>vma_pf\<close> has \<open>vma_cnt\<close> entries.\<close>

definition cslide_free_vmas :: "'d cslide_pid_params \<Rightarrow> 'd cslide_pid_params c_res" where
  "cslide_free_vmas p =
     (if cp_vmas p = None then Inr p
      else if cp_vma_pf p = None then Inl Null_deref
      else Inr (p\<lparr>cp_vma_pf := None, cp_vmas := None\<rparr>))"

text \<open>The loop of \<open>cslide_scan_vmas\<close> over the areas. \<open>walk_vmas\<close> is called with \<open>loop_index\<close> and \<open>loop_end\<close>
  both 0, and without a counter of the used memory. When it fails the pages of the area are not looked at again
  before they are released.\<close>

fun scan_areas ::
  "'d fp \<Rightarrow> u64 list \<Rightarrow> scan_io \<Rightarrow> (vma \<times> 'd page_refs list) list \<Rightarrow> alloc \<Rightarrow>
   (int \<times> (vma \<times> 'd page_refs list) list \<times> alloc) c_res" where
  "scan_areas F gps io [] al = Inr (0, [], al)"
| "scan_areas F gps io ((v, pf) # rest) al =
     c_bind (walk_vmas F gps io \<lparr>walk_start = vm_start v, walk_end = vm_end v, last_walk_end = 0\<rparr> ([], pf) None 0 0 al)
       (\<lambda>out. case po_pf out of
          None \<Rightarrow> Inr (-1, (v, pf) # rest, po_al out)
        | Some cur \<Rightarrow>
            c_bind (scan_areas F gps io rest (po_al out)) (\<lambda>(ret, rest', al').
              Inr (ret, (v, cursor_list cur) # rest', al')))"

definition cslide_scan_vmas ::
  "'d fp \<Rightarrow> securec \<Rightarrow> u64 list \<Rightarrow> scan_io \<Rightarrow> 'd cslide_pid_params \<Rightarrow> alloc \<Rightarrow>
   (int \<times> 'd cslide_pid_params \<times> alloc) c_res" where
  "cslide_scan_vmas F S gps io p al =
     (case sec_snprintf_s S PID_STR_MAX_LEN (PID_STR_MAX_LEN - 1) (nat_to_base 10 (unat (cp_pid p))) of
        None \<Rightarrow> Inr (-1, p, al)
      | Some pid \<Rightarrow>
          if \<not> io_open io then Inr (-1, p, al)
          else if ct_scan_flags (cp_task p) \<noteq> 0 \<and> etmemd_send_ioctl_cmd (io_fileno io) (io_ioctl io) \<noteq> 0
          then Inr (-1, p, al)
          else if \<not> io_fileno io then Inr (-1, p, al)
          else case cp_vma_pf p of
            None \<Rightarrow> Inl Null_deref
          | Some vpf \<Rightarrow>
              c_bind (scan_areas F gps io vpf al) (\<lambda>(ret, vpf', al'). Inr (ret, p\<lparr>cp_vma_pf := Some vpf'\<rparr>, al')))"

text \<open>A loop over the working processes that stops at the first error.\<close>

fun each_working ::
  "('d cslide_pid_params \<Rightarrow> alloc \<Rightarrow> (int \<times> 'd cslide_pid_params \<times> alloc) c_res) \<Rightarrow> 'd cslide_pid_params list \<Rightarrow> alloc \<Rightarrow>
   (int \<times> 'd cslide_pid_params list \<times> alloc) c_res" where
  "each_working f [] al = Inr (0, [], al)"
| "each_working f (p # ps) al =
     (if cp_state p = STATE_WORKING then
        c_bind (f p al) (\<lambda>(ret, p', al').
          if ret \<noteq> 0 then Inr (-1, p' # ps, al')
          else c_bind (each_working f ps al') (\<lambda>(ret', ps', al''). Inr (ret', p' # ps', al'')))
      else c_bind (each_working f ps al) (\<lambda>(ret', ps', al''). Inr (ret', p # ps', al'')))"

text \<open>\<open>ios i pid\<close> is the scan file of a process in pass \<open>i\<close>.\<close>

fun cslide_scan_passes ::
  "'d fp \<Rightarrow> securec \<Rightarrow> u64 list \<Rightarrow> (nat \<Rightarrow> u32 \<Rightarrow> scan_io) \<Rightarrow> nat \<Rightarrow> nat \<Rightarrow> 'd cslide_pid_params list \<Rightarrow> alloc \<Rightarrow>
   (int \<times> 'd cslide_pid_params list \<times> alloc) c_res" where
  "cslide_scan_passes F S gps ios i 0 ps al = Inr (0, ps, al)"
| "cslide_scan_passes F S gps ios i (Suc n) ps al =
     c_bind (each_working (\<lambda>p al. if cp_vmas p = None then Inr (0, p, al)
                                  else cslide_scan_vmas F S gps (ios i (cp_pid p)) p al) ps al)
       (\<lambda>(ret, ps', al'). if ret \<noteq> 0 then Inr (-1, ps', al') else cslide_scan_passes F S gps ios (Suc i) n ps' al')"

definition cslide_do_scan ::
  "'d fp \<Rightarrow> securec \<Rightarrow> fs \<Rightarrow> u64 list \<Rightarrow> (nat \<Rightarrow> u32 \<Rightarrow> scan_io) \<Rightarrow> cslide_eng_params \<Rightarrow> 'd cslide_pid_params list \<Rightarrow> alloc \<Rightarrow>
   (int \<times> 'd cslide_pid_params list \<times> alloc) c_res" where
  "cslide_do_scan F S fs gps ios eng ps al =
     c_bind (each_working (cslide_get_vmas S fs) ps al) (\<lambda>(ret, ps', al').
       if ret \<noteq> 0 then Inr (-1, ps', al') else cslide_scan_passes F S gps ios 0 (nat (ce_loop eng)) ps' al')"

section \<open>Migrating and cleaning up\<close>

fun migrate_pairs ::
  "(nat \<Rightarrow> bool) \<Rightarrow> u32 \<Rightarrow> node_pair list \<Rightarrow> 'd memory_grade list \<Rightarrow> move_request list \<Rightarrow> alloc \<Rightarrow>
   (int \<times> move_request list \<times> alloc) c_res" where
  "migrate_pairs ok pid [] grades reqs al = Inr (0, reqs, al)"
| "migrate_pairs ok pid (pair # pairs) [] reqs al = Inl Out_of_bounds"
| "migrate_pairs ok pid (pair # pairs) (g # grades) reqs al =
     (case migrate_single_task ok pid g (nd_hot pair) (nd_cold pair) reqs al of
        (ret, reqs', al') \<Rightarrow> if ret \<noteq> 0 then Inr (ret, reqs', al') else migrate_pairs ok pid pairs grades reqs' al')"

text \<open>The node the worker runs on does not matter for the result.\<close>

fun cslide_do_migrate ::
  "(nat \<Rightarrow> bool) \<Rightarrow> node_pair list \<Rightarrow> 'd cslide_pid_params list \<Rightarrow> move_request list \<Rightarrow> alloc \<Rightarrow>
   (int \<times> move_request list \<times> alloc) c_res" where
  "cslide_do_migrate ok pairs [] reqs al = Inr (0, reqs, al)"
| "cslide_do_migrate ok pairs (p # ps) reqs al =
     (if cp_state p = STATE_WORKING then
        c_bind (migrate_pairs ok (cp_pid p) pairs (cp_grade p) reqs al) (\<lambda>(ret, reqs', al').
          if ret \<noteq> 0 then Inr (ret, reqs', al') else cslide_do_migrate ok pairs ps reqs' al')
      else cslide_do_migrate ok pairs ps reqs al)"

definition cslide_clean_params :: "'d cslide_pid_params list \<Rightarrow> 'd cslide_pid_params list c_res" where
  "cslide_clean_params ps = c_map (\<lambda>p. cslide_free_vmas (clean_pid_param p)) ps"

section \<open>The worker\<close>

text \<open>Where \<open>cslide_main\<close> stands: before the update of the factory, the tests after it, the four parts of a
  round, the part behind the label \<open>next\<close>, and the end.\<close>

datatype worker_pc = W_update | W_check | W_mem | W_scan | W_policy | W_migrate | W_clean | W_final | W_ended

text \<open>What the worker sees of the machine in one step.\<close>

record 'd cslide_env =
  sc_fp :: "'d fp"
  sc_S :: securec
  sc_fs :: fs
  sc_gps :: "u64 list"
  sc_files :: "string \<Rightarrow> string option"
  sc_ios :: "nat \<Rightarrow> u32 \<Rightarrow> scan_io"
  sc_nodes :: "u32 \<Rightarrow> u64 list \<Rightarrow> int list option"
  sc_moved :: "nat \<Rightarrow> bool"
  sc_alloc :: alloc

record 'd cslide_state =
  cs_eng :: cslide_eng_params
  cs_fa :: "'d cslide_factory"
  cs_pc :: worker_pc
  cs_reqs :: "move_request list"

definition cslide_main_step :: "'d cslide_env \<Rightarrow> 'd cslide_state \<Rightarrow> 'd cslide_state c_res" where
  "cslide_main_step E s =
     (case cs_pc s of
        W_update \<Rightarrow> c_bind (factory_update_pid_params (cs_fa s)) (\<lambda>fa. Inr (s\<lparr>cs_fa := fa, cs_pc := W_check\<rparr>))
      | W_check \<Rightarrow>
          if ce_finish (cs_eng s) then Inr (s\<lparr>cs_pc := W_final\<rparr>)
          else c_bind (factory_working_empty (cs_fa s)) (\<lambda>e. Inr (s\<lparr>cs_pc := if e then W_clean else W_mem\<rparr>))
      | W_mem \<Rightarrow>
          (case get_sys_mem (sc_files E) 0 (ce_mem (cs_eng s)) of
             (ret, mem) \<Rightarrow> Inr (s\<lparr>cs_eng := (cs_eng s)\<lparr>ce_mem := mem\<rparr>, cs_pc := if ret \<noteq> 0 then W_clean else W_scan\<rparr>))
      | W_scan \<Rightarrow>
          c_bind (on_working (\<lambda>ps. c_bind (cslide_do_scan (sc_fp E) (sc_S E) (sc_fs E) (sc_gps E) (sc_ios E) (cs_eng s) ps (sc_alloc E))
                                (\<lambda>(ret, qs, al). Inr (ret, qs))) (cs_fa s))
            (\<lambda>(ret, fa). Inr (s\<lparr>cs_fa := fa, cs_pc := if ret \<noteq> 0 then W_clean else W_policy\<rparr>))
      | W_policy \<Rightarrow>
          c_bind (on_working (\<lambda>ps. c_bind (cslide_policy (sc_gps E) (sc_nodes E) (cs_eng s) ps (sc_alloc E))
                                (\<lambda>(ret, eng, qs, al). Inr ((ret, eng), qs))) (cs_fa s))
            (\<lambda>((ret, eng), fa). Inr (s\<lparr>cs_eng := eng, cs_fa := fa, cs_pc := if ret \<noteq> 0 then W_clean else W_migrate\<rparr>))
      | W_migrate \<Rightarrow>
          c_bind (working_list (cs_fa s)) (\<lambda>ps.
          c_bind (cslide_do_migrate (sc_moved E) (eng_pairs (cs_eng s)) ps (cs_reqs s) (sc_alloc E)) (\<lambda>(ret, reqs, al).
            Inr (s\<lparr>cs_reqs := reqs, cs_pc := W_clean\<rparr>)))
      | W_clean \<Rightarrow>
          c_bind (on_working (\<lambda>ps. c_bind (cslide_clean_params ps) (\<lambda>qs. Inr ((), qs))) (cs_fa s))
            (\<lambda>(u, fa). Inr (s\<lparr>cs_fa := fa, cs_pc := W_update\<rparr>))
      | W_final \<Rightarrow> c_bind (factory_update_pid_params (cs_fa s)) (\<lambda>fa. Inr (s\<lparr>cs_fa := fa, cs_pc := W_ended\<rparr>))
      | W_ended \<Rightarrow> Inr s)"

section \<open>Operations of the tasks\<close>

text \<open>The processes of a task are given by the addresses of their parameters.\<close>

fun cslide_start_task :: "'d cslide_factory \<Rightarrow> nat list \<Rightarrow> 'd cslide_factory c_res" where
  "cslide_start_task fa [] = Inr fa"
| "cslide_start_task fa (x # xs) = c_bind (factory_add_pid_params fa x) (\<lambda>fa'. cslide_start_task fa' xs)"

fun cslide_stop_task :: "'d cslide_factory \<Rightarrow> nat list \<Rightarrow> 'd cslide_factory c_res" where
  "cslide_stop_task fa [] = Inr fa"
| "cslide_stop_task fa (x # xs) = c_bind (factory_remove_pid_params fa x) (\<lambda>fa'. cslide_stop_task fa' xs)"

definition cslide_free_pid_params :: "'d cslide_factory \<Rightarrow> nat option \<Rightarrow> 'd cslide_factory c_res" where
  "cslide_free_pid_params fa params =
     (case params of None \<Rightarrow> Inr fa | Some x \<Rightarrow> factory_free_pid_params fa x)"

definition cslide_clear_eng :: "cslide_eng_params \<Rightarrow> cslide_eng_params" where
  "cslide_clear_eng eng = eng\<lparr>ce_finish := True\<rparr>"

text \<open>
  The steps of the system. \<open>H\<close> are the parameters the tasks of the engine hold. Tasks act while the engine
  exists; a task is stopped only after it was started (\<open>etmemd_migrate_stop\<close> and \<open>do_remove_task\<close> test \<open>proj->start\<close>), and
  the engine is removed after its tasks (\<open>do_remove_engine\<close>). An address is given out again only after it was released.
\<close>

inductive cslide_step :: "'d cslide_state \<times> nat set \<Rightarrow> 'd cslide_state \<times> nat set \<Rightarrow> bool" where
  worker: "cs_pc s \<noteq> W_ended \<Longrightarrow> cslide_main_step E s = Inr s' \<Longrightarrow> cslide_step (s, H) (s', H)"
| alloc: "\<not> ce_finish (cs_eng s) \<Longrightarrow> fa_params (cs_fa s) x = None \<Longrightarrow>
    cslide_alloc_pid_params (cs_eng s) pid task al = (Some p, al') \<Longrightarrow>
    cslide_step (s, H) (s\<lparr>cs_fa := (cs_fa s)\<lparr>fa_params := (fa_params (cs_fa s))(x \<mapsto> p)\<rparr>\<rparr>, insert x H)"
| start: "set xs \<subseteq> H \<Longrightarrow> cslide_start_task (cs_fa s) xs = Inr fa \<Longrightarrow> cslide_step (s, H) (s\<lparr>cs_fa := fa\<rparr>, H)"
| stop: "set xs \<subseteq> H \<Longrightarrow> \<forall>x\<in>set xs. \<forall>p. fa_params (cs_fa s) x = Some p \<longrightarrow> cp_state p \<noteq> STATE_NONE \<Longrightarrow>
    cslide_stop_task (cs_fa s) xs = Inr fa \<Longrightarrow> cslide_step (s, H) (s\<lparr>cs_fa := fa\<rparr>, H)"
| free: "x \<in> H \<Longrightarrow> cslide_free_pid_params (cs_fa s) (Some x) = Inr fa \<Longrightarrow> cslide_step (s, H) (s\<lparr>cs_fa := fa\<rparr>, H - {x})"
| clear: "\<not> ce_finish (cs_eng s) \<Longrightarrow> cslide_step (s, {}) (s\<lparr>cs_eng := cslide_clear_eng (cs_eng s)\<rparr>, {})"

text \<open>A configured engine whose worker was just created.\<close>

definition cslide_initial :: "'d cslide_state \<times> nat set \<Rightarrow> bool" where
  "cslide_initial sH \<longleftrightarrow> cs_pc (fst sH) = W_update \<and> snd sH = {} \<and> \<not> ce_finish (cs_eng (fst sH)) \<and>
     cs_fa (fst sH) = \<lparr>fa_params = Map.empty, fa_to_add = [], fa_working = []\<rparr> \<and> cs_reqs (fst sH) = []"

inductive cslide_reach :: "'d cslide_state \<times> nat set \<Rightarrow> bool" where
  init: "cslide_initial sH \<Longrightarrow> cslide_reach sH"
| step: "cslide_reach sH \<Longrightarrow> cslide_step sH sH' \<Longrightarrow> cslide_reach sH'"

section \<open>What the parts of a round keep\<close>

definition pid_shape where
  "pid_shape p = (cp_state p, cp_count p, map length (cp_cpfs p), length (cp_grade p), cp_vmas p = None, cp_vma_pf p = None)"

abbreviation same_shapes :: "'d cslide_pid_params list \<Rightarrow> 'd cslide_pid_params list \<Rightarrow> bool" where
  "same_shapes ps qs \<equiv> map pid_shape qs = map pid_shape ps"

lemma map_length_update: "length y = length (xs ! i) \<Longrightarrow> map length (xs[i := y]) = map length xs"
  by (metis list_update_id map_update)

lemma insert_count_pfs_shape: "insert_count_pfs gps pf nodes cpfs = Inr cpfs' \<Longrightarrow> map length cpfs' = map length cpfs"
proof (induction gps pf nodes cpfs rule: insert_count_pfs.induct)
  case (3 gps p pf node nodes cpfs)
  then show ?case by (fastforce simp: Let_def map_length_update simp del: map_update split: if_splits)
qed auto

lemma count_loop_shape: "count_loop bs gps mp batch pf rest cpfs = Inr (ret, cpfs', rest') \<Longrightarrow> map length cpfs' = map length cpfs"
proof (induction "length pf + length (concat rest)" arbitrary: batch pf rest cpfs rule: less_induct)
  case less
  show ?case
  proof (cases pf)
    case Nil
    with less.prems show ?thesis by (simp add: count_loop.simps)
  next
    case (Cons p pf1)
    obtain pf2 rest2 where nx: "(pf2, rest2) = (if pf1 = [] then next_vma_pf rest else (pf1, rest))" by (metis surj_pair)
    have len: "length pf2 + length (concat rest2) < length pf + length (concat rest)"
      using next_chain_length [OF nx] Cons by simp
    from less.prems less.hyps [OF len] show ?thesis
      by (fastforce simp: Cons count_loop.simps nx [symmetric] Let_def dest: insert_count_pfs_shape
          split: if_splits option.splits)
  qed
qed

lemma count_node_pfs_shape: "cslide_count_node_pfs gps mp p al = Inr (ret, q, al') \<Longrightarrow> pid_shape q = pid_shape p"
  by (auto simp: cslide_count_node_pfs_def pid_shape_def Let_def dest!: count_loop_shape
      split: option.splits prod.splits bool.splits)

lemma count_pids_shape: "count_pids gps mp ps al = Inr (ret, qs, al') \<Longrightarrow> same_shapes ps qs"
proof (induction ps arbitrary: al qs)
  case (Cons p ps)
  from Cons.prems show ?case by (auto split: if_splits dest: count_node_pfs_shape Cons.IH)
qed simp

lemma stat_pids_shape: "stat_pids t ps host = (qs, host') \<Longrightarrow> same_shapes ps qs"
proof (drule stat_pids_frame)
  show "list_all2 (\<lambda>p q. \<exists>info. q = p\<lparr>cp_info := info\<rparr>) ps qs \<Longrightarrow> same_shapes ps qs"
    by (induction ps qs rule: list_all2_induct) (auto simp: pid_shape_def)
qed

text \<open>A policy of a filter keeps the number of nodes.\<close>

definition policy_fits :: "'d page_filter \<Rightarrow> bool" where
  "policy_fits fl \<longleftrightarrow> filter_policy fl = to_hot_policy \<or> filter_policy fl = to_cold_policy"

lemma policy_shape:
  assumes "policy_fits fl" "filter_policy fl mv gps ctrl pair cpf grade = Inr (ctrl', cpf', grade')"
  shows "length cpf' = length cpf"
  using assms by (auto simp: policy_fits_def to_hot_policy_def to_cold_policy_def)

lemma filter_pairs_shape:
  assumes "policy_fits fl"
  shows "filter_pairs fl gps i j pairs ctrl p = Inr (stop, ctrl', q) \<Longrightarrow> pid_shape q = pid_shape p"
proof (induction pairs arbitrary: j ctrl p)
  case (Cons pair pairs)
  obtain ctrl1 cpf grade where 1: "length cpf = length (cp_cpfs p ! nat i)"
    and r: "filter_pairs fl gps i (Suc j) pairs ctrl1 (p\<lparr>cp_cpfs := (cp_cpfs p)[nat i := cpf], cp_grade := (cp_grade p)[j := grade]\<rparr>)
        = Inr (stop, ctrl', q) \<or> q = p\<lparr>cp_cpfs := (cp_cpfs p)[nat i := cpf], cp_grade := (cp_grade p)[j := grade]\<rparr>"
    using Cons.prems by (auto simp: Let_def split: if_splits dest!: policy_shape [OF assms])
  have "pid_shape (p\<lparr>cp_cpfs := (cp_cpfs p)[nat i := cpf], cp_grade := (cp_grade p)[j := grade]\<rparr>) = pid_shape p"
    using map_length_update [OF 1] by (simp add: pid_shape_def del: map_update)
  with r show ?case by (auto dest: Cons.IH)
qed simp

lemma filter_pids_shape:
  assumes "policy_fits fl"
  shows "filter_pids fl gps pairs i ctrl ps = Inr (stop, ctrl', qs) \<Longrightarrow> same_shapes ps qs"
proof (induction ps arbitrary: ctrl qs)
  case (Cons p ps)
  from Cons.prems show ?case by (auto split: if_splits dest: filter_pairs_shape [OF assms] Cons.IH)
qed simp

lemma filter_counts_shape:
  assumes "policy_fits fl"
  shows "filter_counts fl gps pairs is ctrl ps = Inr (ctrl', qs) \<Longrightarrow> same_shapes ps qs"
proof (induction "is" arbitrary: ctrl ps)
  case (Cons i "is")
  from Cons.prems show ?case by (auto split: if_splits dest!: filter_pids_shape [OF assms] Cons.IH)
qed simp

lemma do_filter_shape: "policy_fits fl \<Longrightarrow> do_filter fl gps pairs ctrl ps = Inr (ctrl', qs) \<Longrightarrow> same_shapes ps qs"
  by (auto simp: do_filter_def Let_def split: if_splits option.splits dest: filter_counts_shape)

lemma filter_pfs_shape: "cslide_filter_pfs gps eng ps al = Inr (ret, qs, al') \<Longrightarrow> same_shapes ps qs"
  by (auto simp: cslide_filter_pfs_def move_hot_pages_def prefetch_hot_pages_def move_cold_pages_def split: option.splits
      dest!: do_filter_shape [rotated]) (simp_all add: policy_fits_def)

lemma policy_shapes:
  assumes "cslide_policy gps mp eng ps al = Inr (ret, eng', qs, al')"
  shows "same_shapes ps qs" "\<exists>host. eng' = eng\<lparr>ce_host_pages_info := host\<rparr>"
proof -
  have e: "\<exists>host. eng = eng\<lparr>ce_host_pages_info := host\<rparr>" by (rule exI [of _ "ce_host_pages_info eng"]) simp
  show "same_shapes ps qs"
    using assms by (fastforce simp: cslide_policy_def cslide_stat_def split: if_splits prod.splits
        dest: count_pids_shape stat_pids_shape filter_pfs_shape)
  show "\<exists>host. eng' = eng\<lparr>ce_host_pages_info := host\<rparr>"
    using assms e by (auto simp: cslide_policy_def cslide_stat_def simp del: cslide_eng_params.equality split: if_splits prod.splits)
qed

end
