(* ===== verification/Cslide_Worker.thy ===== *)
theory Cslide_Worker
  imports Cslide_Engine
begin

text \<open>
  Correctness of the worker of the cslide engine, over all interleavings of its steps with those of the tasks:
  the factory lists exactly the started parameters, each once; nothing is used after it was released;
  every round starts with empty lists; and a removed engine ends with everything released.
\<close>

section \<open>Parameters between and within rounds\<close>

definition vma_ok :: "'d cslide_pid_params \<Rightarrow> bool" where
  "vma_ok p \<longleftrightarrow> (cp_vmas p = None \<longleftrightarrow> cp_vma_pf p = None)"

text \<open>Lengths as they were allocated.\<close>

definition pid_fits :: "cslide_eng_params \<Rightarrow> 'd cslide_pid_params \<Rightarrow> bool" where
  "pid_fits eng p \<longleftrightarrow> cp_count p = ce_loop eng * MAX_ACCESS_WEIGHT \<and>
     map length (cp_cpfs p) = replicate (nat (cp_count p + 1)) (length (ce_mem eng)) \<and>
     length (cp_grade p) = length (eng_pairs eng) \<and> vma_ok p"

text \<open>Nothing left over from a round.\<close>

definition pid_clean :: "'d cslide_pid_params \<Rightarrow> bool" where
  "pid_clean p \<longleftrightarrow> (\<forall>cpf\<in>set (cp_cpfs p). \<forall>npf\<in>set cpf. npf = init_node_page_refs) \<and>
     (\<forall>g\<in>set (cp_grade p). g = \<lparr>hot_pages = [], cold_pages = []\<rparr>) \<and> cp_vmas p = None \<and> cp_vma_pf p = None"

lemma state_irrelevant [simp]:
  "pid_fits eng (p\<lparr>cp_state := st\<rparr>) = pid_fits eng p" "pid_clean (p\<lparr>cp_state := st\<rparr>) = pid_clean p"
  by (simp_all add: pid_fits_def vma_ok_def pid_clean_def)

lemma shape_fits: "pid_shape q = pid_shape p \<Longrightarrow> pid_fits eng p \<Longrightarrow> pid_fits eng q"
  by (simp add: pid_shape_def pid_fits_def vma_ok_def)

lemma eng_fits:
  "ce_loop eng' = ce_loop eng \<Longrightarrow> length (ce_mem eng') = length (ce_mem eng) \<Longrightarrow> ce_node_map eng' = ce_node_map eng \<Longrightarrow>
   pid_fits eng' p = pid_fits eng p"
  by (simp add: pid_fits_def)

text \<open>A part of a round keeps the state and the lengths.\<close>

definition keeps_fit :: "cslide_eng_params \<Rightarrow> 'd cslide_pid_params \<Rightarrow> 'd cslide_pid_params \<Rightarrow> bool" where
  "keeps_fit eng p q \<longleftrightarrow> cp_state q = cp_state p \<and> pid_fits eng q"

lemma same_shapes_keep:
  "same_shapes ps qs \<Longrightarrow> \<forall>p\<in>set ps. pid_fits eng p \<Longrightarrow> list_all2 (keeps_fit eng) ps qs"
  by (auto simp: list_all2_conv_all_nth keeps_fit_def list_eq_iff_nth_eq pid_shape_def pid_fits_def vma_ok_def)

section \<open>The scan\<close>

lemma each_working_rel:
  assumes "\<And>p al r q al'. p \<in> set ps \<Longrightarrow> f p al = Inr (r, q, al') \<Longrightarrow> R p q" "\<And>p. p \<in> set ps \<Longrightarrow> R p p"
  shows "each_working f ps al = Inr (ret, qs, al') \<Longrightarrow> list_all2 R ps qs"
  using assms
proof (induction ps arbitrary: al qs)
  case (Cons p ps)
  have "list_all2 R ps ps" using Cons.prems(3) by (simp add: list.rel_refl_strong)
  moreover have "each_working f ps al = Inr (ret, qs', al') \<Longrightarrow> list_all2 R ps qs'" for al qs'
    using Cons.prems(2,3) by (intro Cons.IH) auto
  ultimately show ?case using Cons.prems by (auto split: if_splits)
qed simp

lemma vmas_set_keeps:
  "pid_fits eng p \<Longrightarrow> (A = None \<longleftrightarrow> B = None) \<Longrightarrow> keeps_fit eng p (p\<lparr>cp_vmas := A, cp_vma_pf := B\<rparr>)"
  by (simp add: keeps_fit_def pid_fits_def vma_ok_def)

lemma get_vmas_keeps:
  assumes "cslide_get_vmas S fs p al = Inr (r, q, al')" "pid_fits eng p" "pid_clean p"
  shows "keeps_fit eng p q"
proof -
  have p: "p = p\<lparr>cp_vmas := None, cp_vma_pf := None\<rparr>" "p\<lparr>cp_vmas := None\<rparr> = p\<lparr>cp_vmas := None, cp_vma_pf := None\<rparr>"
    using assms(3) by (simp_all add: pid_clean_def)
  have "\<exists>A B. q = p\<lparr>cp_vmas := A, cp_vma_pf := B\<rparr> \<and> (A = None \<longleftrightarrow> B = None)"
  proof (cases "sec_snprintf_s S PID_STR_MAX_LEN (PID_STR_MAX_LEN - 1) (nat_to_base 10 (unat (cp_pid p)))")
    case None
    with assms(1) p(1) show ?thesis by (auto simp: cslide_get_vmas_def simp del: cslide_pid_params.update_convs)
  next
    case (Some pid)
    with assms(1) obtain v al1 where g: "get_vmas_with_flags S fs pid (ct_vmflags (cp_task p)) (ct_anon_only (cp_task p)) al = Inr (v, al1)"
      by (auto simp: cslide_get_vmas_def)
    consider "v = None \<or> (\<exists>w. v = Some w \<and> (vma_cnt w = 0 \<or> \<not> fst (c_alloc al1)))" | w where "v = Some w" "vma_cnt w \<noteq> 0" "fst (c_alloc al1)"
      by (cases v) auto
    then show ?thesis
    proof cases
      case 1
      with assms(1) Some g p(2) have "q = p\<lparr>cp_vmas := None, cp_vma_pf := None\<rparr>"
        by (cases "c_alloc al1") (auto simp: cslide_get_vmas_def split: if_splits)
      then show ?thesis by blast
    next
      case 2
      with assms(1) Some g show ?thesis
        by (cases "c_alloc al1") (auto simp: cslide_get_vmas_def split: if_splits)
    qed
  qed
  with vmas_set_keeps [OF assms(2)] show ?thesis by blast
qed

lemma scan_vmas_keeps:
  "cslide_scan_vmas F S gps io p al = Inr (r, q, al') \<Longrightarrow> pid_fits eng p \<Longrightarrow> keeps_fit eng p q"
  by (auto simp: cslide_scan_vmas_def keeps_fit_def pid_fits_def vma_ok_def split: option.splits if_splits)

lemma keeps_refl: "pid_fits eng p \<Longrightarrow> keeps_fit eng p p"
  by (simp add: keeps_fit_def)

lemma keeps_all: "list_all2 (keeps_fit eng) ps qs \<Longrightarrow> \<forall>q\<in>set qs. pid_fits eng q"
  by (auto simp: keeps_fit_def dest: list_all2_in2)

lemma keeps_trans: "list_all2 (keeps_fit eng) ps qs \<Longrightarrow> list_all2 (keeps_fit eng) qs rs \<Longrightarrow> list_all2 (keeps_fit eng) ps rs"
  by (rule list_all2_trans [of "keeps_fit eng" "keeps_fit eng" "keeps_fit eng"]) (auto simp: keeps_fit_def)

lemma cslide_scan_passes_keep:
  "cslide_scan_passes F S gps ios i n ps al = Inr (ret, qs, al') \<Longrightarrow> \<forall>p\<in>set ps. pid_fits eng p \<Longrightarrow> list_all2 (keeps_fit eng) ps qs"
proof (induction n arbitrary: i ps al)
  case 0
  then show ?case by (auto intro: list.rel_refl_strong keeps_refl)
next
  case (Suc n)
  let ?f = "\<lambda>p al. if cp_vmas p = None then Inr (0, p, al) else cslide_scan_vmas F S gps (ios i (cp_pid p)) p al"
  obtain ret1 ps1 al1 where 1: "each_working ?f ps al = Inr (ret1, ps1, al1)"
    and r: "ps1 = qs \<or> cslide_scan_passes F S gps ios (Suc i) n ps1 al1 = Inr (ret, qs, al')"
    using Suc.prems(1) by (auto split: if_splits)
  have "list_all2 (keeps_fit eng) ps ps1"
    by (rule each_working_rel [OF _ _ 1])
      (use Suc.prems(2) in \<open>auto split: if_splits intro: keeps_refl scan_vmas_keeps\<close>)
  with r Suc.IH keeps_all keeps_trans show ?case by metis
qed

lemma do_scan_keeps:
  assumes "cslide_do_scan F S fs gps ios eng0 ps al = Inr (ret, qs, al')" "\<forall>p\<in>set ps. pid_fits eng p \<and> pid_clean p"
  shows "list_all2 (keeps_fit eng) ps qs"
proof -
  obtain ret1 ps1 al1 where 1: "each_working (cslide_get_vmas S fs) ps al = Inr (ret1, ps1, al1)"
    and r: "ps1 = qs \<or> cslide_scan_passes F S gps ios 0 (nat (ce_loop eng0)) ps1 al1 = Inr (ret, qs, al')"
    using assms(1) by (auto simp: cslide_do_scan_def split: if_splits)
  have "list_all2 (keeps_fit eng) ps ps1"
    by (rule each_working_rel [OF _ _ 1]) (use assms(2) in \<open>auto intro: keeps_refl get_vmas_keeps\<close>)
  with r cslide_scan_passes_keep keeps_all keeps_trans show ?thesis by metis
qed

section \<open>Cleaning up\<close>

lemma map_clean_node: "map clean_node_page_refs npfs = replicate (length npfs) init_node_page_refs"
  by (induction npfs) (simp_all add: clean_node_page_refs_def init_node_page_refs_def)

lemma clean_one:
  assumes "pid_fits eng p"
  shows "\<exists>q. cslide_free_vmas (clean_pid_param p) = Inr q \<and> keeps_fit eng p q \<and> pid_clean q"
  using assms
  by (auto simp: cslide_free_vmas_def clean_pid_param_def keeps_fit_def pid_fits_def pid_clean_def vma_ok_def
      clean_count_page_refs_def map_clean_node comp_def)

lemma clean_params_ok:
  "\<forall>p\<in>set ps. pid_fits eng p \<Longrightarrow> \<exists>qs. cslide_clean_params ps = Inr qs \<and> list_all2 (\<lambda>p q. keeps_fit eng p q \<and> pid_clean q) ps qs"
  unfolding cslide_clean_params_def
proof (induction ps)
  case (Cons p ps)
  then obtain q qs where "cslide_free_vmas (clean_pid_param p) = Inr q" "keeps_fit eng p q" "pid_clean q"
    "c_map (\<lambda>p. cslide_free_vmas (clean_pid_param p)) ps = Inr qs" "list_all2 (\<lambda>p q. keeps_fit eng p q \<and> pid_clean q) ps qs"
    using clean_one [of eng p] by auto
  then show ?case by auto
qed simp

section \<open>Working on the lists of the factory\<close>

lemma deref_Inr [simp]: "deref m x = Inr p \<longleftrightarrow> m x = Some p"
  by (simp add: deref_def split: option.splits)

lemma working_list_ok: "set (fa_working fa) \<subseteq> dom (fa_params fa) \<Longrightarrow>
  working_list fa = Inr (map (\<lambda>x. the (fa_params fa x)) (fa_working fa))"
  unfolding working_list_def by (rule c_map_Inr) auto

lemma on_working_rel:
  assumes run: "on_working f fa = Inr (a, fa')" and dom: "set (fa_working fa) \<subseteq> dom (fa_params fa)" and dist: "distinct (fa_working fa)"
    and f: "\<And>ps qs. f ps = Inr (a, qs) \<Longrightarrow> \<forall>p\<in>set ps. P p \<Longrightarrow> list_all2 R ps qs"
    and P: "\<And>x p. x \<in> set (fa_working fa) \<Longrightarrow> fa_params fa x = Some p \<Longrightarrow> P p"
  shows "fa_to_add fa' = fa_to_add fa" "fa_working fa' = fa_working fa"
    "x \<in> set (fa_working fa) \<Longrightarrow> \<exists>p q. fa_params fa x = Some p \<and> fa_params fa' x = Some q \<and> R p q"
    "x \<notin> set (fa_working fa) \<Longrightarrow> fa_params fa' x = fa_params fa x"
proof -
  let ?ps = "map (\<lambda>x. the (fa_params fa x)) (fa_working fa)"
  obtain qs where q: "f ?ps = Inr (a, qs)" and fa': "fa' = fa\<lparr>fa_params := fa_params fa ++ map_of (zip (fa_working fa) qs)\<rparr>"
    using run working_list_ok [OF dom] by (auto simp: on_working_def)
  have "\<forall>p\<in>set ?ps. P p" using dom P by fastforce
  then have R: "list_all2 R ?ps qs" by (rule f [OF q])
  then have len: "length qs = length (fa_working fa)" by (metis length_map list_all2_lengthD)
  show "fa_to_add fa' = fa_to_add fa" "fa_working fa' = fa_working fa" by (simp_all add: fa')
  show "x \<notin> set (fa_working fa) \<Longrightarrow> fa_params fa' x = fa_params fa x"
    by (auto simp: fa' map_add_def map_of_eq_None_iff [THEN iffD2] len split: option.splits dest: map_of_SomeD set_zip_leftD)
  assume "x \<in> set (fa_working fa)"
  then obtain k where k: "k < length (fa_working fa)" "fa_working fa ! k = x" by (auto simp: in_set_conv_nth)
  have "map_of (zip (fa_working fa) qs) x = Some (qs ! k)"
    using k len dist by (metis map_of_zip_nth)
  moreover have "R (the (fa_params fa x)) (qs ! k)" using R k by (auto simp: list_all2_conv_all_nth)
  ultimately show "\<exists>p q. fa_params fa x = Some p \<and> fa_params fa' x = Some q \<and> R p q"
    using dom \<open>x \<in> set (fa_working fa)\<close> by (auto simp: fa')
qed

section \<open>The invariant of the factory\<close>

text \<open>\<open>H\<close> are the parameters held by tasks: exactly those not marked for release. The lists hold exactly the parameters that
  were started, each once.\<close>

definition fac_ok :: "'d cslide_factory \<Rightarrow> nat set \<Rightarrow> bool" where
  "fac_ok fa H \<longleftrightarrow> distinct (fa_to_add fa @ fa_working fa) \<and>
     (\<forall>x. x \<in> set (fa_to_add fa @ fa_working fa) \<longleftrightarrow> (\<exists>p. fa_params fa x = Some p \<and> cp_state p \<noteq> STATE_NONE)) \<and>
     (\<forall>x. x \<in> H \<longleftrightarrow> (\<exists>p. fa_params fa x = Some p \<and> cp_state p \<noteq> STATE_FREE))"

text \<open>\<open>rnd\<close> tells that a round is under way, in which the parameters in \<open>fa_working\<close> are in use.\<close>

definition fa_ok :: "cslide_eng_params \<Rightarrow> bool \<Rightarrow> 'd cslide_factory \<Rightarrow> nat set \<Rightarrow> bool" where
  "fa_ok eng rnd fa H \<longleftrightarrow> fac_ok fa H \<and>
     (\<forall>x p. fa_params fa x = Some p \<longrightarrow> pid_fits eng p \<and> (rnd \<and> x \<in> set (fa_working fa) \<or> pid_clean p))"

lemma fa_ok_held: "fa_ok eng rnd fa H \<Longrightarrow> x \<in> H \<Longrightarrow> \<exists>p. fa_params fa x = Some p \<and> cp_state p \<noteq> STATE_FREE"
  by (simp add: fa_ok_def fac_ok_def)

lemma fa_ok_working: "fa_ok eng rnd fa H \<Longrightarrow> set (fa_working fa) \<subseteq> dom (fa_params fa) \<and> distinct (fa_working fa)"
  by (auto simp: fa_ok_def fac_ok_def)

lemma fa_ok_weaken: "fa_ok eng False fa H \<Longrightarrow> fa_ok eng rnd fa H"
  by (simp add: fa_ok_def)

text \<open>The operations of the tasks.\<close>

lemma fa_ok_alloc:
  assumes "fa_ok eng rnd fa H" "fa_params fa x = None" "pid_fits eng p" "pid_clean p" "cp_state p = STATE_NONE"
  shows "fa_ok eng rnd (fa\<lparr>fa_params := (fa_params fa)(x \<mapsto> p)\<rparr>) (insert x H)"
  using assms by (auto simp: fa_ok_def fac_ok_def)

lemma fa_ok_state:
  assumes "fa_ok eng rnd fa H" "x \<in> H" "fa_params fa x = Some p" "cp_state p \<noteq> STATE_NONE" "st = STATE_WORKING \<or> st = STATE_REMOVE"
  shows "fa_ok eng rnd (set_state st x p fa) H"
  using assms by (auto simp: fa_ok_def fac_ok_def set_state_def)

lemma fa_ok_add:
  assumes "fa_ok eng rnd fa H" "x \<in> H"
  shows "\<exists>fa'. factory_add_pid_params fa x = Inr fa' \<and> fa_ok eng rnd fa' H"
proof -
  obtain p where p: "fa_params fa x = Some p" using fa_ok_held [OF assms] by blast
  show ?thesis
  proof (cases "cp_state p = STATE_NONE")
    case False
    with p fa_ok_state [OF assms p False, of STATE_WORKING] show ?thesis by (simp add: factory_add_pid_params_def deref_def Let_def)
  next
    case True
    then have "x \<notin> set (fa_to_add fa @ fa_working fa)"
      using assms(1) p unfolding fa_ok_def fac_ok_def by (metis option.inject)
    then have "x \<notin> set (fa_to_add fa)" "x \<notin> set (fa_working fa)" by simp_all
    with True p assms show ?thesis
      by (auto simp: factory_add_pid_params_def deref_def Let_def fa_ok_def fac_ok_def set_state_def)
  qed
qed

lemma fa_ok_start: "fa_ok eng rnd fa H \<Longrightarrow> set xs \<subseteq> H \<Longrightarrow> \<exists>fa'. cslide_start_task fa xs = Inr fa' \<and> fa_ok eng rnd fa' H"
proof (induction xs arbitrary: fa)
  case (Cons x xs)
  from Cons.prems fa_ok_add [of eng rnd fa H x] obtain fa1 where "factory_add_pid_params fa x = Inr fa1" "fa_ok eng rnd fa1 H" by auto
  with Cons show ?case by auto
qed simp

lemma fa_ok_stop:
  "fa_ok eng rnd fa H \<Longrightarrow> set xs \<subseteq> H \<Longrightarrow> \<forall>x\<in>set xs. \<forall>p. fa_params fa x = Some p \<longrightarrow> cp_state p \<noteq> STATE_NONE \<Longrightarrow>
   \<exists>fa'. cslide_stop_task fa xs = Inr fa' \<and> fa_ok eng rnd fa' H"
proof (induction xs arbitrary: fa)
  case (Cons x xs)
  obtain p where p: "fa_params fa x = Some p" using fa_ok_held [OF Cons.prems(1)] Cons.prems(2) by auto
  let ?fa = "set_state STATE_REMOVE x p fa"
  have "fa_ok eng rnd ?fa H" using Cons.prems p by (intro fa_ok_state) auto
  moreover have "\<forall>y\<in>set xs. \<forall>q. fa_params ?fa y = Some q \<longrightarrow> cp_state q \<noteq> STATE_NONE"
    using Cons.prems(3) by (auto simp: set_state_def)
  ultimately show ?case
    using Cons.IH [of ?fa] Cons.prems(2) p by (simp add: factory_remove_pid_params_def deref_def)
qed simp

lemma fa_ok_free:
  assumes "fa_ok eng rnd fa H" "x \<in> H"
  shows "\<exists>fa'. cslide_free_pid_params fa (Some x) = Inr fa' \<and> fa_ok eng rnd fa' (H - {x})"
proof -
  obtain p where "fa_params fa x = Some p" using fa_ok_held [OF assms] by blast
  with assms show ?thesis
    by (auto simp: cslide_free_pid_params_def factory_free_pid_params_def free_pid_params_def deref_def fa_ok_def fac_ok_def
        set_state_def)
qed

text \<open>The update by the worker.\<close>

lemma free_marked_ok:
  assumes "distinct xs" "set xs \<subseteq> dom m"
  shows "free_marked m xs = Inr (\<lambda>x. if x \<in> set xs \<and> map_option cp_state (m x) = Some STATE_FREE then None else m x,
    filter (\<lambda>x. map_option cp_state (m x) \<noteq> Some STATE_FREE) xs)"
  using assms
proof (induction xs arbitrary: m)
  case (Cons x xs)
  then obtain p where p: "m x = Some p" by auto
  show ?case
  proof (cases "cp_state p = STATE_FREE")
    case False
    have "free_marked m xs = Inr (\<lambda>x. if x \<in> set xs \<and> map_option cp_state (m x) = Some STATE_FREE then None else m x,
        filter (\<lambda>x. map_option cp_state (m x) \<noteq> Some STATE_FREE) xs)"
      using Cons by simp
    with False p show ?thesis by (auto simp: deref_def fun_eq_iff)
  next
    case True
    let ?m = "m(x := None)"
    have "free_marked ?m xs = Inr (\<lambda>y. if y \<in> set xs \<and> map_option cp_state (?m y) = Some STATE_FREE then None else ?m y,
        filter (\<lambda>y. map_option cp_state (?m y) \<noteq> Some STATE_FREE) xs)"
      using Cons by (intro Cons.IH) auto
    moreover have "filter (\<lambda>y. map_option cp_state (?m y) \<noteq> Some STATE_FREE) xs = filter (\<lambda>y. map_option cp_state (m y) \<noteq> Some STATE_FREE) xs"
      using Cons.prems(1) by (intro filter_cong) auto
    ultimately show ?thesis using True p by (auto simp: deref_def free_pid_params_def fun_eq_iff)
  qed
qed auto

lemma fa_ok_update:
  assumes "fa_ok eng False fa H"
  obtains fa' where "factory_update_pid_params fa = Inr fa'" "fa_ok eng False fa' H" "fa_to_add fa' = []"
    "\<And>x p. fa_params fa' x = Some p \<Longrightarrow> cp_state p \<noteq> STATE_FREE \<and> fa_params fa x = Some p"
proof -
  let ?xs = "fa_to_add fa @ fa_working fa"
  let ?m = "\<lambda>x. if x \<in> set ?xs \<and> map_option cp_state (fa_params fa x) = Some STATE_FREE then None else fa_params fa x"
  let ?fa = "\<lparr>fa_params = ?m, fa_to_add = [], fa_working = filter (\<lambda>x. map_option cp_state (fa_params fa x) \<noteq> Some STATE_FREE) ?xs\<rparr>"
  have ok: "distinct ?xs" "set ?xs \<subseteq> dom (fa_params fa)"
    and ex: "\<And>x. x \<in> set ?xs \<longleftrightarrow> (\<exists>p. fa_params fa x = Some p \<and> cp_state p \<noteq> STATE_NONE)"
    using assms by (auto simp: fa_ok_def fac_ok_def)
  show ?thesis
  proof (rule that [of ?fa])
    show "factory_update_pid_params fa = Inr ?fa"
      by (simp add: factory_update_pid_params_def free_marked_ok [OF ok] del: set_append)
    show "fa_ok eng False ?fa H"
      using assms ok(1) ex by (auto simp: fa_ok_def fac_ok_def split: if_splits)
    show "fa_params ?fa x = Some p \<Longrightarrow> cp_state p \<noteq> STATE_FREE \<and> fa_params fa x = Some p" for x p
      using ex [of x] by (auto split: if_splits)
  qed simp
qed

text \<open>A part of a round that keeps states and lengths.\<close>

lemma fa_ok_round:
  assumes ok: "fa_ok eng True fa H" and run: "on_working f fa = Inr (a, fa')"
    and f: "\<And>ps qs. f ps = Inr (a, qs) \<Longrightarrow> \<forall>p\<in>set ps. pid_fits eng p \<Longrightarrow> list_all2 (\<lambda>p q. keeps_fit eng p q \<and> Q q) ps qs"
  shows "fa_ok eng True fa' H" "\<forall>x\<in>set (fa_working fa'). \<forall>q. fa_params fa' x = Some q \<longrightarrow> Q q"
proof -
  have w: "set (fa_working fa) \<subseteq> dom (fa_params fa)" "distinct (fa_working fa)" using fa_ok_working [OF ok] by auto
  have P: "pid_fits eng p" if "fa_params fa x = Some p" for x p using ok that by (simp add: fa_ok_def)
  note rel = on_working_rel [OF run w, where P = "pid_fits eng" and R = "\<lambda>p q. keeps_fit eng p q \<and> Q q"]
  have same: "fa_to_add fa' = fa_to_add fa" "fa_working fa' = fa_working fa" using rel(1,2) f P by blast+
  have in_w: "\<exists>p q. fa_params fa x = Some p \<and> fa_params fa' x = Some q \<and> keeps_fit eng p q \<and> Q q" if "x \<in> set (fa_working fa)" for x
    using rel(3) f P that by blast
  have out: "fa_params fa' x = fa_params fa x" if "x \<notin> set (fa_working fa)" for x
    using rel(4) f P that by blast
  show "\<forall>x\<in>set (fa_working fa'). \<forall>q. fa_params fa' x = Some q \<longrightarrow> Q q" using in_w same(2) by fastforce
  have st: "map_option cp_state (fa_params fa' x) = map_option cp_state (fa_params fa x)" for x
    using in_w [of x] out [of x] by (cases "x \<in> set (fa_working fa)") (auto simp: keeps_fit_def)
  have iff: "(\<exists>p. fa_params fa' x = Some p \<and> cp_state p \<noteq> s) \<longleftrightarrow> (\<exists>p. fa_params fa x = Some p \<and> cp_state p \<noteq> s)" for x s
    using st [of x] by (auto simp: map_option_case split: option.splits)
  have "fac_ok fa' H" using ok unfolding fa_ok_def fac_ok_def same iff by blast
  moreover have "pid_fits eng p \<and> (x \<in> set (fa_working fa) \<or> pid_clean p)" if "fa_params fa' x = Some p" for x p
    using in_w [of x] out [of x] that ok unfolding keeps_fit_def fa_ok_def by (metis option.inject)
  ultimately show "fa_ok eng True fa' H" by (simp add: fa_ok_def same)
qed

section \<open>The invariant of the system\<close>

definition in_round :: "worker_pc \<Rightarrow> bool" where
  "in_round pc \<longleftrightarrow> pc = W_policy \<or> pc = W_migrate \<or> pc = W_clean"

definition cs_inv :: "'d cslide_state \<times> nat set \<Rightarrow> bool" where
  "cs_inv sH \<longleftrightarrow> (let (s, H) = sH in
     fa_ok (cs_eng s) (in_round (cs_pc s)) (cs_fa s) H \<and> (ce_finish (cs_eng s) \<longrightarrow> H = {}) \<and>
     (cs_pc s = W_final \<or> cs_pc s = W_ended \<longrightarrow> ce_finish (cs_eng s)) \<and>
     (cs_pc s = W_ended \<longrightarrow> fa_params (cs_fa s) = Map.empty))"

lemma get_sys_mem_length: "get_sys_mem files i mems = (ret, mems') \<Longrightarrow> length mems' = length mems"
  by (induction files i mems arbitrary: ret mems' rule: get_sys_mem.induct) (auto split: prod.splits if_splits)

lemma fa_ok_eng:
  "fa_ok eng rnd fa H \<Longrightarrow> ce_loop eng' = ce_loop eng \<Longrightarrow> length (ce_mem eng') = length (ce_mem eng) \<Longrightarrow>
   ce_node_map eng' = ce_node_map eng \<Longrightarrow> fa_ok eng' rnd fa H"
  by (simp add: fa_ok_def eng_fits [of eng' eng])

lemma fa_ok_scan:
  assumes ok: "fa_ok eng False fa H"
    and run: "on_working (\<lambda>ps. c_bind (cslide_do_scan F S fs gps ios eng ps al) (\<lambda>(ret, qs, al). Inr (ret, qs))) fa = Inr (ret, fa')"
  shows "fa_ok eng True fa' H"
proof -
  let ?f = "\<lambda>ps. c_bind (cslide_do_scan F S fs gps ios eng ps al) (\<lambda>(ret, qs, al). Inr (ret, qs))"
  let ?g = "\<lambda>ps. if \<forall>p\<in>set ps. pid_clean p then ?f ps else Inl Diverges"
  have w: "set (fa_working fa) \<subseteq> dom (fa_params fa)" using fa_ok_working [OF ok] by simp
  have "\<forall>p\<in>set (map (\<lambda>x. the (fa_params fa x)) (fa_working fa)). pid_clean p"
    using ok w by (fastforce simp: fa_ok_def)
  then have "on_working ?g fa = Inr (ret, fa')" using run working_list_ok [OF w] by (simp add: on_working_def)
  then show ?thesis
  proof (rule fa_ok_round(1) [OF fa_ok_weaken [OF ok], where Q = "\<lambda>_. True"])
    show "?g ps = Inr (ret, qs) \<Longrightarrow> \<forall>p\<in>set ps. pid_fits eng p \<Longrightarrow> list_all2 (\<lambda>p q. keeps_fit eng p q \<and> True) ps qs" for ps qs
      using do_scan_keeps [of F S fs gps ios eng ps al _ qs] by (auto split: if_splits)
  qed
qed

lemma fa_ok_policy:
  assumes ok: "fa_ok eng True fa H"
    and run: "on_working (\<lambda>ps. c_bind (cslide_policy gps nodes eng ps al) (\<lambda>(ret, eng, qs, al). Inr ((ret, eng), qs))) fa
      = Inr ((ret, eng'), fa')"
  shows "fa_ok eng' True fa' H" "ce_finish eng' = ce_finish eng"
proof -
  have ok': "fa_ok eng True fa' H"
  proof (rule fa_ok_round(1) [OF ok run, where Q = "\<lambda>_. True"])
    fix ps qs assume "c_bind (cslide_policy gps nodes eng ps al) (\<lambda>(ret, eng, qs, al). Inr ((ret, eng), qs)) = Inr ((ret, eng'), qs)"
    then show "\<forall>p\<in>set ps. pid_fits eng p \<Longrightarrow> list_all2 (\<lambda>p q. keeps_fit eng p q \<and> True) ps qs"
      by (auto dest: policy_shapes(1) intro!: same_shapes_keep)
  qed
  have "\<exists>host. eng' = eng\<lparr>ce_host_pages_info := host\<rparr>"
    using run fa_ok_working [OF ok] by (auto simp: on_working_def working_list_ok dest!: policy_shapes(2))
  with fa_ok_eng [OF ok', of eng'] show "fa_ok eng' True fa' H" "ce_finish eng' = ce_finish eng" by auto
qed

lemma fa_ok_clean:
  assumes ok: "fa_ok eng True fa H"
  obtains fa' where "on_working (\<lambda>ps. c_bind (cslide_clean_params ps) (\<lambda>qs. Inr ((), qs))) fa = Inr ((), fa')" "fa_ok eng False fa' H"
proof -
  let ?f = "\<lambda>ps. c_bind (cslide_clean_params ps) (\<lambda>qs. Inr ((), qs))"
  have w: "set (fa_working fa) \<subseteq> dom (fa_params fa)" using fa_ok_working [OF ok] by simp
  have "\<forall>p\<in>set (map (\<lambda>x. the (fa_params fa x)) (fa_working fa)). pid_fits eng p"
    using ok w by (fastforce simp: fa_ok_def)
  from clean_params_ok [OF this] obtain fa' where run: "on_working ?f fa = Inr ((), fa')"
    by (auto simp: on_working_def working_list_ok [OF w])
  have f: "list_all2 (\<lambda>p q. keeps_fit eng p q \<and> pid_clean q) ps qs" if "?f ps = Inr ((), qs)" "\<forall>p\<in>set ps. pid_fits eng p" for ps qs
    using that clean_params_ok [of ps eng] by auto
  note r = fa_ok_round [OF ok run f]
  have "fa_ok eng False fa' H" using r by (auto simp: fa_ok_def)
  with run that show ?thesis by blast
qed

text \<open>One step of the worker keeps the invariant, and ends with an empty store.\<close>

lemma worker_inv:
  assumes inv: "cs_inv (s, H)" and step: "cslide_main_step E s = Inr s'"
  shows "cs_inv (s', H)"
proof -
  have ok: "fa_ok (cs_eng s) (in_round (cs_pc s)) (cs_fa s) H" and fin: "ce_finish (cs_eng s) \<longrightarrow> H = {}"
    using inv by (simp_all add: cs_inv_def)
  show ?thesis
  proof (cases "cs_pc s")
    case W_update
    with ok have "fa_ok (cs_eng s) False (cs_fa s) H" by (simp add: in_round_def)
    then obtain fa' where "factory_update_pid_params (cs_fa s) = Inr fa'" "fa_ok (cs_eng s) False fa' H"
      by (rule fa_ok_update)
    with step W_update fin show ?thesis by (auto simp: cslide_main_step_def cs_inv_def in_round_def)
  next
    case W_check
    with step ok fin show ?thesis
      by (auto simp: cslide_main_step_def cs_inv_def in_round_def fa_ok_weaken split: if_splits)
  next
    case W_mem
    with step ok fin show ?thesis
      by (auto simp: cslide_main_step_def cs_inv_def in_round_def split: prod.splits if_splits
          dest!: get_sys_mem_length intro: fa_ok_eng fa_ok_eng [OF fa_ok_weaken])
  next
    case W_scan
    with ok have "fa_ok (cs_eng s) False (cs_fa s) H" by (simp add: in_round_def)
    with step W_scan fin show ?thesis
      by (auto simp: cslide_main_step_def cs_inv_def in_round_def split: if_splits dest: fa_ok_scan)
  next
    case W_policy
    with ok have "fa_ok (cs_eng s) True (cs_fa s) H" by (simp add: in_round_def)
    with step W_policy fin show ?thesis
      by (auto simp: cslide_main_step_def cs_inv_def in_round_def split: if_splits dest: fa_ok_policy)
  next
    case W_migrate
    with step ok fin show ?thesis by (auto simp: cslide_main_step_def cs_inv_def in_round_def)
  next
    case W_clean
    with ok have "fa_ok (cs_eng s) True (cs_fa s) H" by (simp add: in_round_def)
    then obtain fa' where "on_working (\<lambda>ps. c_bind (cslide_clean_params ps) (\<lambda>qs. Inr ((), qs))) (cs_fa s) = Inr ((), fa')"
      "fa_ok (cs_eng s) False fa' H"
      by (rule fa_ok_clean)
    with step W_clean fin show ?thesis by (auto simp: cslide_main_step_def cs_inv_def in_round_def)
  next
    case W_final
    with ok have "fa_ok (cs_eng s) False (cs_fa s) H" by (simp add: in_round_def)
    then obtain fa' where fa': "factory_update_pid_params (cs_fa s) = Inr fa'" "fa_ok (cs_eng s) False fa' H"
      "\<And>x p. fa_params fa' x = Some p \<Longrightarrow> cp_state p \<noteq> STATE_FREE"
      by (rule fa_ok_update) blast
    have f: "ce_finish (cs_eng s)" using inv W_final by (simp add: cs_inv_def)
    have "fa_params fa' x = None" for x
      using fa'(2) fa'(3) [of x] fin f by (cases "fa_params fa' x") (auto simp: fa_ok_def fac_ok_def)
    with step W_final fa' f fin show ?thesis by (auto simp: cslide_main_step_def cs_inv_def in_round_def)
  next
    case W_ended
    with step inv show ?thesis by (simp add: cslide_main_step_def)
  qed
qed

lemma init_cpfs_replicate: "init_cpfs n N al = (Some cpfs, al') \<Longrightarrow> cpfs = replicate n (replicate N init_node_page_refs)"
  by (induction n arbitrary: al cpfs) (auto simp: init_count_page_refs_def split: prod.splits bool.splits option.splits)

lemma alloc_pid_fresh:
  assumes "cslide_alloc_pid_params eng pid task al = (Some p, al')"
  shows "pid_fits eng p" "pid_clean p" "cp_state p = STATE_NONE"
  using assms
  by (auto simp: cslide_alloc_pid_params_def alloc_pid_params_def Let_def pid_fits_def pid_clean_def vma_ok_def
      split: prod.splits bool.splits option.splits dest!: init_cpfs_replicate)

lemma step_inv: "cslide_step sH sH' \<Longrightarrow> cs_inv sH \<Longrightarrow> cs_inv sH'"
proof (induction rule: cslide_step.induct)
  case (worker s E s' H)
  then show ?case by (blast intro: worker_inv)
next
  case (alloc s x pid task al p al' H)
  have "cs_pc s \<noteq> W_final" "cs_pc s \<noteq> W_ended" using alloc by (auto simp: cs_inv_def)
  with alloc fa_ok_alloc [OF _ alloc(2) alloc_pid_fresh [OF alloc(3)]] show ?case by (simp add: cs_inv_def)
next
  case (start xs H s fa)
  with fa_ok_start [of "cs_eng s" "in_round (cs_pc s)" "cs_fa s" H xs] show ?case
    by (cases "xs = []") (auto simp: cs_inv_def)
next
  case (stop xs H s fa)
  with fa_ok_stop [of "cs_eng s" "in_round (cs_pc s)" "cs_fa s" H xs] show ?case
    by (cases "xs = []") (auto simp: cs_inv_def)
next
  case (free x H s fa)
  with fa_ok_free [of "cs_eng s" "in_round (cs_pc s)" "cs_fa s" H x] show ?case by (auto simp: cs_inv_def)
next
  case (clear s)
  then show ?case by (auto simp: cs_inv_def cslide_clear_eng_def intro: fa_ok_eng)
qed

lemma reach_inv: "cslide_reach sH \<Longrightarrow> cs_inv sH"
proof (induction rule: cslide_reach.induct)
  case (init sH)
  then show ?case by (cases sH) (auto simp: cs_inv_def cslide_initial_def fa_ok_def fac_ok_def in_round_def)
next
  case (step sH sH')
  then show ?case by (blast intro: step_inv)
qed

section \<open>Progress of the worker\<close>

text \<open>The steps after which the worker ends, once the engine is removed.\<close>

fun steps_left :: "worker_pc \<Rightarrow> nat" where
  "steps_left W_mem = 8"
| "steps_left W_scan = 7"
| "steps_left W_policy = 6"
| "steps_left W_migrate = 5"
| "steps_left W_clean = 4"
| "steps_left W_update = 3"
| "steps_left W_check = 2"
| "steps_left W_final = 1"
| "steps_left W_ended = 0"

text \<open>The parts of a round in which a fault of the scan or of the policy can end the worker.\<close>

abbreviation may_fault :: "worker_pc \<Rightarrow> bool" where
  "may_fault pc \<equiv> pc = W_mem \<or> pc = W_scan \<or> pc = W_policy \<or> pc = W_migrate"

fun run_worker :: "'d cslide_env list \<Rightarrow> 'd cslide_state \<Rightarrow> 'd cslide_state c_res" where
  "run_worker [] s = Inr s"
| "run_worker (E # Es) s = c_bind (cslide_main_step E s) (run_worker Es)"

lemma worker_parts:
  assumes inv: "cs_inv (s, H)"
  shows "\<not> in_round (cs_pc s) \<Longrightarrow> \<exists>fa. factory_update_pid_params (cs_fa s) = Inr fa"
    "in_round (cs_pc s) \<Longrightarrow> \<exists>fa. on_working (\<lambda>ps. c_bind (cslide_clean_params ps) (\<lambda>qs. Inr ((), qs))) (cs_fa s) = Inr ((), fa)"
proof -
  have ok: "fa_ok (cs_eng s) (in_round (cs_pc s)) (cs_fa s) H" using inv by (simp add: cs_inv_def)
  show "\<exists>fa. factory_update_pid_params (cs_fa s) = Inr fa" if "\<not> in_round (cs_pc s)"
  proof -
    have "fa_ok (cs_eng s) False (cs_fa s) H" using ok that by simp
    then obtain fa where "factory_update_pid_params (cs_fa s) = Inr fa" by (rule fa_ok_update)
    then show ?thesis by blast
  qed
  show "\<exists>fa. on_working (\<lambda>ps. c_bind (cslide_clean_params ps) (\<lambda>qs. Inr ((), qs))) (cs_fa s) = Inr ((), fa)" if "in_round (cs_pc s)"
  proof -
    have "fa_ok (cs_eng s) True (cs_fa s) H" using ok that by simp
    then obtain fa where "on_working (\<lambda>ps. c_bind (cslide_clean_params ps) (\<lambda>qs. Inr ((), qs))) (cs_fa s) = Inr ((), fa)"
      by (rule fa_ok_clean)
    then show ?thesis by blast
  qed
qed

lemma worker_progress:
  assumes inv: "cs_inv (s, H)" and fin: "ce_finish (cs_eng s)"
  shows "case cslide_main_step E s of Inl f \<Rightarrow> may_fault (cs_pc s)
    | Inr s' \<Rightarrow> ce_finish (cs_eng s') \<and> steps_left (cs_pc s') \<le> steps_left (cs_pc s) - 1 \<and> (may_fault (cs_pc s') \<longrightarrow> may_fault (cs_pc s))"
proof -
  have ok: "fa_ok (cs_eng s) (in_round (cs_pc s)) (cs_fa s) H" using inv by (simp add: cs_inv_def)
  note upd = worker_parts(1) [OF inv] and cln = worker_parts(2) [OF inv]
  show ?thesis
  proof (cases "cs_pc s")
    case W_update
    with upd fin show ?thesis by (auto simp: in_round_def cslide_main_step_def)
  next
    case W_final
    with upd fin show ?thesis by (auto simp: in_round_def cslide_main_step_def)
  next
    case W_clean
    with cln fin show ?thesis by (auto simp: in_round_def cslide_main_step_def)
  next
    case W_policy
    then have "fa_ok (cs_eng s) True (cs_fa s) H" using ok by (simp add: in_round_def)
    note r = fa_ok_policy(2) [OF this]
    show ?thesis
    proof (cases "cslide_main_step E s")
      case (Inr s')
      with W_policy obtain ret eng fa where "on_working (\<lambda>ps. c_bind (cslide_policy (sc_gps E) (sc_nodes E) (cs_eng s) ps (sc_alloc E))
          (\<lambda>(ret, eng, qs, al). Inr ((ret, eng), qs))) (cs_fa s) = Inr ((ret, eng), fa)"
        "s' = s\<lparr>cs_eng := eng, cs_fa := fa, cs_pc := if ret \<noteq> 0 then W_clean else W_migrate\<rparr>"
        by (auto simp: cslide_main_step_def)
      with r [OF this(1)] fin Inr W_policy show ?thesis by simp
    qed (simp add: W_policy)
  next
    case W_scan
    with fin show ?thesis by (cases "cslide_main_step E s") (auto simp: cslide_main_step_def)
  next
    case W_migrate
    with fin show ?thesis by (cases "cslide_main_step E s") (auto simp: cslide_main_step_def)
  qed (use fin in \<open>auto simp: cslide_main_step_def split: prod.splits\<close>)
qed

lemma worker_steps:
  assumes inv: "cs_inv (s, H)" and pc: "\<not> may_fault (cs_pc s)"
  shows "\<exists>s'. cslide_main_step E s = Inr s'"
proof -
  have ok: "fa_ok (cs_eng s) (in_round (cs_pc s)) (cs_fa s) H" using inv by (simp add: cs_inv_def)
  have w: "working_list (cs_fa s) = Inr (map (\<lambda>x. the (fa_params (cs_fa s) x)) (fa_working (cs_fa s)))"
    using fa_ok_working [OF ok] by (simp add: working_list_ok)
  show ?thesis using pc worker_parts [OF inv] w
    by (cases "cs_pc s") (auto simp: cslide_main_step_def in_round_def factory_working_empty_def)
qed

lemma run_worker_ends:
  "cs_inv (s, H) \<Longrightarrow> ce_finish (cs_eng s) \<Longrightarrow> steps_left (cs_pc s) \<le> length Es \<Longrightarrow>
   (case run_worker Es s of Inl f \<Rightarrow> may_fault (cs_pc s) | Inr s' \<Rightarrow> cs_pc s' = W_ended \<and> cs_inv (s', H))"
proof (induction Es arbitrary: s)
  case Nil
  then show ?case by (cases "cs_pc s") simp_all
next
  case (Cons E Es)
  note prog = worker_progress [OF Cons.prems(1,2), of E]
  show ?case
  proof (cases "cslide_main_step E s")
    case (Inl f)
    with prog show ?thesis by simp
  next
    case (Inr s1)
    with prog Cons.prems(3) have s1: "ce_finish (cs_eng s1)" "steps_left (cs_pc s1) \<le> length Es"
      "may_fault (cs_pc s1) \<longrightarrow> may_fault (cs_pc s)"
      by auto
    from Cons.IH [OF worker_inv [OF Cons.prems(1) Inr] s1(1,2)] Inr s1(3) show ?thesis
      by (cases "run_worker Es s1") simp_all
  qed
qed

section \<open>Properties\<close>



text \<open>C17: A removed engine ends. Once an engine is removed, which its tasks precede, the worker ends after at most eight of its own steps
  unless a fault in the round under way stops it, and when it ends no parameters of a process are left. From the
  places between two rounds it ends without exception.\<close>

theorem cslide_worker_ends:
  assumes "cslide_reach (s, H)" "ce_finish (cs_eng s)" "8 \<le> length Es"
  shows "case run_worker Es s of Inl f \<Rightarrow> may_fault (cs_pc s)
    | Inr s' \<Rightarrow> cs_pc s' = W_ended \<and> fa_params (cs_fa s') = Map.empty"
proof -
  have "steps_left (cs_pc s) \<le> length Es" using assms(3) by (cases "cs_pc s") simp_all
  with run_worker_ends [OF reach_inv [OF assms(1)] assms(2), of Es] show ?thesis
    by (auto simp: cs_inv_def split: sum.splits)
qed

text \<open>An engine with one task on process 42, about to be started.\<close>

definition fresh_engine :: "'d cslide_state" where
  "fresh_engine = \<lparr>cs_eng = two_node_eng, cs_fa = \<lparr>fa_params = Map.empty, fa_to_add = [], fa_working = []\<rparr>, cs_pc = W_update, cs_reqs = []\<rparr>"

lemma init_cpfs_Nil: "init_cpfs n N [] = (Some (replicate n (replicate N init_node_page_refs)), [])"
  by (induction n) (simp_all add: init_count_page_refs_def)

lemma alloc_succeeds: "\<exists>p. cslide_alloc_pid_params eng pid task [] = (Some p, [])"
  by (simp add: cslide_alloc_pid_params_def alloc_pid_params_def Let_def init_cpfs_Nil)

lemma two_node_unfinished: "\<not> ce_finish two_node_eng"
  by (simp add: two_node_eng_def)

lemma fresh_reach: "cslide_reach (fresh_engine, {})"
  by (rule cslide_reach.init) (simp add: cslide_initial_def fresh_engine_def two_node_eng_def)

lemma removed_reach: "cslide_reach (fresh_engine\<lparr>cs_eng := cslide_clear_eng two_node_eng\<rparr>, {})"
  using cslide_reach.step [OF fresh_reach clear] by (simp add: fresh_engine_def two_node_eng_def cslide_clear_eng_def)

abbreviation one_factory :: "'d cslide_pid_params \<Rightarrow> nat list \<Rightarrow> nat list \<Rightarrow> 'd cslide_factory" where
  "one_factory p xs ys \<equiv> \<lparr>fa_params = [7 \<mapsto> p], fa_to_add = xs, fa_working = ys\<rparr>"

lemma one_task_reach:
  assumes p: "cslide_alloc_pid_params two_node_eng 42 zero_cslide_task [] = (Some p, [])"
  shows "cslide_reach (fresh_engine\<lparr>cs_fa := one_factory p [] []\<rparr>, {7})"
proof -
  have "cslide_step (fresh_engine, {}) (fresh_engine\<lparr>cs_fa := (cs_fa fresh_engine)\<lparr>fa_params := (fa_params (cs_fa fresh_engine))(7 \<mapsto> p)\<rparr>\<rparr>, insert 7 {})"
    by (rule alloc [where pid = 42 and task = zero_cslide_task and al = "[]" and al' = "[]"])
      (simp_all add: fresh_engine_def two_node_unfinished p)
  from cslide_reach.step [OF fresh_reach this] show ?thesis by (simp add: fresh_engine_def)
qed

definition quiet_env :: "int cslide_env" where
  "quiet_env = \<lparr>sc_fp = milli_fp, sc_S = securec_ref, sc_fs = \<lambda>_. None, sc_gps = std_page_size, sc_files = \<lambda>_. Some ''4'',
     sc_ios = \<lambda>_ _. sample_io 0, sc_nodes = \<lambda>_ _. None, sc_moved = \<lambda>_. True, sc_alloc = []\<rparr>"

abbreviation two_node_mems :: "node_mem list" where
  "two_node_mems \<equiv> replicate 2 \<lparr>nm_huge_total = 8388608, nm_huge_free = 8388608\<rparr>"

text \<open>The task is started and the worker comes to its first scan.\<close>

lemma scan_reach:
  fixes p :: "int cslide_pid_params"
  assumes p: "cslide_alloc_pid_params two_node_eng 42 zero_cslide_task [] = (Some p, [])"
  shows "cslide_reach (\<lparr>cs_eng = two_node_eng\<lparr>ce_mem := two_node_mems\<rparr>, cs_fa = one_factory (p\<lparr>cp_state := STATE_WORKING\<rparr>) [] [7],
    cs_pc = W_scan, cs_reqs = []\<rparr>, {7})"
proof -
  let ?q = "p\<lparr>cp_state := STATE_WORKING\<rparr>"
  let ?s = "\<lambda>eng xs ys pc. \<lparr>cs_eng = eng, cs_fa = one_factory ?q xs ys, cs_pc = pc, cs_reqs = []\<rparr>"
  have none: "cp_state p = STATE_NONE" by (rule alloc_pid_fresh [OF p])
  have "cslide_start_task (one_factory p [] []) [7] = Inr (one_factory ?q [7] [])"
    by (simp add: factory_add_pid_params_def deref_def set_state_def none Let_def)
  from cslide_reach.step [OF one_task_reach [OF p] start [where xs = "[7]" and fa = "one_factory ?q [7] []"]] this
  have "cslide_reach (?s two_node_eng [7] [] W_update, {7})" by (simp add: fresh_engine_def)
  from cslide_reach.step [OF this worker [where E = quiet_env and s' = "?s two_node_eng [] [7] W_check"]]
  have "cslide_reach (?s two_node_eng [] [7] W_check, {7})"
    by (simp add: cslide_main_step_def factory_update_pid_params_def deref_def)
  from cslide_reach.step [OF this worker [where E = quiet_env and s' = "?s two_node_eng [] [7] W_mem"]] two_node_unfinished
  have "cslide_reach (?s two_node_eng [] [7] W_mem, {7})"
    by (simp add: cslide_main_step_def factory_working_empty_def working_list_def deref_def)
  from cslide_reach.step [OF this worker [where E = quiet_env and s' = "?s (two_node_eng\<lparr>ce_mem := two_node_mems\<rparr>) [] [7] W_scan"]]
  show ?thesis by (simp add: cslide_main_step_def quiet_env_def two_node_mem)
qed



lemma cslide_worker_ends_witness:
  "\<exists>s' :: int cslide_state. run_worker (replicate 8 quiet_env) (fresh_engine\<lparr>cs_eng := cslide_clear_eng two_node_eng\<rparr>) = Inr s' \<and>
     cs_pc s' = W_ended \<and> fa_params (cs_fa s') = Map.empty"
proof -
  define Es where "Es = replicate 8 quiet_env"
  define s :: "int cslide_state" where "s = fresh_engine\<lparr>cs_eng := cslide_clear_eng two_node_eng\<rparr>"
  have r: "cslide_reach (s, {})" unfolding s_def by (rule removed_reach)
  have f: "ce_finish (cs_eng s)" by (simp add: s_def cslide_clear_eng_def)
  have l: "8 \<le> length Es" by (simp add: Es_def)
  have m: "\<not> may_fault (cs_pc s)" by (simp add: s_def fresh_engine_def)
  note * = cslide_worker_ends [OF r f l] m
  have "\<exists>s'. run_worker Es s = Inr s' \<and> cs_pc s' = W_ended \<and> fa_params (cs_fa s') = Map.empty"
    by (rule sum.exhaust [of "run_worker Es s"]) (use * in simp_all)
  then show ?thesis unfolding Es_def s_def .
qed

end
