(* ===== verification/Cslide_Effect.thy ===== *)
theory Cslide_Effect
  imports Cslide_Worker
begin

text \<open>
  What the worker of the cslide engine achieves as a whole. \<open>cslide_scan_vmas\<close> walks the areas with \<open>loop_index\<close> and \<open>loop_end\<close>
  both 0, so that every pass is the last one, in which recording the first page of an area reads behind the list. A scan that does not
  fault has found no page; hence no page reaches the policy, and none is migrated.
\<close>

section \<open>A scan that returns found nothing\<close>

lemma record_loop_empty: "record_loop F sz t ty l l n a ([], []) al = Inr (r, al') \<Longrightarrow> r = Some ([], [])"
  by (cases n) (auto simp: update_at_def update_possibility_at_def split: prod.splits option.splits)

lemma record_parse_result_empty:
  "record_parse_result F gps a ty n ([], []) l l al = Inr (r, al') \<Longrightarrow> r = Some ([], [])"
  by (auto simp: record_parse_result_def split: if_splits dest: record_loop_empty)

lemma parse_loop_empty:
  "parse_loop F gps buf l l i a ([], []) e rss al = Inr out \<Longrightarrow> po_pf out = None \<or> po_pf out = Some ([], [])"
proof (induction "length buf - i" arbitrary: i a rss al rule: less_induct)
  case less
  show ?case
  proof (cases "i \<ge> length buf \<or> (buf ! i = PIP_CMD_SET_HVA \<and> i + 8 \<ge> length buf) \<or> (buf ! i \<noteq> PIP_CMD_SET_HVA \<and> a = 0)")
    case True
    with less.prems show ?thesis by (subst (asm) parse_loop.simps) (auto split: if_splits)
  next
    case False
    then have lt: "length buf - (9 + i) < length buf - i" "length buf - Suc i < length buf - i" by auto
    from less.prems False show ?thesis
      by (subst (asm) parse_loop.simps)
        (auto simp: Let_def split: if_splits option.splits dest!: record_parse_result_empty dest: less.hyps [OF lt(1)] less.hyps [OF lt(2)])
  qed
qed

lemma walk_vmas_empty:
  "walk_vmas F gps io wa ([], []) rss l l al = Inr out \<Longrightarrow> po_pf out = None \<or> po_pf out = Some ([], [])"
  by (cases "c_alloc al"; cases "fst (c_alloc al)")
    (auto simp: walk_vmas_def parse_vma_result_def Let_def split: if_splits dest: parse_loop_empty)

lemma scan_areas_empty:
  "scan_areas F gps io vpf al = Inr (ret, vpf', al') \<Longrightarrow> \<forall>v\<in>set vpf. snd v = [] \<Longrightarrow> \<forall>v\<in>set vpf'. snd v = []"
proof (induction vpf arbitrary: al vpf')
  case (Cons v vpf)
  then show ?case by (cases v) (fastforce split: option.splits dest: walk_vmas_empty)
qed simp

section \<open>Parameters without pages\<close>

definition pid_empty :: "'d cslide_pid_params \<Rightarrow> bool" where
  "pid_empty p \<longleftrightarrow> (\<forall>cpf\<in>set (cp_cpfs p). \<forall>npf\<in>set cpf. np_pages npf = []) \<and>
     (\<forall>g\<in>set (cp_grade p). hot_pages g = [] \<and> cold_pages g = []) \<and>
     (case cp_vma_pf p of None \<Rightarrow> True | Some vpf \<Rightarrow> \<forall>v\<in>set vpf. snd v = [])"

lemma empty_state [simp]: "pid_empty (p\<lparr>cp_state := st\<rparr>) = pid_empty p"
  by (simp add: pid_empty_def)

lemma clean_empty: "pid_clean p \<Longrightarrow> pid_empty p"
  unfolding pid_clean_def pid_empty_def init_node_page_refs_def
  by (intro conjI ballI) (metis node_page_refs.simps(1), metis memory_grade.simps(1), metis memory_grade.simps(2), simp)

lemma get_vmas_empty: "cslide_get_vmas S fs p al = Inr (r, q, al') \<Longrightarrow> pid_empty p \<Longrightarrow> pid_empty q"
  by (auto simp: cslide_get_vmas_def pid_empty_def split: option.splits prod.splits bool.splits if_splits)

lemma scan_vmas_empty: "cslide_scan_vmas F S gps io p al = Inr (r, q, al') \<Longrightarrow> pid_empty p \<Longrightarrow> pid_empty q"
  by (simp add: cslide_scan_vmas_def pid_empty_def split: option.splits if_splits) (use scan_areas_empty in fastforce)+

lemma in_list_updateD: "x \<in> set (xs[i := y]) \<Longrightarrow> x = y \<or> x \<in> set xs"
  by (metis insertE set_update_subset_insert subsetD)

lemma next_vma_pf_empty: "\<forall>v\<in>set vpf. snd v = [] \<Longrightarrow> next_vma_pf (map snd vpf) = ([], [])"
  by (induction vpf) simp_all

lemma count_node_pfs_empty: "cslide_count_node_pfs gps mp p al = Inr (r, q, al') \<Longrightarrow> pid_empty p \<Longrightarrow> pid_empty q"
  by (cases "c_alloc al"; cases "fst (c_alloc al)"; cases "c_alloc (snd (c_alloc al))"; cases "fst (c_alloc (snd (c_alloc al)))")
    (auto simp: cslide_count_node_pfs_def pid_empty_def next_vma_pf_empty count_loop.simps split: option.splits)

lemma in_set_updateD: "\<forall>x\<in>set xs. P x \<Longrightarrow> P y \<Longrightarrow> \<forall>x\<in>set (xs[i := y]). P x"
  by (auto dest: in_list_updateD)

section \<open>The policy and the migration without pages\<close>

lemma c_nth_mem: "c_nth xs i = Inr x \<Longrightarrow> x \<in> set xs"
  by (auto simp: c_nth_def split: if_splits)

lemma move_npf_empty: "move_npf_to_list gps npf l lim = Inr (npf', l') \<Longrightarrow> np_pages npf = [] \<Longrightarrow> np_pages npf' = [] \<and> l' = l"
  by (auto simp: move_npf_to_list_def split: if_splits)

lemma policy_empty:
  assumes "policy_fits fl" "filter_policy fl mv gps ctrl pair cpf g = Inr (ctrl', cpf', g')"
    and "\<forall>npf\<in>set cpf. np_pages npf = []" "hot_pages g = [] \<and> cold_pages g = []"
  shows "(\<forall>npf\<in>set cpf'. np_pages npf = []) \<and> hot_pages g' = [] \<and> cold_pages g' = []"
  using assms
  by (auto simp: policy_fits_def to_hot_policy_def to_cold_policy_def dest!: c_nth_mem move_npf_empty in_list_updateD)

lemma filter_pairs_empty:
  assumes "policy_fits fl"
  shows "filter_pairs fl gps i j pairs ctrl p = Inr (stop, ctrl', q) \<Longrightarrow> pid_empty p \<Longrightarrow> pid_empty q"
proof (induction pairs arbitrary: j ctrl p)
  case (Cons pair pairs)
  obtain cpf g ctrl1 cpf1 g1 where n: "c_nth (cp_cpfs p) i = Inr cpf" "c_nth (cp_grade p) (int j) = Inr g"
    and f: "filter_policy fl (flow_move_func fl) gps ctrl pair cpf g = Inr (ctrl1, cpf1, g1)"
    and r: "filter_pairs fl gps i (Suc j) pairs ctrl1 (p\<lparr>cp_cpfs := (cp_cpfs p)[nat i := cpf1], cp_grade := (cp_grade p)[j := g1]\<rparr>)
        = Inr (stop, ctrl', q) \<or> q = p\<lparr>cp_cpfs := (cp_cpfs p)[nat i := cpf1], cp_grade := (cp_grade p)[j := g1]\<rparr>"
    using Cons.prems(1) by (auto simp: Let_def split: if_splits)
  have "(\<forall>npf\<in>set cpf1. np_pages npf = []) \<and> hot_pages g1 = [] \<and> cold_pages g1 = []"
    by (rule policy_empty [OF assms f]) (use Cons.prems(2) c_nth_mem [OF n(1)] c_nth_mem [OF n(2)] in \<open>simp_all add: pid_empty_def\<close>)
  with Cons.prems(2) have "pid_empty (p\<lparr>cp_cpfs := (cp_cpfs p)[nat i := cpf1], cp_grade := (cp_grade p)[j := g1]\<rparr>)"
    by (auto simp: pid_empty_def dest!: in_list_updateD)
  then show ?case using r by (auto dest: Cons.IH)
qed simp

lemma filter_pids_empty:
  assumes "policy_fits fl"
  shows "filter_pids fl gps pairs i ctrl ps = Inr (stop, ctrl', qs) \<Longrightarrow> \<forall>p\<in>set ps. pid_empty p \<Longrightarrow> \<forall>q\<in>set qs. pid_empty q"
proof (induction ps arbitrary: ctrl qs)
  case (Cons p ps)
  from Cons.prems show ?case by (auto split: if_splits) (use filter_pairs_empty [OF assms] Cons.IH in blast)+
qed simp

lemma filter_counts_empty:
  assumes "policy_fits fl"
  shows "filter_counts fl gps pairs is ctrl ps = Inr (ctrl', qs) \<Longrightarrow> \<forall>p\<in>set ps. pid_empty p \<Longrightarrow> \<forall>q\<in>set qs. pid_empty q"
proof (induction "is" arbitrary: ctrl ps)
  case (Cons i "is")
  obtain stop ctrl1 ps1 where 1: "filter_pids fl gps pairs i ctrl ps = Inr (stop, ctrl1, ps1)"
    and r: "ps1 = qs \<or> filter_counts fl gps pairs is ctrl1 ps1 = Inr (ctrl', qs)"
    using Cons.prems(1) by (auto split: if_splits)
  from r filter_pids_empty [OF assms 1 Cons.prems(2)] Cons.IH show ?case by blast
qed simp

lemma do_filter_empty:
  "policy_fits fl \<Longrightarrow> do_filter fl gps pairs ctrl ps = Inr (ctrl', qs) \<Longrightarrow> \<forall>p\<in>set ps. pid_empty p \<Longrightarrow> \<forall>q\<in>set qs. pid_empty q"
  unfolding do_filter_def Let_def by (simp split: if_splits option.splits) (rule filter_counts_empty)

lemma filter_pfs_empty:
  assumes "cslide_filter_pfs gps eng ps al = Inr (ret, qs, al')" "\<forall>p\<in>set ps. pid_empty p"
  shows "\<forall>q\<in>set qs. pid_empty q"
proof -
  have h: "move_hot_pages gps eng c ps = Inr (c', qs) \<Longrightarrow> \<forall>p\<in>set ps. pid_empty p \<Longrightarrow> \<forall>q\<in>set qs. pid_empty q"
    "prefetch_hot_pages gps eng c ps = Inr (c', qs) \<Longrightarrow> \<forall>p\<in>set ps. pid_empty p \<Longrightarrow> \<forall>q\<in>set qs. pid_empty q"
    "move_cold_pages gps eng c ps = Inr (c', qs) \<Longrightarrow> \<forall>p\<in>set ps. pid_empty p \<Longrightarrow> \<forall>q\<in>set qs. pid_empty q"
    for c c' and ps qs :: "'a cslide_pid_params list"
    unfolding move_hot_pages_def prefetch_hot_pages_def move_cold_pages_def
    by (erule do_filter_empty [rotated]; simp add: policy_fits_def)+
  show ?thesis
  proof (cases "\<exists>c al1. init_flow_ctrl eng al = Inr (Some c, al1)")
    case False
    with assms show ?thesis by (auto simp: cslide_filter_pfs_def split: option.splits)
  next
    case True
    with assms(1) obtain c c1 c2 c3 ps1 ps2 where "move_hot_pages gps eng c ps = Inr (c1, ps1)"
      "prefetch_hot_pages gps eng c1 ps1 = Inr (c2, ps2)" "move_cold_pages gps eng c2 ps2 = Inr (c3, qs)"
      by (auto simp: cslide_filter_pfs_def)
    with h assms(2) show ?thesis by metis
  qed
qed

lemma count_pids_empty:
  "count_pids gps mp ps al = Inr (ret, qs, al') \<Longrightarrow> \<forall>p\<in>set ps. pid_empty p \<Longrightarrow> \<forall>q\<in>set qs. pid_empty q"
proof (induction ps arbitrary: al qs)
  case (Cons p ps)
  from Cons.prems show ?case by (auto split: if_splits) (use count_node_pfs_empty Cons.IH in blast)+
qed simp

lemma stat_pids_empty:
  assumes "stat_pids t ps host = (qs, host')" "\<forall>p\<in>set ps. pid_empty p"
  shows "\<forall>q\<in>set qs. pid_empty q"
proof
  fix q assume "q \<in> set qs"
  with list_all2_in2 [OF stat_pids_frame [OF assms(1)]] obtain p info where "p \<in> set ps" "q = p\<lparr>cp_info := info\<rparr>" by blast
  with assms(2) show "pid_empty q" by (simp add: pid_empty_def)
qed

lemma cslide_policy_empty:
  assumes "cslide_policy gps mp eng ps al = Inr (ret, eng', qs, al')" "\<forall>p\<in>set ps. pid_empty p"
  shows "\<forall>q\<in>set qs. pid_empty q"
proof -
  obtain ret1 ps1 al1 where 1: "count_pids gps mp ps al = Inr (ret1, ps1, al1)"
    and r: "ps1 = qs \<or> (\<exists>ps2 ret2 al2. cslide_stat eng ps1 = (eng', ps2) \<and> cslide_filter_pfs gps eng' ps2 al1 = Inr (ret2, qs, al2))"
    using assms(1) by (auto simp: cslide_policy_def split: if_splits prod.splits)
  note e1 = count_pids_empty [OF 1 assms(2)]
  have "cslide_stat eng ps1 = (eng', ps2) \<Longrightarrow> \<forall>p\<in>set ps2. pid_empty p" for ps2
    by (auto simp: cslide_stat_def split: prod.splits dest!: stat_pids_empty [OF _ e1])
  with r e1 filter_pfs_empty show ?thesis by metis
qed

lemma migrate_single_empty:
  "hot_pages g = [] \<Longrightarrow> cold_pages g = [] \<Longrightarrow> migrate_single_task ok pid g h c reqs al = (0, reqs, al)"
  by (simp add: migrate_single_task_def do_migrate_pages_def)

lemma migrate_pairs_empty:
  "migrate_pairs ok pid pairs grades reqs al = Inr (ret, reqs', al') \<Longrightarrow> \<forall>g\<in>set grades. hot_pages g = [] \<and> cold_pages g = [] \<Longrightarrow> reqs' = reqs"
proof (induction pairs arbitrary: grades)
  case (Cons pair pairs)
  from Cons.prems Cons.IH show ?case by (cases grades) (simp_all add: migrate_single_empty)
qed simp

lemma do_migrate_empty:
  "cslide_do_migrate ok pairs ps reqs al = Inr (ret, reqs', al') \<Longrightarrow> \<forall>p\<in>set ps. pid_empty p \<Longrightarrow> reqs' = reqs"
proof (induction ps arbitrary: reqs al)
  case (Cons p ps)
  from Cons.prems show ?case by (auto simp: pid_empty_def split: if_splits dest!: migrate_pairs_empty dest: Cons.IH)
qed simp

section \<open>All parameters of the store\<close>

lemma each_working_all:
  assumes "\<And>p al r q al'. f p al = Inr (r, q, al') \<Longrightarrow> P p \<Longrightarrow> P q"
  shows "each_working f ps al = Inr (ret, qs, al') \<Longrightarrow> \<forall>p\<in>set ps. P p \<Longrightarrow> \<forall>q\<in>set qs. P q"
proof (induction ps arbitrary: al qs)
  case (Cons p ps)
  from Cons.prems show ?case by (auto split: if_splits) (use assms Cons.IH in blast)+
qed simp

lemma cslide_scan_passes_empty:
  "cslide_scan_passes F S gps ios i n ps al = Inr (ret, qs, al') \<Longrightarrow> \<forall>p\<in>set ps. pid_empty p \<Longrightarrow> \<forall>q\<in>set qs. pid_empty q"
proof (induction n arbitrary: i ps al)
  case (Suc n)
  let ?f = "\<lambda>p al. if cp_vmas p = None then Inr (0, p, al) else cslide_scan_vmas F S gps (ios i (cp_pid p)) p al"
  obtain ret1 ps1 al1 where 1: "each_working ?f ps al = Inr (ret1, ps1, al1)"
    and r: "ps1 = qs \<or> cslide_scan_passes F S gps ios (Suc i) n ps1 al1 = Inr (ret, qs, al')"
    using Suc.prems(1) by (auto split: if_splits)
  have "\<forall>q\<in>set ps1. pid_empty q"
    by (rule each_working_all [OF _ 1 Suc.prems(2)]) (auto split: if_splits dest: scan_vmas_empty)
  with r Suc.IH show ?case by blast
qed simp

lemma do_scan_empty:
  assumes "cslide_do_scan F S fs gps ios eng ps al = Inr (ret, qs, al')" "\<forall>p\<in>set ps. pid_empty p"
  shows "\<forall>q\<in>set qs. pid_empty q"
proof -
  obtain ret1 ps1 al1 where 1: "each_working (cslide_get_vmas S fs) ps al = Inr (ret1, ps1, al1)"
    and r: "ps1 = qs \<or> cslide_scan_passes F S gps ios 0 (nat (ce_loop eng)) ps1 al1 = Inr (ret, qs, al')"
    using assms(1) by (auto simp: cslide_do_scan_def split: if_splits)
  have "\<forall>q\<in>set ps1. pid_empty q" by (rule each_working_all [OF _ 1 assms(2)]) (rule get_vmas_empty)
  with r cslide_scan_passes_empty show ?thesis by metis
qed

definition store_all :: "('d cslide_pid_params \<Rightarrow> bool) \<Rightarrow> 'd cslide_factory \<Rightarrow> bool" where
  "store_all P fa \<longleftrightarrow> (\<forall>x p. fa_params fa x = Some p \<longrightarrow> P p)"

lemma working_list_all: "working_list fa = Inr ps \<Longrightarrow> store_all P fa \<Longrightarrow> \<forall>p\<in>set ps. P p"
  unfolding working_list_def
proof (induction "fa_working fa" arbitrary: fa ps)
  case (Cons x xs)
  from Cons.prems Cons.hyps(1) [of "fa\<lparr>fa_working := xs\<rparr>"] show ?case
    by (auto simp: Cons.hyps(2) [symmetric] store_all_def)
qed (auto simp flip: Nil_is_map_conv)

lemma on_working_all:
  assumes run: "on_working f fa = Inr (a, fa')" and all: "store_all P fa"
    and f: "\<And>ps qs. f ps = Inr (a, qs) \<Longrightarrow> \<forall>p\<in>set ps. P p \<Longrightarrow> \<forall>q\<in>set qs. P q"
  shows "store_all P fa'"
proof -
  obtain ps qs where w: "working_list fa = Inr ps" and q: "f ps = Inr (a, qs)"
    and fa': "fa' = fa\<lparr>fa_params := fa_params fa ++ map_of (zip (fa_working fa) qs)\<rparr>"
    using run by (auto simp: on_working_def)
  have "\<forall>q\<in>set qs. P q" using f [OF q] working_list_all [OF w all] by blast
  with all show ?thesis
    by (auto simp: store_all_def fa' map_add_def split: option.splits dest!: map_of_SomeD dest: set_zip_rightD)
qed

lemma free_marked_sub: "free_marked m xs = Inr (m', ys) \<Longrightarrow> m' z = Some p \<Longrightarrow> m z = Some p"
proof (induction xs arbitrary: m ys)
  case (Cons x xs)
  from Cons.prems(1) obtain m1 ys1 where "m1 = m \<or> m1 = m(x := None)" "free_marked m1 xs = Inr (m', ys1)"
    by (auto simp: free_pid_params_def split: if_splits)
  with Cons.IH [of m1 ys1] Cons.prems(2) show ?case by (auto split: if_splits)
qed simp

lemma store_all_set: "store_all pid_empty fa \<Longrightarrow> fa_params fa x = Some p \<Longrightarrow> store_all pid_empty (set_state st x p fa)"
  by (auto simp: store_all_def set_state_def)

lemma store_all_lists [simp]: "store_all P (fa\<lparr>fa_to_add := xs\<rparr>) = store_all P fa"
  by (simp add: store_all_def)

lemma start_empty: "cslide_start_task fa xs = Inr fa' \<Longrightarrow> store_all pid_empty fa \<Longrightarrow> store_all pid_empty fa'"
  by (induction xs arbitrary: fa) (auto simp: factory_add_pid_params_def Let_def store_all_set)

lemma stop_empty: "cslide_stop_task fa xs = Inr fa' \<Longrightarrow> store_all pid_empty fa \<Longrightarrow> store_all pid_empty fa'"
  by (induction xs arbitrary: fa) (auto simp: factory_remove_pid_params_def store_all_set)

lemma free_empty: "cslide_free_pid_params fa x = Inr fa' \<Longrightarrow> store_all pid_empty fa \<Longrightarrow> store_all pid_empty fa'"
  by (auto simp: cslide_free_pid_params_def factory_free_pid_params_def free_pid_params_def store_all_set
      split: option.splits if_splits) (auto simp: store_all_def split: if_splits)

lemma update_empty: "factory_update_pid_params fa = Inr fa' \<Longrightarrow> store_all pid_empty fa \<Longrightarrow> store_all pid_empty fa'"
  by (auto simp: factory_update_pid_params_def store_all_def dest!: free_marked_sub)

lemma clean_params_empty: "cslide_clean_params ps = Inr qs \<Longrightarrow> \<forall>p\<in>set ps. pid_empty p \<Longrightarrow> \<forall>q\<in>set qs. pid_empty q"
  unfolding cslide_clean_params_def
proof (induction ps arbitrary: qs)
  case (Cons p ps)
  have "cslide_free_vmas (clean_pid_param p) = Inr q \<Longrightarrow> pid_empty q" for q
    using Cons.prems(2)
    by (auto simp: cslide_free_vmas_def clean_pid_param_def pid_empty_def clean_count_page_refs_def clean_node_page_refs_def
        split: option.splits if_splits)
  with Cons.prems Cons.IH show ?case by auto
qed simp

section \<open>The worker as a whole\<close>

lemma main_step_empty:
  assumes "cslide_main_step E s = Inr s'" "store_all pid_empty (cs_fa s)" "cs_reqs s = []"
  shows "store_all pid_empty (cs_fa s') \<and> cs_reqs s' = []"
proof (cases "cs_pc s")
  case W_scan
  with assms show ?thesis
    by (auto simp: cslide_main_step_def elim!: on_working_all) (use do_scan_empty in blast)
next
  case W_policy
  with assms show ?thesis
    by (auto simp: cslide_main_step_def elim!: on_working_all) (use cslide_policy_empty in blast)
next
  case W_migrate
  with assms show ?thesis
    by (auto simp: cslide_main_step_def dest!: working_list_all [where P = pid_empty] do_migrate_empty)
next
  case W_clean
  with assms show ?thesis
    by (auto simp: cslide_main_step_def elim!: on_working_all) (use clean_params_empty in blast)
qed (use assms in \<open>auto simp: cslide_main_step_def split: if_splits prod.splits dest: update_empty\<close>)

lemma step_empty:
  "cslide_step sH sH' \<Longrightarrow> store_all pid_empty (cs_fa (fst sH)) \<Longrightarrow> cs_reqs (fst sH) = [] \<Longrightarrow>
   store_all pid_empty (cs_fa (fst sH')) \<and> cs_reqs (fst sH') = []"
proof (induction rule: cslide_step.induct)
  case (worker s E s' H)
  then show ?case using main_step_empty by simp
next
  case (alloc s x pid task al p al' H)
  then have "pid_empty p" by (intro clean_empty) (rule alloc_pid_fresh)
  with alloc show ?case by (auto simp: store_all_def)
qed (auto dest: start_empty stop_empty free_empty)

text \<open>C18: The cslide engine never migrates a page. In whatever order the worker and the tasks act, and whatever the
  kernel reports, it never calls \<open>move_pages\<close> with target nodes: every scan that returns has found no
  page, because \<open>cslide_scan_vmas\<close> calls \<open>walk_vmas\<close> with \<open>loop_index = loop_end = 0\<close>, so that recording the first page makes
  \<open>update_possibility\<close> read the link behind it, which is NULL. All lists of pages of all processes stay empty.\<close>

theorem cslide_never_migrates:
  assumes "cslide_reach (s, H)"
  shows "cs_reqs s = [] \<and> (\<forall>x p. fa_params (cs_fa s) x = Some p \<longrightarrow> pid_empty p)"
proof -
  have "store_all pid_empty (cs_fa (fst sH)) \<and> cs_reqs (fst sH) = []" if "cslide_reach sH" for sH :: "'a cslide_state \<times> nat set"
    using that
  proof induction
    case (init sH)
    then show ?case by (simp add: cslide_initial_def store_all_def)
  next
    case (step sH sH')
    then show ?case by (auto dest: step_empty)
  qed
  from this [OF assms] show ?thesis by (auto simp: store_all_def)
qed

lemma cslide_never_migrates_witness:
  "\<exists>s :: int cslide_state. cslide_reach (s, {7}) \<and> cs_pc s = W_scan \<and> cs_reqs s = [] \<and> (\<exists>p. fa_params (cs_fa s) 7 = Some p \<and> pid_empty p)"
proof -
  obtain p :: "int cslide_pid_params" where p: "cslide_alloc_pid_params two_node_eng 42 zero_cslide_task [] = (Some p, [])"
    using alloc_succeeds by blast
  note r = scan_reach [OF p]
  show ?thesis
  proof (intro exI conjI)
    show "pid_empty (p\<lparr>cp_state := STATE_WORKING\<rparr>)"
      using cslide_never_migrates [OF r, THEN conjunct2, rule_format, of 7 "p\<lparr>cp_state := STATE_WORKING\<rparr>"] by simp
  qed (rule r, simp_all)
qed

end
