(* ===== verification/Status_Show.thy ===== *)
theory Status_Show
  imports Project Cslide_Engine "HOL-Library.Signed_Division"
begin

text \<open>
  What the daemon prints for its clients: the tables of projects and tasks (\<open>etmemd_project_show\<close> in \<open>etmemd_project.c\<close>,
  \<open>etmemd_print_tasks\<close> in \<open>etmemd_task.c\<close>), and the statistics of the cslide engine (\<open>cslide_engine_do_cmd\<close> in
  \<open>etmemd_cslide.c\<close>), all written by \<open>dprintf_all\<close> (\<open>etmemd_common.c\<close>).

  A printing function gives the texts it passes to \<open>dprintf_all\<close>, in order. The main result is that the table of a project
  can be read back: the words of its lines are the fields of the tasks.
\<close>

section \<open>Formatting\<close>

text \<open>The conversions \<open>%ns\<close>, \<open>%-ns\<close>, \<open>%d\<close> of an \<open>int\<close>, and \<open>%s\<close> of a pointer that may be NULL.\<close>

definition pad_left :: "nat \<Rightarrow> string \<Rightarrow> string" where
  "pad_left n s = replicate (n - length s) CHR '' '' @ s"

definition pad_right :: "nat \<Rightarrow> string \<Rightarrow> string" where
  "pad_right n s = s @ replicate (n - length s) CHR '' ''"

definition int_text :: "int \<Rightarrow> string" where
  "int_text i = (if i < 0 then CHR ''-'' # nat_to_base 10 (nat (- i)) else nat_to_base 10 (nat i))"

definition str_text :: "string option \<Rightarrow> string" where
  "str_text s = (case s of None \<Rightarrow> ''(null)'' | Some t \<Rightarrow> t)"

text \<open>\<open>dprintf_all\<close> of a formatted text, with the results of its \<open>write\<close> calls: the return value and the bytes written.\<close>

definition dprintf_all :: "securec \<Rightarrow> string \<Rightarrow> int list \<Rightarrow> int \<times> string" where
  "dprintf_all S text ws =
     (case sec_sprintf_s S FILE_LINE_MAX_LEN text of
        (ret, line) \<Rightarrow>
          if ret > int FILE_LINE_MAX_LEN then (-1, [])
          else case write_all line ws of
            (ret', sent) \<Rightarrow> (if ret' < 0 then -1 else 0, sent))"

text \<open>A sequence of calls whose return values are ignored; after the given results every \<open>write\<close> takes all bytes.\<close>

fun print_all :: "securec \<Rightarrow> string list \<Rightarrow> int list list \<Rightarrow> string" where
  "print_all S [] wss = []"
| "print_all S (t # ts) wss =
     (let (ws, wss') = (case wss of [] \<Rightarrow> ([], []) | w # r \<Rightarrow> (w, r)) in snd (dprintf_all S t ws) @ print_all S ts wss')"

section \<open>Projects and tasks\<close>

definition task_line :: "nat \<Rightarrow> ('q, 'p) task \<Rightarrow> string \<Rightarrow> bool \<Rightarrow> string" where
  "task_line i tk eng_name running =
     pad_right 8 (int_text (int i)) @ '' '' @ pad_right 8 (str_text (tk_type tk)) @ '' '' @
     pad_right 16 (str_text (tk_value tk)) @ '' '' @ pad_right 16 (str_text (tk_name tk)) @ '' '' @
     pad_right 16 eng_name @ '' '' @ pad_right 8 (if running then ''true'' else ''false'') @ [c_newline]"

fun print_tasks_from :: "nat \<Rightarrow> ('q, 'p) task list \<Rightarrow> string \<Rightarrow> bool \<Rightarrow> string list" where
  "print_tasks_from i [] eng_name running = []"
| "print_tasks_from i (tk # tks) eng_name running =
     task_line i tk eng_name running # print_tasks_from (Suc i) tks eng_name running"

definition etmemd_print_tasks :: "('q, 'p) task list \<Rightarrow> string \<Rightarrow> bool \<Rightarrow> string list" where
  "etmemd_print_tasks tks eng_name running = print_tasks_from 1 tks eng_name running"

definition table_head :: string where
  "table_head = pad_right 8 ''number'' @ '' '' @ pad_right 8 ''type'' @ '' '' @ pad_right 16 ''value'' @ '' '' @
     pad_right 16 ''name'' @ '' '' @ pad_right 16 ''engine'' @ '' '' @ pad_right 8 ''started'' @ [c_newline]"

definition etmemd_project_print :: "('q, 'p, 'e) project \<Rightarrow> string list" where
  "etmemd_project_print proj =
     (''project: '' @ pj_name proj @ [c_newline]) # table_head #
     concat (map (\<lambda>eng. etmemd_print_tasks (en_tasks eng) (en_name eng) (pj_start proj)) (pj_engs proj))"

definition etmemd_project_show :: "string option \<Rightarrow> ('q, 'p, 'e) project list \<Rightarrow> opt_result \<times> string list" where
  "etmemd_project_show project_name projs =
     (let shown = filter (\<lambda>proj. project_name = None \<or> project_name = Some (pj_name proj)) projs in
      (OPT_SUCCESS,
       if shown \<noteq> [] then concat (map etmemd_project_print shown)
       else case project_name of
         None \<Rightarrow> [''no project exists'' @ [c_newline, c_newline]]
       | Some n \<Rightarrow> [''project: project '' @ n @ '' is not existed'' @ [c_newline, c_newline]]))"

section \<open>Statistics of the cslide engine\<close>

text \<open>\<open>asc\<close> is the string \<open>asctime\<close> gives for the local time of the statistics, or NULL.\<close>

definition get_time_stamp :: "string option \<Rightarrow> string option c_res" where
  "get_time_stamp asc =
     (case asc of
        None \<Rightarrow> Inr None
      | Some ts \<Rightarrow>
          if ts = [] then Inl Out_of_bounds
          else Inr (Some (if last ts = c_newline then butlast ts else ts)))"

definition time_prefix :: "string option \<Rightarrow> string list c_res" where
  "time_prefix asc =
     c_bind (get_time_stamp asc) (\<lambda>t. Inr (case t of None \<Rightarrow> [] | Some ts \<Rightarrow> [CHR ''['' # ts @ ''] '']))"

definition cell :: "nat \<Rightarrow> string \<Rightarrow> string" where
  "cell n s = CHR '' '' # pad_left n s"

text \<open>An unsigned value printed with \<open>%10d\<close>.\<close>

definition u32_cell :: "u32 \<Rightarrow> string" where
  "u32_cell w = cell 10 (int_text (sint w))"

definition task_pages_line :: "nat \<Rightarrow> node_pages_info \<Rightarrow> string" where
  "task_pages_line n info =
     pad_left 5 (int_text (int n)) @ u32_cell (ni_hot info + ni_cold info) @ u32_cell (ni_hot info) @ u32_cell (ni_cold info) @
     [c_newline]"

definition show_task_pages :: "string option \<Rightarrow> 'd cslide_pid_params \<Rightarrow> (int \<times> string list) c_res" where
  "show_task_pages asc p =
     c_bind (c_nth (cp_cpfs p) 0) (\<lambda>cpf.
     c_bind (time_prefix asc) (\<lambda>pre.
     c_bind (c_map (\<lambda>n. c_bind (c_nth (cp_info p) (int n)) (\<lambda>info. Inr (task_pages_line n info))) [0..<length cpf]) (\<lambda>rows.
       Inr (0, pre @ [''task '' @ int_text (sint (cp_pid p)) @ '' pages info (KB):'' @ [c_newline],
                      pad_left 5 ''node'' @ cell 10 ''used'' @ cell 10 ''hot'' @ cell 10 ''cold'' @ [c_newline]] @ rows))))"

definition host_pages_line :: "nat \<Rightarrow> u32 \<Rightarrow> node_pages_info \<Rightarrow> string" where
  "host_pages_line n kb info =
     pad_left 5 (int_text (int n)) @ u32_cell kb @ u32_cell (ni_hot info + ni_cold info) @ u32_cell (ni_hot info) @
     u32_cell (ni_cold info) @ [c_newline]"

text \<open>\<open>total\<close> is the \<open>uint32_t\<close> of the kilobytes of the node.\<close>

definition show_host_pages :: "string option \<Rightarrow> cslide_eng_params \<Rightarrow> (int \<times> string list) c_res" where
  "show_host_pages asc eng =
     c_bind (time_prefix asc) (\<lambda>pre.
     c_bind (c_map (\<lambda>n. c_bind (c_nth (ce_host_pages_info eng) (int n)) (\<lambda>info.
                       Inr (host_pages_line n (word_of_int (nm_huge_total (ce_mem eng ! n) sdiv 1024)) info))) [0..<length (ce_mem eng)])
       (\<lambda>rows.
       Inr (0, pre @ [''host pages info (KB):'' @ [c_newline],
                      pad_left 5 ''node'' @ cell 10 ''total'' @ cell 10 ''used'' @ cell 10 ''hot'' @ cell 10 ''cold'' @ [c_newline]] @
               rows)))"

definition find_cmd_item :: "(string \<times> 'f) list \<Rightarrow> string \<Rightarrow> 'f option" where
  "find_cmd_item items cmd = map_option snd (find (\<lambda>it. fst it = cmd) items)"

definition g_host_cmd_items :: "(string \<times> (string option \<Rightarrow> cslide_eng_params \<Rightarrow> (int \<times> string list) c_res)) list" where
  "g_host_cmd_items = [(''showhostpages'', show_host_pages)]"

definition g_task_cmd_items :: "(string \<times> (string option \<Rightarrow> 'd cslide_pid_params \<Rightarrow> (int \<times> string list) c_res)) list" where
  "g_task_cmd_items = [(''showtaskpages'', show_task_pages)]"

text \<open>The task is given by the parameters of its processes: None is a task that was not found, \<open>Some []\<close> one without
  processes, and an address None a process without parameters.\<close>

definition cslide_engine_do_cmd ::
  "string option \<Rightarrow> cslide_eng_params \<Rightarrow> 'd cslide_factory \<Rightarrow> nat option list option \<Rightarrow> string \<Rightarrow> (int \<times> string list) c_res" where
  "cslide_engine_do_cmd asc eng fa tk cmd =
     c_bind (factory_working_empty fa) (\<lambda>e.
       if e then Inr (-1, [])
       else case find_cmd_item g_host_cmd_items cmd of
         Some func \<Rightarrow> func asc eng
       | None \<Rightarrow>
           (case find_cmd_item g_task_cmd_items cmd of
              None \<Rightarrow> Inr (-1, [])
            | Some func \<Rightarrow>
                (case tk of
                   Some (Some x # _) \<Rightarrow> c_bind (deref (fa_params fa) x) (\<lambda>p. func asc p)
                 | _ \<Rightarrow> Inr (-1, []))))"

section \<open>Reading the table back\<close>

definition is_word :: "string \<Rightarrow> bool" where
  "is_word s \<longleftrightarrow> s \<noteq> [] \<and> (\<forall>c\<in>set s. c \<noteq> CHR '' '' \<and> c \<noteq> c_newline)"

text \<open>The words of a line, separated by blanks and the newline; a line of more than seven words is cut.\<close>

definition row_words :: "string \<Rightarrow> string list" where
  "row_words line = strtok_n 7 (CHR '' '' # [c_newline]) line"

lemma strtok_blanks: "strtok_n n (CHR '' '' # ds) (replicate k CHR '' '' @ s) = strtok_n n (CHR '' '' # ds) s"
proof (cases n)
  case (Suc m)
  have "c_strtok (CHR '' '' # ds) (replicate k CHR '' '' @ s) = c_strtok (CHR '' '' # ds) s"
    by (induction k) (simp_all add: c_strtok_def)
  with Suc show ?thesis by simp
qed simp

lemma strtok_word:
  assumes "is_word t"
  shows "strtok_n (Suc n) (CHR '' '' # [c_newline]) (t @ CHR '' '' # r) = t # strtok_n n (CHR '' '' # [c_newline]) r"
    "strtok_n (Suc n) (CHR '' '' # [c_newline]) (t @ c_newline # r) = t # strtok_n n (CHR '' '' # [c_newline]) r"
  using assms by (simp_all add: is_word_def strtok_n_token del: strtok_n.simps)

lemma strtok_padded:
  "is_word t \<Longrightarrow> strtok_n (Suc n) (CHR '' '' # [c_newline]) (pad_right k t @ CHR '' '' # r) = t # strtok_n n (CHR '' '' # [c_newline]) r"
proof (cases "k - length t")
  case 0
  then show "is_word t \<Longrightarrow> ?thesis" by (simp add: pad_right_def strtok_word del: strtok_n.simps)
next
  case (Suc m)
  have "pad_right k t @ CHR '' '' # r = t @ CHR '' '' # replicate (Suc m) CHR '' '' @ r"
    by (simp add: pad_right_def Suc replicate_app_Cons_same)
  then show "is_word t \<Longrightarrow> ?thesis" by (simp only: strtok_word strtok_blanks)
qed

lemma strtok_padded_last:
  "is_word t \<Longrightarrow> strtok_n (Suc (Suc n)) (CHR '' '' # [c_newline]) (pad_right k t @ [c_newline]) = [t]"
proof (cases "k - length t")
  case 0
  then show "is_word t \<Longrightarrow> ?thesis"
    by (simp add: pad_right_def strtok_word(2) del: strtok_n.simps(2)) (simp add: c_strtok_def)
next
  case (Suc m)
  have "pad_right k t @ [c_newline] = t @ CHR '' '' # replicate m CHR '' '' @ [c_newline]"
    by (simp add: pad_right_def Suc replicate_app_Cons_same)
  moreover have "strtok_n (Suc n) (CHR '' '' # [c_newline]) [c_newline] = []" by (simp add: c_strtok_def)
  ultimately show "is_word t \<Longrightarrow> ?thesis" by (simp only: strtok_word strtok_blanks)
qed

lemma int_text_word: "is_word (int_text (int n))"
proof -
  have "\<not> c_isdigit CHR '' ''" "\<not> c_isdigit c_newline" by (simp_all add: c_isdigit_def)
  moreover have "c_isdigit c" if "c \<in> set (nat_to_base 10 n)" for c using that nat_to_base_decimal [of n] by (auto simp: list_all_iff)
  ultimately show ?thesis by (auto simp: is_word_def int_text_def nat_to_base_nonempty)
qed

definition task_words :: "nat \<Rightarrow> ('q, 'p) task \<Rightarrow> string \<Rightarrow> bool \<Rightarrow> string list" where
  "task_words i tk eng_name running =
     [int_text (int i), str_text (tk_type tk), str_text (tk_value tk), str_text (tk_name tk), eng_name,
      if running then ''true'' else ''false'']"

definition task_shows :: "('q, 'p) task \<Rightarrow> bool" where
  "task_shows tk \<longleftrightarrow> is_word (str_text (tk_type tk)) \<and> is_word (str_text (tk_value tk)) \<and> is_word (str_text (tk_name tk))"

lemma row_words_six:
  assumes "is_word a" "is_word b" "is_word c" "is_word d" "is_word e" "is_word f"
  shows "row_words (pad_right 8 a @ '' '' @ pad_right 8 b @ '' '' @ pad_right 16 c @ '' '' @ pad_right 16 d @ '' '' @
    pad_right 16 e @ '' '' @ pad_right 8 f @ [c_newline]) = [a, b, c, d, e, f]"
proof -
  have seven: "(7 :: nat) = Suc (Suc (Suc (Suc (Suc (Suc (Suc 0))))))" by simp
  show ?thesis
    unfolding row_words_def seven append_Cons append_Nil
    by (simp only: strtok_padded assms strtok_padded_last)
qed

lemma task_line_words: "task_shows tk \<Longrightarrow> is_word eng_name \<Longrightarrow> row_words (task_line i tk eng_name running) = task_words i tk eng_name running"
  unfolding task_line_def task_words_def
  by (rule row_words_six) (simp_all add: task_shows_def int_text_word, simp add: is_word_def)

text \<open>The rows of an engine and the lines of a project, as lists of words.\<close>

definition engine_rows :: "bool \<Rightarrow> ('q, 'p, 'e) engine \<Rightarrow> string list list" where
  "engine_rows running eng =
     map (\<lambda>i. task_words (Suc i) (en_tasks eng ! i) (en_name eng) running) [0..<length (en_tasks eng)]"

definition project_rows :: "('q, 'p, 'e) project \<Rightarrow> string list list" where
  "project_rows proj =
     [''project:'', pj_name proj] # [''number'', ''type'', ''value'', ''name'', ''engine'', ''started''] #
     concat (map (engine_rows (pj_start proj)) (pj_engs proj))"

definition project_shows :: "('q, 'p, 'e) project \<Rightarrow> bool" where
  "project_shows proj \<longleftrightarrow> is_word (pj_name proj) \<and>
     (\<forall>eng\<in>set (pj_engs proj). is_word (en_name eng) \<and> (\<forall>tk\<in>set (en_tasks eng). task_shows tk))"

lemma print_tasks_words:
  "\<forall>tk\<in>set tks. task_shows tk \<Longrightarrow> is_word eng_name \<Longrightarrow>
   map row_words (print_tasks_from i tks eng_name running) = map (\<lambda>k. task_words (i + k) (tks ! k) eng_name running) [0..<length tks]"
proof (induction tks arbitrary: i)
  case (Cons tk tks)
  then show ?case by (simp add: task_line_words upt_conv_Cons map_Suc_upt [symmetric] del: upt_Suc)
qed simp

lemma project_print_words: "project_shows proj \<Longrightarrow> map row_words (etmemd_project_print proj) = project_rows proj"
proof -
  assume p: "project_shows proj"
  have eng: "map row_words (etmemd_print_tasks (en_tasks eng) (en_name eng) (pj_start proj)) = engine_rows (pj_start proj) eng"
    if "eng \<in> set (pj_engs proj)" for eng
    using p that by (simp add: project_shows_def etmemd_print_tasks_def engine_rows_def print_tasks_words)
  have head: "row_words table_head = [''number'', ''type'', ''value'', ''name'', ''engine'', ''started'']"
    unfolding table_head_def by (rule row_words_six) (simp_all add: is_word_def)
  have name: "row_words (''project: '' @ pj_name proj @ [c_newline]) = [''project:'', pj_name proj]"
  proof -
    have seven: "(7 :: nat) = Suc (Suc (Suc (Suc (Suc (Suc (Suc 0))))))" by simp
    have "''project: '' @ pj_name proj @ [c_newline] = ''project:'' @ CHR '' '' # pj_name proj @ [c_newline]" by simp
    moreover have "is_word ''project:''" "is_word (pj_name proj)" using p by (simp_all add: is_word_def project_shows_def)
    moreover have "strtok_n n (CHR '' '' # [c_newline]) [] = []" for n by (cases n) (simp_all add: c_strtok_def)
    ultimately show ?thesis unfolding row_words_def seven by (simp only: strtok_word)
  qed
  have "map row_words (concat (map (\<lambda>eng. etmemd_print_tasks (en_tasks eng) (en_name eng) (pj_start proj)) (pj_engs proj))) =
      concat (map (engine_rows (pj_start proj)) (pj_engs proj))"
    using eng by (simp add: map_concat comp_def cong: map_cong)
  with head name show ?thesis by (simp add: etmemd_project_print_def project_rows_def)
qed

lemma print_all_sent: "securec_ok S \<Longrightarrow> \<forall>t\<in>set ts. length t < FILE_LINE_MAX_LEN \<Longrightarrow> print_all S ts [] = concat ts"
  by (induction ts) (simp_all add: dprintf_all_def securec_ok_def write_all_def)

text \<open>The table that \<open>etmem project show\<close> prints can be read back. For names without blanks and lines that fit the line buffer
  the client receives exactly the concatenated lines of the shown projects, and split at blanks these are the name of each project, the
  head, and one row per task with its number within its engine, its type, value, name, engine and whether the project is running.\<close>

theorem show_read_back:
  assumes "securec_ok S" "\<forall>proj\<in>set projs. project_shows proj"
    and "etmemd_project_show project_name projs = (r, texts)" "\<forall>t\<in>set texts. length t < FILE_LINE_MAX_LEN"
    and "proj \<in> set projs" "project_name = None \<or> project_name = Some (pj_name proj)"
  shows "r = OPT_SUCCESS \<and> print_all S texts [] = concat texts \<and>
    map row_words texts = concat (map project_rows (filter (\<lambda>q. project_name = None \<or> project_name = Some (pj_name q)) projs))"
proof -
  let ?shown = "filter (\<lambda>q. project_name = None \<or> project_name = Some (pj_name q)) projs"
  have "?shown \<noteq> []" using assms(5,6) by (auto simp: filter_empty_conv)
  with assms(3) have r: "r = OPT_SUCCESS" and t: "texts = concat (map etmemd_project_print ?shown)"
    by (auto simp: etmemd_project_show_def Let_def)
  have "map row_words texts = concat (map project_rows ?shown)"
    using assms(2) by (auto simp: t map_concat project_print_words intro!: arg_cong [where f = concat])
  with r print_all_sent [OF assms(1,4)] show ?thesis by simp
qed

definition shown_project :: "(unit, unit, unit) project" where
  "shown_project = \<lparr>proj_sysmem_threshold = 50, swapcache_high_wmark = -1, swapcache_low_wmark = -1, wmark_set = False,
     pj_name = ''base'', pj_type = PAGE_SCAN, pj_scan = None, pj_start = True,
     pj_engs = [\<lparr>en_type = SLIDE_ENGINE, en_name = ''slide'', en_params = None,
       en_tasks = [\<lparr>tk_type = Some ''name'', tk_value = Some ''mysql'', tk_name = Some ''db'', tk_max_threads = 1, tk_swap_flag = 0,
         tk_pids = [], tk_params = None, tk_timer = False, tk_pool = False\<rparr>]\<rparr>]\<rparr>"

lemma show_read_back_witness:
  "map row_words (snd (etmemd_project_show (Some ''base'') [shown_project])) =
     [[''project:'', ''base''], [''number'', ''type'', ''value'', ''name'', ''engine'', ''started''],
      [''1'', ''name'', ''mysql'', ''db'', ''slide'', ''true'']]"
proof -
  have one: "int_text 1 = ''1''" by code_simp
  have sh: "\<forall>proj\<in>set [shown_project]. project_shows proj"
    by (simp add: shown_project_def project_shows_def task_shows_def str_text_def is_word_def)
  have texts: "\<forall>t\<in>set (snd (etmemd_project_show (Some ''base'') [shown_project])). length t < FILE_LINE_MAX_LEN"
    by (simp add: shown_project_def etmemd_project_show_def etmemd_project_print_def etmemd_print_tasks_def table_head_def
        task_line_def pad_right_def str_text_def one)
  from show_read_back [OF securec_ref_ok sh surjective_pairing texts, of shown_project]
  show ?thesis by (simp add: shown_project_def project_rows_def engine_rows_def task_words_def str_text_def one)
qed

end
