(* ===== verification/Etmemd_Rpc.thy ===== *)
theory Etmemd_Rpc
  imports Status_Show
begin

text \<open>
  The command server of the daemon (\<open>etmemd_rpc.c\<close>): the messages of the \<open>etmem\<close> client are received on a socket, decoded
  into \<open>server_rpc_params\<close>, carried out on the registry of projects, and answered by a text and a tag.

  The receive buffer is the list of its 512 bytes; a read behind it is a fault. The parameters of the model are the checked string
  functions, the engine operations, GKeyFile, \<open>realpath\<close> and \<open>stat\<close>, and what the socket calls return. Log messages
  are left out; the start of the daemon is in \<open>Etmemd_Main\<close>.
\<close>

section \<open>Parameters of a command\<close>

record server_rpc_params =
  sp_proj_name :: "string option"
  sp_file_name :: "string option"
  sp_cmd :: int
  sp_eng_name :: "string option"
  sp_eng_cmd :: "string option"
  sp_task_name :: "string option"

abbreviation (input) OBJ_ADD :: int where "OBJ_ADD \<equiv> 0"
abbreviation (input) OBJ_DEL :: int where "OBJ_DEL \<equiv> 1"
abbreviation (input) MIG_START :: int where "MIG_START \<equiv> 2"
abbreviation (input) MIG_STOP :: int where "MIG_STOP \<equiv> 3"
abbreviation (input) PROJ_SHOW :: int where "PROJ_SHOW \<equiv> 4"
abbreviation (input) ENG_CMD :: int where "ENG_CMD \<equiv> 5"

abbreviation (input) RPC_BUFF_LEN_MAX :: nat where "RPC_BUFF_LEN_MAX \<equiv> 512"
abbreviation (input) RPC_ADDR_LEN_MAX :: nat where "RPC_ADDR_LEN_MAX \<equiv> 108"

text \<open>The type of an entry of the parser together with the member it writes; the entry DECODE_END is the end of the list.\<close>

datatype rpc_decode_type =
    DECODE_STRING "string option \<Rightarrow> server_rpc_params \<Rightarrow> server_rpc_params"
  | DECODE_INT "int \<Rightarrow> server_rpc_params \<Rightarrow> server_rpc_params"

record server_rpc_parser =
  rp_name :: string
  rp_type :: rpc_decode_type

definition g_rpc_parser :: "server_rpc_parser list" where
  "g_rpc_parser =
     [\<lparr>rp_name = ''proj_name'', rp_type = DECODE_STRING (\<lambda>v p. p\<lparr>sp_proj_name := v\<rparr>)\<rparr>,
      \<lparr>rp_name = ''file_name'', rp_type = DECODE_STRING (\<lambda>v p. p\<lparr>sp_file_name := v\<rparr>)\<rparr>,
      \<lparr>rp_name = ''cmd'', rp_type = DECODE_INT (\<lambda>v p. p\<lparr>sp_cmd := v\<rparr>)\<rparr>,
      \<lparr>rp_name = ''eng_name'', rp_type = DECODE_STRING (\<lambda>v p. p\<lparr>sp_eng_name := v\<rparr>)\<rparr>,
      \<lparr>rp_name = ''eng_cmd'', rp_type = DECODE_STRING (\<lambda>v p. p\<lparr>sp_eng_cmd := v\<rparr>)\<rparr>,
      \<lparr>rp_name = ''task_name'', rp_type = DECODE_STRING (\<lambda>v p. p\<lparr>sp_task_name := v\<rparr>)\<rparr>]"

definition zero_rpc_params :: server_rpc_params where
  "zero_rpc_params = \<lparr>sp_proj_name = None, sp_file_name = None, sp_cmd = 0, sp_eng_name = None, sp_eng_cmd = None, sp_task_name = None\<rparr>"

section \<open>Decoding\<close>

text \<open>The first blank from \<open>start\<close> on, or the end of the message.\<close>

function find_blank :: "string \<Rightarrow> nat \<Rightarrow> nat \<Rightarrow> nat c_res" where
  "find_blank buf buf_len start =
     (if start < buf_len then
        c_bind (c_nth buf (int start)) (\<lambda>c. if c = CHR '' '' then Inr start else find_blank buf buf_len (Suc start))
      else Inr start)"
  by pat_completeness auto
termination by (relation "measure (\<lambda>(buf, buf_len, start). buf_len - start)") auto

declare find_blank.simps [simp del]

text \<open>The parameter at \<open>idx\<close> and the index behind it; None leaves the index.\<close>

definition etmemd_rpd_get_param_str ::
  "securec \<Rightarrow> string \<Rightarrow> nat \<Rightarrow> nat \<Rightarrow> alloc \<Rightarrow> (string option \<times> nat \<times> alloc) c_res" where
  "etmemd_rpd_get_param_str S buf buf_len idx al =
     c_bind (find_blank buf buf_len idx) (\<lambda>start.
       let str_len = start - idx in
       if str_len = 0 then Inr (None, idx, al)
       else case c_alloc al of
         (False, al') \<Rightarrow> Inr (None, idx, al')
       | (True, al') \<Rightarrow>
           (case sec_strncpy_s S (str_len + 1) (takeWhile (\<lambda>c. c \<noteq> c_nul) (drop idx buf)) str_len of
              None \<Rightarrow> Inr (None, idx, al')
            | Some param_str \<Rightarrow> Inr (Some param_str, start + 1, al')))"

definition etmemd_rpc_decode_str ::
  "securec \<Rightarrow> (string option \<Rightarrow> server_rpc_params \<Rightarrow> server_rpc_params) \<Rightarrow> string \<Rightarrow> nat \<Rightarrow> nat \<Rightarrow> server_rpc_params \<Rightarrow> alloc \<Rightarrow>
   (int \<times> nat \<times> server_rpc_params \<times> alloc) c_res" where
  "etmemd_rpc_decode_str S ptr buf buf_len idx p al =
     c_bind (etmemd_rpd_get_param_str S buf buf_len idx al) (\<lambda>(v, idx', al').
       Inr (if v = None then -1 else 0, idx', ptr v p, al'))"

definition etmemd_rpc_decode_int ::
  "securec \<Rightarrow> (int \<Rightarrow> server_rpc_params \<Rightarrow> server_rpc_params) \<Rightarrow> string \<Rightarrow> nat \<Rightarrow> nat \<Rightarrow> server_rpc_params \<Rightarrow> alloc \<Rightarrow>
   (int \<times> nat \<times> server_rpc_params \<times> alloc) c_res" where
  "etmemd_rpc_decode_int S ptr buf buf_len idx p al =
     c_bind (etmemd_rpd_get_param_str S buf buf_len idx al) (\<lambda>(v, idx', al').
       case v of
         None \<Rightarrow> Inr (-1, idx', p, al')
       | Some tmp_str \<Rightarrow>
           (case get_int_value tmp_str of
              None \<Rightarrow> Inr (-1, idx', p, al')
            | Some tmp_type \<Rightarrow> Inr (0, idx', ptr tmp_type p, al')))"

text \<open>Whether the value is the mark of a missing one, and the index behind that.\<close>

definition skip_null_arg :: "string \<Rightarrow> nat \<Rightarrow> (bool \<times> nat) c_res" where
  "skip_null_arg buf idx =
     c_bind (c_nth buf (int idx)) (\<lambda>c. Inr (if c = CHR ''-'' then (True, idx + 2) else (False, idx)))"

definition etmemd_rpc_decode ::
  "securec \<Rightarrow> server_rpc_parser \<Rightarrow> string \<Rightarrow> nat \<Rightarrow> nat \<Rightarrow> server_rpc_params \<Rightarrow> alloc \<Rightarrow>
   (int \<times> nat \<times> server_rpc_params \<times> alloc) c_res" where
  "etmemd_rpc_decode S parser buf buf_len idx p al =
     c_bind (skip_null_arg buf idx) (\<lambda>(skipped, idx').
       if skipped then Inr (0, idx', p, al)
       else case rp_type parser of
         DECODE_STRING ptr \<Rightarrow> etmemd_rpc_decode_str S ptr buf buf_len idx' p al
       | DECODE_INT ptr \<Rightarrow> etmemd_rpc_decode_int S ptr buf buf_len idx' p al)"

text \<open>\<open>strncmp(&buf[idx], name, strlen(name)) == 0\<close>.\<close>

fun buf_match :: "string \<Rightarrow> nat \<Rightarrow> string \<Rightarrow> bool c_res" where
  "buf_match buf idx [] = Inr True"
| "buf_match buf idx (c # cs) =
     c_bind (c_nth buf (int idx)) (\<lambda>d. if d = c then buf_match buf (Suc idx) cs else Inr False)"

fun parse_params ::
  "securec \<Rightarrow> server_rpc_parser list \<Rightarrow> string \<Rightarrow> nat \<Rightarrow> nat \<Rightarrow> server_rpc_params \<Rightarrow> alloc \<Rightarrow>
   (int \<times> server_rpc_params \<times> alloc) c_res" where
  "parse_params S [] buf buf_len idx p al = Inr (0, p, al)"
| "parse_params S (parser # parsers) buf buf_len idx p al =
     (if idx \<ge> buf_len then Inr (-1, p, al)
      else c_bind (buf_match buf idx (rp_name parser)) (\<lambda>same.
        if \<not> same then Inr (-1, p, al)
        else c_bind (etmemd_rpc_decode S parser buf buf_len (idx + (length (rp_name parser) + 1)) p al) (\<lambda>(ret, idx', p', al').
          if ret \<noteq> 0 then Inr (ret, p', al') else parse_params S parsers buf buf_len idx' p' al')))"

definition etmemd_rpc_parse :: "securec \<Rightarrow> string \<Rightarrow> nat \<Rightarrow> alloc \<Rightarrow> (int \<times> server_rpc_params \<times> alloc) c_res" where
  "etmemd_rpc_parse S buf buf_len al = parse_params S g_rpc_parser buf buf_len 0 zero_rpc_params al"

section \<open>Carrying out a command\<close>

text \<open>The registry, and the tasks released so far.\<close>

type_synonym ('q, 'p, 'e) reg_state = "('q, 'p, 'e) project list \<times> ('q, 'p) task list"

text \<open>What the server relies on: \<open>re_config\<close> is GKeyFile's view of a file, with its groups; \<open>re_new\<close> tells whether a key
  file object could be made; \<open>re_alloc\<close> gives the outcomes of the allocations for each group of a file.\<close>

record ('q, 'p, 'e) rpc_env =
  re_S :: securec
  re_ops :: "('q, 'p, 'e) ops_of"
  re_core :: nat
  re_thirdparty :: "key_file \<Rightarrow> bool"
  re_damon :: int
  re_realpath :: "string \<Rightarrow> string option"
  re_stat :: "string \<Rightarrow> file_stat option"
  re_new :: bool
  re_config :: "string \<Rightarrow> ((string \<Rightarrow> bool) \<times> key_file) option"
  re_alloc :: "string \<Rightarrow> alloc"
  re_writes :: "int list list"

type_synonym ('q, 'p, 'e) obj_cmd_item =
  "string \<times> (key_file \<Rightarrow> ('q, 'p, 'e) reg_state \<Rightarrow> (opt_result \<times> ('q, 'p, 'e) reg_state) c_res)"

text \<open>The loop of \<open>do_obj_cmd\<close>, with the flag \<open>parsed\<close> and the last error.\<close>

fun obj_cmd_loop ::
  "(string \<Rightarrow> bool) \<times> key_file \<Rightarrow> bool \<Rightarrow> ('q, 'p, 'e) obj_cmd_item list \<Rightarrow> bool \<Rightarrow> opt_result \<Rightarrow> ('q, 'p, 'e) reg_state \<Rightarrow>
   (opt_result \<times> ('q, 'p, 'e) reg_state) c_res" where
  "obj_cmd_loop config add_opt [] parsed err_ret st =
     Inr (if \<not> parsed then OPT_INVAL else if err_ret \<noteq> OPT_SUCCESS then err_ret else OPT_SUCCESS, st)"
| "obj_cmd_loop config add_opt (item # items) parsed err_ret st =
     (if \<not> fst config (fst item) then obj_cmd_loop config add_opt items parsed err_ret st
      else c_bind (snd item (snd config) st) (\<lambda>(ret, st').
        if ret \<noteq> OPT_SUCCESS then
          if add_opt then Inr (ret, st') else obj_cmd_loop config add_opt items True ret st'
        else obj_cmd_loop config add_opt items True err_ret st'))"

definition do_obj_cmd ::
  "(string \<Rightarrow> bool) \<times> key_file \<Rightarrow> ('q, 'p, 'e) obj_cmd_item list \<Rightarrow> bool \<Rightarrow> ('q, 'p, 'e) reg_state \<Rightarrow>
   (opt_result \<times> ('q, 'p, 'e) reg_state) c_res" where
  "do_obj_cmd config items add_opt st = obj_cmd_loop config add_opt items False OPT_SUCCESS st"

definition g_obj_add_items :: "('q, 'p, 'e) rpc_env \<Rightarrow> ('q, 'p, 'e) obj_cmd_item list" where
  "g_obj_add_items E =
     [(''project'', \<lambda>config (projs, rel).
         c_bind (etmemd_project_add config projs (re_alloc E ''project'')) (\<lambda>(r, projs'). Inr (r, projs', rel))),
      (''engine'', \<lambda>config (projs, rel).
         case etmemd_project_add_engine (re_ops E) (re_thirdparty E) config projs (re_alloc E ''engine'') of
           (r, projs') \<Rightarrow> Inr (r, projs', rel)),
      (''task'', \<lambda>config (projs, rel).
         case etmemd_project_add_task (re_ops E) (re_core E) config projs (re_alloc E ''task'') of
           (r, projs', rel') \<Rightarrow> Inr (r, projs', rel @ rel'))]"

definition do_obj_add where
  "do_obj_add E config st = do_obj_cmd config (g_obj_add_items E) True st"

definition obj_remove_items :: "('q, 'p, 'e) rpc_env \<Rightarrow> ('q, 'p, 'e) obj_cmd_item list" where
  "obj_remove_items E =
     [(''task'', \<lambda>config (projs, rel).
         case etmemd_project_remove_task (re_ops E) config projs of (r, projs', rel') \<Rightarrow> Inr (r, projs', rel @ rel')),
      (''engine'', \<lambda>config (projs, rel).
         case etmemd_project_remove_engine (re_ops E) config projs of (r, projs', rel') \<Rightarrow> Inr (r, projs', rel @ rel')),
      (''project'', \<lambda>config (projs, rel).
         case etmemd_project_remove (re_ops E) config projs of (r, projs', rel') \<Rightarrow> Inr (r, projs', rel @ rel'))]"

definition do_obj_remove where
  "do_obj_remove E config st = do_obj_cmd config (obj_remove_items E) False st"

abbreviation (input) S_IRUSR :: nat where "S_IRUSR \<equiv> 256"
abbreviation (input) S_IWUSR :: nat where "S_IWUSR \<equiv> 128"
abbreviation (input) MAX_CONFIG_FILE_SIZE :: int where "MAX_CONFIG_FILE_SIZE \<equiv> 10 * 1024 * 1024"

definition handle_obj_cmd ::
  "('q, 'p, 'e) rpc_env \<Rightarrow> string option \<Rightarrow> int \<Rightarrow> ('q, 'p, 'e) reg_state \<Rightarrow> (opt_result \<times> ('q, 'p, 'e) reg_state) c_res" where
  "handle_obj_cmd E file_name type st =
     (case file_name of
        None \<Rightarrow> Inr (OPT_INVAL, st)
      | Some fname \<Rightarrow>
          (case re_realpath E fname of
             None \<Rightarrow> Inr (OPT_INVAL, st)
           | Some path \<Rightarrow>
               if file_permission_check (re_stat E) (Some path) S_IRUSR \<noteq> 0 \<and>
                  file_permission_check (re_stat E) (Some path) (S_IRUSR + S_IWUSR) \<noteq> 0 then Inr (OPT_INVAL, st)
               else if file_size_check (re_stat E) (Some path) MAX_CONFIG_FILE_SIZE \<noteq> 0 then Inr (OPT_INVAL, st)
               else if \<not> re_new E then Inr (OPT_INTER_ERR, st)
               else case re_config E path of
                 None \<Rightarrow> Inr (OPT_INTER_ERR, st)
               | Some config \<Rightarrow>
                   if type = OBJ_ADD then do_obj_add E config st
                   else if type = OBJ_DEL then do_obj_remove E config st
                   else Inr (OPT_INVAL, st)))"

text \<open>The result, the registry, and the texts printed for the client.\<close>

definition etmemd_switch_cmd ::
  "('q, 'p, 'e) rpc_env \<Rightarrow> server_rpc_params \<Rightarrow> ('q, 'p, 'e) reg_state \<Rightarrow>
   (opt_result \<times> ('q, 'p, 'e) reg_state \<times> string list) c_res" where
  "etmemd_switch_cmd E p st =
     (if sp_cmd p = OBJ_ADD \<or> sp_cmd p = OBJ_DEL then
        c_bind (handle_obj_cmd E (sp_file_name p) (sp_cmd p) st) (\<lambda>(ret, st'). Inr (ret, st', []))
      else if sp_cmd p = PROJ_SHOW then
        (case etmemd_project_show (sp_proj_name p) (fst st) of (ret, out) \<Rightarrow> Inr (ret, st, out))
      else if sp_cmd p = MIG_START then
        (case etmemd_migrate_start (re_ops E) (re_damon E) (sp_proj_name p) (fst st) of
           (ret, projs) \<Rightarrow> Inr (ret, (projs, snd st), []))
      else if sp_cmd p = MIG_STOP then
        (case etmemd_migrate_stop (re_ops E) (re_damon E) (sp_proj_name p) (fst st) of
           (ret, projs) \<Rightarrow> Inr (ret, (projs, snd st), []))
      else if sp_cmd p = ENG_CMD then
        (case etmemd_project_mgt_engine (re_ops E) (sp_proj_name p) (sp_eng_name p) (sp_eng_cmd p) (sp_task_name p) (fst st) of
           (ret, out) \<Rightarrow> Inr (ret, st, out))
      else Inr (OPT_INVAL, st, []))"

section \<open>The answer\<close>

definition g_resp_msg_arr :: "(opt_result \<times> string) list" where
  "g_resp_msg_arr =
     [(OPT_INVAL, ''error: invalid parameters''),
      (OPT_PRO_EXISTED, ''error: project has been existed''),
      (OPT_PRO_NOEXIST, ''error: project is not exist''),
      (OPT_PRO_STARTED, ''error: project has been started''),
      (OPT_PRO_STOPPED, ''error: project has been stopped''),
      (OPT_ENG_EXISTED, ''error: engine has been existed''),
      (OPT_ENG_NOEXIST, ''error: engine is not exist''),
      (OPT_TASK_EXISTED, ''error: task has been existed''),
      (OPT_TASK_NOEXIST, ''error: task is not exist''),
      (OPT_INTER_ERR, ''error: etmemd has internal error, see reason details in messages'')]"

abbreviation SUCCESS_CHAR :: char where "SUCCESS_CHAR \<equiv> CHR 0xFF"
abbreviation FAIL_CHAR :: char where "FAIL_CHAR \<equiv> CHR 0xFE"

text \<open>What a \<open>send\<close> with the given return value puts on the socket.\<close>

definition sent_by :: "int \<Rightarrow> string \<Rightarrow> string" where
  "sent_by ret msg = take (nat ret) msg"

text \<open>\<open>sends\<close> gives the return values of the two calls of \<open>send\<close> for the bytes they are given.\<close>

definition etmemd_rpc_send_response_msg :: "(string \<Rightarrow> int) \<times> (string \<Rightarrow> int) \<Rightarrow> opt_result \<Rightarrow> string" where
  "etmemd_rpc_send_response_msg sends result =
     (let msg = (case map_of g_resp_msg_arr result of None \<Rightarrow> [] | Some msg \<Rightarrow> sent_by (fst sends msg) msg);
          tag = [if result = OPT_SUCCESS then SUCCESS_CHAR else FAIL_CHAR]
      in msg @ sent_by (snd sends tag) tag)"

definition etmemd_rpc_handle ::
  "('q, 'p, 'e) rpc_env \<Rightarrow> (string \<Rightarrow> int) \<times> (string \<Rightarrow> int) \<Rightarrow> server_rpc_params \<Rightarrow> ('q, 'p, 'e) reg_state \<Rightarrow>
   (('q, 'p, 'e) reg_state \<times> string) c_res" where
  "etmemd_rpc_handle E sends p st =
     c_bind (etmemd_switch_cmd E p st) (\<lambda>(ret, st', out).
       Inr (st', print_all (re_S E) out (re_writes E) @ etmemd_rpc_send_response_msg sends ret))"

section \<open>Connections\<close>

text \<open>A connection: whether it could be accepted, the user and group of the client (None when they cannot be had), what \<open>recv\<close>
  returns (None for an error, the empty string for a closed connection), the results of \<open>send\<close>, and the allocations.\<close>

record rpc_conn =
  co_accept :: bool
  co_cred :: "(nat \<times> nat) option"
  co_recv :: "string option"
  co_sends :: "(string \<Rightarrow> int) \<times> (string \<Rightarrow> int)"
  co_alloc :: alloc

definition rpc_socket_permission :: "(nat \<times> nat) option \<Rightarrow> int" where
  "rpc_socket_permission cred =
     (case cred of None \<Rightarrow> -1 | Some (uid, gid) \<Rightarrow> if uid \<noteq> 0 \<or> gid \<noteq> 0 then -1 else 0)"

text \<open>The zeroed buffer after \<open>recv\<close>.\<close>

definition recv_buf :: "string \<Rightarrow> string" where
  "recv_buf msg = take RPC_BUFF_LEN_MAX msg @ replicate (RPC_BUFF_LEN_MAX - length msg) c_nul"

definition etmemd_rpc_accept ::
  "('q, 'p, 'e) rpc_env \<Rightarrow> rpc_conn \<Rightarrow> ('q, 'p, 'e) reg_state \<Rightarrow> (int \<times> ('q, 'p, 'e) reg_state \<times> string) c_res" where
  "etmemd_rpc_accept E conn st =
     (case c_alloc (co_alloc conn) of
        (False, _) \<Rightarrow> Inr (-1, st, [])
      | (True, al) \<Rightarrow>
          if \<not> co_accept conn then Inr (0, st, [])
          else if rpc_socket_permission (co_cred conn) \<noteq> 0 then Inr (-1, st, [])
          else case co_recv conn of
            None \<Rightarrow> Inr (-1, st, [])
          | Some msg \<Rightarrow>
              let rc = length (take RPC_BUFF_LEN_MAX msg) in
              if rc = 0 then Inr (-1, st, [])
              else c_bind (etmemd_rpc_parse (re_S E) (recv_buf msg) rc al) (\<lambda>(ret, p, al').
                if ret = 0 then c_bind (etmemd_rpc_handle E (co_sends conn) p st) (\<lambda>(st', out). Inr (0, st', out))
                else Inr (0, st, [])))"

text \<open>The loop of \<open>etmemd_rpc_server\<close> over the connections until the daemon is told to exit, with what each client is sent.\<close>

fun rpc_serve ::
  "('q, 'p, 'e) rpc_env \<Rightarrow> rpc_conn list \<Rightarrow> ('q, 'p, 'e) reg_state \<Rightarrow> (('q, 'p, 'e) reg_state \<times> string list) c_res" where
  "rpc_serve E [] st = Inr (st, [])"
| "rpc_serve E (conn # conns) st =
     c_bind (etmemd_rpc_accept E conn st) (\<lambda>(ret, st', out).
     c_bind (rpc_serve E conns st') (\<lambda>(st'', outs). Inr (st'', out # outs)))"

definition etmemd_parse_sock_name :: "securec \<Rightarrow> string option \<Rightarrow> alloc \<Rightarrow> int \<times> string option" where
  "etmemd_parse_sock_name S sock_name al =
     (case sock_name of
        None \<Rightarrow> (-1, None)
      | Some s \<Rightarrow>
          if length s = 0 then (-1, None)
          else if length s \<ge> RPC_ADDR_LEN_MAX - 1 then (-1, None)
          else if \<not> fst (c_alloc al) then (-1, None)
          else case sec_sprintf_s S RPC_ADDR_LEN_MAX (CHR ''@'' # s) of
            (ret, text) \<Rightarrow> if ret \<le> 0 then (-1, None) else (0, Some text))"

end
