(* ===== verification/Etmem_Client.thy ===== *)
theory Etmem_Client
  imports C_Library
begin

text \<open>
  The command line client \<open>etmem\<close> (\<open>etmem_src\<close>): it selects an object and a command from its arguments, reads the options,
  sends one message to the daemon and copies the answer to its output until the finishing tag.

  \<open>getopt_long\<close> is written out for the options in use, which all have an argument: operands are skipped, as GNU's version
  permutes them to the end, long options may be abbreviated, and \<open>--\<close> ends the options. The socket calls are parameters.
\<close>

section \<open>Options\<close>

type_synonym opt_spec = "(char \<times> string) list"

text \<open>A long option without its dashes: the letter of the option and the argument behind \<open>=\<close>.\<close>

definition long_opt :: "opt_spec \<Rightarrow> string \<Rightarrow> (char \<times> string option) option" where
  "long_opt spec s =
     (let name = takeWhile (\<lambda>c. c \<noteq> CHR ''='') s;
          val = (case dropWhile (\<lambda>c. c \<noteq> CHR ''='') s of [] \<Rightarrow> None | _ # v \<Rightarrow> Some v);
          exact = filter (\<lambda>x. snd x = name) spec;
          abbrev = filter (\<lambda>x. take (length name) (snd x) = name) spec
      in case exact of
           x # _ \<Rightarrow> Some (fst x, val)
         | [] \<Rightarrow> (case abbrev of [x] \<Rightarrow> Some (fst x, val) | _ \<Rightarrow> None))"

text \<open>The options \<open>getopt_long\<close> reports, in order; None is \<open>'?'\<close>.\<close>

fun getopt_long :: "opt_spec \<Rightarrow> string list \<Rightarrow> (char \<times> string) option list" where
  "getopt_long spec [] = []"
| "getopt_long spec (a # args) =
     (if a = ''--'' then []
      else if take 2 a = ''--'' then
        (case long_opt spec (drop 2 a) of
           None \<Rightarrow> [None]
         | Some (c, Some v) \<Rightarrow> Some (c, v) # getopt_long spec args
         | Some (c, None) \<Rightarrow>
             (case args of [] \<Rightarrow> [None] | v # args' \<Rightarrow> Some (c, v) # getopt_long spec args'))
      else if 2 \<le> length a \<and> hd a = CHR ''-'' then
        (if a ! 1 \<notin> fst ` set spec then [None]
         else if 2 < length a then Some (a ! 1, drop 2 a) # getopt_long spec args
         else case args of [] \<Rightarrow> [None] | v # args' \<Rightarrow> Some (a ! 1, v) # getopt_long spec args')
      else getopt_long spec args)"

section \<open>Commands\<close>

abbreviation (input) ETMEM_CMD_ADD :: nat where "ETMEM_CMD_ADD \<equiv> 0"
abbreviation (input) ETMEM_CMD_DEL :: nat where "ETMEM_CMD_DEL \<equiv> 1"
abbreviation (input) ETMEM_CMD_START :: nat where "ETMEM_CMD_START \<equiv> 2"
abbreviation (input) ETMEM_CMD_STOP :: nat where "ETMEM_CMD_STOP \<equiv> 3"
abbreviation (input) ETMEM_CMD_SHOW :: nat where "ETMEM_CMD_SHOW \<equiv> 4"
abbreviation (input) ETMEM_CMD_ENGINE :: nat where "ETMEM_CMD_ENGINE \<equiv> 5"

abbreviation (input) EINVAL :: int where "EINVAL \<equiv> 22"
abbreviation (input) E2BIG :: int where "E2BIG \<equiv> 7"
abbreviation (input) EPERM :: int where "EPERM \<equiv> 1"
abbreviation (input) ECOMM :: int where "ECOMM \<equiv> 70"

record mem_proj =
  mp_cmd :: nat
  mp_proj_name :: "string option"
  mp_eng_name :: "string option"
  mp_task_name :: "string option"
  mp_file_name :: "string option"
  mp_sock_name :: "string option"
  mp_eng_cmd :: "string option"

definition zero_mem_proj :: mem_proj where
  "zero_mem_proj = \<lparr>mp_cmd = 0, mp_proj_name = None, mp_eng_name = None, mp_task_name = None, mp_file_name = None,
     mp_sock_name = None, mp_eng_cmd = None\<rparr>"

definition etmem_parse_check_result :: "nat \<Rightarrow> nat \<Rightarrow> int" where
  "etmem_parse_check_result params_cnt argc = (if params_cnt > 0 \<and> argc - 1 > params_cnt * 2 then - E2BIG else 0)"

text \<open>The loop over the options; None when an option is invalid.\<close>

fun store_opts ::
  "(char \<Rightarrow> string \<Rightarrow> mem_proj \<Rightarrow> mem_proj) \<Rightarrow> (char \<times> string) option list \<Rightarrow> nat \<Rightarrow> mem_proj \<Rightarrow> (mem_proj \<times> nat) option" where
  "store_opts f [] n proj = Some (proj, n)"
| "store_opts f (None # opts) n proj = None"
| "store_opts f (Some (c, v) # opts) n proj = store_opts f opts (Suc n) (f c v proj)"

text \<open>\<open>argv\<close> is the vector from the command on, which \<open>getopt_long\<close> skips.\<close>

definition parse_args_with ::
  "opt_spec \<Rightarrow> (char \<Rightarrow> string \<Rightarrow> mem_proj \<Rightarrow> mem_proj) \<Rightarrow> string list \<Rightarrow> mem_proj \<Rightarrow> int \<times> mem_proj" where
  "parse_args_with spec f argv proj =
     (case store_opts f (getopt_long spec (tl argv)) 0 proj of
        None \<Rightarrow> (- EINVAL, proj)
      | Some (proj', params_cnt) \<Rightarrow> (etmem_parse_check_result params_cnt (length argv), proj'))"

definition is_set :: "string option \<Rightarrow> bool" where
  "is_set s \<longleftrightarrow> s \<noteq> None \<and> s \<noteq> Some []"

definition g_obj_cmd_items :: "(string \<times> nat) list" where
  "g_obj_cmd_items = [(''add'', ETMEM_CMD_ADD), (''del'', ETMEM_CMD_DEL)]"

definition obj_parse_cmd :: "string list \<Rightarrow> mem_proj \<Rightarrow> int \<times> mem_proj" where
  "obj_parse_cmd argv proj =
     (case map_of g_obj_cmd_items (hd argv) of None \<Rightarrow> (-1, proj) | Some cmd \<Rightarrow> (0, proj\<lparr>mp_cmd := cmd\<rparr>))"

definition obj_parse_args :: "string list \<Rightarrow> mem_proj \<Rightarrow> int \<times> mem_proj" where
  "obj_parse_args argv proj =
     parse_args_with [(CHR ''f'', ''file''), (CHR ''s'', ''socket'')]
       (\<lambda>c v p. if c = CHR ''f'' then p\<lparr>mp_file_name := Some v\<rparr> else p\<lparr>mp_sock_name := Some v\<rparr>) argv proj"

definition obj_check_params :: "mem_proj \<Rightarrow> int" where
  "obj_check_params proj =
     (if \<not> is_set (mp_sock_name proj) then - EINVAL
      else if \<not> is_set (mp_file_name proj) then - EINVAL
      else 0)"

definition g_project_cmd_items :: "(string \<times> nat) list" where
  "g_project_cmd_items = [(''show'', ETMEM_CMD_SHOW), (''start'', ETMEM_CMD_START), (''stop'', ETMEM_CMD_STOP)]"

definition project_parse_cmd :: "string list \<Rightarrow> mem_proj \<Rightarrow> int \<times> mem_proj" where
  "project_parse_cmd argv proj =
     (case map_of g_project_cmd_items (hd argv) of None \<Rightarrow> (-1, proj) | Some cmd \<Rightarrow> (0, proj\<lparr>mp_cmd := cmd\<rparr>))"

definition project_parse_args :: "string list \<Rightarrow> mem_proj \<Rightarrow> int \<times> mem_proj" where
  "project_parse_args argv proj =
     parse_args_with [(CHR ''n'', ''name''), (CHR ''s'', ''socket'')]
       (\<lambda>c v p. if c = CHR ''n'' then p\<lparr>mp_proj_name := Some v\<rparr> else p\<lparr>mp_sock_name := Some v\<rparr>) argv proj"

definition project_check_params :: "mem_proj \<Rightarrow> int" where
  "project_check_params proj =
     (if \<not> is_set (mp_sock_name proj) then - EINVAL
      else if mp_cmd proj = ETMEM_CMD_SHOW then 0
      else if (mp_cmd proj = ETMEM_CMD_START \<or> mp_cmd proj = ETMEM_CMD_STOP) \<and> \<not> is_set (mp_proj_name proj) then - EINVAL
      else 0)"

definition engine_parse_cmd :: "string list \<Rightarrow> mem_proj \<Rightarrow> mem_proj" where
  "engine_parse_cmd argv proj = proj\<lparr>mp_eng_cmd := Some (hd argv), mp_cmd := ETMEM_CMD_ENGINE\<rparr>"

definition engine_parse_args :: "string list \<Rightarrow> mem_proj \<Rightarrow> int \<times> mem_proj" where
  "engine_parse_args argv proj =
     parse_args_with [(CHR ''n'', ''proj_name''), (CHR ''s'', ''socket''), (CHR ''e'', ''engine''), (CHR ''t'', ''task_name'')]
       (\<lambda>c v p. if c = CHR ''n'' then p\<lparr>mp_proj_name := Some v\<rparr>
                else if c = CHR ''s'' then p\<lparr>mp_sock_name := Some v\<rparr>
                else if c = CHR ''e'' then p\<lparr>mp_eng_name := Some v\<rparr>
                else p\<lparr>mp_task_name := Some v\<rparr>) argv proj"

definition engine_check_params :: "mem_proj \<Rightarrow> int" where
  "engine_check_params proj =
     (if \<not> is_set (mp_sock_name proj) then -1
      else if \<not> is_set (mp_proj_name proj) then -1
      else if \<not> is_set (mp_eng_cmd proj) then -1
      else if \<not> is_set (mp_eng_name proj) then -1
      else 0)"

section \<open>Talking to the daemon\<close>

abbreviation (input) ETMEM_RPC_SEND_BUF_LEN :: nat where "ETMEM_RPC_SEND_BUF_LEN \<equiv> 512"
abbreviation (input) ETMEM_RPC_RECV_BUF_LEN :: nat where "ETMEM_RPC_RECV_BUF_LEN \<equiv> 512"
abbreviation (input) INT_MAX_LEN :: nat where "INT_MAX_LEN \<equiv> 9"
abbreviation (input) SUN_PATH_LEN :: nat where "SUN_PATH_LEN \<equiv> 108"

definition ETMEM_CLIENT_REGISTER :: string where
  "ETMEM_CLIENT_REGISTER = ''proj_name %s file_name %s cmd %d eng_name %s eng_cmd %s task_name %s''"

text \<open>What the calls of the system return: the error of \<open>socket\<close> (0 for none), the results of the two calls of \<open>setsockopt\<close>, the
  error of \<open>connect\<close>, the result of \<open>send\<close>, and of the successive calls of \<open>recv\<close> (None is an error, the empty string a closed
  connection; after the last one the call times out).\<close>

record client_env =
  cl_S :: securec
  cl_socket :: int
  cl_opts :: "int \<times> int"
  cl_connect :: int
  cl_send :: "string \<Rightarrow> int"
  cl_recv :: "string option list"
  cl_alloc :: alloc

definition etmem_client_conn :: "client_env \<Rightarrow> string \<Rightarrow> int" where
  "etmem_client_conn E sock_name =
     (if fst (cl_opts E) < 0 then fst (cl_opts E)
      else if snd (cl_opts E) < 0 then snd (cl_opts E)
      else case sec_sprintf_s (cl_S E) SUN_PATH_LEN (CHR ''@'' # sock_name) of
        (ret, path) \<Rightarrow> if ret = -1 then ret else cl_connect E)"

definition opt_len :: "string option \<Rightarrow> nat" where
  "opt_len s = (case s of None \<Rightarrow> 0 | Some t \<Rightarrow> length t)"

definition etmem_client_get_str_len :: "mem_proj \<Rightarrow> nat" where
  "etmem_client_get_str_len proj =
     length ETMEM_CLIENT_REGISTER + INT_MAX_LEN + 1 + opt_len (mp_proj_name proj) + opt_len (mp_file_name proj) +
     opt_len (mp_eng_name proj) + opt_len (mp_eng_cmd proj) + opt_len (mp_task_name proj)"

definition or_dash :: "string option \<Rightarrow> string" where
  "or_dash s = (case s of None \<Rightarrow> ''-'' | Some t \<Rightarrow> t)"

text \<open>The text of the format \<open>ETMEM_CLIENT_REGISTER\<close>.\<close>

definition register_text :: "mem_proj \<Rightarrow> string" where
  "register_text proj =
     ''proj_name '' @ or_dash (mp_proj_name proj) @ '' file_name '' @ or_dash (mp_file_name proj) @
     '' cmd '' @ nat_to_base 10 (mp_cmd proj) @ '' eng_name '' @ or_dash (mp_eng_name proj) @
     '' eng_cmd '' @ or_dash (mp_eng_cmd proj) @ '' task_name '' @ or_dash (mp_task_name proj)"

text \<open>The return value and the bytes given to \<open>send\<close>.\<close>

definition etmem_client_send :: "client_env \<Rightarrow> mem_proj \<Rightarrow> alloc \<Rightarrow> int \<times> string \<times> alloc" where
  "etmem_client_send E proj al =
     (let total_len = etmem_client_get_str_len proj in
      case c_alloc al of
        (False, al') \<Rightarrow> (-1, [], al')
      | (True, al') \<Rightarrow>
          (case sec_snprintf_s (cl_S E) total_len (total_len - 1) (register_text proj) of
             None \<Rightarrow> (-1, [], al')
           | Some reg_cmd \<Rightarrow>
               if reg_cmd = [] then (-1, [], al')
               else if length reg_cmd > ETMEM_RPC_SEND_BUF_LEN then (-1, [], al')
               else (if cl_send E reg_cmd < 0 then -1 else 0, reg_cmd, al')))"

text \<open>The loop over the answers, with the text printed so far.\<close>

fun recv_loop :: "string option list \<Rightarrow> string \<Rightarrow> int \<times> string" where
  "recv_loop [] out = (-1, out)"
| "recv_loop (None # rs) out = (-1, out)"
| "recv_loop (Some buf # rs) out =
     (let msg = take (ETMEM_RPC_RECV_BUF_LEN - 1) buf in
      if msg = [] then (-1, out)
      else if last msg = CHR 0xFF then (0, out @ takeWhile (\<lambda>c. c \<noteq> c_nul) (butlast msg))
      else if last msg = CHR 0xFE then (-1, out @ takeWhile (\<lambda>c. c \<noteq> c_nul) (butlast msg @ [c_newline]))
      else recv_loop rs (out @ takeWhile (\<lambda>c. c \<noteq> c_nul) msg))"

definition etmem_client_recv :: "client_env \<Rightarrow> alloc \<Rightarrow> int \<times> string" where
  "etmem_client_recv E al = (if \<not> fst (c_alloc al) then (-1, []) else recv_loop (cl_recv E) [])"

text \<open>The exit code, the message sent, and what was printed of the answer.\<close>

definition etmem_rpc_client :: "client_env \<Rightarrow> mem_proj \<Rightarrow> int \<times> string \<times> string" where
  "etmem_rpc_client E proj =
     (if cl_socket E \<noteq> 0 then (cl_socket E, [], [])
      else let ret = etmem_client_conn E (case mp_sock_name proj of None \<Rightarrow> [] | Some s \<Rightarrow> s) in
        if ret \<noteq> 0 then (ret, [], [])
        else case etmem_client_send E proj (cl_alloc E) of
          (ret', msg, al) \<Rightarrow>
            if ret' \<noteq> 0 then (- EPERM, msg, [])
            else case etmem_client_recv E al of
              (ret'', out) \<Rightarrow> (if ret'' < 0 then - ECOMM else ret'', msg, out))"

section \<open>The program\<close>

definition obj_do_cmd :: "client_env \<Rightarrow> string list \<Rightarrow> int \<times> string \<times> string" where
  "obj_do_cmd E argv =
     (case obj_parse_cmd argv zero_mem_proj of
        (r1, p1) \<Rightarrow> if r1 \<noteq> 0 then (r1, [], [])
          else case obj_parse_args argv p1 of
            (r2, p2) \<Rightarrow> if r2 \<noteq> 0 then (r2, [], [])
              else if obj_check_params p2 \<noteq> 0 then (obj_check_params p2, [], [])
              else etmem_rpc_client E p2)"

definition project_do_cmd :: "client_env \<Rightarrow> string list \<Rightarrow> int \<times> string \<times> string" where
  "project_do_cmd E argv =
     (case project_parse_cmd argv zero_mem_proj of
        (r1, p1) \<Rightarrow> if r1 \<noteq> 0 then (r1, [], [])
          else case project_parse_args argv p1 of
            (r2, p2) \<Rightarrow> if r2 \<noteq> 0 then (r2, [], [])
              else if project_check_params p2 \<noteq> 0 then (project_check_params p2, [], [])
              else etmem_rpc_client E p2)"

definition engine_do_cmd :: "client_env \<Rightarrow> string list \<Rightarrow> int \<times> string \<times> string" where
  "engine_do_cmd E argv =
     (case engine_parse_args argv (engine_parse_cmd argv zero_mem_proj) of
        (r, p) \<Rightarrow> if r \<noteq> 0 then (-1, [], [])
          else if engine_check_params p \<noteq> 0 then (-1, [], [])
          else etmem_rpc_client E p)"

text \<open>The list of objects after \<open>project_init\<close>, \<open>obj_init\<close> and \<open>engine_init\<close>, each of which inserts at the head.\<close>

type_synonym etmem_obj = "string \<times> (client_env \<Rightarrow> string list \<Rightarrow> int \<times> string \<times> string)"

definition etmem_register_obj :: "etmem_obj \<Rightarrow> etmem_obj list \<Rightarrow> etmem_obj list" where
  "etmem_register_obj obj objs = obj # objs"

definition g_etmem_objs :: "etmem_obj list" where
  "g_etmem_objs = etmem_register_obj (''engine'', engine_do_cmd)
     (etmem_register_obj (''obj'', obj_do_cmd) (etmem_register_obj (''project'', project_do_cmd) []))"

fun etmem_obj_get :: "string \<Rightarrow> etmem_obj list \<Rightarrow> etmem_obj option" where
  "etmem_obj_get name [] = None"
| "etmem_obj_get name (obj # objs) = (if fst obj = name then Some obj else etmem_obj_get name objs)"

text \<open>The result, \<open>conf->obj\<close>, and the object with \<open>conf->argv\<close>.\<close>

definition check_param :: "string list \<Rightarrow> int \<times> string option \<times> (etmem_obj \<times> string list) option" where
  "check_param argv =
     (case etmem_obj_get (hd argv) g_etmem_objs of
        None \<Rightarrow> (-1, Some (hd argv), None)
      | Some obj \<Rightarrow>
          if length argv < 2 then (-1, Some (hd argv), None)
          else (0, Some (hd argv), Some (obj, tl argv)))"

definition parse_args :: "string list \<Rightarrow> int \<times> string option \<times> (etmem_obj \<times> string list) option" where
  "parse_args argv =
     (if length argv \<le> 1 then (- EINVAL, None, None)
      else case check_param (tl argv) of
        (ret, obj, res) \<Rightarrow> if ret \<noteq> 0 then (- EINVAL, obj, None) else (0, obj, res))"

definition etmem_main :: "client_env \<Rightarrow> string list \<Rightarrow> int \<times> string \<times> string" where
  "etmem_main E argv =
     (case parse_args argv of
        (ret, obj, None) \<Rightarrow> (if obj = Some ''help'' \<and> length argv = 2 then 0 else - EINVAL, [], [])
      | (ret, obj, Some ((name, do_cmd), args)) \<Rightarrow>
          if hd args = ''help'' then (0, [], [])
          else do_cmd E args)"

end
