(* ===== verification/Rpc_Session.thy ===== *)
theory Rpc_Session
  imports Etmemd_Rpc Etmem_Client
begin

text \<open>
  The client and the daemon together: a message the client can send is decoded to the parameters it was made from; the answer
  gives the client the outcome of the command, however the bytes are cut into packets; no message of up to 510 bytes makes the
  decoder read outside its buffer; and the registry only ever changes by the operations of a command.
\<close>

section \<open>Decoding what the client sends\<close>

text \<open>A value the format can carry: not empty, no blank or NUL, and not starting with the mark of a missing value.\<close>

definition plain_value :: "string \<Rightarrow> bool" where
  "plain_value s \<longleftrightarrow> s \<noteq> [] \<and> hd s \<noteq> CHR ''-'' \<and> CHR '' '' \<notin> set s \<and> c_nul \<notin> set s"

definition carried :: "string option \<Rightarrow> bool" where
  "carried v \<longleftrightarrow> (case v of None \<Rightarrow> True | Some s \<Rightarrow> plain_value s)"

lemma find_blank_at:
  assumes "\<forall>c\<in>set v. c \<noteq> CHR '' ''" "length a + length v \<le> n" "n \<le> length (a @ v @ r)"
    and "length a + length v = n \<or> hd r = CHR '' ''"
  shows "find_blank (a @ v @ r) n (length a) = Inr (length a + length v)"
  using assms
proof (induction v arbitrary: a)
  case Nil
  show ?case
  proof (cases "length a = n")
    case False
    with Nil.prems have "r \<noteq> []" "length a < n" by auto
    with Nil.prems(4) False show ?thesis by (subst find_blank.simps) (simp add: nth_append hd_conv_nth c_nth_def)
  qed (simp add: find_blank.simps)
next
  case (Cons c v)
  from Cons.prems Cons.IH [of "a @ [c]"] have "find_blank (a @ c # v @ r) n (Suc (length a)) = Inr (Suc (length a + length v))" by simp
  with Cons.prems show ?case by (subst find_blank.simps) (simp add: c_nth_def nth_append)
qed

lemma get_param_at:
  assumes "securec_ok S" "v \<noteq> []" "CHR '' '' \<notin> set v" "c_nul \<notin> set v" "length a + length v \<le> n" "n \<le> length (a @ v @ r)"
    and "length a + length v = n \<or> hd r = CHR '' ''"
  shows "etmemd_rpd_get_param_str S (a @ v @ r) n (length a) [] = Inr (Some v, length a + length v + 1, [])"
proof -
  have "find_blank (a @ v @ r) n (length a) = Inr (length a + length v)" using assms by (intro find_blank_at) auto
  moreover have "sec_strncpy_s S (length v + 1) (takeWhile (\<lambda>c. c \<noteq> c_nul) (v @ r)) (length v) = Some v"
  proof -
    have "takeWhile (\<lambda>c. c \<noteq> c_nul) (v @ r) = v @ takeWhile (\<lambda>c. c \<noteq> c_nul) r" using assms(4) by (intro takeWhile_append2) auto
    then show ?thesis using assms(1) by (simp add: securec_ok_def)
  qed
  ultimately show ?thesis using assms(2) by (simp add: etmemd_rpd_get_param_str_def Let_def)
qed

lemma buf_match_at: "buf_match (a @ name @ r) (length a) name = Inr True"
proof (induction name arbitrary: a)
  case (Cons c name)
  from Cons.IH [of "a @ [c]"] show ?case by (simp add: c_nth_def nth_append)
qed simp

lemma skip_null_at: "b \<noteq> [] \<Longrightarrow> skip_null_arg (a @ b) (length a) = Inr (if hd b = CHR ''-'' then (True, length a + 2) else (False, length a))"
  by (simp add: skip_null_arg_def c_nth_def nth_append hd_conv_nth)

lemma get_int_decimal: "n < 2 ^ 31 \<Longrightarrow> get_int_value (nat_to_base 10 n) = Some (int n)"
  by (simp add: get_int_value_def c_strtol_def parse_number_digits nat_to_base_decimal nat_to_base_nonempty nat_to_base_value
      check_str_format_def)

text \<open>One parameter: the index moves behind the blank after its value.\<close>

definition decoded :: "server_rpc_parser \<Rightarrow> string \<Rightarrow> server_rpc_params \<Rightarrow> server_rpc_params \<Rightarrow> bool" where
  "decoded parser text p p' \<longleftrightarrow>
     (case rp_type parser of
        DECODE_STRING ptr \<Rightarrow> text = ''-'' \<and> p' = p \<or> plain_value text \<and> p' = ptr (Some text) p
      | DECODE_INT ptr \<Rightarrow> (\<exists>n < 2 ^ 31. text = nat_to_base 10 n \<and> p' = ptr (int n) p))"

lemma decimal_plain: "plain_value (nat_to_base 10 n)"
proof -
  have d: "c_isdigit c" if "c \<in> set (nat_to_base 10 n)" for c using that nat_to_base_decimal [of n] by (auto simp: list_all_iff)
  have "\<not> c_isdigit CHR '' ''" "\<not> c_isdigit c_nul" "\<not> c_isdigit CHR ''-''" by (simp_all add: c_isdigit_def)
  with d nat_to_base_nonempty hd_in_set show ?thesis unfolding plain_value_def by metis
qed

lemma parse_step:
  assumes "securec_ok S" and buf: "buf = pre @ rp_name parser @ CHR '' '' # text @ r" and "decoded parser text p p'"
    and len: "length (pre @ rp_name parser @ CHR '' '' # text) \<le> n" "n \<le> length buf"
    and fin: "length (pre @ rp_name parser @ CHR '' '' # text) = n \<or> hd r = CHR '' ''"
  shows "parse_params S (parser # parsers) buf n (length pre) p [] =
    parse_params S parsers buf n (length (pre @ rp_name parser @ CHR '' '' # text) + 1) p' []"
proof -
  let ?a = "pre @ rp_name parser @ [CHR '' '']"
  have ab: "buf = ?a @ text @ r" by (simp add: buf)
  have "buf_match buf (length pre) (rp_name parser) = Inr True" unfolding buf by (rule buf_match_at)
  moreover have "etmemd_rpc_decode S parser buf n (length ?a) p [] = Inr (0, length ?a + length text + 1, p', [])"
  proof (cases "text = ''-''")
    case True
    with assms(3) decimal_plain have "p' = p" by (auto simp: decoded_def plain_value_def split: rpc_decode_type.splits) (metis list.sel(1))
    moreover have "skip_null_arg buf (length ?a) = Inr (True, length ?a + 2)" unfolding ab by (subst skip_null_at) (simp_all add: True)
    ultimately show ?thesis by (simp add: etmemd_rpc_decode_def True)
  next
    case False
    with assms(3) decimal_plain have plain: "plain_value text" by (auto simp: decoded_def split: rpc_decode_type.splits)
    then have "skip_null_arg buf (length ?a) = Inr (False, length ?a)"
      unfolding ab by (subst skip_null_at) (auto simp: plain_value_def hd_append)
    moreover have "etmemd_rpd_get_param_str S buf n (length ?a) [] = Inr (Some text, length ?a + length text + 1, [])"
      unfolding ab by (rule get_param_at) (use assms plain in \<open>auto simp: plain_value_def buf\<close>)
    ultimately show ?thesis using False assms(3)
      by (auto simp: etmemd_rpc_decode_def etmemd_rpc_decode_str_def etmemd_rpc_decode_int_def decoded_def get_int_decimal
          split: rpc_decode_type.splits)
  qed
  ultimately show ?thesis using len(1) by (simp add: add.assoc)
qed

text \<open>A message as the list of its parameters with their values.\<close>

fun fields_text :: "(server_rpc_parser \<times> string) list \<Rightarrow> string" where
  "fields_text [] = []"
| "fields_text ((q, t) # fs) = rp_name q @ CHR '' '' # t @ (if fs = [] then [] else CHR '' '' # fields_text fs)"

fun decoded_all :: "(server_rpc_parser \<times> string) list \<Rightarrow> server_rpc_params \<Rightarrow> server_rpc_params \<Rightarrow> bool" where
  "decoded_all [] p p' \<longleftrightarrow> p' = p"
| "decoded_all ((q, t) # fs) p p' \<longleftrightarrow> (\<exists>p1. decoded q t p p1 \<and> decoded_all fs p1 p')"

lemma parse_fields:
  "securec_ok S \<Longrightarrow> buf = pre @ fields_text fs @ r \<Longrightarrow> n = length (pre @ fields_text fs) \<Longrightarrow> decoded_all fs p p' \<Longrightarrow>
   parse_params S (map fst fs) buf n (length pre) p [] = Inr (0, p', [])"
proof (induction fs arbitrary: pre p)
  case (Cons f fs)
  obtain q t where f: "f = (q, t)" by (cases f)
  obtain p1 where d: "decoded q t p p1" "decoded_all fs p1 p'" using Cons.prems(4) f by auto
  let ?r = "(if fs = [] then [] else CHR '' '' # fields_text fs) @ r"
  have "parse_params S (q # map fst fs) buf n (length pre) p [] =
      parse_params S (map fst fs) buf n (length (pre @ rp_name q @ CHR '' '' # t) + 1) p1 []"
    by (rule parse_step [OF Cons.prems(1) _ d(1), where r = ?r]) (use Cons.prems(2,3) f in auto)
  also have "\<dots> = Inr (0, p', [])"
  proof (cases "fs = []")
    case False
    let ?pre = "pre @ rp_name q @ CHR '' '' # t @ [CHR '' '']"
    have "parse_params S (map fst fs) buf n (length ?pre) p1 [] = Inr (0, p', [])"
      by (rule Cons.IH [OF Cons.prems(1) _ _ d(2)]) (use Cons.prems(2,3) f False in auto)
    then show ?thesis by simp
  qed (use d(2) in simp)
  finally show ?case by (simp add: f)
qed simp

definition server_params :: "mem_proj \<Rightarrow> server_rpc_params" where
  "server_params proj = \<lparr>sp_proj_name = mp_proj_name proj, sp_file_name = mp_file_name proj, sp_cmd = int (mp_cmd proj),
     sp_eng_name = mp_eng_name proj, sp_eng_cmd = mp_eng_cmd proj, sp_task_name = mp_task_name proj\<rparr>"

definition client_fields :: "mem_proj \<Rightarrow> (server_rpc_parser \<times> string) list" where
  "client_fields proj = zip g_rpc_parser
     [or_dash (mp_proj_name proj), or_dash (mp_file_name proj), nat_to_base 10 (mp_cmd proj), or_dash (mp_eng_name proj),
      or_dash (mp_eng_cmd proj), or_dash (mp_task_name proj)]"

definition sendable :: "mem_proj \<Rightarrow> bool" where
  "sendable proj \<longleftrightarrow> carried (mp_proj_name proj) \<and> carried (mp_file_name proj) \<and> carried (mp_eng_name proj) \<and>
     carried (mp_eng_cmd proj) \<and> carried (mp_task_name proj) \<and> mp_cmd proj < 10 \<and> length (register_text proj) \<le> ETMEM_RPC_SEND_BUF_LEN"

lemma client_fields_text: "fields_text (client_fields proj) = register_text proj"
  by (simp add: client_fields_def register_text_def g_rpc_parser_def)

lemma decoded_dash:
  "carried v \<Longrightarrow> ptr None p = p \<Longrightarrow> decoded \<lparr>rp_name = name, rp_type = DECODE_STRING ptr\<rparr> (or_dash v) p (ptr v p)"
  by (cases v) (simp_all add: decoded_def carried_def or_dash_def)

lemma decoded_cmd: "n < 10 \<Longrightarrow> decoded \<lparr>rp_name = name, rp_type = DECODE_INT ptr\<rparr> (nat_to_base 10 n) p (ptr (int n) p)"
  by (auto simp: decoded_def intro!: exI [of _ n])

lemma client_fields_decoded: "sendable proj \<Longrightarrow> decoded_all (client_fields proj) zero_rpc_params (server_params proj)"
  unfolding client_fields_def g_rpc_parser_def sendable_def zip_Cons_Cons zip_Nil decoded_all.simps
  by (elim conjE, intro exI conjI, (rule decoded_dash decoded_cmd; simp add: zero_rpc_params_def)+)
    (simp add: server_params_def zero_rpc_params_def)

lemma parse_client_message:
  assumes "securec_ok S" "sendable proj"
  shows "etmemd_rpc_parse S (recv_buf (register_text proj)) (length (register_text proj)) [] = Inr (0, server_params proj, [])"
proof -
  have "map fst (client_fields proj) = g_rpc_parser" by (simp add: client_fields_def g_rpc_parser_def)
  moreover have "recv_buf (register_text proj) = [] @ fields_text (client_fields proj) @ replicate (RPC_BUFF_LEN_MAX - length (register_text proj)) c_nul"
    using assms(2) by (simp add: recv_buf_def client_fields_text sendable_def)
  ultimately show ?thesis
    using parse_fields [OF assms(1) _ _ client_fields_decoded [OF assms(2)], of _ "[]"]
    by (simp add: etmemd_rpc_parse_def client_fields_text)
qed

lemma client_sends_message:
  assumes "securec_ok (cl_S E)" "sendable proj" "0 \<le> cl_send E (register_text proj)"
  shows "etmem_client_send E proj [] = (0, register_text proj, [])"
proof -
  have "length (nat_to_base 10 (mp_cmd proj)) = 1" using assms(2) by (simp add: sendable_def nat_to_base.simps)
  moreover have "length (or_dash v) \<le> Suc (opt_len v)" for v by (cases v) (simp_all add: or_dash_def opt_len_def)
  note dash = this [of "mp_proj_name proj"] this [of "mp_file_name proj"] this [of "mp_eng_name proj"] this [of "mp_eng_cmd proj"]
    this [of "mp_task_name proj"]
  ultimately have "length (register_text proj) \<le> etmem_client_get_str_len proj - 1" "0 < etmem_client_get_str_len proj"
    using dash by (simp_all add: register_text_def etmem_client_get_str_len_def ETMEM_CLIENT_REGISTER_def)
  moreover have "register_text proj \<noteq> []" by (simp add: register_text_def)
  ultimately show ?thesis using assms
    by (simp add: etmem_client_send_def Let_def securec_ok_def sendable_def)
qed

text \<open>C21: The message format is lossless. For names without blanks that do not begin with a dash, the client sends a message
  that is never cut off, and the daemon decodes the 512 byte buffer it receives it in to exactly the command and the names the message was
  made from, missing names included.\<close>

theorem rpc_round_trip:
  assumes "securec_ok (cl_S E)" "securec_ok S" "sendable proj" "0 \<le> cl_send E (register_text proj)"
  shows "etmem_client_send E proj [] = (0, register_text proj, []) \<and>
    etmemd_rpc_parse S (recv_buf (register_text proj)) (length (register_text proj)) [] = Inr (0, server_params proj, [])"
  using client_sends_message [OF assms(1,3,4)] parse_client_message [OF assms(2,3)] by simp

definition sample_proj :: mem_proj where
  "sample_proj = zero_mem_proj\<lparr>mp_cmd := ETMEM_CMD_START, mp_proj_name := Some ''base'', mp_sock_name := Some ''sock''\<rparr>"

definition sample_client :: "string list \<Rightarrow> client_env" where
  "sample_client cs = \<lparr>cl_S = securec_ref, cl_socket = 0, cl_opts = (0, 0), cl_connect = 0, cl_send = (\<lambda>m. int (length m)),
     cl_recv = map Some cs, cl_alloc = []\<rparr>"

lemma sample_sendable: "sendable sample_proj"
  by (simp add: sendable_def sample_proj_def zero_mem_proj_def carried_def plain_value_def register_text_def or_dash_def nat_to_base.simps)

lemma rpc_round_trip_witness:
  "etmemd_rpc_parse securec_ref (recv_buf (register_text sample_proj)) (length (register_text sample_proj)) [] =
     Inr (0, zero_rpc_params\<lparr>sp_cmd := 2, sp_proj_name := Some ''base''\<rparr>, [])"
proof -
  have "etmemd_rpc_parse securec_ref (recv_buf (register_text sample_proj)) (length (register_text sample_proj)) [] =
      Inr (0, server_params sample_proj, [])"
    by (rule rpc_round_trip [of "sample_client []", THEN conjunct2])
      (simp_all add: sample_client_def securec_ref_ok sample_sendable)
  then show ?thesis by (simp add: server_params_def sample_proj_def zero_mem_proj_def zero_rpc_params_def)
qed

section \<open>The answer\<close>

definition plain_bytes :: "string \<Rightarrow> bool" where
  "plain_bytes s \<longleftrightarrow> c_nul \<notin> set s \<and> SUCCESS_CHAR \<notin> set s \<and> FAIL_CHAR \<notin> set s"

definition packets :: "string list \<Rightarrow> bool" where
  "packets cs \<longleftrightarrow> (\<forall>c\<in>set cs. c \<noteq> [] \<and> length c < ETMEM_RPC_RECV_BUF_LEN)"

lemma take_nul_all: "c_nul \<notin> set s \<Longrightarrow> takeWhile (\<lambda>c. c \<noteq> c_nul) s = s"
  by (auto simp: takeWhile_eq_all_conv)

lemma recv_loop_packets:
  assumes "tag = SUCCESS_CHAR \<or> tag = FAIL_CHAR"
  shows "packets cs \<Longrightarrow> concat cs = body @ [tag] \<Longrightarrow> plain_bytes body \<Longrightarrow>
    recv_loop (map Some cs @ rs) out = (if tag = SUCCESS_CHAR then (0, out @ body) else (-1, out @ body @ [c_newline]))"
proof (induction cs arbitrary: body out)
  case (Cons c cs)
  have c: "c \<noteq> []" "take (ETMEM_RPC_RECV_BUF_LEN - 1) c = c" using Cons.prems(1) by (auto simp: packets_def)
  show ?case
  proof (cases "cs = []")
    case True
    with Cons.prems(2) have "c = body @ [tag]" by simp
    with c assms Cons.prems(3) show ?thesis by (auto simp: plain_bytes_def take_nul_all takeWhile_append2 Let_def)
  next
    case False
    with Cons.prems(1) have "concat cs \<noteq> []" by (auto simp: packets_def)
    with Cons.prems(2) obtain b where b: "concat cs = b @ [tag]" "body = c @ b"
      by (metis append_butlast_last_id append_assoc butlast_append concat.simps(2) last_appendR last_snoc butlast_snoc)
    with Cons.prems(1,3) have "packets cs" "plain_bytes b" "plain_bytes c" by (auto simp: packets_def plain_bytes_def)
    moreover have "last c \<noteq> SUCCESS_CHAR" "last c \<noteq> FAIL_CHAR" using \<open>plain_bytes c\<close> last_in_set [OF c(1)] by (auto simp: plain_bytes_def)
    ultimately show ?thesis using Cons.IH [OF _ b(1), of "out @ c"] c b(2)
      by (simp add: plain_bytes_def take_nul_all Let_def)
  qed
qed simp

text \<open>The text the daemon sends for a result before the tag, and what the client makes of it.\<close>

definition response_text :: "opt_result \<Rightarrow> string" where
  "response_text r = (case map_of g_resp_msg_arr r of None \<Rightarrow> [] | Some msg \<Rightarrow> msg)"

definition whole_sends :: "(string \<Rightarrow> int) \<times> (string \<Rightarrow> int)" where
  "whole_sends = (\<lambda>m. int (length m), \<lambda>m. int (length m))"

lemma response_msg_whole:
  "etmemd_rpc_send_response_msg whole_sends r = response_text r @ [if r = OPT_SUCCESS then SUCCESS_CHAR else FAIL_CHAR]"
  by (simp add: etmemd_rpc_send_response_msg_def whole_sends_def sent_by_def response_text_def split: option.splits)

lemma response_text_plain: "plain_bytes (response_text r)"
  by (cases r) (simp_all add: response_text_def g_resp_msg_arr_def plain_bytes_def)

definition client_code :: "opt_result \<Rightarrow> int" where
  "client_code r = (if r = OPT_SUCCESS then 0 else - ECOMM)"

definition client_text :: "opt_result \<Rightarrow> string list \<Rightarrow> string" where
  "client_text r out = concat out @ response_text r @ (if r = OPT_SUCCESS then [] else [c_newline])"

definition root_conn :: "string \<Rightarrow> rpc_conn" where
  "root_conn msg = \<lparr>co_accept = True, co_cred = Some (0, 0), co_recv = Some msg, co_sends = whole_sends, co_alloc = []\<rparr>"

lemma accept_root:
  assumes "securec_ok (re_S E)" "re_writes E = []" "sendable proj"
    and "etmemd_switch_cmd E (server_params proj) st = Inr (r, st', out)" "\<forall>t\<in>set out. length t < FILE_LINE_MAX_LEN"
  shows "etmemd_rpc_accept E (root_conn (register_text proj)) st =
    Inr (0, st', concat out @ response_text r @ [if r = OPT_SUCCESS then SUCCESS_CHAR else FAIL_CHAR])"
proof -
  have "take RPC_BUFF_LEN_MAX (register_text proj) = register_text proj" "register_text proj \<noteq> []"
    using assms(3) by (simp_all add: sendable_def) (simp add: register_text_def)
  moreover note parse_client_message [OF assms(1,3)] print_all_sent [OF assms(1,5)]
  ultimately show ?thesis using assms(2,4)
    by (simp add: etmemd_rpc_accept_def root_conn_def rpc_socket_permission_def etmemd_rpc_handle_def response_msg_whole Let_def)
qed

text \<open>C19: A command reaches the registry and its outcome reaches the user. For a command line whose names the format can carry, served
  by a daemon that runs as root's, the registry changes by exactly that command, and however the answer is cut into packets the client exits
  with 0 if the command succeeded and with the code of a failed communication otherwise, and prints the output of the command, followed
  by the text for the error.\<close>

theorem rpc_end_to_end:
  assumes "securec_ok (cl_S C)" "securec_ok (re_S E)" "re_writes E = []" "sendable proj"
    and "mp_sock_name proj = Some sk" "length sk < SUN_PATH_LEN - 1"
    and "cl_socket C = 0" "0 \<le> fst (cl_opts C)" "0 \<le> snd (cl_opts C)" "cl_connect C = 0" "cl_alloc C = []"
    and "0 \<le> cl_send C (register_text proj)"
    and "etmemd_switch_cmd E (server_params proj) st = Inr (r, st', out)" "\<forall>t\<in>set out. length t < FILE_LINE_MAX_LEN \<and> plain_bytes t"
  shows "\<exists>answer. etmemd_rpc_accept E (root_conn (register_text proj)) st = Inr (0, st', answer) \<and>
    (\<forall>cs rest. packets cs \<and> concat cs = answer \<and> cl_recv C = map Some cs @ rest \<longrightarrow>
      etmem_rpc_client C proj = (client_code r, register_text proj, client_text r out))"
proof -
  let ?tag = "if r = OPT_SUCCESS then SUCCESS_CHAR else FAIL_CHAR"
  let ?answer = "(concat out @ response_text r) @ [?tag]"
  have "etmemd_rpc_accept E (root_conn (register_text proj)) st = Inr (0, st', ?answer)"
    using accept_root [OF assms(2,3,4,13)] assms(14) by simp
  moreover have "etmem_rpc_client C proj = (client_code r, register_text proj, client_text r out)"
    if cs: "packets cs" "concat cs = ?answer" "cl_recv C = map Some cs @ rest" for cs rest
  proof -
    have "etmem_client_conn C sk = 0"
      using assms(1,6,8,9,10) by (simp add: etmem_client_conn_def securec_ok_def)
    moreover have "plain_bytes (concat out @ response_text r)"
      using assms(14) response_text_plain [of r] by (auto simp: plain_bytes_def)
    note loop = recv_loop_packets [OF _ cs(1,2) this, of rest "[]"]
    ultimately show ?thesis
      using client_sends_message [OF assms(1,4,12)] assms(5,7,11) loop
      by (simp add: etmem_rpc_client_def etmem_client_recv_def cs(3) client_code_def client_text_def)
  qed
  ultimately show ?thesis by blast
qed

text \<open>The command line \<open>etmem project start -n base -s sock\<close> is the command used above.\<close>

lemma sample_command_line:
  "etmem_main C [''etmem'', ''project'', ''start'', ''-n'', ''base'', ''-s'', ''sock''] = etmem_rpc_client C sample_proj"
  by (simp add: etmem_main_def parse_args_def check_param_def g_etmem_objs_def etmem_register_obj_def project_do_cmd_def project_parse_cmd_def g_project_cmd_items_def project_parse_args_def
      parse_args_with_def etmem_parse_check_result_def project_check_params_def is_set_def sample_proj_def zero_mem_proj_def)

definition sample_server :: "(unit, unit, unit) rpc_env" where
  "sample_server = \<lparr>re_S = securec_ref, re_ops = (\<lambda>_. \<lparr>op_fill_eng_params = None, op_fill_task_params = None, op_clear_task_params = None,
       op_start_task = None, op_stop_task = None, op_eng_mgt_func = None\<rparr>), re_core = 1, re_thirdparty = (\<lambda>_. False), re_damon = 0,
     re_realpath = Some, re_stat = (\<lambda>_. None), re_new = True, re_config = (\<lambda>_. None), re_alloc = (\<lambda>_. []), re_writes = []\<rparr>"

text \<open>Starting a project the daemon does not know, with the answer received in two packets.\<close>

lemma rpc_end_to_end_witness:
  "etmem_main (sample_client [''error: project'', '' is not exist'' @ [FAIL_CHAR]])
     [''etmem'', ''project'', ''start'', ''-n'', ''base'', ''-s'', ''sock''] =
   (- 70, register_text sample_proj, ''error: project is not exist'' @ [c_newline])"
proof -
  let ?C = "sample_client [''error: project'', '' is not exist'' @ [FAIL_CHAR]]"
  have sw: "etmemd_switch_cmd sample_server (server_params sample_proj) ([], []) = Inr (OPT_PRO_NOEXIST, ([], []), [])"
    by (simp add: etmemd_switch_cmd_def server_params_def sample_proj_def zero_mem_proj_def etmemd_migrate_start_def get_proj_by_name_def)
  have sk: "mp_sock_name sample_proj = Some ''sock''" by (simp add: sample_proj_def)
  have resp: "response_text OPT_PRO_NOEXIST = ''error: project is not exist''" by (simp add: response_text_def g_resp_msg_arr_def)
  from rpc_end_to_end [of ?C sample_server sample_proj "''sock''" "([], [])" OPT_PRO_NOEXIST "([], [])" "[]", OF _ _ _ sample_sendable sk _ _ _ _ _ _ _ sw]
  obtain answer where a: "etmemd_rpc_accept sample_server (root_conn (register_text sample_proj)) ([], []) = Inr (0, ([], []), answer)"
    and c: "\<And>cs rest. packets cs \<and> concat cs = answer \<and> cl_recv ?C = map Some cs @ rest \<Longrightarrow>
      etmem_rpc_client ?C sample_proj = (client_code OPT_PRO_NOEXIST, register_text sample_proj, client_text OPT_PRO_NOEXIST [])"
    by (auto simp: sample_client_def sample_server_def securec_ref_ok)
  have "answer = ''error: project is not exist'' @ [FAIL_CHAR]"
    using accept_root [OF _ _ sample_sendable sw] a by (simp add: sample_server_def securec_ref_ok resp)
  then have "etmem_rpc_client ?C sample_proj = (client_code OPT_PRO_NOEXIST, register_text sample_proj, client_text OPT_PRO_NOEXIST [])"
    by (intro c [of "[''error: project'', '' is not exist'' @ [FAIL_CHAR]]" "[]"]) (simp add: packets_def sample_client_def)
  then show ?thesis by (simp add: sample_command_line client_code_def client_text_def resp)
qed

section \<open>Reads of the decoder\<close>

text \<open>A buffer with a message of \<open>n\<close> bytes.\<close>

definition filled :: "string \<Rightarrow> nat \<Rightarrow> bool" where
  "filled buf n \<longleftrightarrow> length buf = RPC_BUFF_LEN_MAX \<and> n < RPC_BUFF_LEN_MAX - 1 \<and> (\<forall>i. n \<le> i \<and> i < RPC_BUFF_LEN_MAX \<longrightarrow> buf ! i = c_nul)"

lemma recv_buf_filled: "length msg < RPC_BUFF_LEN_MAX - 1 \<Longrightarrow> filled (recv_buf msg) (length msg)"
  by (auto simp: filled_def recv_buf_def nth_append)

lemma buf_match_safe:
  "filled buf n \<Longrightarrow> idx \<le> n \<Longrightarrow> c_nul \<notin> set name \<Longrightarrow>
   buf_match buf idx name = Inr False \<or> buf_match buf idx name = Inr True \<and> idx + length name \<le> n"
proof (induction name arbitrary: idx)
  case (Cons c name)
  then have len: "idx < length buf" by (simp add: filled_def)
  show ?case
  proof (cases "buf ! idx = c")
    case True
    with Cons.prems have "idx \<noteq> n" by (auto simp: filled_def)
    with Cons.prems Cons.IH [of "Suc idx"] True len show ?thesis by (auto simp: c_nth_def)
  qed (use len in \<open>simp add: c_nth_def\<close>)
qed simp

lemma find_blank_safe: "n \<le> length buf \<Longrightarrow> find_blank buf n start \<noteq> Inl e"
proof (induction "n - start" arbitrary: start)
  case (Suc m)
  then show ?case by (subst find_blank.simps) (auto simp: c_nth_def)
qed (simp add: find_blank.simps)

lemma get_param_safe: "n \<le> length buf \<Longrightarrow> etmemd_rpd_get_param_str S buf n idx al \<noteq> Inl e"
  by (auto simp: etmemd_rpd_get_param_str_def c_bind_Inl find_blank_safe Let_def split: option.splits prod.splits bool.splits)

lemma decode_safe: "filled buf n \<Longrightarrow> idx \<le> Suc n \<Longrightarrow> etmemd_rpc_decode S q buf n idx p al \<noteq> Inl e"
proof -
  assume f: "filled buf n" "idx \<le> Suc n"
  then have "idx < length buf" "n \<le> length buf" by (simp_all add: filled_def)
  then show ?thesis
    by (auto simp: etmemd_rpc_decode_def skip_null_arg_def c_nth_def etmemd_rpc_decode_str_def etmemd_rpc_decode_int_def c_bind_Inl
        get_param_safe split: rpc_decode_type.splits option.splits if_splits)
qed

lemma parse_params_safe:
  "filled buf n \<Longrightarrow> \<forall>q\<in>set qs. c_nul \<notin> set (rp_name q) \<Longrightarrow> parse_params S qs buf n idx p al \<noteq> Inl e"
proof (induction qs arbitrary: idx p al)
  case (Cons q qs)
  have IH: "parse_params S qs buf n idx p al \<noteq> Inl e" for idx p al using Cons by simp
  show ?case
  proof (cases "idx < n")
    case True
    with buf_match_safe [OF Cons.prems(1), of idx "rp_name q"] Cons.prems(2) consider "buf_match buf idx (rp_name q) = Inr False"
      | "buf_match buf idx (rp_name q) = Inr True" "idx + (length (rp_name q) + 1) \<le> Suc n" by auto
    then show ?thesis
    proof cases
      case 2
      with decode_safe [OF Cons.prems(1) 2(2), of S q p al e] True IH show ?thesis by (auto simp: c_bind_Inl split: if_splits)
    qed (use True in simp)
  qed simp
qed simp

lemma parse_fields_more:
  "securec_ok S \<Longrightarrow> fs \<noteq> [] \<Longrightarrow> buf = pre @ fields_text fs @ CHR '' '' # r \<Longrightarrow> length (pre @ fields_text fs) \<le> n \<Longrightarrow> n \<le> length buf \<Longrightarrow>
   decoded_all fs p p' \<Longrightarrow>
   parse_params S (map fst fs @ qs) buf n (length pre) p [] = parse_params S qs buf n (length (pre @ fields_text fs) + 1) p' []"
proof (induction fs arbitrary: pre p)
  case (Cons f fs)
  obtain q t where f: "f = (q, t)" by (cases f)
  obtain p1 where d: "decoded q t p p1" "decoded_all fs p1 p'" using Cons.prems(6) f by auto
  let ?r = "(if fs = [] then [] else CHR '' '' # fields_text fs) @ CHR '' '' # r"
  have one: "parse_params S (q # map fst fs @ qs) buf n (length pre) p [] =
      parse_params S (map fst fs @ qs) buf n (length (pre @ rp_name q @ CHR '' '' # t) + 1) p1 []"
    by (rule parse_step [OF Cons.prems(1) _ d(1), where r = ?r]) (use Cons.prems(3-5) f in auto)
  show ?case
  proof (cases "fs = []")
    case True
    with one d(2) f show ?thesis by simp
  next
    case False
    let ?pre = "pre @ rp_name q @ CHR '' '' # t @ [CHR '' '']"
    have "parse_params S (map fst fs @ qs) buf n (length ?pre) p1 [] = parse_params S qs buf n (length (?pre @ fields_text fs) + 1) p' []"
      by (rule Cons.IH [OF Cons.prems(1) False _ _ Cons.prems(5) d(2)]) (use Cons.prems(3,4) f False in auto)
    with one f False show ?thesis by simp
  qed
qed simp

text \<open>A message whose last parameter has no value.\<close>

lemma overread_message:
  defines "fs \<equiv> zip g_rpc_parser [''-'', ''-'', nat_to_base 10 0, ''-'', replicate 452 CHR ''x'']"
  defines "msg \<equiv> fields_text fs @ CHR '' '' # ''task_name''"
  shows "length msg = RPC_BUFF_LEN_MAX - 1" "etmemd_rpc_parse securec_ref (recv_buf msg) (length msg) [] = Inl Out_of_bounds"
proof -
  let ?task = "\<lparr>rp_name = ''task_name'', rp_type = DECODE_STRING (\<lambda>v p. p\<lparr>sp_task_name := v\<rparr>)\<rparr>"
  let ?p = "zero_rpc_params\<lparr>sp_eng_cmd := Some (replicate 452 CHR ''x'')\<rparr>"
  have len: "length (fields_text fs) = 501" by (simp add: fs_def g_rpc_parser_def nat_to_base.simps)
  then show msg: "length msg = RPC_BUFF_LEN_MAX - 1" by (simp add: msg_def)
  have buf: "recv_buf msg = [] @ fields_text fs @ CHR '' '' # ''task_name'' @ [c_nul]" using msg by (simp add: recv_buf_def) (simp add: msg_def)
  have dec: "decoded_all fs zero_rpc_params ?p"
    by (auto simp: fs_def g_rpc_parser_def decoded_def zero_rpc_params_def plain_value_def intro!: exI [of _ 0])
  have parsers: "g_rpc_parser = map fst fs @ [?task]" by (simp add: fs_def g_rpc_parser_def)
  have ne: "fs \<noteq> []" by (simp add: fs_def g_rpc_parser_def)
  have le: "length ([] @ fields_text fs) \<le> length msg" "length msg \<le> length (recv_buf msg)" using len msg by (simp_all add: buf)
  have "etmemd_rpc_parse securec_ref (recv_buf msg) (length msg) [] = parse_params securec_ref [?task] (recv_buf msg) (length msg) 502 ?p []"
    using parse_fields_more [OF securec_ref_ok ne buf le dec, of "[?task]"]
    by (simp add: etmemd_rpc_parse_def parsers len del: parse_params.simps)
  moreover have "buf_match (recv_buf msg) 502 ''task_name'' = Inr True"
    using buf_match_at [of "fields_text fs @ '' ''" "''task_name''" "[c_nul]"] len by (simp add: buf)
  moreover have "length (recv_buf msg) = 512" by (simp add: buf len)
  ultimately show "etmemd_rpc_parse securec_ref (recv_buf msg) (length msg) [] = Inl Out_of_bounds"
    using msg by (simp add: etmemd_rpc_decode_def skip_null_arg_def c_nth_def)
qed

text \<open>C22: The decoder does not read outside its buffer, for any message of at most 510 bytes, well-formed or not, and any failure
  of an allocation. A message of 511 bytes that ends with the name of the last parameter makes it read behind the buffer: the index
  moves past the missing blank before \<open>skip_null_arg\<close> looks at it.\<close>

theorem rpc_parse_reads_in_bounds:
  "(\<forall>S msg al e. length msg < RPC_BUFF_LEN_MAX - 1 \<longrightarrow> etmemd_rpc_parse S (recv_buf msg) (length msg) al \<noteq> Inl e) \<and>
   (\<exists>msg. length msg = RPC_BUFF_LEN_MAX - 1 \<and> etmemd_rpc_parse securec_ref (recv_buf msg) (length msg) [] = Inl Out_of_bounds)"
proof -
  have names: "\<forall>q\<in>set g_rpc_parser. c_nul \<notin> set (rp_name q)" by (simp add: g_rpc_parser_def)
  have "etmemd_rpc_parse S (recv_buf msg) (length msg) al \<noteq> Inl e" if "length msg < RPC_BUFF_LEN_MAX - 1" for S msg al e
    unfolding etmemd_rpc_parse_def by (rule parse_params_safe [OF recv_buf_filled [OF that] names])
  moreover have "\<exists>msg. length msg = RPC_BUFF_LEN_MAX - 1 \<and> etmemd_rpc_parse securec_ref (recv_buf msg) (length msg) [] = Inl Out_of_bounds"
    using overread_message by blast
  ultimately show ?thesis by blast
qed

lemma rpc_parse_reads_in_bounds_witness: "\<forall>e. etmemd_rpc_parse securec_ref (recv_buf ''proj_name'') 9 [False] \<noteq> Inl e"
  using rpc_parse_reads_in_bounds [THEN conjunct1, rule_format, of "''proj_name''" securec_ref "[False]"] by (simp add: eval_nat_numeral)

section \<open>The registry behind the server\<close>

text \<open>The command of a connection: the decoded message of a client that runs as root.\<close>

definition command_of :: "('q, 'p, 'e) rpc_env \<Rightarrow> rpc_conn \<Rightarrow> server_rpc_params option" where
  "command_of E conn =
     (if fst (c_alloc (co_alloc conn)) \<and> co_accept conn \<and> co_cred conn = Some (0, 0) then
        (case co_recv conn of
           None \<Rightarrow> None
         | Some msg \<Rightarrow>
             if msg = [] then None
             else (case etmemd_rpc_parse (re_S E) (recv_buf msg) (length (take RPC_BUFF_LEN_MAX msg)) (snd (c_alloc (co_alloc conn))) of
                     Inl e \<Rightarrow> None
                   | Inr (ret, p, al) \<Rightarrow> if ret = 0 then Some p else None))
      else None)"

fun run_cmds :: "('q, 'p, 'e) rpc_env \<Rightarrow> server_rpc_params option list \<Rightarrow> ('q, 'p, 'e) reg_state \<Rightarrow> ('q, 'p, 'e) reg_state c_res" where
  "run_cmds E [] st = Inr st"
| "run_cmds E (None # ps) st = run_cmds E ps st"
| "run_cmds E (Some p # ps) st = c_bind (etmemd_switch_cmd E p st) (\<lambda>(ret, st', out). run_cmds E ps st')"

lemma accept_command:
  assumes "etmemd_rpc_accept E conn st = Inr (ret, st', out)"
  shows "case command_of E conn of
      None \<Rightarrow> st' = st \<and> out = []
    | Some p \<Rightarrow> \<exists>r texts. etmemd_switch_cmd E p st = Inr (r, st', texts) \<and>
        out = print_all (re_S E) texts (re_writes E) @ etmemd_rpc_send_response_msg (co_sends conn) r"
proof (cases "fst (c_alloc (co_alloc conn)) \<and> co_accept conn \<and> co_cred conn = Some (0, 0)")
  case False
  with assms show ?thesis
    by (cases "c_alloc (co_alloc conn)"; cases "fst (c_alloc (co_alloc conn))")
      (auto simp: etmemd_rpc_accept_def command_of_def rpc_socket_permission_def split: if_splits option.splits)
next
  case True
  obtain al where al: "c_alloc (co_alloc conn) = (True, al)" using True by (cases "c_alloc (co_alloc conn)") auto
  show ?thesis
  proof (cases "co_recv conn")
    case None
    with True al assms show ?thesis by (auto simp: etmemd_rpc_accept_def command_of_def rpc_socket_permission_def)
  next
    case (Some msg)
    with True al assms show ?thesis
      by (cases "msg = []") (auto simp: etmemd_rpc_accept_def command_of_def rpc_socket_permission_def etmemd_rpc_handle_def Let_def
          min_def split: if_splits)
  qed
qed

text \<open>C20: The registry changes by the commands of root's clients and by nothing else. Whatever connections the server handles, in
  whatever order, the registry afterwards is the result of carrying out, in that order, exactly the commands decoded from messages of
  clients whose user and group are root; every other connection leaves it alone and gets no answer.\<close>

theorem rpc_serve_refines:
  assumes "rpc_serve E conns st = Inr (st', outs)"
  shows "run_cmds E (map (command_of E) conns) st = Inr st' \<and> length outs = length conns \<and>
    (\<forall>i < length conns. command_of E (conns ! i) = None \<longrightarrow> outs ! i = []) \<and>
    (\<forall>i < length conns. command_of E (conns ! i) \<noteq> None \<longrightarrow> co_cred (conns ! i) = Some (0, 0))"
proof -
  have "co_cred conn = Some (0, 0)" if "command_of E conn \<noteq> None" for conn
    using that by (auto simp: command_of_def split: if_splits)
  moreover have "run_cmds E (map (command_of E) conns) st = Inr st' \<and> length outs = length conns \<and>
      (\<forall>i < length conns. command_of E (conns ! i) = None \<longrightarrow> outs ! i = [])"
    using assms
  proof (induction conns arbitrary: st outs)
    case (Cons conn conns)
    then obtain ret st1 out outs' where a: "etmemd_rpc_accept E conn st = Inr (ret, st1, out)" and r: "rpc_serve E conns st1 = Inr (st', outs')"
      and o: "outs = out # outs'" by auto
    from Cons.IH [OF r] accept_command [OF a] o show ?case
      by (cases st1; cases "command_of E conn") (auto simp: nth_Cons split: nat.splits)
  qed simp
  ultimately show ?thesis by blast
qed

text \<open>A client that is not root and one that is: the first is not answered.\<close>

lemma rpc_serve_refines_witness:
  "\<exists>st' outs. rpc_serve sample_server [(root_conn (register_text sample_proj))\<lparr>co_cred := Some (1000, 1000)\<rparr>, root_conn (register_text sample_proj)]
     ([], []) = Inr (st', outs) \<and> outs ! 0 = [] \<and> outs ! 1 \<noteq> []"
proof -
  have sw: "etmemd_switch_cmd sample_server (server_params sample_proj) ([], []) = Inr (OPT_PRO_NOEXIST, ([], []), [])"
    by (simp add: etmemd_switch_cmd_def server_params_def sample_proj_def zero_mem_proj_def etmemd_migrate_start_def get_proj_by_name_def)
  let ?conns = "[(root_conn (register_text sample_proj))\<lparr>co_cred := Some (1000, 1000)\<rparr>, root_conn (register_text sample_proj)]"
  have no: "etmemd_rpc_accept sample_server ((root_conn (register_text sample_proj))\<lparr>co_cred := Some (1000, 1000)\<rparr>) ([], []) = Inr (-1, ([], []), [])"
    by (simp add: etmemd_rpc_accept_def root_conn_def rpc_socket_permission_def)
  have yes: "etmemd_rpc_accept sample_server (root_conn (register_text sample_proj)) ([], []) =
      Inr (0, ([], []), response_text OPT_PRO_NOEXIST @ [FAIL_CHAR])"
    using accept_root [OF _ _ sample_sendable sw] by (simp add: sample_server_def securec_ref_ok)
  have serve: "rpc_serve sample_server ?conns ([], []) = Inr (([], []), [[], response_text OPT_PRO_NOEXIST @ [FAIL_CHAR]])"
    by (simp add: no yes)
  have "command_of sample_server (?conns ! 0) = None" by (simp add: command_of_def root_conn_def)
  with rpc_serve_refines [OF serve] serve show ?thesis by auto
qed

section \<open>Names the format cannot carry\<close>

text \<open>A project whose name is a dash and one more character, which the configuration accepts, cannot be addressed: the decoder
  takes the dash for the mark of a missing name and skips two bytes, finds a blank where the next parameter should begin, and drops the
  message. The daemon closes the connection without an answer, and nothing changes.\<close>

theorem rpc_dash_name_dropped:
  assumes "mp_proj_name proj = Some [CHR ''-'', c]" "length (register_text proj) \<le> RPC_BUFF_LEN_MAX"
  shows "check_str_valid (Some ''-a'') = 0 \<and> etmemd_rpc_accept E (root_conn (register_text proj)) st = Inr (0, st, [])"
proof -
  let ?n = "length (register_text proj)" and ?buf = "recv_buf (register_text proj)"
  obtain r where r: "?buf = ''proj_name '' @ CHR ''-'' # c # CHR '' '' # r" and len: "12 < ?n"
    using assms by (auto simp: recv_buf_def register_text_def or_dash_def)
  have m: "buf_match ?buf 0 ''proj_name'' = Inr True" using buf_match_at [of "[]" "''proj_name''"] by (simp add: r)
  have sk: "skip_null_arg ?buf (Suc (length ''proj_name'')) = Inr (True, 12)" by (simp add: r skip_null_arg_def c_nth_def)
  have f: "buf_match ?buf 12 ''file_name'' = Inr False" by (simp add: r c_nth_def)
  have "etmemd_rpc_parse (re_S E) ?buf ?n [] = Inr (-1, zero_rpc_params, [])"
    using len sk by (simp add: etmemd_rpc_parse_def g_rpc_parser_def etmemd_rpc_decode_def m f del: buf_match.simps)
  moreover have "take RPC_BUFF_LEN_MAX (register_text proj) = register_text proj" "register_text proj \<noteq> []" using assms(2) len by auto
  moreover have "check_str_valid (Some ''-a'') = 0" by code_simp
  ultimately show ?thesis by (simp add: etmemd_rpc_accept_def root_conn_def rpc_socket_permission_def Let_def)
qed

lemma rpc_dash_name_dropped_witness:
  "etmemd_rpc_accept sample_server (root_conn (register_text (sample_proj\<lparr>mp_proj_name := Some ''-a''\<rparr>))) ([], []) = Inr (0, ([], []), [])"
  by (rule rpc_dash_name_dropped [of _ "CHR ''a''", THEN conjunct2])
    (simp_all add: sample_proj_def zero_mem_proj_def register_text_def or_dash_def nat_to_base.simps)

end
