(* ===== verification/Thread_Pool.thy ===== *)
theory Thread_Pool
  imports Etmem_Prelude "HOL-Library.Multiset"
begin

text \<open>
  The thread pool of a task (\<open>etmemd_threadpool.c\<close>), its timer (\<open>etmemd_threadtimer.c\<close>) and the round the timer runs
  (\<open>launch_threadtimer_executor\<close> in \<open>etmemd_pool_adapter.c\<close>): all processes of the task are pushed to the pool, the workers are
  woken, and the round waits until as many executions have ended as were scheduled.

  The threads are interleaved in the step relation \<open>pool_step\<close>. A step is what a thread does while it holds the lock of the pool, one
  atomic operation on a counter, or the execution of one job. A wait on the condition may also end without a signal. The counters are
  \<open>int\<close>s; a round has far fewer than \<open>2 ^ 31\<close> jobs. The ghost fields record what was pushed, dropped and executed in the round.
\<close>

section \<open>The pool\<close>

text \<open>Where a worker stands: before taking the lock, in \<open>pthread_cond_wait\<close>, executing a job, or in \<open>sleep\<close>.\<close>

datatype 'j thread_state = T_top | T_blocked | T_run 'j | T_sleep

text \<open>\<open>th_cap\<close> is None while \<open>max_thread_cap\<close> has not been written.\<close>

record 'j thread_pool =
  th_cap :: "int option"
  th_sched :: int
  th_exec :: int
  th_list :: "'j list"
  th_threads :: "'j thread_state list"

definition cancel_unschedul_tasks :: "'j thread_pool \<Rightarrow> 'j thread_pool" where
  "cancel_unschedul_tasks inst = inst\<lparr>th_exec := th_exec inst + int (length (th_list inst)), th_list := []\<rparr>"

text \<open>All threads are cancelled and joined; the number of them is read from \<open>max_thread_cap\<close>.\<close>

definition threadpool_stop_and_destroy :: "'j thread_pool option \<Rightarrow> 'j thread_pool option c_res" where
  "threadpool_stop_and_destroy inst =
     (case inst of
        None \<Rightarrow> Inr None
      | Some p \<Rightarrow> (case th_cap p of None \<Rightarrow> Inl Uninitialised | Some _ \<Rightarrow> Inr None))"

text \<open>\<open>init_ok\<close> tells whether the mutex and the condition could be initialised, \<open>creates\<close> the outcomes of \<open>pthread_create\<close>.\<close>

definition threadpool_create :: "u64 \<Rightarrow> bool \<Rightarrow> (nat \<Rightarrow> bool) \<Rightarrow> alloc \<Rightarrow> 'j thread_pool option c_res" where
  "threadpool_create max_thread_num init_ok creates al =
     (case c_alloc al of
        (False, _) \<Rightarrow> Inr None
      | (True, al1) \<Rightarrow>
          let pool = \<lparr>th_cap = None, th_sched = 0, th_exec = 0, th_list = [], th_threads = []\<rparr>;
              n = unat max_thread_num
          in if n < 1 then Inr None
             else if \<not> fst (c_alloc al1) then Inr None
             else if \<not> init_ok then Inr None
             else if \<exists>i\<in>{0..<n}. \<not> creates i then threadpool_stop_and_destroy (Some pool)
             else Inr (Some (pool\<lparr>th_cap := Some (cast_int (int n)), th_threads := replicate n T_top\<rparr>)))"

text \<open>\<open>functor\<close> tells whether the function is set; the argument None is NULL.\<close>

definition threadpool_add_worker :: "bool \<Rightarrow> bool \<Rightarrow> 'j option \<Rightarrow> 'j thread_pool \<Rightarrow> int \<times> 'j thread_pool" where
  "threadpool_add_worker malloc_ok functor arg inst =
     (if \<not> functor \<or> arg = None then (-1, inst)
      else if \<not> malloc_ok then (-1, inst)
      else (0, inst\<lparr>th_list := the arg # th_list inst, th_sched := th_sched inst + 1\<rparr>))"

definition wake :: "'j thread_state \<Rightarrow> 'j thread_state" where
  "wake t = (if t = T_blocked then T_top else t)"

definition threadpool_notify :: "'j thread_pool \<Rightarrow> 'j thread_pool" where
  "threadpool_notify inst = inst\<lparr>th_threads := map wake (th_threads inst)\<rparr>"

definition threadpool_reset_status :: "'j thread_pool \<Rightarrow> 'j thread_pool" where
  "threadpool_reset_status inst = inst\<lparr>th_sched := 0, th_exec := 0\<rparr>"

text \<open>One step of the worker with number \<open>i\<close>, and the job it has ended.\<close>

definition threadpool_routine :: "nat \<Rightarrow> 'j thread_pool \<Rightarrow> 'j thread_pool \<times> 'j list" where
  "threadpool_routine i inst =
     (case th_threads inst ! i of
        T_top \<Rightarrow>
          if th_sched inst = 0 then (inst\<lparr>th_threads := (th_threads inst)[i := T_blocked]\<rparr>, [])
          else (case th_list inst of
                  [] \<Rightarrow> (inst\<lparr>th_threads := (th_threads inst)[i := T_sleep]\<rparr>, [])
                | j # r \<Rightarrow> (inst\<lparr>th_list := r, th_threads := (th_threads inst)[i := T_run j]\<rparr>, []))
      | T_run j \<Rightarrow> (inst\<lparr>th_exec := th_exec inst + 1, th_threads := (th_threads inst)[i := T_top]\<rparr>, [j])
      | T_sleep \<Rightarrow> (inst\<lparr>th_threads := (th_threads inst)[i := T_top]\<rparr>, [])
      | T_blocked \<Rightarrow> (inst\<lparr>th_threads := (th_threads inst)[i := T_top]\<rparr>, []))"

section \<open>The timer\<close>

record timer_thread =
  ti_down :: bool
  ti_functor :: bool
  ti_expired :: int
  ti_alive :: bool

definition thread_timer_create :: "int \<Rightarrow> bool \<Rightarrow> alloc \<Rightarrow> timer_thread option" where
  "thread_timer_create seconds init_ok al =
     (if \<not> fst (c_alloc al) then None
      else if \<not> init_ok then None
      else Some \<lparr>ti_down = True, ti_functor = False, ti_expired = seconds, ti_alive = False\<rparr>)"

definition thread_timer_start :: "bool \<Rightarrow> timer_thread \<Rightarrow> int \<times> timer_thread" where
  "thread_timer_start create_ok inst =
     (if ti_functor inst then (0, inst)
      else if \<not> create_ok then (-1, inst\<lparr>ti_down := True, ti_functor := False\<rparr>)
      else (0, inst\<lparr>ti_down := False, ti_functor := True, ti_alive := True\<rparr>))"

definition thread_timer_stop :: "timer_thread \<Rightarrow> timer_thread" where
  "thread_timer_stop inst = inst\<lparr>ti_down := True, ti_alive := False\<rparr>"

text \<open>The state in which the timer is released.\<close>

definition thread_timer_destroy :: "timer_thread \<Rightarrow> timer_thread" where
  "thread_timer_destroy inst = (if \<not> ti_down inst then thread_timer_stop inst else inst)"

text \<open>What a turn of the loop of \<open>thread_timer_routine\<close> meets: the time cannot be had or would overflow, the wait times out, or it ends otherwise.
  The value is how often the function of the timer is run.\<close>

datatype timer_event = Clock_fails | Times_out | Signalled

fun thread_timer_routine :: "timer_thread \<Rightarrow> timer_event list \<Rightarrow> nat" where
  "thread_timer_routine timer [] = 0"
| "thread_timer_routine timer (e # es) =
     (if ti_down timer then 0
      else case e of Times_out \<Rightarrow> Suc (thread_timer_routine timer es) | _ \<Rightarrow> 0)"

section \<open>A round of the timer\<close>

text \<open>Where \<open>launch_threadtimer_executor\<close> stands: outside, in \<open>push_ctrl_workflow\<close> with the processes still to push, before
  \<open>threadpool_notify\<close>, before reading the number of scheduled jobs, in the loop that waits for that number, and before the reset.\<close>

datatype 'j launch_pc = L_idle | L_push "'j list" | L_notify | L_count | L_wait int | L_reset

record 'j pool_sys =
  ps_pool :: "'j thread_pool"
  ps_pc :: "'j launch_pc"
  ps_jobs :: "'j list"
  ps_pushed :: "'j list"
  ps_dropped :: "'j list"
  ps_done :: "'j list"

text \<open>One turn of the loop of \<open>push_ctrl_workflow\<close>: a process that cannot be pushed is removed from the list, and the one behind it
  is passed over. The results are the processes still to push, the pool, those that were pushed and those that were not.\<close>

fun push_ctrl_workflow :: "bool \<Rightarrow> 'j list \<Rightarrow> 'j thread_pool \<Rightarrow> ('j list \<times> 'j thread_pool \<times> 'j list \<times> 'j list) c_res" where
  "push_ctrl_workflow malloc_ok [] inst = Inr ([], inst, [], [])"
| "push_ctrl_workflow malloc_ok (j # js) inst =
     (case threadpool_add_worker malloc_ok True (Some j) inst of
        (ret, inst') \<Rightarrow>
          if ret \<noteq> 0 then (case js of [] \<Rightarrow> Inl Null_deref | k # r \<Rightarrow> Inr (r, inst', [], [j, k]))
          else Inr (js, inst', [j], []))"

text \<open>A step of the thread of the timer. \<open>jobs\<close> are the processes \<open>etmemd_get_task_pids\<close> has found, or None when it failed or
  the project was stopped.\<close>

definition launch_threadtimer_executor :: "'j list option \<Rightarrow> bool \<Rightarrow> 'j pool_sys \<Rightarrow> 'j pool_sys c_res" where
  "launch_threadtimer_executor jobs malloc_ok s =
     (case ps_pc s of
        L_idle \<Rightarrow>
          (case jobs of
             None \<Rightarrow> Inr s
           | Some [] \<Rightarrow> Inl Null_deref
           | Some js \<Rightarrow> Inr (s\<lparr>ps_pc := L_push js, ps_jobs := js, ps_pushed := [], ps_dropped := [], ps_done := []\<rparr>))
      | L_push [] \<Rightarrow> Inr (s\<lparr>ps_pc := L_notify\<rparr>)
      | L_push (j # js) \<Rightarrow>
          c_bind (push_ctrl_workflow malloc_ok (j # js) (ps_pool s)) (\<lambda>(js', inst, new, lost).
            Inr (s\<lparr>ps_pc := L_push js', ps_pool := inst, ps_pushed := ps_pushed s @ new, ps_dropped := ps_dropped s @ lost\<rparr>))
      | L_notify \<Rightarrow> Inr (s\<lparr>ps_pc := L_count, ps_pool := threadpool_notify (ps_pool s)\<rparr>)
      | L_count \<Rightarrow> Inr (s\<lparr>ps_pc := L_wait (th_sched (ps_pool s))\<rparr>)
      | L_wait scheduing_count \<Rightarrow> Inr (if scheduing_count \<noteq> th_exec (ps_pool s) then s else s\<lparr>ps_pc := L_reset\<rparr>)
      | L_reset \<Rightarrow> Inr (s\<lparr>ps_pc := L_idle, ps_pool := threadpool_reset_status (ps_pool s)\<rparr>))"

definition worker_turn :: "nat \<Rightarrow> 'j pool_sys \<Rightarrow> 'j pool_sys" where
  "worker_turn i s = (case threadpool_routine i (ps_pool s) of (inst, js) \<Rightarrow> s\<lparr>ps_pool := inst, ps_done := ps_done s @ js\<rparr>)"

inductive pool_step :: "'j pool_sys \<Rightarrow> 'j pool_sys \<Rightarrow> bool" where
  timer: "launch_threadtimer_executor jobs malloc_ok s = Inr s' \<Longrightarrow> pool_step s s'"
| worker: "i < length (th_threads (ps_pool s)) \<Longrightarrow> pool_step s (worker_turn i s)"

text \<open>A pool that was just created, with the timer between two rounds.\<close>

definition pool_initial :: "'j pool_sys \<Rightarrow> bool" where
  "pool_initial s \<longleftrightarrow> (\<exists>n init_ok creates al. threadpool_create n init_ok creates al = Inr (Some (ps_pool s))) \<and>
     ps_pc s = L_idle \<and> ps_jobs s = [] \<and> ps_pushed s = [] \<and> ps_dropped s = [] \<and> ps_done s = []"

inductive pool_reach :: "'j pool_sys \<Rightarrow> bool" where
  init: "pool_initial s \<Longrightarrow> pool_reach s"
| step: "pool_reach s \<Longrightarrow> pool_step s s' \<Longrightarrow> pool_reach s'"

section \<open>The invariant of a round\<close>

definition job_of :: "'j thread_state \<Rightarrow> 'j multiset" where
  "job_of t = (case t of T_run j \<Rightarrow> {#j#} | _ \<Rightarrow> {#})"

definition running :: "'j thread_pool \<Rightarrow> 'j multiset" where
  "running inst = sum_list (map job_of (th_threads inst))"

definition none_blocked :: "'j thread_pool \<Rightarrow> bool" where
  "none_blocked inst \<longleftrightarrow> T_blocked \<notin> set (th_threads inst)"

text \<open>Every job that was pushed is queued, running or done, and the counters count them.\<close>

definition accounted :: "'j pool_sys \<Rightarrow> bool" where
  "accounted s \<longleftrightarrow> mset (ps_pushed s) = mset (th_list (ps_pool s)) + running (ps_pool s) + mset (ps_done s) \<and>
     th_sched (ps_pool s) = int (length (ps_pushed s)) \<and> th_exec (ps_pool s) = int (length (ps_done s))"

definition quiet :: "'j thread_pool \<Rightarrow> bool" where
  "quiet inst \<longleftrightarrow> th_list inst = [] \<and> running inst = {#}"

definition pool_inv :: "'j pool_sys \<Rightarrow> bool" where
  "pool_inv s \<longleftrightarrow> (case ps_pc s of
       L_idle \<Rightarrow> quiet (ps_pool s) \<and> th_sched (ps_pool s) = 0 \<and> th_exec (ps_pool s) = 0
     | L_push js \<Rightarrow> accounted s \<and> mset (ps_jobs s) = mset js + mset (ps_pushed s) + mset (ps_dropped s)
     | L_notify \<Rightarrow> accounted s \<and> mset (ps_jobs s) = mset (ps_pushed s) + mset (ps_dropped s)
     | L_count \<Rightarrow> accounted s \<and> mset (ps_jobs s) = mset (ps_pushed s) + mset (ps_dropped s) \<and>
         (th_sched (ps_pool s) \<noteq> 0 \<longrightarrow> none_blocked (ps_pool s))
     | L_wait c \<Rightarrow> accounted s \<and> mset (ps_jobs s) = mset (ps_pushed s) + mset (ps_dropped s) \<and> c = th_sched (ps_pool s) \<and>
         (th_sched (ps_pool s) \<noteq> 0 \<longrightarrow> none_blocked (ps_pool s))
     | L_reset \<Rightarrow> accounted s \<and> mset (ps_jobs s) = mset (ps_pushed s) + mset (ps_dropped s) \<and> quiet (ps_pool s))"

lemma sum_list_replace:
  fixes f :: "'a \<Rightarrow> 'b multiset"
  shows "i < length ts \<Longrightarrow> sum_list (map f (ts[i := t])) + f (ts ! i) = sum_list (map f ts) + f t"
proof (induction ts arbitrary: i)
  case (Cons x ts)
  show ?case
  proof (cases i)
    case 0
    then show ?thesis by (simp add: ac_simps)
  next
    case (Suc k)
    with Cons show ?thesis by (simp add: add.assoc)
  qed
qed simp

lemma running_replace:
  "i < length (th_threads inst) \<Longrightarrow> running (inst\<lparr>th_threads := (th_threads inst)[i := t]\<rparr>) + job_of (th_threads inst ! i) = running inst + job_of t"
  by (simp add: running_def sum_list_replace)

lemma running_fields [simp]:
  "running (inst\<lparr>th_list := l\<rparr>) = running inst" "running (inst\<lparr>th_exec := e\<rparr>) = running inst" "running (inst\<lparr>th_sched := n\<rparr>) = running inst"
  by (simp_all add: running_def)

lemma job_of_simps [simp]: "job_of T_top = {#}" "job_of T_blocked = {#}" "job_of T_sleep = {#}" "job_of (T_run j) = {#j#}"
  by (simp_all add: job_of_def)

lemma job_running: "i < length (th_threads inst) \<Longrightarrow> job_of (th_threads inst ! i) \<subseteq># running inst"
  using running_replace [of i inst T_top] by (metis add.right_neutral job_of_simps(1) mset_subset_eq_add_right)

lemma worker_accounted:
  assumes "accounted s" "i < length (th_threads (ps_pool s))"
  shows "accounted (worker_turn i s)"
proof (cases "th_threads (ps_pool s) ! i")
  case T_top
  show ?thesis
  proof (cases "th_sched (ps_pool s) = 0 \<or> th_list (ps_pool s) = []")
    case True
    with T_top assms running_replace [OF assms(2), of T_blocked] running_replace [OF assms(2), of T_sleep] show ?thesis
      by (auto simp: worker_turn_def threadpool_routine_def accounted_def)
  next
    case False
    then obtain j r where l: "th_list (ps_pool s) = j # r" by (cases "th_list (ps_pool s)") auto
    with False T_top assms running_replace [OF assms(2), of "T_run j"] show ?thesis
      by (simp add: worker_turn_def threadpool_routine_def accounted_def running_def)
  qed
next
  case (T_run j)
  have "running ((ps_pool s)\<lparr>th_threads := (th_threads (ps_pool s))[i := T_top]\<rparr>) + {#j#} = running (ps_pool s)"
    using running_replace [OF assms(2), of T_top] T_run by simp
  with T_run assms show ?thesis
    by (simp add: worker_turn_def threadpool_routine_def accounted_def running_def)
qed (use assms running_replace [OF assms(2), of T_top] in \<open>auto simp: worker_turn_def threadpool_routine_def accounted_def\<close>)

lemma worker_quiet:
  assumes "quiet (ps_pool s)" "i < length (th_threads (ps_pool s))"
  shows "quiet (ps_pool (worker_turn i s)) \<and> th_exec (ps_pool (worker_turn i s)) = th_exec (ps_pool s)"
proof -
  have "job_of (th_threads (ps_pool s) ! i) = {#}" using job_running [OF assms(2)] assms(1) by (simp add: quiet_def)
  then have "th_threads (ps_pool s) ! i \<noteq> T_run j" for j by auto
  with assms running_replace [OF assms(2), of T_top] running_replace [OF assms(2), of T_blocked] running_replace [OF assms(2), of T_sleep]
  show ?thesis
    by (cases "th_threads (ps_pool s) ! i") (auto simp: worker_turn_def threadpool_routine_def quiet_def)
qed

lemma worker_none_blocked:
  assumes "th_sched (ps_pool s) \<noteq> 0" "none_blocked (ps_pool s)"
  shows "none_blocked (ps_pool (worker_turn i s))"
  using assms set_update_subset_insert [of "th_threads (ps_pool s)" i]
  by (auto simp: worker_turn_def threadpool_routine_def none_blocked_def split: thread_state.splits list.splits)

lemma worker_fields [simp]:
  "th_sched (ps_pool (worker_turn i s)) = th_sched (ps_pool s)" "ps_pc (worker_turn i s) = ps_pc s" "ps_jobs (worker_turn i s) = ps_jobs s"
  "ps_pushed (worker_turn i s) = ps_pushed s" "ps_dropped (worker_turn i s) = ps_dropped s"
  "length (th_threads (ps_pool (worker_turn i s))) = length (th_threads (ps_pool s))"
  by (auto simp: worker_turn_def threadpool_routine_def split: thread_state.splits list.splits)

lemma worker_turn_inv: "pool_inv s \<Longrightarrow> i < length (th_threads (ps_pool s)) \<Longrightarrow> pool_inv (worker_turn i s)"
  by (auto simp: pool_inv_def worker_accounted worker_quiet worker_none_blocked split: launch_pc.splits)

text \<open>The steps of the timer.\<close>

lemma quietI: "accounted s \<Longrightarrow> length (ps_done s) = length (ps_pushed s) \<Longrightarrow> quiet (ps_pool s)"
proof -
  assume a: "accounted s" "length (ps_done s) = length (ps_pushed s)"
  then have "size (mset (ps_pushed s)) = size (mset (th_list (ps_pool s)) + running (ps_pool s) + mset (ps_done s))"
    by (simp add: accounted_def)
  with a(2) show ?thesis by (simp add: quiet_def)
qed

lemma job_wake: "job_of (wake t) = job_of t"
  by (simp add: wake_def)

lemma notify_fields [simp]:
  "th_list (threadpool_notify inst) = th_list inst" "th_sched (threadpool_notify inst) = th_sched inst"
  "th_exec (threadpool_notify inst) = th_exec inst" "running (threadpool_notify inst) = running inst" "none_blocked (threadpool_notify inst)"
  by (simp_all add: threadpool_notify_def running_def comp_def job_wake) (auto simp: threadpool_notify_def none_blocked_def wake_def)

lemma push_accounted:
  assumes "accounted s" "push_ctrl_workflow malloc_ok (j # js) (ps_pool s) = Inr (js', inst, new, lost)"
  shows "accounted (s\<lparr>ps_pool := inst, ps_pushed := ps_pushed s @ new\<rparr>)" "mset (j # js) = mset js' + mset new + mset lost"
  using assms
  by (auto simp: threadpool_add_worker_def accounted_def split: if_splits list.splits)

lemma accounted_fields [simp]:
  "accounted (s\<lparr>ps_pc := pc\<rparr>) = accounted s" "accounted (s\<lparr>ps_dropped := d\<rparr>) = accounted s" "accounted (s\<lparr>ps_jobs := js\<rparr>) = accounted s"
  by (simp_all add: accounted_def)

lemma timer_inv:
  assumes "launch_threadtimer_executor jobs malloc_ok s = Inr s'" "pool_inv s"
  shows "pool_inv s'"
proof (cases "ps_pc s")
  case L_idle
  with assms show ?thesis
    by (auto simp: launch_threadtimer_executor_def pool_inv_def accounted_def quiet_def split: option.splits list.splits)
next
  case (L_push js)
  show ?thesis
  proof (cases js)
    case Nil
    with L_push assms show ?thesis by (auto simp: launch_threadtimer_executor_def pool_inv_def)
  next
    case (Cons j r)
    from assms(1) L_push Cons obtain js' inst new lost where p: "push_ctrl_workflow malloc_ok (j # r) (ps_pool s) = Inr (js', inst, new, lost)"
      and s': "s' = s\<lparr>ps_pc := L_push js', ps_pool := inst, ps_pushed := ps_pushed s @ new, ps_dropped := ps_dropped s @ lost\<rparr>"
      by (auto simp: launch_threadtimer_executor_def simp del: push_ctrl_workflow.simps)
    have a: "accounted s" "mset (ps_jobs s) = mset (j # r) + mset (ps_pushed s) + mset (ps_dropped s)"
      using assms(2) L_push Cons by (auto simp: pool_inv_def)
    from push_accounted [OF a(1) p] a(2) show ?thesis by (simp add: pool_inv_def s' accounted_def ac_simps)
  qed
next
  case L_notify
  with assms show ?thesis by (auto simp: launch_threadtimer_executor_def pool_inv_def accounted_def)
next
  case L_count
  with assms show ?thesis by (auto simp: launch_threadtimer_executor_def pool_inv_def)
next
  case (L_wait c)
  with assms quietI [of s] show ?thesis
    by (auto simp: launch_threadtimer_executor_def pool_inv_def accounted_def split: if_splits)
next
  case L_reset
  with assms show ?thesis by (auto simp: launch_threadtimer_executor_def pool_inv_def threadpool_reset_status_def quiet_def)
qed

lemma sum_list_empties: "sum_list (replicate n ({#} :: 'a multiset)) = {#}"
  by (induction n) simp_all

lemma created_quiet: "threadpool_create n init_ok creates al = Inr (Some inst) \<Longrightarrow>
  quiet inst \<and> th_sched inst = 0 \<and> th_exec inst = 0 \<and> th_threads inst \<noteq> []"
  by (auto simp: threadpool_create_def Let_def threadpool_stop_and_destroy_def quiet_def running_def sum_list_empties
      split: prod.splits bool.splits if_splits)

lemma reach_pool_inv: "pool_reach s \<Longrightarrow> pool_inv s \<and> th_threads (ps_pool s) \<noteq> []"
proof (induction rule: pool_reach.induct)
  case (init s)
  then show ?case by (auto simp: pool_initial_def pool_inv_def dest!: created_quiet)
next
  case (step s s')
  from step.hyps(2) show ?case
  proof cases
    case (timer jobs malloc_ok)
    have "length (th_threads (ps_pool s')) = length (th_threads (ps_pool s))"
      using timer by (auto simp: launch_threadtimer_executor_def threadpool_notify_def threadpool_reset_status_def threadpool_add_worker_def
          split: launch_pc.splits option.splits list.splits if_splits)
    with step.IH timer_inv [OF timer] show ?thesis by auto
  next
    case (worker i)
    with step.IH worker_turn_inv [of s i] worker_fields(6) [of i s] show ?thesis by (metis length_0_conv)
  qed
qed

section \<open>Results\<close>

lemma quiet_no_run:
  assumes "quiet inst" "t \<in> set (th_threads inst)"
  shows "t \<noteq> T_run j"
proof -
  from assms(2) obtain i where "i < length (th_threads inst)" "th_threads inst ! i = t" by (auto simp: in_set_conv_nth)
  with job_running [of i inst] assms(1) show ?thesis by (auto simp: quiet_def)
qed

text \<open>C28: A round ends only when its work is done. When the timer leaves the loop that waits for the counters, every process it had
  pushed was executed exactly once, none is queued and no worker is executing one, in every interleaving of the timer with the workers; and
  every process of the task was either pushed or is one of those passed over because memory ran out.\<close>

theorem pool_round_complete:
  assumes "pool_reach s" "ps_pc s = L_reset"
  shows "mset (ps_done s) = mset (ps_pushed s) \<and> mset (ps_jobs s) = mset (ps_pushed s) + mset (ps_dropped s) \<and>
    th_list (ps_pool s) = [] \<and> (\<forall>t\<in>set (th_threads (ps_pool s)). \<forall>j. t \<noteq> T_run j)"
proof -
  have "accounted s" "quiet (ps_pool s)" "mset (ps_jobs s) = mset (ps_pushed s) + mset (ps_dropped s)"
    using reach_pool_inv [OF assms(1)] assms(2) by (simp_all add: pool_inv_def)
  with quiet_no_run [of "ps_pool s"] show ?thesis by (auto simp: accounted_def quiet_def)
qed

text \<open>Progress of the workers while the timer waits. In \<open>ready_turns\<close> the workers with the given numbers take a turn one after the
  other, none of them while it waits for a signal: nothing depends on a wait that ends by itself.\<close>

fun ready_turns :: "nat list \<Rightarrow> 'j pool_sys \<Rightarrow> bool" where
  "ready_turns [] s = True"
| "ready_turns (i # is) s \<longleftrightarrow>
     i < length (th_threads (ps_pool s)) \<and> th_threads (ps_pool s) ! i \<noteq> T_blocked \<and> ready_turns is (worker_turn i s)"

lemma ready_turns_append: "ready_turns (xs @ ys) s \<longleftrightarrow> ready_turns xs s \<and> ready_turns ys (fold worker_turn xs s)"
  by (induction xs arbitrary: s) auto

lemma run_ends_job:
  "th_threads (ps_pool s) ! i = T_run j \<Longrightarrow> th_exec (ps_pool (worker_turn i s)) = th_exec (ps_pool s) + 1"
  by (simp add: worker_turn_def threadpool_routine_def)

lemma idle_takes_job:
  assumes "0 < length (th_threads (ps_pool s))" "th_threads (ps_pool s) ! 0 = T_top" "th_sched (ps_pool s) \<noteq> 0" "th_list (ps_pool s) \<noteq> []"
  shows "th_exec (ps_pool (worker_turn 0 (worker_turn 0 s))) = th_exec (ps_pool s) + 1 \<and> ready_turns [0, 0] s"
  using assms by (cases "th_list (ps_pool s)") (auto simp: worker_turn_def threadpool_routine_def)

lemma sleeper_takes_job:
  assumes "0 < length (th_threads (ps_pool s))" "th_threads (ps_pool s) ! 0 = T_sleep" "th_sched (ps_pool s) \<noteq> 0" "th_list (ps_pool s) \<noteq> []"
  shows "th_exec (ps_pool (worker_turn 0 (worker_turn 0 (worker_turn 0 s)))) = th_exec (ps_pool s) + 1 \<and> ready_turns [0, 0, 0] s"
proof -
  have "th_threads (ps_pool (worker_turn 0 s)) ! 0 = T_top" "th_list (ps_pool (worker_turn 0 s)) = th_list (ps_pool s)"
    "th_exec (ps_pool (worker_turn 0 s)) = th_exec (ps_pool s)"
    using assms by (simp_all add: worker_turn_def threadpool_routine_def)
  with idle_takes_job [of "worker_turn 0 s"] assms show ?thesis by simp
qed

lemma no_job_running: "\<forall>t\<in>set ts. \<forall>j. t \<noteq> T_run j \<Longrightarrow> sum_list (map job_of ts) = {#}"
  by (induction ts) (auto simp: job_of_def split: thread_state.splits)

lemma job_progress:
  assumes inv: "pool_inv s" and w: "ps_pc s = L_wait c" and t: "th_threads (ps_pool s) \<noteq> []" and e: "th_exec (ps_pool s) \<noteq> c"
  shows "\<exists>is. is \<noteq> [] \<and> length is \<le> 3 \<and> ready_turns is s \<and>
    th_exec (ps_pool (fold worker_turn is s)) = th_exec (ps_pool s) + 1"
proof (cases "\<exists>i j. i < length (th_threads (ps_pool s)) \<and> th_threads (ps_pool s) ! i = T_run j")
  case True
  then obtain i j where "i < length (th_threads (ps_pool s))" "th_threads (ps_pool s) ! i = T_run j" by blast
  then show ?thesis by (intro exI [of _ "[i]"]) (simp add: run_ends_job)
next
  case False
  have a: "accounted s" "c = th_sched (ps_pool s)" "th_sched (ps_pool s) \<noteq> 0 \<longrightarrow> none_blocked (ps_pool s)"
    using inv w by (simp_all add: pool_inv_def)
  have "running (ps_pool s) = {#}"
    using False unfolding running_def by (intro no_job_running) (auto simp: in_set_conv_nth)
  with a(1,2) e have sched: "th_sched (ps_pool s) \<noteq> 0" and l: "th_list (ps_pool s) \<noteq> []"
    by (auto simp: accounted_def) (metis mset_eq_length)+
  have n0: "0 < length (th_threads (ps_pool s))" using t by simp
  have "th_threads (ps_pool s) ! 0 \<noteq> T_blocked" using a(3) sched nth_mem [OF n0] by (auto simp: none_blocked_def)
  with False n0 consider "th_threads (ps_pool s) ! 0 = T_top" | "th_threads (ps_pool s) ! 0 = T_sleep"
    by (cases "th_threads (ps_pool s) ! 0") auto
  then show ?thesis
  proof cases
    case 1
    with idle_takes_job [OF n0 _ sched l] n0 show ?thesis by (intro exI [of _ "[0, 0]"]) simp
  next
    case 2
    with sleeper_takes_job [OF n0 _ sched l] n0 show ?thesis by (intro exI [of _ "[0, 0, 0]"]) simp
  qed
qed

lemma turns_inv:
  "ready_turns is s \<Longrightarrow> pool_inv s \<Longrightarrow>
   pool_inv (fold worker_turn is s) \<and> ps_pc (fold worker_turn is s) = ps_pc s \<and>
   length (th_threads (ps_pool (fold worker_turn is s))) = length (th_threads (ps_pool s))"
proof (induction "is" arbitrary: s)
  case (Cons i "is")
  with Cons.IH [of "worker_turn i s"] show ?case by (simp add: worker_turn_inv)
qed simp

lemma waiting_ends:
  "pool_inv s \<Longrightarrow> ps_pc s = L_wait c \<Longrightarrow> th_threads (ps_pool s) \<noteq> [] \<Longrightarrow>
   \<exists>is. length is \<le> 3 * nat (c - th_exec (ps_pool s)) \<and> ready_turns is s \<and>
     th_exec (ps_pool (fold worker_turn is s)) = c"
proof (induction "nat (c - th_exec (ps_pool s))" arbitrary: s rule: less_induct)
  case less
  show ?case
  proof (cases "th_exec (ps_pool s) = c")
    case True
    then show ?thesis by (intro exI [of _ "[]"]) simp
  next
    case False
    have "accounted s" "c = th_sched (ps_pool s)" using less.prems(1,2) by (simp_all add: pool_inv_def)
    moreover from this(1) have "length (ps_done s) \<le> length (ps_pushed s)"
      unfolding accounted_def by (metis le_add2 size_mset size_union)
    ultimately have lt: "th_exec (ps_pool s) < c" using False by (simp add: accounted_def)
    from job_progress [OF less.prems(1,2,3) False] obtain xs where xs: "length xs \<le> 3"
      "ready_turns xs s" "th_exec (ps_pool (fold worker_turn xs s)) = th_exec (ps_pool s) + 1" by blast
    let ?s = "fold worker_turn xs s"
    note t = turns_inv [OF xs(2) less.prems(1)]
    have "nat (c - th_exec (ps_pool ?s)) < nat (c - th_exec (ps_pool s))" using lt xs(3) by simp
    moreover have "th_threads (ps_pool ?s) \<noteq> []" using t less.prems(3) by (metis length_0_conv)
    ultimately obtain ys where ys: "length ys \<le> 3 * nat (c - th_exec (ps_pool ?s))"
      "ready_turns ys ?s" "th_exec (ps_pool (fold worker_turn ys ?s)) = c"
      using less.hyps [of ?s] t less.prems(2) by auto
    with xs lt show ?thesis by (intro exI [of _ "xs @ ys"]) (auto simp: ready_turns_append)
  qed
qed

text \<open>C29: A round can always end. Whatever the workers have done so far, a timer that waits in a round with \<open>n\<close> jobs outstanding is let go
  after at most \<open>3 * n\<close> turns of workers that are not waiting for a signal: no worker misses the wake-up, and none stays blocked while jobs are queued.\<close>

theorem pool_round_ends:
  assumes "pool_reach s" "ps_pc s = L_wait c"
  shows "\<exists>is. length is \<le> 3 * nat (c - th_exec (ps_pool s)) \<and> ready_turns is s \<and>
    th_exec (ps_pool (fold worker_turn is s)) = c"
  using waiting_ends [of s c] reach_pool_inv [OF assms(1)] assms(2) by blast

text \<open>When a thread of the pool cannot be created, the number of threads to cancel is read before it was ever written.\<close>

lemma threadpool_create_uninitialised:
  assumes "1 \<le> unat n" "\<not> creates i" "i < unat n"
  shows "threadpool_create n True creates [] = Inl Uninitialised"
  using assms by (auto simp: threadpool_create_def Let_def threadpool_stop_and_destroy_def)

section \<open>A round with two processes\<close>

text \<open>A pool of one thread with the timer at the given place, the jobs 1 and 2 of which some are queued and done.\<close>

definition two_jobs :: "nat launch_pc \<Rightarrow> nat list \<Rightarrow> nat thread_state \<Rightarrow> nat list \<Rightarrow> nat list \<Rightarrow> nat pool_sys" where
  "two_jobs pc queue t pushed ended = \<lparr>ps_pool = \<lparr>th_cap = Some 1, th_sched = int (length pushed), th_exec = int (length ended),
     th_list = queue, th_threads = [t]\<rparr>, ps_pc = pc, ps_jobs = [1, 2], ps_pushed = pushed, ps_dropped = [], ps_done = ended\<rparr>"

lemma reach_timer: "pool_reach s \<Longrightarrow> launch_threadtimer_executor jobs malloc_ok s = Inr s' \<Longrightarrow> pool_reach s'"
  by (blast intro: pool_reach.step pool_step.timer)

lemma reach_worker: "pool_reach s \<Longrightarrow> i < length (th_threads (ps_pool s)) \<Longrightarrow> pool_reach (worker_turn i s)"
  by (blast intro: pool_reach.step pool_step.worker)

lemma two_jobs_waiting: "pool_reach (two_jobs (L_wait 2) [2, 1] T_top [1, 2] [])"
proof -
  let ?s = "(two_jobs L_idle [] T_top [] [])\<lparr>ps_jobs := []\<rparr>"
  have "threadpool_create 1 True (\<lambda>_. True) [] = Inr (Some (ps_pool ?s))" by (simp add: threadpool_create_def two_jobs_def)
  then have "pool_initial ?s" unfolding pool_initial_def by (auto simp: two_jobs_def)
  then have "pool_reach ?s" by (rule pool_reach.init)
  then have "pool_reach (two_jobs (L_push [1, 2]) [] T_top [] [])"
    by (rule reach_timer [where jobs = "Some [1, 2]"]) (simp add: launch_threadtimer_executor_def two_jobs_def)
  then have "pool_reach (two_jobs (L_push [2]) [1] T_top [1] [])"
    by (rule reach_timer [where malloc_ok = True]) (simp add: launch_threadtimer_executor_def two_jobs_def threadpool_add_worker_def)
  then have "pool_reach (two_jobs (L_push []) [2, 1] T_top [1, 2] [])"
    by (rule reach_timer [where malloc_ok = True]) (simp add: launch_threadtimer_executor_def two_jobs_def threadpool_add_worker_def)
  then have "pool_reach (two_jobs L_notify [2, 1] T_top [1, 2] [])"
    by (rule reach_timer) (simp add: launch_threadtimer_executor_def two_jobs_def)
  then have "pool_reach (two_jobs L_count [2, 1] T_top [1, 2] [])"
    by (rule reach_timer) (simp add: launch_threadtimer_executor_def two_jobs_def threadpool_notify_def wake_def)
  then show ?thesis
    by (rule reach_timer) (simp add: launch_threadtimer_executor_def two_jobs_def)
qed

lemma two_jobs_turns:
  "worker_turn 0 (two_jobs (L_wait 2) (j # q) T_top [1, 2] d) = two_jobs (L_wait 2) q (T_run j) [1, 2] d"
  "worker_turn 0 (two_jobs (L_wait 2) q (T_run j) [1, 2] d) = two_jobs (L_wait 2) q T_top [1, 2] (d @ [j])"
  by (simp_all add: worker_turn_def threadpool_routine_def two_jobs_def)

lemma two_jobs_done: "pool_reach (two_jobs L_reset [] T_top [1, 2] [2, 1])"
proof -
  note turn = reach_worker [where i = 0]
  have len: "0 < length (th_threads (ps_pool (two_jobs pc q t p d)))" for pc q t p d by (simp add: two_jobs_def)
  from turn [OF two_jobs_waiting len] have "pool_reach (two_jobs (L_wait 2) [1] (T_run 2) [1, 2] [])" by (simp only: two_jobs_turns)
  from turn [OF this len] have "pool_reach (two_jobs (L_wait 2) [1] T_top [1, 2] [2])" by (simp only: two_jobs_turns append_Nil)
  from turn [OF this len] have "pool_reach (two_jobs (L_wait 2) [] (T_run 1) [1, 2] [2])" by (simp only: two_jobs_turns)
  from turn [OF this len] have "pool_reach (two_jobs (L_wait 2) [] T_top [1, 2] [2, 1])"
    by (simp only: two_jobs_turns append_Cons append_Nil)
  then show ?thesis by (rule reach_timer) (simp add: launch_threadtimer_executor_def two_jobs_def)
qed

lemma pool_round_complete_witness: "mset (ps_done (two_jobs L_reset [] T_top [1, 2] [2, 1])) = mset [1, 2]"
proof -
  have "ps_pc (two_jobs L_reset [] T_top [1, 2] [2, 1]) = L_reset" by (simp add: two_jobs_def)
  from pool_round_complete [OF two_jobs_done this] show ?thesis by (simp add: two_jobs_def)
qed

lemma pool_round_ends_witness:
  "\<exists>is. length is \<le> 6 \<and> th_exec (ps_pool (fold worker_turn is (two_jobs (L_wait 2) [2, 1] T_top [1, 2] []))) = 2"
proof -
  have "ps_pc (two_jobs (L_wait 2) [2, 1] T_top [1, 2] []) = L_wait 2" by (simp add: two_jobs_def)
  from pool_round_ends [OF two_jobs_waiting this] show ?thesis by (auto simp: two_jobs_def)
qed

end
