(* ===== verification/Damon.thy ===== *)
theory Damon
  imports Project "HOL-Library.Sublist"
begin

text \<open>
  The damon engine (\<open>etmemd_damon.c\<close>): a project with a region scan is run by the kernel, which is told the processes, the attributes of
  the monitoring and the scheme through files of the debug file system, and is then switched on. The file system, \<open>access\<close>, \<open>fopen\<close> and
  \<open>fwrite\<close> are parameters; the writes that were accepted are collected in the order in which they were made.

  The main result follows a configuration into the kernel: a start that reports success has written the process of every task and the
  configured numbers, each readable from its text, and has switched the monitoring on after everything else; a start that reports a failure has
  not switched it on.
\<close>

section \<open>State\<close>

datatype damos_action = DAMOS_WILLNEED | DAMOS_COLD | DAMOS_PAGEOUT | DAMOS_HUGEPAGE | DAMOS_NOHUGEPAGE | DAMOS_STAT

definition action_nr :: "damos_action \<Rightarrow> nat" where
  "action_nr a = (case a of DAMOS_WILLNEED \<Rightarrow> 0 | DAMOS_COLD \<Rightarrow> 1 | DAMOS_PAGEOUT \<Rightarrow> 2 | DAMOS_HUGEPAGE \<Rightarrow> 3
     | DAMOS_NOHUGEPAGE \<Rightarrow> 4 | DAMOS_STAT \<Rightarrow> 5)"

record damon_eng_params =
  min_sz_region :: u64
  max_sz_region :: u64
  min_nr_accesses :: u32
  max_nr_accesses :: u32
  min_age_region :: u32
  max_age_region :: u32
  dm_action :: damos_action

text \<open>A process of a damon task has no parameters. \<open>de_fwrite file text\<close> is the number of bytes \<open>fwrite\<close> returns, \<open>de_cat_left\<close> what a
  \<open>strcat_s\<close> that fails leaves in its destination.\<close>

type_synonym 'p damon_project = "(unit, 'p, damon_eng_params) project"

record damon_env =
  de_sec :: securec
  de_pgrep :: pgrep
  de_access :: "string \<Rightarrow> bool"
  de_open :: "string \<Rightarrow> bool"
  de_fwrite :: "string \<Rightarrow> string \<Rightarrow> nat"
  de_cat_left :: "string \<Rightarrow> string"

type_synonym damon_writes = "(string \<times> string) list"

abbreviation (input) KERNEL_DAMON_PATH :: string where "KERNEL_DAMON_PATH \<equiv> ''/sys/kernel/debug/damon/''"
abbreviation (input) INT_MAX_LEN :: nat where "INT_MAX_LEN \<equiv> 10"
abbreviation (input) NUM_OF_ATTRS :: nat where "NUM_OF_ATTRS \<equiv> 5"
abbreviation (input) NUM_OF_SCHEMES :: nat where "NUM_OF_SCHEMES \<equiv> 7"

definition check_damon_exist :: "damon_env \<Rightarrow> bool" where
  "check_damon_exist E = de_access E KERNEL_DAMON_PATH"

text \<open>The name of the file that was opened.\<close>

definition get_damon_file :: "damon_env \<Rightarrow> string \<Rightarrow> alloc \<Rightarrow> string option \<times> alloc" where
  "get_damon_file E file al =
     (let file_str_size = length KERNEL_DAMON_PATH + length file + 1 in
      case c_alloc al of
        (False, al') \<Rightarrow> (None, al')
      | (True, al') \<Rightarrow>
          (case sec_snprintf_s (de_sec E) file_str_size (file_str_size - 1) (KERNEL_DAMON_PATH @ file) of
             None \<Rightarrow> (None, al')
           | Some file_name \<Rightarrow> (if de_open E file_name then Some file_name else None, al')))"

text \<open>The end of each of the functions below: the text and its NUL are written with one call.\<close>

definition damon_put :: "damon_env \<Rightarrow> string \<Rightarrow> string \<Rightarrow> int \<times> damon_writes" where
  "damon_put E file s = (if de_fwrite E file (s @ [c_nul]) \<noteq> length s + 1 then (-1, []) else (0, [(file, s @ [c_nul])]))"

section \<open>The processes\<close>

definition is_engs_valid :: "'p damon_project \<Rightarrow> bool" where
  "is_engs_valid proj = list_all (\<lambda>eng. en_name eng = ''damon'') (pj_engs proj)"

fun get_damon_pids_val_and_num ::
  "damon_env \<Rightarrow> (unit, 'p) task list \<Rightarrow> nat \<Rightarrow> alloc \<Rightarrow> (int \<times> nat \<times> (unit, 'p) task list \<times> alloc) c_res" where
  "get_damon_pids_val_and_num E [] nr_tasks al = Inr (0, nr_tasks, [], al)"
| "get_damon_pids_val_and_num E (tk # tks) nr_tasks al =
     c_bind (etmemd_get_task_pids (de_sec E) (de_pgrep E) (de_access E) (\<lambda>pid al. (Some (), al)) tk False al) (\<lambda>(ret, tk', freed, al').
       if ret \<noteq> 0 then Inr (-1, 0, tk' # tks, al')
       else c_bind (get_damon_pids_val_and_num E tks (Suc nr_tasks) al') (\<lambda>(ret', nr, tks', al'').
         Inr (ret', nr, tk' # tks', al'')))"

text \<open>Only the first process of a task is used. \<open>pids_size\<close> is the size of the buffer.\<close>

fun pids_str_loop :: "damon_env \<Rightarrow> nat \<Rightarrow> (unit, 'p) task list \<Rightarrow> string \<Rightarrow> string c_res" where
  "pids_str_loop E pids_size [] pids = Inr pids"
| "pids_str_loop E pids_size (tk # tks) pids =
     (case tk_pids tk of
        [] \<Rightarrow> Inl Null_deref
      | p # _ \<Rightarrow>
          (case sec_snprintf_s (de_sec E) (PID_STR_MAX_LEN + 2) (PID_STR_MAX_LEN + 1) (nat_to_base 10 (unat (tp_pid p)) @ '' '') of
             None \<Rightarrow> pids_str_loop E pids_size tks pids
           | Some tmp_pid \<Rightarrow>
               pids_str_loop E pids_size tks
                 (case sec_strcat_s (de_sec E) pids_size pids tmp_pid of None \<Rightarrow> de_cat_left E pids | Some s \<Rightarrow> s)))"

definition get_damon_pids_str :: "damon_env \<Rightarrow> (unit, 'p) task list \<Rightarrow> nat \<Rightarrow> alloc \<Rightarrow> (string option \<times> alloc) c_res" where
  "get_damon_pids_str E tks nr_tasks al =
     (case c_alloc al of
        (False, al') \<Rightarrow> Inr (None, al')
      | (True, al') \<Rightarrow> c_bind (pids_str_loop E ((PID_STR_MAX_LEN + 1) * nr_tasks + 1) tks []) (\<lambda>s. Inr (Some s, al')))"

definition set_damon_target_ids ::
  "damon_env \<Rightarrow> 'p damon_project \<Rightarrow> alloc \<Rightarrow> (int \<times> 'p damon_project \<times> damon_writes \<times> alloc) c_res" where
  "set_damon_target_ids E proj al =
     (case pj_engs proj of
        [] \<Rightarrow> Inl Null_deref
      | eng # engs \<Rightarrow>
          if \<not> is_engs_valid proj then Inr (-1, proj, [], al)
          else (case get_damon_file E ''target_ids'' al of
            (None, al1) \<Rightarrow> Inr (-1, proj, [], al1)
          | (Some fp, al1) \<Rightarrow>
              c_bind (get_damon_pids_val_and_num E (en_tasks eng) 0 al1) (\<lambda>(ret, nr_tasks, tks, al2).
                let proj' = proj\<lparr>pj_engs := eng\<lparr>en_tasks := tks\<rparr> # engs\<rparr> in
                if ret \<noteq> 0 then Inr (-1, proj', [], al2)
                else c_bind (get_damon_pids_str E tks nr_tasks al2) (\<lambda>(s, al3).
                  case s of
                    None \<Rightarrow> Inr (-1, proj', [], al3)
                  | Some pids_str \<Rightarrow>
                      if length pids_str = 0 then Inr (-1, proj', [], al3)
                      else (case damon_put E fp pids_str of (r, w) \<Rightarrow> Inr (r, proj', w, al3))))))"

section \<open>Attributes and scheme\<close>

text \<open>Numbers separated by blanks, as the format strings have them.\<close>

fun blank_joined :: "nat list \<Rightarrow> string" where
  "blank_joined [] = []"
| "blank_joined [n] = nat_to_base 10 n"
| "blank_joined (n # ns) = nat_to_base 10 n @ '' '' @ blank_joined ns"

definition attr_values :: "region_scan \<Rightarrow> nat list" where
  "attr_values rs = [unat (sample_interval rs), unat (aggr_interval rs), unat (update_interval rs), unat (min_nr_regions rs),
     unat (max_nr_regions rs)]"

definition scheme_values :: "damon_eng_params \<Rightarrow> nat list" where
  "scheme_values p = [unat (min_sz_region p), unat (max_sz_region p), unat (min_nr_accesses p), unat (max_nr_accesses p),
     unat (min_age_region p), unat (max_age_region p), action_nr (dm_action p)]"

text \<open>The parameters of a page scan are a smaller structure than those of a region scan.\<close>

definition get_damon_attrs_str :: "damon_env \<Rightarrow> 'p damon_project \<Rightarrow> alloc \<Rightarrow> (string option \<times> alloc) c_res" where
  "get_damon_attrs_str E proj al =
     (let attrs_size = (INT_MAX_LEN + 1) * NUM_OF_ATTRS in
      case c_alloc al of
        (False, al') \<Rightarrow> Inr (None, al')
      | (True, al') \<Rightarrow>
          (case pj_scan proj of
             None \<Rightarrow> Inl Null_deref
           | Some (Page_param _) \<Rightarrow> Inl Out_of_bounds
           | Some (Region_param reg_scan) \<Rightarrow>
               Inr (sec_snprintf_s (de_sec E) attrs_size (attrs_size - 1) (blank_joined (attr_values reg_scan)), al')))"

definition set_damon_attrs :: "damon_env \<Rightarrow> 'p damon_project \<Rightarrow> alloc \<Rightarrow> (int \<times> damon_writes \<times> alloc) c_res" where
  "set_damon_attrs E proj al =
     (case get_damon_file E ''attrs'' al of
        (None, al1) \<Rightarrow> Inr (-1, [], al1)
      | (Some fp, al1) \<Rightarrow>
          c_bind (get_damon_attrs_str E proj al1) (\<lambda>(s, al2).
            case s of
              None \<Rightarrow> Inr (-1, [], al2)
            | Some attrs_str \<Rightarrow> (case damon_put E fp attrs_str of (r, w) \<Rightarrow> Inr (r, w, al2))))"

definition get_damon_schemes_str :: "damon_env \<Rightarrow> 'p damon_project \<Rightarrow> alloc \<Rightarrow> (string option \<times> alloc) c_res" where
  "get_damon_schemes_str E proj al =
     (let schemes_size = (INT_MAX_LEN + 1) * NUM_OF_SCHEMES in
      case pj_engs proj of
        [] \<Rightarrow> Inl Null_deref
      | eng # _ \<Rightarrow>
          (case c_alloc al of
             (False, al') \<Rightarrow> Inr (None, al')
           | (True, al') \<Rightarrow>
               (case en_params eng of
                  None \<Rightarrow> Inl Null_deref
                | Some params \<Rightarrow>
                    Inr (sec_snprintf_s (de_sec E) schemes_size (schemes_size - 1) (blank_joined (scheme_values params)), al'))))"

definition set_damon_schemes :: "damon_env \<Rightarrow> 'p damon_project \<Rightarrow> alloc \<Rightarrow> (int \<times> damon_writes \<times> alloc) c_res" where
  "set_damon_schemes E proj al =
     (case get_damon_file E ''schemes'' al of
        (None, al1) \<Rightarrow> Inr (-1, [], al1)
      | (Some fp, al1) \<Rightarrow>
          c_bind (get_damon_schemes_str E proj al1) (\<lambda>(s, al2).
            case s of
              None \<Rightarrow> Inr (-1, [], al2)
            | Some schemes_str \<Rightarrow> (case damon_put E fp schemes_str of (r, w) \<Rightarrow> Inr (r, w, al2))))"

section \<open>Start and stop\<close>

definition get_damon_monitor_on_str :: "damon_env \<Rightarrow> bool \<Rightarrow> alloc \<Rightarrow> string option \<times> alloc" where
  "get_damon_monitor_on_str E on al =
     (let switch_size = (if on then 2 + 1 else 3 + 1) in
      case c_alloc al of
        (False, al') \<Rightarrow> (None, al')
      | (True, al') \<Rightarrow> (sec_snprintf_s (de_sec E) switch_size (switch_size - 1) (if on then ''on'' else ''off''), al'))"

definition set_damon_monitor_on :: "damon_env \<Rightarrow> bool \<Rightarrow> alloc \<Rightarrow> int \<times> damon_writes \<times> alloc" where
  "set_damon_monitor_on E on al =
     (case get_damon_file E ''monitor_on'' al of
        (None, al1) \<Rightarrow> (-1, [], al1)
      | (Some fp, al1) \<Rightarrow>
          (case get_damon_monitor_on_str E on al1 of
             (None, al2) \<Rightarrow> (-1, [], al2)
           | (Some switch_str, al2) \<Rightarrow> (case damon_put E fp switch_str of (r, w) \<Rightarrow> (r, w, al2))))"

definition etmemd_start_damon ::
  "damon_env \<Rightarrow> 'p damon_project \<Rightarrow> alloc \<Rightarrow> (int \<times> 'p damon_project \<times> damon_writes) c_res" where
  "etmemd_start_damon E proj al =
     (if \<not> check_damon_exist E then Inr (-1, proj, [])
      else c_bind (set_damon_target_ids E proj al) (\<lambda>(r1, proj', w1, al1).
        if r1 \<noteq> 0 then Inr (-1, proj', w1)
        else c_bind (set_damon_attrs E proj' al1) (\<lambda>(r2, w2, al2).
          if r2 \<noteq> 0 then Inr (-1, proj', w1 @ w2)
          else c_bind (set_damon_schemes E proj' al2) (\<lambda>(r3, w3, al3).
            if r3 \<noteq> 0 then Inr (-1, proj', w1 @ w2 @ w3)
            else (case set_damon_monitor_on E True al3 of
              (r4, w4, _) \<Rightarrow> Inr (if r4 \<noteq> 0 then -1 else 0, proj', w1 @ w2 @ w3 @ w4))))))"

definition etmemd_stop_damon :: "damon_env \<Rightarrow> alloc \<Rightarrow> int \<times> damon_writes" where
  "etmemd_stop_damon E al =
     (if \<not> check_damon_exist E then (-1, [])
      else (case set_damon_monitor_on E False al of (r, w, _) \<Rightarrow> (if r \<noteq> 0 then -1 else 0, w)))"

section \<open>Configuration\<close>

definition parse_to_uint :: "cfg_val \<Rightarrow> u32" where
  "parse_to_uint v = (case v of IntV i \<Rightarrow> word_of_int i | StrV s \<Rightarrow> 0)"

definition fill_min_size :: "damon_eng_params \<Rightarrow> cfg_val \<Rightarrow> int \<times> damon_eng_params" where
  "fill_min_size params v = (0, params\<lparr>min_sz_region := parse_to_ulong v\<rparr>)"

definition fill_max_size :: "damon_eng_params \<Rightarrow> cfg_val \<Rightarrow> int \<times> damon_eng_params" where
  "fill_max_size params v = (0, params\<lparr>max_sz_region := parse_to_ulong v\<rparr>)"

definition fill_min_acc :: "damon_eng_params \<Rightarrow> cfg_val \<Rightarrow> int \<times> damon_eng_params" where
  "fill_min_acc params v = (0, params\<lparr>min_nr_accesses := parse_to_uint v\<rparr>)"

definition fill_max_acc :: "damon_eng_params \<Rightarrow> cfg_val \<Rightarrow> int \<times> damon_eng_params" where
  "fill_max_acc params v = (0, params\<lparr>max_nr_accesses := parse_to_uint v\<rparr>)"

definition fill_min_age :: "damon_eng_params \<Rightarrow> cfg_val \<Rightarrow> int \<times> damon_eng_params" where
  "fill_min_age params v = (0, params\<lparr>min_age_region := parse_to_uint v\<rparr>)"

definition fill_max_age :: "damon_eng_params \<Rightarrow> cfg_val \<Rightarrow> int \<times> damon_eng_params" where
  "fill_max_age params v = (0, params\<lparr>max_age_region := parse_to_uint v\<rparr>)"

definition damon_action_items :: "(string \<times> damos_action) list" where
  "damon_action_items = [(''willneed'', DAMOS_WILLNEED), (''cold'', DAMOS_COLD), (''pageout'', DAMOS_PAGEOUT),
     (''hugepage'', DAMOS_HUGEPAGE), (''nohugepage'', DAMOS_NOHUGEPAGE), (''stat'', DAMOS_STAT)]"

definition fill_action :: "damon_eng_params \<Rightarrow> cfg_val \<Rightarrow> int \<times> damon_eng_params" where
  "fill_action params v =
     (case map_of damon_action_items (val_str v) of None \<Rightarrow> (-1, params) | Some a \<Rightarrow> (0, params\<lparr>dm_action := a\<rparr>))"

definition damon_eng_config_items :: "damon_eng_params config_item list" where
  "damon_eng_config_items =
     [\<lparr>ci_key = ''min_size'', ci_type = INT_VAL, ci_fill = fill_min_size, ci_option = False\<rparr>,
      \<lparr>ci_key = ''max_size'', ci_type = INT_VAL, ci_fill = fill_max_size, ci_option = False\<rparr>,
      \<lparr>ci_key = ''min_acc'', ci_type = INT_VAL, ci_fill = fill_min_acc, ci_option = False\<rparr>,
      \<lparr>ci_key = ''max_acc'', ci_type = INT_VAL, ci_fill = fill_max_acc, ci_option = False\<rparr>,
      \<lparr>ci_key = ''min_age'', ci_type = INT_VAL, ci_fill = fill_min_age, ci_option = False\<rparr>,
      \<lparr>ci_key = ''max_age'', ci_type = INT_VAL, ci_fill = fill_max_age, ci_option = False\<rparr>,
      \<lparr>ci_key = ''action'', ci_type = STR_VAL, ci_fill = fill_action, ci_option = False\<rparr>]"

definition zero_damon_params :: damon_eng_params where
  "zero_damon_params = \<lparr>min_sz_region = 0, max_sz_region = 0, min_nr_accesses = 0, max_nr_accesses = 0, min_age_region = 0,
     max_age_region = 0, dm_action = DAMOS_WILLNEED\<rparr>"

definition damon_fill_eng ::
  "alloc \<Rightarrow> key_file \<Rightarrow> (unit, 'p, damon_eng_params) engine \<Rightarrow> int \<times> (unit, 'p, damon_eng_params) engine" where
  "damon_fill_eng al config eng =
     (if \<not> fst (c_alloc al) then (-1, eng)
      else case parse_file_config config ''engine'' damon_eng_config_items zero_damon_params of
        (ret, params) \<Rightarrow> if ret \<noteq> 0 then (-1, eng) else (0, eng\<lparr>en_params := Some params\<rparr>))"

definition damon_clear_eng :: "(unit, 'p, damon_eng_params) engine \<Rightarrow> (unit, 'p, damon_eng_params) engine" where
  "damon_clear_eng eng = eng\<lparr>en_params := None\<rparr>"

definition g_damon_eng_ops :: "alloc \<Rightarrow> (unit, 'p, damon_eng_params) engine_ops" where
  "g_damon_eng_ops al =
     \<lparr>op_fill_eng_params = Some (damon_fill_eng al), op_fill_task_params = None, op_clear_task_params = None,
      op_start_task = None, op_stop_task = None, op_eng_mgt_func = None\<rparr>"

interpretation damon_ops: engine_contract "\<lambda>eng. g_damon_eng_ops al" for al
  by unfold_locales (auto simp: g_damon_eng_ops_def damon_fill_eng_def split: prod.splits if_splits)

section \<open>Texts\<close>

text \<open>The numbers the kernel reads from a text: the decimal words before the NUL.\<close>

fun split_blanks :: "string \<Rightarrow> string list" where
  "split_blanks [] = [[]]"
| "split_blanks (c # cs) =
     (if c = CHR '' '' then [] # split_blanks cs else (c # hd (split_blanks cs)) # tl (split_blanks cs))"

definition damon_numbers :: "string \<Rightarrow> nat list" where
  "damon_numbers s = map (digits_value 10 0) (filter (\<lambda>w. w \<noteq> []) (split_blanks (takeWhile (\<lambda>c. c \<noteq> c_nul) s)))"

lemma split_blanks_word: "CHR '' '' \<notin> set w \<Longrightarrow> split_blanks (w @ CHR '' '' # r) = w # split_blanks r"
  by (induction w) auto

lemma split_blanks_last: "CHR '' '' \<notin> set w \<Longrightarrow> split_blanks w = [w]"
  by (induction w) auto

lemma decimal_chars: "CHR '' '' \<notin> set (nat_to_base 10 n)" "c_nul \<notin> set (nat_to_base 10 n)"
  using nat_to_base_decimal [of n] by (auto simp: list_all_iff c_isdigit_def)

lemma before_nul: "c_nul \<notin> set s \<Longrightarrow> takeWhile (\<lambda>c. c \<noteq> c_nul) (s @ [c_nul]) = s"
  by (induction s) auto

lemma blank_joined_no_nul: "c_nul \<notin> set (blank_joined ns)"
  by (induction ns rule: blank_joined.induct) (auto simp: decimal_chars)

lemma damon_numbers_joined: "damon_numbers (blank_joined ns @ [c_nul]) = ns"
proof -
  have "map (digits_value 10 0) (filter (\<lambda>w. w \<noteq> []) (split_blanks (blank_joined ns))) = ns"
    by (induction ns rule: blank_joined.induct)
      (simp_all add: split_blanks_last split_blanks_word decimal_chars nat_to_base_nonempty nat_to_base_value)
  then show ?thesis by (simp add: damon_numbers_def before_nul blank_joined_no_nul)
qed

definition pid_text :: "(unit, 'p) task \<Rightarrow> string" where
  "pid_text tk = nat_to_base 10 (unat (tp_pid (hd (tk_pids tk)))) @ '' ''"

lemma pid_text_length: "0 < length (pid_text tk) \<and> length (pid_text tk) \<le> 11"
proof -
  have "unat (tp_pid (hd (tk_pids tk))) < 2 ^ 32" using unsigned_less [of "tp_pid (hd (tk_pids tk))", where 'a = nat] by simp
  then have "length (nat_to_base 10 (unat (tp_pid (hd (tk_pids tk))))) \<le> 10" by (intro nat_to_base_length) auto
  then show ?thesis by (simp add: pid_text_def)
qed

lemma damon_numbers_pids:
  "damon_numbers (concat (map pid_text tks) @ [c_nul]) = map (\<lambda>tk. unat (tp_pid (hd (tk_pids tk)))) tks"
proof -
  have "c_nul \<notin> set (concat (map pid_text tks))" by (auto simp: pid_text_def decimal_chars)
  note nul = before_nul [OF this]
  have "map (digits_value 10 0) (filter (\<lambda>w. w \<noteq> []) (split_blanks (concat (map pid_text tks)))) =
      map (\<lambda>tk. unat (tp_pid (hd (tk_pids tk)))) tks"
    by (induction tks) (simp_all add: pid_text_def split_blanks_word decimal_chars nat_to_base_nonempty nat_to_base_value)
  then show ?thesis by (simp only: damon_numbers_def nul)
qed

lemma blank_joined_length:
  "(\<forall>n\<in>set ns. length (nat_to_base 10 n) \<le> k) \<Longrightarrow> length (blank_joined ns) \<le> (k + 1) * length ns - 1"
  by (induction ns rule: blank_joined.induct) auto

section \<open>The processes that are written\<close>

text \<open>A task after its process was looked up.\<close>

definition looked_up :: "(unit, 'p) task \<Rightarrow> (unit, 'p) task \<Rightarrow> bool" where
  "looked_up tk tk' \<longleftrightarrow> tk_pids tk' \<noteq> [] \<and> tk' = tk\<lparr>tk_pids := tk_pids tk'\<rparr> \<and>
     (\<forall>v. tk_type tk = Some ''pid'' \<longrightarrow> tk_value tk = Some v \<longrightarrow> length v < PID_STR_MAX_LEN \<longrightarrow>
        get_unsigned_int_value v = Some (tp_pid (hd (tk_pids tk'))))"

lemma fill_task_pid_first:
  "fill_task_pid apid val pids freed al = (0, pids', freed', al') \<Longrightarrow>
   pids' \<noteq> [] \<and> get_unsigned_int_value val = Some (tp_pid (hd pids'))"
  by (auto simp: fill_task_pid_def alloc_tkpid_node_def split: option.splits if_splits prod.splits bool.splits)

lemma get_task_pids_looked_up:
  assumes S: "securec_ok S"
    and "etmemd_get_task_pids S pgrep access apid tk False al = Inr (0, tk', freed, al')"
  shows "looked_up tk tk'"
proof -
  obtain val where val: "get_pid_from_task_type S pgrep tk = Inr (Some val)"
    using assms(2) by (cases "get_pid_from_task_type S pgrep tk") (auto simp: etmemd_get_task_pids_def split: option.splits)
  then obtain pids al1 where "fill_task_pid apid val (tk_pids tk) [] al = (0, pids, freed, al1)" "tk' = tk\<lparr>tk_pids := pids\<rparr>"
    using assms(2) by (auto simp: etmemd_get_task_pids_def split: if_splits prod.splits)
  moreover have "val = v" if "tk_type tk = Some ''pid''" "tk_value tk = Some v" "length v < PID_STR_MAX_LEN" for v
    using val S that by (simp add: get_pid_from_task_type_def securec_ok_def)
  ultimately show ?thesis using fill_task_pid_first [of apid val "tk_pids tk" "[]" al pids freed al1] by (auto simp: looked_up_def)
qed

lemma pids_val_looked_up:
  "securec_ok (de_sec E) \<Longrightarrow> get_damon_pids_val_and_num E tks nr al = Inr (0, nr', tks', al') \<Longrightarrow>
   nr' = nr + length tks' \<and> list_all2 looked_up tks tks'"
proof (induction tks arbitrary: nr al tks')
  case (Cons tk tks)
  then show ?case by (fastforce simp: c_bind_Inr split: if_splits dest: get_task_pids_looked_up)
qed simp

lemma pids_str_loop_exact:
  assumes "securec_ok (de_sec E)"
  shows "list_all (\<lambda>tk. tk_pids tk \<noteq> []) tks \<Longrightarrow> length pids + 11 * length tks < m \<Longrightarrow>
    pids_str_loop E m tks pids = Inr (pids @ concat (map pid_text tks))"
proof (induction tks arbitrary: pids)
  case (Cons tk tks)
  then obtain p ps where p: "tk_pids tk = p # ps" by (cases "tk_pids tk") auto
  have l: "length (pid_text tk) \<le> 11" using pid_text_length [of tk] by simp
  have "sec_snprintf_s (de_sec E) 12 11 (pid_text tk) = Some (pid_text tk)" using assms l by (simp add: securec_ok_def)
  moreover have "sec_strcat_s (de_sec E) m pids (pid_text tk) = Some (pids @ pid_text tk)"
    using assms l Cons.prems(2) by (simp add: securec_ok_def)
  ultimately show ?case using Cons.IH [of "pids @ pid_text tk"] Cons.prems l p by (simp add: pid_text_def)
qed simp

section \<open>What each function writes\<close>

text \<open>\<open>snprintf_s\<close> also reports a text that is longer than it may be.\<close>

definition snprintf_rejects :: "securec \<Rightarrow> bool" where
  "snprintf_rejects S \<longleftrightarrow> (\<forall>m k s. k < length s \<longrightarrow> sec_snprintf_s S m k s = None)"

definition damon_sec :: "damon_env \<Rightarrow> bool" where
  "damon_sec E \<longleftrightarrow> securec_ok (de_sec E) \<and> snprintf_rejects (de_sec E)"

lemma snprintf_exact: "damon_sec E \<Longrightarrow> k < m \<Longrightarrow> sec_snprintf_s (de_sec E) m k s = (if length s \<le> k then Some s else None)"
  by (simp add: damon_sec_def securec_ok_def snprintf_rejects_def)

lemma get_damon_file_name: "damon_sec E \<Longrightarrow> get_damon_file E file al = (Some fp, al') \<Longrightarrow> fp = KERNEL_DAMON_PATH @ file"
  by (auto simp: get_damon_file_def snprintf_exact Let_def split: option.splits prod.splits bool.splits if_splits)

lemma damon_put_cases: "damon_put E fp s = (r, w) \<Longrightarrow> r = 0 \<and> w = [(fp, s @ [c_nul])] \<or> r = -1 \<and> w = []"
  by (auto simp: damon_put_def split: if_splits)

lemma target_ids_result:
  assumes E: "damon_sec E" and t: "set_damon_target_ids E proj al = Inr (r, proj', w, al')"
  shows "\<exists>eng engs tks. pj_engs proj = eng # engs \<and> proj' = proj\<lparr>pj_engs := eng\<lparr>en_tasks := tks\<rparr> # engs\<rparr> \<and>
    (r = 0 \<and> list_all2 looked_up (en_tasks eng) tks \<and>
       w = [(KERNEL_DAMON_PATH @ ''target_ids'', concat (map pid_text tks) @ [c_nul])] \<or> r = -1 \<and> w = [])"
proof -
  from t obtain eng engs where e: "pj_engs proj = eng # engs" by (cases "pj_engs proj") (auto simp: set_damon_target_ids_def)
  show ?thesis
  proof (cases "r = -1 \<and> w = [] \<and> proj' = proj")
    case True
    with e show ?thesis by (intro exI [of _ eng] exI [of _ engs] exI [of _ "en_tasks eng"]) simp
  next
    case False
    then obtain fp al1 ret nr tks al2 where
      v: "is_engs_valid proj" and fp: "get_damon_file E ''target_ids'' al = (Some fp, al1)"
      and p: "get_damon_pids_val_and_num E (en_tasks eng) 0 al1 = Inr (ret, nr, tks, al2)"
      using t e by (auto simp: set_damon_target_ids_def split: if_splits option.splits prod.splits)
    show ?thesis
    proof (cases "ret = 0")
      case True
      with p E have l: "nr = length tks" "list_all2 looked_up (en_tasks eng) tks"
        using pids_val_looked_up [of E "en_tasks eng" 0 al1 nr tks al2] by (auto simp: damon_sec_def)
      then have "list_all (\<lambda>tk. tk_pids tk \<noteq> []) tks"
        by (auto simp: list_all_iff looked_up_def list_all2_conv_all_nth in_set_conv_nth)
      then have s: "pids_str_loop E (11 * nr + 1) tks [] = Inr (concat (map pid_text tks))"
        using pids_str_loop_exact [of E tks "[]" "11 * nr + 1"] E l(1) by (simp add: damon_sec_def)
      obtain a al3 where al3: "c_alloc al2 = (a, al3)" by (cases "c_alloc al2")
      obtain r' w' where put: "damon_put E fp (concat (map pid_text tks)) = (r', w')" by (cases "damon_put E fp (concat (map pid_text tks))")
      from t e v fp p True s al3 put have "proj' = proj\<lparr>pj_engs := eng\<lparr>en_tasks := tks\<rparr> # engs\<rparr> \<and> (r = r' \<and> w = w' \<or> r = -1 \<and> w = [])"
        by (cases a) (simp_all add: set_damon_target_ids_def get_damon_pids_str_def Let_def split: if_splits)
      with e l(2) damon_put_cases [OF put] get_damon_file_name [OF E fp] show ?thesis by blast
    next
      case False
      with t e v fp p show ?thesis by (auto simp: set_damon_target_ids_def Let_def split: if_splits)
    qed
  qed
qed

text \<open>The common shape of the functions that write one text; \<open>g\<close> makes the text.\<close>

lemma put_text_result:
  assumes E: "damon_sec E"
    and t: "(case get_damon_file E file al of
        (None, al1) \<Rightarrow> Inr (-1, [], al1)
      | (Some fp, al1) \<Rightarrow> c_bind (g al1) (\<lambda>(s, al2).
          case s of None \<Rightarrow> Inr (-1, [], al2) | Some str \<Rightarrow> (case damon_put E fp str of (r, w) \<Rightarrow> Inr (r, w, al2)))) = Inr (r, w, al')"
  shows "r = 0 \<and> (\<exists>al1 s al2. g al1 = Inr (Some s, al2) \<and> w = [(KERNEL_DAMON_PATH @ file, s @ [c_nul])]) \<or> r = -1 \<and> w = []"
proof (cases "get_damon_file E file al")
  case (Pair f al1)
  show ?thesis
  proof (cases f)
    case (Some fp)
    with t Pair obtain s al2 where s: "g al1 = Inr (s, al2)" by auto
    show ?thesis
    proof (cases s)
      case (Some str)
      obtain r' w' where put: "damon_put E fp str = (r', w')" by (cases "damon_put E fp str")
      with t Pair \<open>f = Some fp\<close> s Some have "r = r'" "w = w'" by simp_all
      with damon_put_cases [OF put] get_damon_file_name [where fp = fp and al = al, OF E] Pair \<open>f = Some fp\<close> s Some show ?thesis by blast
    qed (use t Pair Some s in simp)
  qed (use t Pair in simp)
qed

lemma attrs_result:
  assumes E: "damon_sec E" and t: "set_damon_attrs E proj al = Inr (r, w, al')"
  shows "r = 0 \<and> (\<exists>rs. pj_scan proj = Some (Region_param rs) \<and>
      w = [(KERNEL_DAMON_PATH @ ''attrs'', blank_joined (attr_values rs) @ [c_nul])]) \<or> r = -1 \<and> w = []"
proof -
  have "\<exists>rs. pj_scan proj = Some (Region_param rs) \<and> s = blank_joined (attr_values rs)"
    if "get_damon_attrs_str E proj al1 = Inr (Some s, al2)" for al1 s al2
    using that by (auto simp: get_damon_attrs_str_def snprintf_exact [OF E] Let_def
        split: option.splits prod.splits bool.splits if_splits scan_param.splits)
  with put_text_result [OF E t [unfolded set_damon_attrs_def]] show ?thesis by blast
qed

lemma schemes_result:
  assumes E: "damon_sec E" and t: "set_damon_schemes E proj al = Inr (r, w, al')"
  shows "r = 0 \<and> (\<exists>eng engs p. pj_engs proj = eng # engs \<and> en_params eng = Some p \<and>
      w = [(KERNEL_DAMON_PATH @ ''schemes'', blank_joined (scheme_values p) @ [c_nul])]) \<or> r = -1 \<and> w = []"
proof -
  have "\<exists>eng engs p. pj_engs proj = eng # engs \<and> en_params eng = Some p \<and> s = blank_joined (scheme_values p)"
    if "get_damon_schemes_str E proj al1 = Inr (Some s, al2)" for al1 s al2
    using that by (auto simp: get_damon_schemes_str_def snprintf_exact [OF E] Let_def
        split: option.splits prod.splits bool.splits if_splits list.splits)
  with put_text_result [OF E t [unfolded set_damon_schemes_def]] show ?thesis by blast
qed

lemma monitor_result:
  assumes E: "damon_sec E" and t: "set_damon_monitor_on E on al = (r, w, al')"
  shows "r = 0 \<and> w = [(KERNEL_DAMON_PATH @ ''monitor_on'', (if on then ''on'' else ''off'') @ [c_nul])] \<or> r = -1 \<and> w = []"
proof -
  have "s = (if on then ''on'' else ''off'')" if "get_damon_monitor_on_str E on al1 = (Some s, al2)" for al1 s al2
    using that by (auto simp: get_damon_monitor_on_str_def snprintf_exact [OF E] Let_def split: prod.splits bool.splits if_splits)
  moreover have m: "(case get_damon_file E ''monitor_on'' al of
        (None, al1) \<Rightarrow> Inr (-1, [], al1)
      | (Some fp, al1) \<Rightarrow> c_bind (Inr (get_damon_monitor_on_str E on al1)) (\<lambda>(s, al2).
          case s of None \<Rightarrow> Inr (-1, [], al2) | Some str \<Rightarrow> (case damon_put E fp str of (r, w) \<Rightarrow> Inr (r, w, al2)))) =
      (Inr (r, w, al') :: (int \<times> damon_writes \<times> alloc) c_res)"
    using t by (simp add: set_damon_monitor_on_def split: prod.splits option.splits)
  ultimately show ?thesis using put_text_result [OF E m] by blast
qed

text \<open>The values a configuration gives the engine.\<close>

lemma unat_of_int_width: "unat (word_of_int k :: u64) = nat (k mod 2 ^ 64)" "unat (word_of_int k :: u32) = nat (k mod 2 ^ 32)"
  by (simp_all add: unat_eq_nat_uint uint_word_of_int take_bit_eq_mod)

lemma parse_int_item:
  "parse_item config g \<lparr>ci_key = k, ci_type = INT_VAL, ci_fill = f, ci_option = False\<rparr> obj = (0, obj') \<Longrightarrow>
   f obj (IntV (fst (kf_get_int64 config g k))) = (0, obj')"
  by (auto simp: parse_item_def split: if_splits prod.splits)

lemma parse_action_item:
  assumes "parse_item config g \<lparr>ci_key = k, ci_type = STR_VAL, ci_fill = fill_action, ci_option = False\<rparr> obj = (0, obj')"
  shows "\<exists>s a. fst (kf_get_string config g k) = Some s \<and> map_of damon_action_items s = Some a \<and> obj' = obj\<lparr>dm_action := a\<rparr>"
  using assms by (auto simp: parse_item_def fill_action_def val_str_def split: if_splits prod.splits option.splits)

lemmas damon_fills = fill_min_size_def fill_max_size_def fill_min_acc_def fill_max_acc_def fill_min_age_def fill_max_age_def

text \<open>The integer of a key of the engine's group.\<close>

definition eng_int :: "key_file \<Rightarrow> string \<Rightarrow> int" where
  "eng_int config k = fst (kf_get_int64 config ''engine'' k)"

lemma damon_fill_exact:
  assumes "damon_fill_eng al config eng = (0, eng')"
  shows "\<exists>s a. fst (kf_get_string config ''engine'' ''action'') = Some s \<and> map_of damon_action_items s = Some a \<and>
    eng' = eng\<lparr>en_params := Some \<lparr>min_sz_region = word_of_int (eng_int config ''min_size''),
      max_sz_region = word_of_int (eng_int config ''max_size''), min_nr_accesses = word_of_int (eng_int config ''min_acc''),
      max_nr_accesses = word_of_int (eng_int config ''max_acc''), min_age_region = word_of_int (eng_int config ''min_age''),
      max_age_region = word_of_int (eng_int config ''max_age''), dm_action = a\<rparr>\<rparr>"
proof -
  obtain p where p: "parse_file_config config ''engine'' damon_eng_config_items zero_damon_params = (0, p)" "eng' = eng\<lparr>en_params := Some p\<rparr>"
    using assms by (auto simp: damon_fill_eng_def split: if_splits prod.splits)
  from p(1) obtain q where q: "parse_item config ''engine''
      \<lparr>ci_key = ''action'', ci_type = STR_VAL, ci_fill = fill_action, ci_option = False\<rparr> q = (0, p)"
    "q = \<lparr>min_sz_region = word_of_int (eng_int config ''min_size''),
      max_sz_region = word_of_int (eng_int config ''max_size''), min_nr_accesses = word_of_int (eng_int config ''min_acc''),
      max_nr_accesses = word_of_int (eng_int config ''max_acc''), min_age_region = word_of_int (eng_int config ''min_age''),
      max_age_region = word_of_int (eng_int config ''max_age''), dm_action = DAMOS_WILLNEED\<rparr>"
    unfolding damon_eng_config_items_def zero_damon_params_def
    by (auto simp: damon_fills eng_int_def parse_to_ulong_def parse_to_uint_def simp del: parse_file_config.simps(2)
        dest!: parse_file_config_step parse_int_item)
  from parse_action_item [OF q(1)] q(2) p(2) show ?thesis by auto
qed

text \<open>The four writes of a start, with their texts; a start makes the first \<open>n\<close> of them.\<close>

definition damon_four :: "(unit, 'p) task list \<Rightarrow> region_scan \<Rightarrow> damon_eng_params \<Rightarrow> damon_writes" where
  "damon_four tks rs p = [(KERNEL_DAMON_PATH @ ''target_ids'', concat (map pid_text tks) @ [c_nul]),
     (KERNEL_DAMON_PATH @ ''attrs'', blank_joined (attr_values rs) @ [c_nul]),
     (KERNEL_DAMON_PATH @ ''schemes'', blank_joined (scheme_values p) @ [c_nul]),
     (KERNEL_DAMON_PATH @ ''monitor_on'', ''on'' @ [c_nul])]"

lemma start_damon_writes:
  assumes E: "damon_sec E" and s: "etmemd_start_damon E proj al = Inr (ret, proj', w)"
  shows "\<exists>n eng engs tks rs p. n \<le> 4 \<and> ret = (if n = 4 then 0 else -1) \<and> w = take n (damon_four tks rs p) \<and>
    (1 \<le> n \<longrightarrow> pj_engs proj = eng # engs \<and> proj' = proj\<lparr>pj_engs := eng\<lparr>en_tasks := tks\<rparr> # engs\<rparr> \<and>
       list_all2 looked_up (en_tasks eng) tks) \<and>
    (2 \<le> n \<longrightarrow> pj_scan proj = Some (Region_param rs)) \<and> (3 \<le> n \<longrightarrow> en_params eng = Some p)" (is "\<exists>n. ?P n")
proof (cases "ret = -1 \<and> w = []")
  case True
  then show ?thesis by (intro exI [of _ 0]) simp
next
  case ne: False
  then obtain r1 p1 w1 al1 where t: "check_damon_exist E" "set_damon_target_ids E proj al = Inr (r1, p1, w1, al1)"
    using s by (auto simp: etmemd_start_damon_def split: if_splits)
  from target_ids_result [OF E t(2)] ne s t have r1: "r1 = 0" by (auto simp: etmemd_start_damon_def split: if_splits)
  then obtain eng engs tks where e: "pj_engs proj = eng # engs" "p1 = proj\<lparr>pj_engs := eng\<lparr>en_tasks := tks\<rparr> # engs\<rparr>"
    "list_all2 looked_up (en_tasks eng) tks" "\<forall>rs p. w1 = take 1 (damon_four tks rs p)"
    using target_ids_result [OF E t(2)] by (auto simp: damon_four_def)
  from s t r1 obtain r2 w2 al2 where a: "set_damon_attrs E p1 al1 = Inr (r2, w2, al2)" by (auto simp: etmemd_start_damon_def)
  show ?thesis
  proof (cases "r2 = 0")
    case False
    with attrs_result [OF E a] s t r1 a have "ret = -1" "proj' = p1" "w = w1" by (auto simp: etmemd_start_damon_def)
    with e show ?thesis by (intro exI [of _ 1] exI [of _ eng] exI [of _ engs] exI [of _ tks] exI) auto
  next
    case True
    with attrs_result [OF E a] e(2,4) obtain rs where rs: "pj_scan proj = Some (Region_param rs)" "\<forall>p. w1 @ w2 = take 2 (damon_four tks rs p)"
      by (auto simp: damon_four_def)
    from s t r1 a True obtain r3 w3 al3 where c: "set_damon_schemes E p1 al2 = Inr (r3, w3, al3)" by (auto simp: etmemd_start_damon_def)
    show ?thesis
    proof (cases "r3 = 0")
      case False
      with schemes_result [OF E c] s t r1 a c \<open>r2 = 0\<close> have "ret = -1" "proj' = p1" "w = w1 @ w2" by (auto simp: etmemd_start_damon_def)
      with e rs show ?thesis by (intro exI [of _ 2] exI [of _ eng] exI [of _ engs] exI [of _ tks] exI [of _ rs] exI) auto
    next
      case r3: True
      with schemes_result [OF E c] e(2) obtain p where p: "en_params eng = Some p" "w1 @ w2 @ w3 = take 3 (damon_four tks rs p)"
        using rs(2) by (auto simp: damon_four_def)
      obtain r4 w4 al4 where m: "set_damon_monitor_on E True al3 = (r4, w4, al4)" by (cases "set_damon_monitor_on E True al3")
      with s t r1 a \<open>r2 = 0\<close> c r3 have "ret = (if r4 \<noteq> 0 then -1 else 0)" "proj' = p1" "w = (w1 @ w2 @ w3) @ w4"
        by (auto simp: etmemd_start_damon_def)
      moreover have "w4 = (if r4 = 0 then drop 3 (damon_four tks rs p) else [])" using monitor_result [OF E m] by (auto simp: damon_four_def)
      ultimately show ?thesis using p e rs
        by (intro exI [of _ "if r4 = 0 then 4 else 3"] exI [of _ eng] exI [of _ engs] exI [of _ tks] exI [of _ rs] exI [of _ p])
          (simp add: damon_four_def)
    qed
  qed
qed

text \<open>A project that can be started: the module is there, its files take every text, every engine is a damon engine, and every task of the
  first one names a process that exists.\<close>

definition damon_ready :: "damon_env \<Rightarrow> bool" where
  "damon_ready E \<longleftrightarrow> check_damon_exist E \<and> list_all (\<lambda>f. de_open E (KERNEL_DAMON_PATH @ f)) [''target_ids'', ''attrs'', ''schemes'', ''monitor_on''] \<and>
     (\<forall>f s. de_fwrite E f s = length s)"

definition runnable_task :: "damon_env \<Rightarrow> (unit, 'p) task \<Rightarrow> bool" where
  "runnable_task E tk \<longleftrightarrow> (\<exists>pid :: u32. unat pid < 10 ^ 9 \<and> tk_type tk = Some ''pid'' \<and> tk_value tk = Some (nat_to_base 10 (unat pid)) \<and>
     de_access E (PROC_PATH @ nat_to_base 10 (unat pid)))"

lemma ready_file: "damon_sec E \<Longrightarrow> de_open E (KERNEL_DAMON_PATH @ f) \<Longrightarrow> get_damon_file E f [] = (Some (KERNEL_DAMON_PATH @ f), [])"
  by (simp add: get_damon_file_def snprintf_exact)

lemma ready_put: "damon_ready E \<Longrightarrow> damon_put E f s = (0, [(f, s @ [c_nul])])"
  by (simp add: damon_ready_def damon_put_def)

lemma get_pids_ready:
  assumes E: "damon_sec E" and r: "runnable_task E tk"
  shows "\<exists>tk' freed. etmemd_get_task_pids (de_sec E) pgrep (de_access E) (\<lambda>pid al. (Some (), al)) tk False [] = Inr (0, tk', freed, [])"
proof -
  from r obtain pid :: u32 where p: "unat pid < 10 ^ 9" "tk_type tk = Some ''pid''" "tk_value tk = Some (nat_to_base 10 (unat pid))"
    "de_access E (PROC_PATH @ nat_to_base 10 (unat pid))" by (auto simp: runnable_task_def)
  have "length (nat_to_base 10 (unat pid)) \<le> 9" using p(1) by (intro nat_to_base_length) auto
  then have "get_pid_from_task_type (de_sec E) pgrep tk = Inr (Some (nat_to_base 10 (unat pid)))"
    using E p by (simp add: get_pid_from_task_type_def damon_sec_def securec_ok_def)
  moreover have "check_task_pid_exists (de_sec E) (de_access E) (nat_to_base 10 (unat pid))"
    using E p(4) by (simp add: check_task_pid_exists_def snprintf_exact)
  moreover have "get_unsigned_int_value (nat_to_base 10 (unat pid)) = Some pid"
    using pid_line(2) [of pid] by (simp add: strip_newline_def)
  ultimately show ?thesis by (simp add: etmemd_get_task_pids_def fill_task_pid_def alloc_tkpid_node_def)
qed

lemma get_all_pids_ready:
  assumes E: "damon_sec E"
  shows "list_all (runnable_task E) tks \<Longrightarrow> \<exists>nr' tks'. get_damon_pids_val_and_num E tks nr [] = Inr (0, nr', tks', [])"
proof (induction tks arbitrary: nr)
  case (Cons tk tks)
  from Cons.prems get_pids_ready [OF E, of tk "de_pgrep E"] obtain tk' freed where
    "etmemd_get_task_pids (de_sec E) (de_pgrep E) (de_access E) (\<lambda>pid al. (Some (), al)) tk False [] = Inr (0, tk', freed, [])" by auto
  moreover from Cons.IH [of "Suc nr"] Cons.prems obtain nr' tks' where
    "get_damon_pids_val_and_num E tks (Suc nr) [] = Inr (0, nr', tks', [])" by auto
  ultimately show ?case by simp
qed simp

lemma target_ids_ready:
  assumes E: "damon_sec E" and r: "damon_ready E" and v: "is_engs_valid proj" and e: "pj_engs proj = eng # engs"
    and k: "en_tasks eng \<noteq> []" "list_all (runnable_task E) (en_tasks eng)"
  shows "\<exists>tks w. set_damon_target_ids E proj [] = Inr (0, proj\<lparr>pj_engs := eng\<lparr>en_tasks := tks\<rparr> # engs\<rparr>, w, [])"
proof -
  from get_all_pids_ready [OF E k(2), of 0] obtain nr tks where p: "get_damon_pids_val_and_num E (en_tasks eng) 0 [] = Inr (0, nr, tks, [])"
    by blast
  with E have l: "nr = length tks" "list_all2 looked_up (en_tasks eng) tks"
    using pids_val_looked_up [of E "en_tasks eng" 0 "[]" nr tks "[]"] by (auto simp: damon_sec_def)
  then have ne: "list_all (\<lambda>tk. tk_pids tk \<noteq> []) tks" by (auto simp: list_all_iff looked_up_def list_all2_conv_all_nth in_set_conv_nth)
  then have "pids_str_loop E (Suc (11 * nr)) tks [] = Inr (concat (map pid_text tks))"
    using pids_str_loop_exact [of E tks "[]" "Suc (11 * nr)"] E l(1) by (simp add: damon_sec_def)
  moreover have "concat (map pid_text tks) \<noteq> []" using k(1) l(2) pid_text_length by (cases tks) auto
  ultimately show ?thesis using p e v ready_put [OF r] ready_file [OF E, of "''target_ids''"] r
    by (intro exI [of _ tks]) (simp add: set_damon_target_ids_def get_damon_pids_str_def damon_ready_def Let_def)
qed

lemma blank_joined_fits:
  "\<forall>n\<in>set ns. n < 10 ^ 10 \<Longrightarrow> length (blank_joined ns) \<le> 11 * length ns - 1"
  using blank_joined_length [of ns 10] by (simp add: nat_to_base_length)

lemma start_damon_ready:
  assumes E: "damon_sec E" and r: "damon_ready E" and v: "is_engs_valid proj" and e: "pj_engs proj = eng # engs"
    and k: "en_tasks eng \<noteq> []" "list_all (runnable_task E) (en_tasks eng)"
    and rs: "pj_scan proj = Some (Region_param rs)" "\<forall>n\<in>set (attr_values rs). n < 10 ^ 10"
    and p: "en_params eng = Some p" "\<forall>n\<in>set (scheme_values p). n < 10 ^ 10"
  shows "\<exists>proj' w. etmemd_start_damon E proj [] = Inr (0, proj', w)"
proof -
  from target_ids_ready [OF E r v e k] obtain tks w where
    t: "set_damon_target_ids E proj [] = Inr (0, proj\<lparr>pj_engs := eng\<lparr>en_tasks := tks\<rparr> # engs\<rparr>, w, [])" (is "_ = Inr (0, ?p, w, [])") by blast
  note opened = ready_file [OF E] and put = ready_put [OF r]
  have a: "length (blank_joined (attr_values rs)) \<le> 54" "length (blank_joined (scheme_values p)) \<le> 76"
    using blank_joined_fits [OF rs(2)] blank_joined_fits [OF p(2)] by (simp_all add: attr_values_def scheme_values_def)
  have "\<exists>w. set_damon_attrs E ?p [] = Inr (0, w, [])"
    using opened [of "''attrs''"] r rs a by (simp add: set_damon_attrs_def get_damon_attrs_str_def damon_ready_def snprintf_exact [OF E] put)
  moreover have "\<exists>w. set_damon_schemes E ?p [] = Inr (0, w, [])"
    using opened [of "''schemes''"] r p a by (simp add: set_damon_schemes_def get_damon_schemes_str_def damon_ready_def snprintf_exact [OF E] put)
  moreover have "\<exists>w. set_damon_monitor_on E True [] = (0, w, [])"
    using opened [of "''monitor_on''"] r by (simp add: set_damon_monitor_on_def get_damon_monitor_on_str_def damon_ready_def snprintf_exact [OF E] put)
  ultimately show ?thesis using t r by (auto simp: etmemd_start_damon_def damon_ready_def)
qed

section \<open>Properties\<close>


text \<open>A start succeeds whenever it can. With enough memory, when the files take the texts, every task names an existing process and no
  configured number has more than ten digits, the start of a region project with damon engines reports success: no text is cut by its buffer.\<close>

theorem damon_start_succeeds:
  assumes E: "damon_sec E" and r: "damon_ready E" and v: "is_engs_valid proj" and e: "pj_engs proj = eng # engs"
    and k: "en_tasks eng \<noteq> []" "list_all (runnable_task E) (en_tasks eng)"
    and rs: "pj_scan proj = Some (Region_param rs)" "\<forall>n\<in>set (attr_values rs). n < 10 ^ 10"
    and p: "en_params eng = Some p" "\<forall>n\<in>set (scheme_values p). n < 10 ^ 10"
  shows "\<exists>proj' w. etmemd_start_damon E proj [] = Inr (0, proj', w)"
  using assms by (rule start_damon_ready)

text \<open>C24: A configured scheme reaches the kernel. When the engine was filled from a configuration and a start with it succeeds, the scheme the
  kernel reads has the configured numbers, sizes modulo \<open>2 ^ 64\<close> and counts and ages modulo \<open>2 ^ 32\<close>, and the number of the configured action.\<close>

theorem damon_config_reaches_kernel:
  assumes E: "damon_sec E" and f: "damon_fill_eng al0 config eng0 = (0, eng)" and e: "pj_engs proj = eng # engs"
    and s: "etmemd_start_damon E proj al = Inr (0, proj', w)"
  shows "\<exists>act a. fst (kf_get_string config ''engine'' ''action'') = Some act \<and> map_of damon_action_items act = Some a \<and>
    damon_numbers (snd (w ! 2)) = [nat (eng_int config ''min_size'' mod 2 ^ 64), nat (eng_int config ''max_size'' mod 2 ^ 64),
      nat (eng_int config ''min_acc'' mod 2 ^ 32), nat (eng_int config ''max_acc'' mod 2 ^ 32),
      nat (eng_int config ''min_age'' mod 2 ^ 32), nat (eng_int config ''max_age'' mod 2 ^ 32), action_nr a]"
proof -
  from start_damon_writes [OF E s] obtain n eng' engs' tks rs p where n: "0 = (if n = 4 then 0 else -1 :: int)" "w = take n (damon_four tks rs p)"
    "1 \<le> n \<longrightarrow> pj_engs proj = eng' # engs' \<and> proj' = proj\<lparr>pj_engs := eng'\<lparr>en_tasks := tks\<rparr> # engs'\<rparr> \<and>
       list_all2 looked_up (en_tasks eng') tks" "3 \<le> n \<longrightarrow> en_params eng' = Some p" by blast
  then have "n = 4" by (simp split: if_splits)
  with n e have p: "en_params eng = Some p" and w: "w = damon_four tks rs p" by (simp_all add: damon_four_def)
  have "damon_numbers (snd (w ! 2)) = scheme_values p" by (simp add: w damon_four_def damon_numbers_joined)
  moreover from damon_fill_exact [OF f] obtain act a where a: "fst (kf_get_string config ''engine'' ''action'') = Some act"
    "map_of damon_action_items act = Some a" "en_params eng = Some \<lparr>min_sz_region = word_of_int (eng_int config ''min_size''),
      max_sz_region = word_of_int (eng_int config ''max_size''), min_nr_accesses = word_of_int (eng_int config ''min_acc''),
      max_nr_accesses = word_of_int (eng_int config ''max_acc''), min_age_region = word_of_int (eng_int config ''min_age''),
      max_age_region = word_of_int (eng_int config ''max_age''), dm_action = a\<rparr>" by force
  moreover from p [symmetric, unfolded a(3)] have "scheme_values p = [nat (eng_int config ''min_size'' mod 2 ^ 64), nat (eng_int config ''max_size'' mod 2 ^ 64),
      nat (eng_int config ''min_acc'' mod 2 ^ 32), nat (eng_int config ''max_acc'' mod 2 ^ 32),
      nat (eng_int config ''min_age'' mod 2 ^ 32), nat (eng_int config ''max_age'' mod 2 ^ 32), action_nr a]"
    by (simp only: scheme_values_def unat_of_int_width option.inject damon_eng_params.select_convs)
  ultimately show ?thesis by (intro exI [of _ act] exI [of _ a]) (simp only: simp_thms)
qed

text \<open>A region project without an engine makes the daemon fault when it is started.\<close>

lemma damon_start_without_engine:
  "check_damon_exist E \<Longrightarrow> pj_engs proj = [] \<Longrightarrow> etmemd_start_damon E proj al = Inl Null_deref"
  by (simp add: etmemd_start_damon_def set_damon_target_ids_def)

section \<open>A start on concrete values\<close>

definition sample_damon_env :: damon_env where
  "sample_damon_env = \<lparr>de_sec = securec_ref, de_pgrep = (\<lambda>_. None), de_access = (\<lambda>_. True), de_open = (\<lambda>_. True),
     de_fwrite = (\<lambda>_ s. length s), de_cat_left = (\<lambda>s. s)\<rparr>"

definition sample_damon_config :: key_file where
  "sample_damon_config = alist_key_file
     [((''engine'', ''min_size''), 4096), ((''engine'', ''max_size''), 8192), ((''engine'', ''min_acc''), 1), ((''engine'', ''max_acc''), 2),
      ((''engine'', ''min_age''), 3), ((''engine'', ''max_age''), -1)]
     [((''engine'', ''action''), ''pageout'')]"

definition sample_damon_engine :: "(unit, unit, damon_eng_params) engine" where
  "sample_damon_engine = \<lparr>en_type = DAMON_ENGINE, en_name = ''damon'', en_params = None,
     en_tasks = [new_task\<lparr>tk_type := Some ''pid'', tk_value := Some ''7''\<rparr>]\<rparr>"

definition sample_damon_project :: "unit damon_project" where
  "sample_damon_project = new_project\<lparr>pj_type := REGION_SCAN,
     pj_scan := Some (Region_param \<lparr>sample_interval = 1, aggr_interval = 2, update_interval = 3, min_nr_regions = 4, max_nr_regions = 5\<rparr>),
     pj_engs := [snd (damon_fill_eng [] sample_damon_config sample_damon_engine)]\<rparr>"

lemma sample_damon_sec: "damon_sec sample_damon_env"
  by (simp add: damon_sec_def sample_damon_env_def securec_ref_ok snprintf_rejects_def, simp add: securec_ref_def)

lemma sample_damon_fill: "damon_fill_eng [] sample_damon_config sample_damon_engine =
  (0, sample_damon_engine\<lparr>en_params := Some \<lparr>min_sz_region = 4096, max_sz_region = 8192, min_nr_accesses = 1, max_nr_accesses = 2,
     min_age_region = 3, max_age_region = -1, dm_action = DAMOS_PAGEOUT\<rparr>\<rparr>)"
  by (simp add: damon_fill_eng_def damon_eng_config_items_def parse_item_def sample_damon_config_def alist_key_file_def damon_fills
      fill_action_def damon_action_items_def zero_damon_params_def parse_to_ulong_def parse_to_uint_def val_str_def)

lemma sample_damon_ready: "damon_ready sample_damon_env"
  by (simp add: damon_ready_def sample_damon_env_def check_damon_exist_def)

lemma sample_damon_runnable: "list_all (runnable_task sample_damon_env) (en_tasks sample_damon_engine)"
proof -
  have "nat_to_base 10 7 = ''7''" by code_simp
  then show ?thesis by (simp add: runnable_task_def sample_damon_engine_def sample_damon_env_def) (intro exI [of _ 7], simp)
qed

lemma sample_damon_project:
  "pj_engs sample_damon_project = [snd (damon_fill_eng [] sample_damon_config sample_damon_engine)]" "is_engs_valid sample_damon_project"
  "pj_scan sample_damon_project =
     Some (Region_param \<lparr>sample_interval = 1, aggr_interval = 2, update_interval = 3, min_nr_regions = 4, max_nr_regions = 5\<rparr>)"
  by (simp_all add: sample_damon_project_def is_engs_valid_def sample_damon_fill, simp add: sample_damon_engine_def)

lemma unat_minus_one_32: "unat (- 1 :: u32) = 4294967295"
  by (simp add: unsigned_minus_1_eq_mask mask_eq_exp_minus_1)

lemma sample_damon_values:
  "\<forall>n\<in>set (attr_values \<lparr>sample_interval = 1, aggr_interval = 2, update_interval = 3, min_nr_regions = 4, max_nr_regions = 5\<rparr>). n < 10 ^ 10"
  "\<forall>n\<in>set (scheme_values \<lparr>min_sz_region = 4096, max_sz_region = 8192, min_nr_accesses = 1, max_nr_accesses = 2,
     min_age_region = 3, max_age_region = -1, dm_action = DAMOS_PAGEOUT\<rparr>). n < 10 ^ 10"
  by (simp_all add: attr_values_def scheme_values_def action_nr_def unat_minus_one_32)

lemmas sample_damon_facts = sample_damon_sec sample_damon_ready sample_damon_project(2)
  sample_damon_project(1) [unfolded sample_damon_fill snd_conv]

lemma sample_damon_tasks: "en_tasks sample_damon_engine \<noteq> []"
  by (simp add: sample_damon_engine_def)

lemma damon_start_succeeds_witness:
  "\<exists>proj' w. etmemd_start_damon sample_damon_env sample_damon_project [] = Inr (0, proj', w)"
  using damon_start_succeeds [OF sample_damon_facts _ _ sample_damon_project(3) sample_damon_values(1) _ sample_damon_values(2)]
    sample_damon_tasks sample_damon_runnable by simp

lemma sample_damon_start:
  "\<exists>proj' w. etmemd_start_damon sample_damon_env sample_damon_project [] = Inr (0, proj', w)"
  using start_damon_ready [OF sample_damon_facts _ _ sample_damon_project(3) sample_damon_values(1) _ sample_damon_values(2)]
    sample_damon_tasks sample_damon_runnable by simp


lemma damon_config_reaches_kernel_witness:
  "\<exists>proj' w. etmemd_start_damon sample_damon_env sample_damon_project [] = Inr (0, proj', w) \<and>
     damon_numbers (snd (w ! 2)) = [4096, 8192, 1, 2, 3, 4294967295, 2]"
proof -
  from sample_damon_start obtain proj' w where s: "etmemd_start_damon sample_damon_env sample_damon_project [] = Inr (0, proj', w)" by blast
  with damon_config_reaches_kernel [OF sample_damon_sec sample_damon_fill _ s] sample_damon_facts(4) show ?thesis
    by (auto simp: eng_int_def sample_damon_config_def alist_key_file_def damon_action_items_def action_nr_def)
qed

end
