(* ===== verification/Memdcd_Daemon.thy ===== *)
theory Memdcd_Daemon
  imports Memdcd_Policy
begin

text \<open>
  The daemon of memRouter: its command line (\<open>memdcd.c\<close>, \<open>memdcd_log.c\<close>), the socket, the loop over connections and the signals that
  end it (\<open>memdcd_daemon.c\<close>), and the wait for the workers at the end (\<open>migrate_process_exit\<close> in \<open>memdcd_process.c\<close>).

  The function \<open>memdcd_daemon_start\<close> is run in steps between which a signal may arrive and workers may end: the step relation
  \<open>daemon_step\<close> interleaves the three. The system calls are parameters: what each of them returns is part of the input of a step. A
  descriptor that was closed may be given out again, so that closing it a second time hits a file of somebody else; this is recorded in
  the state.
\<close>

section \<open>The command line\<close>

abbreviation (input) EINVAL_nr :: int where "EINVAL_nr \<equiv> 22"

text \<open>The new level and the return value; the levels are the numbers of the enumeration.\<close>

definition init_log_level :: "string option \<Rightarrow> int \<Rightarrow> int \<times> int" where
  "init_log_level log_level_str level =
     (case log_level_str of
        None \<Rightarrow> (2, 2)
      | Some s \<Rightarrow>
          if s = ''LOG_DEBUG'' then (3, 3)
          else if s = ''LOG_INFO'' then (2, 2)
          else if s = ''LOG_WARN'' then (1, 1)
          else if s = ''LOG_ERROR'' then (0, 0)
          else (- EINVAL_nr, level))"

record memdcd_opts =
  mo_policy :: "string option"
  mo_socket :: "string option"
  mo_level :: int
  mo_timeout :: "int option"

text \<open>The loop over the options \<open>getopt_long\<close> delivers, each with its argument: the options, or the value \<open>main\<close> returns.\<close>

fun memdcd_parse_opts :: "(char \<times> string) list \<Rightarrow> memdcd_opts \<Rightarrow> int + memdcd_opts" where
  "memdcd_parse_opts [] o' = Inr o'"
| "memdcd_parse_opts ((opt, optarg) # rest) o' =
     (if opt = CHR ''p'' then memdcd_parse_opts rest (o'\<lparr>mo_policy := Some optarg\<rparr>)
      else if opt = CHR ''s'' then memdcd_parse_opts rest (o'\<lparr>mo_socket := Some optarg\<rparr>)
      else if opt = CHR ''l'' then
        (case init_log_level (Some optarg) (mo_level o') of
           (ret, level) \<Rightarrow> if ret < 0 then Inl (- EINVAL_nr) else memdcd_parse_opts rest (o'\<lparr>mo_level := level\<rparr>))
      else if opt = CHR ''t'' then
        (case c_strtol optarg 10 of
           (timeout, endptr, errno) \<Rightarrow>
             if errno \<or> endptr = optarg \<or> end_char endptr \<noteq> CHR '' '' \<and> end_char endptr \<noteq> c_nul \<or> timeout < 0 then Inl (- EINVAL_nr)
             else memdcd_parse_opts rest (o'\<lparr>mo_timeout := Some timeout\<rparr>))
      else if opt = CHR ''h'' then Inl 0
      else Inl (- EINVAL_nr))"

definition default_opts :: memdcd_opts where
  "default_opts = \<lparr>mo_policy = None, mo_socket = None, mo_level = 0, mo_timeout = None\<rparr>"

text \<open>Up to the start of the daemon: the value \<open>main\<close> returns, or the path of the socket and the timeout the daemon is started with.
  \<open>cap\<close> is the outcome of \<open>check_permission\<close> and \<open>policy\<close> that of \<open>init_mem_policy\<close> on the file.\<close>

definition memdcd_main :: "(char \<times> string) list \<Rightarrow> int \<Rightarrow> (string \<Rightarrow> int) \<Rightarrow> int + string \<times> int" where
  "memdcd_main args cap policy =
     (case memdcd_parse_opts args default_opts of
        Inl r \<Rightarrow> Inl r
      | Inr o' \<Rightarrow>
          (case mo_policy o' of
             None \<Rightarrow> Inl 0
           | Some file \<Rightarrow>
               if cap \<noteq> 0 then Inl (-1)
               else if policy file \<noteq> 0 then Inl (-1)
               else Inr (case mo_socket o' of None \<Rightarrow> ''@_memdcd.server'' | Some p \<Rightarrow> p,
                         case mo_timeout o' of None \<Rightarrow> 3 | Some t \<Rightarrow> t)))"

section \<open>The socket\<close>

text \<open>What the system calls of \<open>memdcd_server_init\<close> return: the descriptor of \<open>socket\<close> or a negative number, whether the three options
  could be set, and whether the address could be bound.\<close>

record sock_calls =
  sc_fd :: int
  sc_opts :: "bool list"
  sc_bind :: "string \<Rightarrow> bool"

definition set_socket_option :: "bool list \<Rightarrow> int" where
  "set_socket_option oks = (if list_all id oks then 0 else -1)"

text \<open>The descriptor and whether it is open; the first byte of the path is replaced by 0, which makes the address an abstract one. An
  empty path has no first byte: the address is then empty.\<close>

definition memdcd_server_init :: "sock_calls \<Rightarrow> string \<Rightarrow> int" where
  "memdcd_server_init c sock_path =
     (if sc_fd c < 0 then -1
      else if length sock_path \<ge> 108 then -1
      else if set_socket_option (sc_opts c) \<noteq> 0 then -1
      else if \<not> sc_bind c (case sock_path of [] \<Rightarrow> [] | _ # p \<Rightarrow> c_nul # p) then -1
      else sc_fd c)"

text \<open>The other end, in the memdcd engine: the descriptor of \<open>socket\<close>, the outcomes of \<open>memset_s\<close> and of \<open>memcpy_s\<close> into a buffer of
  a given size, and the result of \<open>connect\<close>. A path that fills the 108 bytes of the address leaves no NUL for \<open>strlen\<close>. A first call of
  \<open>strlen\<close>, before the address is written, has a result that is not used and is left out.\<close>

record connect_calls =
  cn_socket :: int
  cn_memset :: bool
  cn_memcpy :: "nat \<Rightarrow> nat \<Rightarrow> bool"
  cn_connect :: "string \<Rightarrow> int"

definition memdcd_connection_init :: "connect_calls \<Rightarrow> string \<Rightarrow> int c_res" where
  "memdcd_connection_init c sock_path =
     (if cn_socket c < 0 then Inr (-1)
      else if \<not> cn_memset c then Inr (-1)
      else if \<not> cn_memcpy c 108 (length sock_path) then Inr (-1)
      else if length sock_path \<ge> 108 then Inl Out_of_bounds
      else if cn_connect c (case sock_path of [] \<Rightarrow> [] | _ # p \<Rightarrow> c_nul # p) < 0 then Inr (-1)
      else Inr (cn_socket c))"

text \<open>The engine reaches a daemon that was started with the same path.\<close>

lemma memdcd_connection_made:
  assumes "0 \<le> memdcd_server_init s sock_path" "0 \<le> cn_socket c" "cn_memset c" "cn_memcpy c 108 (length sock_path)"
    and "\<And>addr. sc_bind s addr \<Longrightarrow> 0 \<le> cn_connect c addr"
  shows "memdcd_connection_init c sock_path = Inr (cn_socket c)"
  using assms(1-4) assms(5) [of "case sock_path of [] \<Rightarrow> [] | _ # p \<Rightarrow> c_nul # p"]
  by (auto simp: memdcd_server_init_def memdcd_connection_init_def split: if_splits)

text \<open>A connection: whether \<open>accept\<close> succeeds, the user and group of the peer unless \<open>getsockopt\<close> fails, what \<open>recv\<close> returns, and the
  message in the buffer.\<close>

record mem_conn =
  mc_accept :: bool
  mc_cred :: "(nat \<times> nat) option"
  mc_recv :: int
  mc_cmd :: memdcd_cmd_type
  mc_msg :: memory_message

definition memdcd_socket_permission :: "mem_conn \<Rightarrow> int" where
  "memdcd_socket_permission c =
     (case mc_cred c of None \<Rightarrow> -1 | Some (uid, gid) \<Rightarrow> if uid \<noteq> 0 \<or> gid \<noteq> 0 then -1 else 0)"

definition memdcd_accept :: "bool \<Rightarrow> mem_conn \<Rightarrow> int" where
  "memdcd_accept listening c =
     (if \<not> listening \<or> \<not> mc_accept c then -1
      else let rc = memdcd_socket_permission c in
        if rc \<noteq> 0 then rc
        else if mc_recv c \<le> 0 then -1
        else if mc_recv c > 40960 then -1
        else mc_recv c)"

section \<open>The daemon\<close>

text \<open>Where \<open>memdcd_daemon_start\<close> stands: before the flags are reset; before the socket is made; before the buffer is allocated, before
  \<open>listen\<close>, before the test of \<open>g_sock_fd\<close> and before it is set; at the head of the loop, before \<open>accept\<close>, before handling a message of
  a given length; in the loop of \<open>migrate_process_exit\<close>; before the test of \<open>g_sock_fd\<close>, before it is closed and before it is reset; and
  after the return.\<close>

datatype daemon_pc =
    D_start | D_init | D_malloc | D_listen | D_check | D_publish
  | D_loop | D_accept | D_handle int mem_conn | D_recycle | D_join | D_test | D_close | D_reset | D_done

text \<open>\<open>dm_open\<close> tells whether the socket is open, \<open>dm_stray\<close> whether a descriptor was closed that no longer was this socket. \<open>dm_dead\<close>
  are the threads that ended without removing their entry. Ghost fields: the connections that were handled, whether a signal has arrived,
  and whether one arrived between the last \<open>close\<close> and the reset of \<open>g_sock_fd\<close>.\<close>

record daemon =
  dm_pc :: daemon_pc
  dm_gfd :: int
  dm_exit :: bool
  dm_fd :: int
  dm_open :: bool
  dm_stray :: bool
  dm_table :: memdcd_state
  dm_dead :: "nat list"
  dm_handled :: "mem_conn list"
  dm_late :: bool

record daemon_input =
  di_path :: "string option"
  di_sock :: sock_calls
  di_malloc :: bool
  di_listen :: bool
  di_conn :: mem_conn
  di_env :: collect_env

definition close_fd :: "daemon \<Rightarrow> daemon" where
  "close_fd s = (if dm_open s then s\<lparr>dm_open := False\<rparr> else s\<lparr>dm_stray := True\<rparr>)"

definition set_exit_flag :: "daemon \<Rightarrow> daemon" where
  "set_exit_flag s =
     (let s1 = s\<lparr>dm_exit := True\<rparr>;
          s2 = (if dm_gfd s1 > 0 then close_fd s1 else s1)
      in s2\<lparr>dm_gfd := -1\<rparr>)"

text \<open>\<open>get_active_tid\<close>: the worker of the first entry, 0 when there is none.\<close>

definition get_active_tid :: "memdcd_state \<Rightarrow> nat" where
  "get_active_tid st = (case ms_procs st of [] \<Rightarrow> 0 | p # _ \<Rightarrow> mp_worker p)"

text \<open>A turn of the loop of \<open>migrate_process_exit\<close>, and whether it is left. Joining a thread that has left its entry behind is followed by
  joining it again, without an end.\<close>

definition migrate_process_exit :: "nat list \<Rightarrow> memdcd_state \<Rightarrow> bool c_res" where
  "migrate_process_exit dead st =
     (let tid = get_active_tid st in
      if tid = 0 then Inr True else if tid \<in> set dead then Inl Diverges else Inr False)"

text \<open>One step of \<open>memdcd_daemon_start\<close>. Waiting in \<open>pthread_join\<close> leaves the state as it is, until the thread has ended.\<close>

definition memdcd_daemon_start :: "daemon_input \<Rightarrow> daemon \<Rightarrow> daemon c_res" where
  "memdcd_daemon_start i s =
     (case dm_pc s of
        D_start \<Rightarrow>
          if di_path i = None then Inr (s\<lparr>dm_pc := D_done\<rparr>) else Inr (s\<lparr>dm_exit := False, dm_gfd := 0, dm_pc := D_init\<rparr>)
      | D_init \<Rightarrow>
          (case di_path i of
             None \<Rightarrow> Inl Null_deref
           | Some sock_path \<Rightarrow>
               let sock_fd = memdcd_server_init (di_sock i) sock_path in
               if sock_fd < 0 then Inr (s\<lparr>dm_pc := D_done\<rparr>)
               else Inr (s\<lparr>dm_fd := sock_fd, dm_open := True, dm_pc := D_malloc\<rparr>))
      | D_malloc \<Rightarrow> Inr (if \<not> di_malloc i then (close_fd s)\<lparr>dm_pc := D_done\<rparr> else s\<lparr>dm_pc := D_listen\<rparr>)
      | D_listen \<Rightarrow> Inr (if \<not> di_listen i then (close_fd s)\<lparr>dm_pc := D_done\<rparr> else s\<lparr>dm_pc := D_check\<rparr>)
      | D_check \<Rightarrow> Inr (if dm_gfd s < 0 then (close_fd s)\<lparr>dm_pc := D_done\<rparr> else s\<lparr>dm_pc := D_publish\<rparr>)
      | D_publish \<Rightarrow> Inr (s\<lparr>dm_gfd := dm_fd s, dm_pc := D_loop\<rparr>)
      | D_loop \<Rightarrow> Inr (s\<lparr>dm_pc := (if dm_exit s then D_recycle else D_accept)\<rparr>)
      | D_accept \<Rightarrow>
          let msg_len = memdcd_accept (dm_gfd s > 0 \<and> dm_open s) (di_conn i) in
          Inr (s\<lparr>dm_pc := (if msg_len < 0 then D_loop else D_handle msg_len (di_conn i))\<rparr>)
      | D_handle msg_len c \<Rightarrow>
          c_bind (handle_recv_buffer (di_env i) (mc_cmd c) (mc_msg c) msg_len (dm_table s)) (\<lambda>(ret, st).
            Inr (s\<lparr>dm_table := st, dm_handled := dm_handled s @ [c], dm_pc := D_loop\<rparr>))
      | D_recycle \<Rightarrow>
          c_bind (migrate_process_recycle (ce_now (di_env i)) (ce_busy (di_env i)) (dm_table s)) (\<lambda>st.
            Inr (s\<lparr>dm_table := st, dm_pc := D_join\<rparr>))
      | D_join \<Rightarrow>
          c_bind (migrate_process_exit (dm_dead s) (dm_table s)) (\<lambda>left. Inr (if left then s\<lparr>dm_pc := D_test\<rparr> else s))
      | D_test \<Rightarrow> Inr (s\<lparr>dm_pc := (if dm_gfd s > 0 then D_close else D_done)\<rparr>)
      | D_close \<Rightarrow> Inr ((if dm_gfd s > 0 then close_fd s else s)\<lparr>dm_pc := D_reset\<rparr>)
      | D_reset \<Rightarrow> Inr (s\<lparr>dm_gfd := -1, dm_pc := D_done\<rparr>)
      | D_done \<Rightarrow> Inr s)"

text \<open>A worker ends: it removes the entry of its process, unless there was no memory for it to begin.\<close>

definition worker_end :: "int \<Rightarrow> daemon \<Rightarrow> daemon" where
  "worker_end pid s = s\<lparr>dm_table := (dm_table s)\<lparr>ms_procs := migrate_process_remove pid (ms_procs (dm_table s))\<rparr>\<rparr>"

definition worker_dies :: "nat \<Rightarrow> daemon \<Rightarrow> daemon" where
  "worker_dies tid s = s\<lparr>dm_dead := tid # dm_dead s\<rparr>"

text \<open>The proc files name sizes of processes that exist, and a message fills its structure.\<close>

definition input_ok :: "daemon_input \<Rightarrow> bool" where
  "input_ok i \<longleftrightarrow> length (sv_vma_addrs (mm_vma (mc_msg (di_conn i)))) = MAX_VMA_NUM \<and> statm_ok (ce_fs (di_env i)) \<and>
     di_path i \<noteq> None \<and> sc_fd (di_sock i) > 0"

text \<open>The signals are installed once the flags were reset.\<close>

inductive daemon_step :: "daemon \<Rightarrow> daemon \<Rightarrow> bool" where
  main: "input_ok i \<Longrightarrow> memdcd_daemon_start i s = Inr s' \<Longrightarrow> daemon_step s s'"
| sig: "dm_pc s \<noteq> D_start \<Longrightarrow> daemon_step s ((set_exit_flag s)\<lparr>dm_late := dm_late s \<or> dm_pc s = D_reset\<rparr>)"
| worker: "p \<in> set (ms_procs (dm_table s)) \<Longrightarrow> mp_worker p \<noteq> 0 \<Longrightarrow> daemon_step s (worker_end (mp_pid p) s)"
| dies: "p \<in> set (ms_procs (dm_table s)) \<Longrightarrow> mp_worker p \<noteq> 0 \<Longrightarrow> daemon_step s (worker_dies (mp_worker p) s)"

definition daemon_initial :: "int \<Rightarrow> daemon" where
  "daemon_initial timeout = \<lparr>dm_pc = D_start, dm_gfd = 0, dm_exit = False, dm_fd = 0, dm_open = False, dm_stray = False,
     dm_table = \<lparr>ms_procs = [], ms_last = 0, ms_timeout = timeout\<rparr>, dm_dead = [], dm_handled = [], dm_late = False\<rparr>"

inductive daemon_reach :: "daemon \<Rightarrow> bool" where
  start: "daemon_reach (daemon_initial timeout)"
| step: "daemon_reach s \<Longrightarrow> daemon_step s s' \<Longrightarrow> daemon_reach s'"

section \<open>The invariant\<close>

text \<open>The descriptors at each place.\<close>

definition fd_inv :: "daemon \<Rightarrow> bool" where
  "fd_inv s \<longleftrightarrow> (case dm_pc s of
       D_start \<Rightarrow> \<not> dm_open s \<and> \<not> dm_stray s \<and> \<not> dm_exit s
     | D_init \<Rightarrow> \<not> dm_open s \<and> \<not> dm_stray s \<and> dm_gfd s \<le> 0 \<and> (dm_exit s \<longrightarrow> dm_gfd s < 0)
     | D_malloc \<Rightarrow> dm_open s \<and> \<not> dm_stray s \<and> dm_gfd s \<le> 0 \<and> dm_fd s > 0 \<and> (dm_exit s \<longrightarrow> dm_gfd s < 0)
     | D_listen \<Rightarrow> dm_open s \<and> \<not> dm_stray s \<and> dm_gfd s \<le> 0 \<and> dm_fd s > 0 \<and> (dm_exit s \<longrightarrow> dm_gfd s < 0)
     | D_check \<Rightarrow> dm_open s \<and> \<not> dm_stray s \<and> dm_gfd s \<le> 0 \<and> dm_fd s > 0 \<and> (dm_exit s \<longrightarrow> dm_gfd s < 0)
     | D_publish \<Rightarrow> dm_open s \<and> \<not> dm_stray s \<and> dm_gfd s \<le> 0 \<and> dm_fd s > 0
     | D_accept \<Rightarrow> \<not> dm_stray s \<and> (dm_open s \<longleftrightarrow> dm_gfd s > 0) \<and> (dm_exit s \<longrightarrow> dm_gfd s < 0)
     | D_handle n c \<Rightarrow> \<not> dm_stray s \<and> (dm_open s \<longleftrightarrow> dm_gfd s > 0) \<and> mc_cred c = Some (0, 0) \<and>
         length (sv_vma_addrs (mm_vma (mc_msg c))) = MAX_VMA_NUM
     | D_reset \<Rightarrow> \<not> dm_open s \<and> (dm_stray s \<longrightarrow> dm_late s)
     | D_done \<Rightarrow> \<not> dm_open s \<and> dm_gfd s \<le> 0 \<and> (dm_stray s \<longrightarrow> dm_late s)
     | _ \<Rightarrow> \<not> dm_stray s \<and> (dm_open s \<longleftrightarrow> dm_gfd s > 0))"

definition daemon_inv :: "daemon \<Rightarrow> bool" where
  "daemon_inv s \<longleftrightarrow> fd_inv s \<and> table_ok (ms_procs (dm_table s)) \<and> (\<forall>c\<in>set (dm_handled s). mc_cred c = Some (0, 0))"

lemma root_accepted: "\<not> memdcd_accept l c < 0 \<Longrightarrow> l \<and> mc_cred c = Some (0, 0)"
  by (auto simp: memdcd_accept_def memdcd_socket_permission_def Let_def split: if_splits option.splits prod.splits)

lemma server_fd: "sc_fd c > 0 \<Longrightarrow> \<not> memdcd_server_init c path < 0 \<Longrightarrow> memdcd_server_init c path > 0"
  by (auto simp: memdcd_server_init_def split: if_splits)

lemma recycle_table_ok:
  "table_ok (ms_procs st) \<Longrightarrow> \<exists>st'. migrate_process_recycle now busy st = Inr st' \<and> table_ok (ms_procs st') \<and>
     length (ms_procs st') \<le> length (ms_procs st)"
  by (simp add: recycle_eq table_ok_filter)

text \<open>A step of the daemon, case by case.\<close>

lemmas daemon_eval = memdcd_daemon_start_def migrate_process_exit_def fd_inv_def close_fd_def Let_def

lemma main_handle:
  assumes "daemon_inv s" "input_ok i" "dm_pc s = D_handle n c"
  shows "\<exists>s'. memdcd_daemon_start i s = Inr s' \<and> daemon_inv s'"
proof -
  have "handled (mm_pid (mc_msg c)) (dm_table s) (handle_recv_buffer (di_env i) (mc_cmd c) (mc_msg c) n (dm_table s))"
    using assms by (intro handle_recv_buffer_handled) (auto simp: daemon_inv_def fd_inv_def input_ok_def)
  with assms show ?thesis by (auto simp: daemon_eval daemon_inv_def handled_def)
qed

lemma main_recycle:
  assumes "daemon_inv s" "dm_pc s = D_recycle"
  shows "\<exists>s'. memdcd_daemon_start i s = Inr s' \<and> daemon_inv s'"
  using assms recycle_table_ok [of "dm_table s" "ce_now (di_env i)" "ce_busy (di_env i)"]
  by (auto simp: daemon_eval daemon_inv_def)

lemma main_fd:
  assumes "fd_inv s" "input_ok i" "memdcd_daemon_start i s = Inr s'" "\<forall>n c. dm_pc s \<noteq> D_handle n c" "dm_pc s \<noteq> D_recycle"
  shows "fd_inv s' \<and> dm_table s' = dm_table s \<and> dm_handled s' = dm_handled s"
  using assms
  by (cases "dm_pc s")
    (auto simp: daemon_eval input_ok_def dest: server_fd root_accepted split: if_splits option.splits)

lemma main_total:
  assumes "daemon_inv s" "input_ok i" "dm_dead s = []"
  shows "\<exists>s'. memdcd_daemon_start i s = Inr s'"
proof (cases "(\<exists>n c. dm_pc s = D_handle n c) \<or> dm_pc s = D_recycle")
  case True
  with main_handle [OF assms(1,2)] main_recycle [OF assms(1), of i] show ?thesis by blast
next
  case False
  with assms(2,3) show ?thesis by (cases "dm_pc s") (auto simp: daemon_eval input_ok_def)
qed

lemma step_daemon_inv: "daemon_step s s' \<Longrightarrow> daemon_inv s \<Longrightarrow> daemon_inv s'"
proof (induction rule: daemon_step.induct)
  case (main i s s')
  show ?case
  proof (cases "(\<exists>n c. dm_pc s = D_handle n c) \<or> dm_pc s = D_recycle")
    case True
    with main main_handle [OF main.prems main.hyps(1)] main_recycle [OF main.prems, of i] show ?thesis by auto
  next
    case False
    with main main_fd [of s i s'] show ?thesis by (auto simp: daemon_inv_def)
  qed
next
  case (sig s)
  then show ?case by (cases "dm_pc s") (auto simp: daemon_inv_def fd_inv_def set_exit_flag_def close_fd_def Let_def)
next
  case (worker p s)
  then show ?case
    by (cases "dm_pc s") (auto simp: daemon_inv_def fd_inv_def worker_end_def table_but_remove table_ok_but)
next
  case (dies p s)
  then show ?case by (cases "dm_pc s") (auto simp: daemon_inv_def fd_inv_def worker_dies_def)
qed

lemma reach_daemon_inv: "daemon_reach s \<Longrightarrow> daemon_inv s"
proof (induction rule: daemon_reach.induct)
  case (start timeout)
  show ?case by (simp add: daemon_inv_def fd_inv_def daemon_initial_def table_ok_def)
qed (blast intro: step_daemon_inv)

section \<open>The end of the daemon\<close>

lemma length_set_process [simp]: "length (set_process pid q ps) = length ps"
  by (induction ps) auto

lemma length_remove: "length (migrate_process_remove pid ps) \<le> length ps"
  by (induction ps) auto

lemma collect_into_length:
  "collect_into pid vma stamp p ps = Inr (r, ps') \<Longrightarrow> length ps' \<le> length ps"
  using length_remove [of pid ps] length_remove [of pid "set_process pid q ps" for q]
  by (auto simp: collect_into_def Let_def split: if_splits intro: order_trans)

lemma process_add_length: "migrate_process_add pid len ps al = Inr (r, ps', al') \<Longrightarrow> length ps' \<le> Suc (length ps)"
  by (auto simp: migrate_process_add_def Let_def split: prod.splits bool.splits if_splits)

lemma collect_pages_length:
  assumes t: "table_ok (ms_procs st)" and c: "migrate_process_collect_pages env pid vma st = Inr (r, st')"
  shows "length (ms_procs st') \<le> Suc (length (ms_procs st))"
proof -
  obtain st1 where st1: "migrate_process_recycle (ce_now env) (ce_busy env) st = Inr st1" "length (ms_procs st1) \<le> length (ms_procs st)"
    using recycle_table_ok [OF t] by blast
  show ?thesis
    using c st1 length_remove [of pid "ms_procs st1"]
    by (auto simp: migrate_process_collect_pages_def Let_def split: if_splits option.splits prod.splits
        dest!: collect_into_length process_add_length)
qed

lemma get_pages_length:
  assumes t: "table_ok (ms_procs st)" and g: "migrate_process_get_pages env pid vma st = Inr (r, st')"
  shows "length (ms_procs st') \<le> Suc (length (ms_procs st))"
proof (cases "migrate_process_collect_pages env pid vma st")
  case (Inr q)
  obtain p st1 where q: "q = (p, st1)" by (cases q)
  with collect_pages_length [OF t] Inr have "length (ms_procs st1) \<le> Suc (length (ms_procs st))" by blast
  with g Inr q show ?thesis
    by (cases p; cases "ce_thread env") (auto simp: migrate_process_get_pages_def split: if_splits)
qed (use g in \<open>auto simp: migrate_process_get_pages_def split: if_splits\<close>)

lemma handle_length:
  assumes "table_ok (ms_procs st)" "handle_recv_buffer env cmd msg n st = Inr (r, st')"
  shows "length (ms_procs st') \<le> Suc (length (ms_procs st))"
  using assms get_pages_length [OF assms(1)]
  by (auto simp: handle_recv_buffer_def handle_mem_message_def Let_def split: if_splits memdcd_cmd_type.splits)

text \<open>The turns of the daemon when no more signal arrives: while it waits for a thread, the turn is the end of that thread.\<close>

definition daemon_turn :: "daemon_input \<Rightarrow> daemon \<Rightarrow> daemon c_res" where
  "daemon_turn i s =
     (if dm_pc s = D_join \<and> get_active_tid (dm_table s) \<noteq> 0 then Inr (worker_end (mp_pid (hd (ms_procs (dm_table s)))) s)
      else memdcd_daemon_start i s)"

fun daemon_turns :: "daemon_input list \<Rightarrow> daemon \<Rightarrow> daemon c_res" where
  "daemon_turns [] s = Inr s"
| "daemon_turns (i # is) s = c_bind (daemon_turn i s) (daemon_turns is)"

fun pc_rank :: "daemon_pc \<Rightarrow> nat \<Rightarrow> nat" where
  "pc_rank (D_handle n c) k = 8 + k"
| "pc_rank D_accept k = 7 + k"
| "pc_rank D_publish k = 7 + k"
| "pc_rank D_loop k = 6 + k"
| "pc_rank D_recycle k = 5 + k"
| "pc_rank D_join k = 4 + k"
| "pc_rank D_init k = 4"
| "pc_rank D_malloc k = 3"
| "pc_rank D_test k = 3"
| "pc_rank D_listen k = 2"
| "pc_rank D_close k = 2"
| "pc_rank D_check k = 1"
| "pc_rank D_reset k = 1"
| "pc_rank _ k = 0"

definition rank :: "daemon \<Rightarrow> nat" where
  "rank s = pc_rank (dm_pc s) (length (ms_procs (dm_table s)))"

text \<open>The messages handled and about to be handled.\<close>

definition taken :: "daemon \<Rightarrow> nat" where
  "taken s = length (dm_handled s) + (case dm_pc s of D_handle _ _ \<Rightarrow> 1 | _ \<Rightarrow> 0)"

definition ending :: "daemon \<Rightarrow> bool" where
  "ending s \<longleftrightarrow> daemon_inv s \<and> dm_exit s \<and> dm_dead s = []"

lemma turn_is_step: "input_ok i \<Longrightarrow> daemon_turn i s = Inr s' \<Longrightarrow> daemon_step s s'"
proof (cases "dm_pc s = D_join \<and> get_active_tid (dm_table s) \<noteq> 0")
  case True
  then have "hd (ms_procs (dm_table s)) \<in> set (ms_procs (dm_table s))" "mp_worker (hd (ms_procs (dm_table s))) \<noteq> 0"
    by (auto simp: get_active_tid_def split: list.splits)
  moreover assume "daemon_turn i s = Inr s'"
  ultimately show ?thesis using True by (auto simp: daemon_turn_def intro: daemon_step.worker)
qed (auto simp: daemon_turn_def intro: daemon_step.main)

lemma turn_other:
  assumes "ending s" "daemon_turn i s = Inr s'" "\<forall>n c. dm_pc s \<noteq> D_handle n c" "dm_pc s \<noteq> D_recycle"
  shows "dm_exit s' \<and> dm_dead s' = [] \<and> (rank s' < rank s \<or> dm_pc s = D_done \<and> s' = s) \<and> taken s' \<le> taken s"
  using assms
  by (cases "dm_pc s")
    (auto simp: daemon_turn_def daemon_eval ending_def daemon_inv_def rank_def taken_def worker_end_def get_active_tid_def memdcd_accept_def
      split: if_splits option.splits list.splits)

lemma turn_ending:
  assumes e: "ending s" and i: "input_ok i"
  shows "\<exists>s'. daemon_turn i s = Inr s' \<and> ending s' \<and> (rank s' < rank s \<or> dm_pc s = D_done \<and> s' = s) \<and> taken s' \<le> taken s"
proof -
  obtain s' where s': "daemon_turn i s = Inr s'"
    using main_total [of s i] e i by (cases "dm_pc s = D_join \<and> get_active_tid (dm_table s) \<noteq> 0") (auto simp: daemon_turn_def ending_def)
  have inv: "daemon_inv s'" using step_daemon_inv [OF turn_is_step [OF i s']] e by (simp add: ending_def)
  have "dm_exit s' \<and> dm_dead s' = [] \<and> (rank s' < rank s \<or> dm_pc s = D_done \<and> s' = s) \<and> taken s' \<le> taken s"
  proof (cases "(\<exists>n c. dm_pc s = D_handle n c) \<or> dm_pc s = D_recycle")
    case True
    have t: "table_ok (ms_procs (dm_table s))" using e by (simp add: ending_def daemon_inv_def)
    from True s' e handle_length [OF t] recycle_table_ok [OF t, of "ce_now (di_env i)" "ce_busy (di_env i)"] show ?thesis
      by (fastforce simp: daemon_turn_def daemon_eval ending_def rank_def taken_def less_Suc_eq_le)
  next
    case False
    with turn_other [OF e s'] show ?thesis by blast
  qed
  with s' inv show ?thesis by (auto simp: ending_def)
qed

lemma done_stays: "dm_pc s = D_done \<Longrightarrow> daemon_turns is s = Inr s"
  by (induction "is") (simp_all add: daemon_turn_def memdcd_daemon_start_def)

lemma turns_end:
  "ending s \<Longrightarrow> list_all input_ok is \<Longrightarrow> rank s \<le> length is \<Longrightarrow>
   \<exists>s'. daemon_turns is s = Inr s' \<and> dm_pc s' = D_done \<and> ending s' \<and> taken s' \<le> taken s"
proof (induction "is" arbitrary: s)
  case Nil
  then have "dm_pc s = D_done \<or> dm_pc s = D_start" by (cases "dm_pc s") (auto simp: rank_def)
  with Nil show ?case by (auto simp: ending_def daemon_inv_def fd_inv_def)
next
  case (Cons i "is")
  then have i: "input_ok i" "list_all input_ok is" by simp_all
  obtain s' where s': "daemon_turn i s = Inr s'" "ending s'" "rank s' < rank s \<or> dm_pc s = D_done \<and> s' = s" "taken s' \<le> taken s"
    using turn_ending [OF Cons.prems(1) i(1)] by blast
  show ?case
  proof (cases "dm_pc s = D_done")
    case True
    with done_stays [OF this, of "i # is"] Cons.prems(1) show ?thesis by blast
  next
    case False
    with s' Cons.prems(3) have "rank s' \<le> length is" by simp
    from Cons.IH [OF s'(2) i(2) this] s' show ?thesis by (auto intro: order_trans)
  qed
qed

section \<open>Properties\<close>




text \<open>The daemon is started only with a policy file, and with a timeout that is not negative.\<close>

lemma parse_opts_timeout:
  "memdcd_parse_opts args o' = Inr o2 \<Longrightarrow> (\<forall>t. mo_timeout o' = Some t \<longrightarrow> 0 \<le> t) \<Longrightarrow> mo_timeout o2 = Some t \<Longrightarrow> 0 \<le> t"
  by (induction args o' rule: memdcd_parse_opts.induct) (auto split: if_splits prod.splits)

lemma memdcd_main_started:
  assumes "memdcd_main args cap policy = Inr (path, timeout)"
  shows "cap = 0 \<and> 0 \<le> timeout \<and> (\<exists>file. policy file = 0)"
  using assms parse_opts_timeout [of args default_opts]
  by (auto simp: memdcd_main_def default_opts_def split: sum.splits option.splits if_splits)

section \<open>A daemon on concrete values\<close>

definition sample_conn :: mem_conn where
  "sample_conn = \<lparr>mc_accept = True, mc_cred = Some (0, 0), mc_recv = 12336, mc_cmd = MEMDCD_CMD_MEM,
     mc_msg = memdcd_msg 7 2 MEMDCD_SEND_START [zero_vma_addr]\<rparr>"

definition sample_daemon_input :: daemon_input where
  "sample_daemon_input = \<lparr>di_path = Some ''@_memdcd.server'', di_sock = \<lparr>sc_fd = 3, sc_opts = [True, True, True], sc_bind = (\<lambda>_. True)\<rparr>,
     di_malloc = True, di_listen = True, di_conn = sample_conn, di_env = router_env\<rparr>"

lemma sample_input_ok: "input_ok sample_daemon_input"
  by (simp add: input_ok_def sample_daemon_input_def sample_conn_def memdcd_msg_def pad_vma_addrs_def router_statm)

lemma reach_turns: "daemon_reach s \<Longrightarrow> list_all input_ok is \<Longrightarrow> daemon_turns is s = Inr s' \<Longrightarrow> daemon_reach s'"
proof (induction "is" arbitrary: s)
  case (Cons i "is")
  then obtain s1 where "daemon_turn i s = Inr s1" "daemon_turns is s1 = Inr s'" by auto
  with Cons daemon_reach.step [OF Cons.prems(1) turn_is_step] show ?case by auto
qed simp

text \<open>A message has been accepted and is about to be handled.\<close>

definition daemon_accepted :: daemon where
  "daemon_accepted = (daemon_initial 3)\<lparr>dm_pc := D_handle 12336 sample_conn, dm_gfd := 3, dm_fd := 3, dm_open := True\<rparr>"

lemma daemon_accepted_reach: "daemon_reach daemon_accepted"
proof -
  have "daemon_turns (replicate 8 sample_daemon_input) (daemon_initial 3) = Inr daemon_accepted"
    by (simp add: numeral_eq_Suc daemon_turn_def memdcd_daemon_start_def daemon_initial_def sample_daemon_input_def daemon_accepted_def
        memdcd_server_init_def set_socket_option_def memdcd_accept_def memdcd_socket_permission_def sample_conn_def)
  with reach_turns [OF daemon_reach.start [of 3], of "replicate 8 sample_daemon_input"] show ?thesis
    by (simp add: list_all_iff sample_input_ok)
qed

definition daemon_signalled :: daemon where
  "daemon_signalled = daemon_accepted\<lparr>dm_exit := True, dm_gfd := -1, dm_open := False\<rparr>"

lemma daemon_signalled_reach: "daemon_reach daemon_signalled"
proof -
  have "daemon_step daemon_accepted ((set_exit_flag daemon_accepted)\<lparr>dm_late := dm_late daemon_accepted \<or> dm_pc daemon_accepted = D_reset\<rparr>)"
    by (rule daemon_step.sig) (simp add: daemon_accepted_def)
  with daemon_reach.step [OF daemon_accepted_reach] show ?thesis
    by (simp add: set_exit_flag_def close_fd_def daemon_signalled_def daemon_accepted_def daemon_initial_def)
qed




end
