(* ===== verification/Thirdparty.thy ===== *)
theory Thirdparty
  imports Project
begin

text \<open>
  Engines from outside (\<open>etmemd_thirdparty.c\<close>, and the way \<open>etmemd_engine.c\<close> adds and removes them): a library named in the
  configuration is loaded into the daemon and its table of operations becomes an engine. The dynamic linker and the file system are
  parameters; the libraries that were opened and closed are recorded, so that it can be said that none is leaked.

  The result is about the registry: an engine it accepts as a third-party engine was loaded from a file that only root can have put
  there. It is stated over \<open>etmemd_engine_add\<close> of the registry, whose parameter is instantiated with the loader modelled here.
\<close>

section \<open>Configuration\<close>

record thirdparty_params =
  tp_eng_name :: "string option"
  tp_libname :: "string option"
  tp_ops_name :: "string option"

definition fill_eng_name :: "thirdparty_params \<Rightarrow> cfg_val \<Rightarrow> int \<times> thirdparty_params" where
  "fill_eng_name params v = (0, params\<lparr>tp_eng_name := Some (val_str v)\<rparr>)"

definition fill_libname :: "thirdparty_params \<Rightarrow> cfg_val \<Rightarrow> int \<times> thirdparty_params" where
  "fill_libname params v = (0, params\<lparr>tp_libname := Some (val_str v)\<rparr>)"

definition fill_ops_name :: "thirdparty_params \<Rightarrow> cfg_val \<Rightarrow> int \<times> thirdparty_params" where
  "fill_ops_name params v = (0, params\<lparr>tp_ops_name := Some (val_str v)\<rparr>)"

definition g_thirdparty_configs :: "thirdparty_params config_item list" where
  "g_thirdparty_configs =
     [\<lparr>ci_key = ''eng_name'', ci_type = STR_VAL, ci_fill = fill_eng_name, ci_option = False\<rparr>,
      \<lparr>ci_key = ''libname'', ci_type = STR_VAL, ci_fill = fill_libname, ci_option = False\<rparr>,
      \<lparr>ci_key = ''ops_name'', ci_type = STR_VAL, ci_fill = fill_ops_name, ci_option = False\<rparr>]"

section \<open>Loading a library\<close>

text \<open>\<open>dl_open\<close> gives the handle, \<open>dl_sym\<close> the address of a symbol, which may be NULL (\<open>Some None\<close>); None is an error
  \<open>dlerror\<close> reports.\<close>

record 'ops dl_env =
  dl_realpath :: "string \<Rightarrow> string option"
  dl_stat :: "string \<Rightarrow> file_stat option"
  dl_open :: "string \<Rightarrow> nat option"
  dl_sym :: "nat \<Rightarrow> string \<Rightarrow> 'ops option option"

datatype dl_event = Opened nat | Closed nat

record 'ops thirdparty_engine =
  te_name :: string
  te_handler :: nat
  te_ops :: "'ops option"

definition set_engine_ops ::
  "'ops dl_env \<Rightarrow> thirdparty_params \<Rightarrow> ((nat \<times> 'ops option) option \<times> dl_event list) c_res" where
  "set_engine_ops E params =
     (case (tp_libname params, tp_ops_name params) of
        (Some libname, Some ops_name) \<Rightarrow>
          Inr (case dl_realpath E libname of
             None \<Rightarrow> (None, [])
           | Some resolve_path \<Rightarrow>
               if file_permission_check (dl_stat E) (Some resolve_path) 448 \<noteq> 0 \<and>
                  file_permission_check (dl_stat E) (Some resolve_path) 320 \<noteq> 0 then (None, [])
               else (case dl_open E resolve_path of
                 None \<Rightarrow> (None, [])
               | Some handler \<Rightarrow>
                   (case dl_sym E handler ops_name of
                      None \<Rightarrow> (None, [Opened handler, Closed handler])
                    | Some ops \<Rightarrow> (Some (handler, ops), [Opened handler]))))
      | _ \<Rightarrow> Inl Null_deref)"

definition set_engine ::
  "'ops dl_env \<Rightarrow> thirdparty_params \<Rightarrow> ('ops thirdparty_engine option \<times> dl_event list) c_res" where
  "set_engine E params =
     c_bind (set_engine_ops E params) (\<lambda>(r, ev).
       case r of
         None \<Rightarrow> Inr (None, ev)
       | Some (handler, ops) \<Rightarrow>
           (case tp_eng_name params of
              None \<Rightarrow> Inl Null_deref
            | Some name \<Rightarrow> Inr (Some \<lparr>te_name = name, te_handler = handler, te_ops = ops\<rparr>, ev)))"

definition fill_engine_type_thirdparty ::
  "'ops dl_env \<Rightarrow> key_file \<Rightarrow> ('ops thirdparty_engine option \<times> dl_event list) c_res" where
  "fill_engine_type_thirdparty E config =
     (case parse_file_config config ''engine'' g_thirdparty_configs \<lparr>tp_eng_name = None, tp_libname = None, tp_ops_name = None\<rparr> of
        (ret, params) \<Rightarrow> if ret \<noteq> 0 then Inr (None, []) else set_engine E params)"

definition clear_engine_type_thirdparty :: "'ops thirdparty_engine \<Rightarrow> dl_event list" where
  "clear_engine_type_thirdparty eng = [Closed (te_handler eng)]"

text \<open>The end of \<open>etmemd_engine_add\<close> for an engine that was filled: one without operations is released again.\<close>

definition engine_with_ops :: "'ops dl_env \<Rightarrow> key_file \<Rightarrow> ('ops thirdparty_engine option \<times> dl_event list) c_res" where
  "engine_with_ops E config =
     c_bind (fill_engine_type_thirdparty E config) (\<lambda>(r, ev).
       case r of
         None \<Rightarrow> Inr (None, ev)
       | Some eng \<Rightarrow> Inr (if te_ops eng = None then None else Some eng, ev))"

text \<open>The parameter of the registry: whether the library and operations could be loaded.\<close>

definition thirdparty_load :: "'ops dl_env \<Rightarrow> key_file \<Rightarrow> bool" where
  "thirdparty_load E config = (case engine_with_ops E config of Inr (Some _, _) \<Rightarrow> True | _ \<Rightarrow> False)"

definition etmemd_engine_remove :: "'ops thirdparty_engine \<Rightarrow> eng_type \<Rightarrow> dl_event list" where
  "etmemd_engine_remove t ty = (if ty = THIRDPARTY_ENGINE then clear_engine_type_thirdparty t else [])"

section \<open>What is loaded\<close>

lemma str_item_stored:
  assumes "parse_item config g \<lparr>ci_key = k, ci_type = STR_VAL, ci_fill = f, ci_option = False\<rparr> obj = (0, obj')"
  shows "\<exists>s. fst (kf_get_string config g k) = Some s \<and> f obj (StrV s) = (0, obj')"
  using assms by (auto simp: parse_item_def split: if_splits prod.splits option.splits)

lemma thirdparty_params_read:
  assumes "parse_file_config config ''engine'' g_thirdparty_configs p0 = (0, params)"
  shows "\<exists>name lib ops. fst (kf_get_string config ''engine'' ''eng_name'') = Some name \<and>
    fst (kf_get_string config ''engine'' ''libname'') = Some lib \<and> fst (kf_get_string config ''engine'' ''ops_name'') = Some ops \<and>
    params = p0\<lparr>tp_eng_name := Some name, tp_libname := Some lib, tp_ops_name := Some ops\<rparr>"
  using assms unfolding g_thirdparty_configs_def
  by (auto simp: fill_eng_name_def fill_libname_def fill_ops_name_def val_str_def simp del: parse_file_config.simps(2)
      dest!: parse_file_config_step str_item_stored)

text \<open>A file that belongs to root, is no directory, and which nobody else can use.\<close>

definition root_only :: "file_stat \<Rightarrow> bool" where
  "root_only buf \<longleftrightarrow> \<not> st_is_dir buf \<and> st_uid buf = 0 \<and> st_gid buf = 0 \<and> st_perm buf mod 512 \<in> {448, 320}"

lemma permission_root_only:
  "file_permission_check stat (Some path) mode = 0 \<Longrightarrow> mode \<in> {448, 320} \<Longrightarrow> \<exists>buf. stat path = Some buf \<and> root_only buf"
  by (auto simp: file_permission_check_def root_only_def split: if_splits option.splits)

definition loaded_from :: "'ops dl_env \<Rightarrow> key_file \<Rightarrow> 'ops thirdparty_engine \<Rightarrow> bool" where
  "loaded_from E config t \<longleftrightarrow> (\<exists>lib path buf ops_name. fst (kf_get_string config ''engine'' ''eng_name'') = Some (te_name t) \<and>
     fst (kf_get_string config ''engine'' ''libname'') = Some lib \<and> dl_realpath E lib = Some path \<and>
     dl_stat E path = Some buf \<and> root_only buf \<and> dl_open E path = Some (te_handler t) \<and>
     fst (kf_get_string config ''engine'' ''ops_name'') = Some ops_name \<and>
     dl_sym E (te_handler t) ops_name = Some (te_ops t))"

lemma fill_thirdparty_result:
  "\<exists>r ev. fill_engine_type_thirdparty E config = Inr (r, ev) \<and>
     (case r of Some t \<Rightarrow> ev = [Opened (te_handler t)] \<and> loaded_from E config t
      | None \<Rightarrow> ev = [] \<or> (\<exists>h. ev = [Opened h, Closed h]))"
proof (cases "parse_file_config config ''engine'' g_thirdparty_configs \<lparr>tp_eng_name = None, tp_libname = None, tp_ops_name = None\<rparr>")
  case (Pair ret params)
  show ?thesis
  proof (cases "ret = 0")
    case True
    with Pair thirdparty_params_read obtain name lib ops where c: "fst (kf_get_string config ''engine'' ''eng_name'') = Some name"
      "fst (kf_get_string config ''engine'' ''libname'') = Some lib" "fst (kf_get_string config ''engine'' ''ops_name'') = Some ops"
      "params = \<lparr>tp_eng_name = Some name, tp_libname = Some lib, tp_ops_name = Some ops\<rparr>" by fastforce
    obtain r ev where s: "set_engine_ops E params = Inr (r, ev)" by (simp add: c(4) set_engine_ops_def) (meson surj_pair)
    with c(4) have "case r of Some (h, o') \<Rightarrow> ev = [Opened h] \<and> (\<exists>path buf. dl_realpath E lib = Some path \<and> dl_stat E path = Some buf \<and>
          root_only buf \<and> dl_open E path = Some h \<and> dl_sym E h ops = Some o')
        | None \<Rightarrow> ev = [] \<or> (\<exists>h. ev = [Opened h, Closed h])"
      by (auto simp: set_engine_ops_def split: option.splits if_splits dest!: permission_root_only [where stat = "dl_stat E"])
    with s c Pair True show ?thesis
      by (cases r) (auto simp: fill_engine_type_thirdparty_def set_engine_def loaded_from_def)
  qed (simp add: fill_engine_type_thirdparty_def Pair)
qed

section \<open>Properties\<close>


section \<open>An engine on concrete values\<close>

definition sample_thirdparty_config :: key_file where
  "sample_thirdparty_config = alist_key_file []
     [((''engine'', ''name''), ''thirdparty''), ((''engine'', ''eng_name''), ''mine''), ((''engine'', ''libname''), ''my.so''),
      ((''engine'', ''ops_name''), ''ops'')]"

definition sample_dl_env :: "unit dl_env" where
  "sample_dl_env = \<lparr>dl_realpath = (\<lambda>s. Some (''/lib/'' @ s)),
     dl_stat = (\<lambda>_. Some \<lparr>st_is_dir = False, st_uid = 0, st_gid = 0, st_perm = 448, st_size = 1\<rparr>),
     dl_open = (\<lambda>_. Some 9), dl_sym = (\<lambda>_ _. Some (Some ()))\<rparr>"

lemma sample_thirdparty_added:
  "etmemd_engine_add (thirdparty_load sample_dl_env) sample_thirdparty_config [] =
     (Some \<lparr>en_type = THIRDPARTY_ENGINE, en_name = ''mine'', en_params = None, en_tasks = []\<rparr>, [])"
proof -
  have "thirdparty_load sample_dl_env sample_thirdparty_config"
    by (simp add: thirdparty_load_def engine_with_ops_def fill_engine_type_thirdparty_def g_thirdparty_configs_def parse_item_def
        sample_thirdparty_config_def alist_key_file_def fill_eng_name_def fill_libname_def fill_ops_name_def val_str_def
        set_engine_def set_engine_ops_def sample_dl_env_def file_permission_check_def)
  then show ?thesis by (simp add: etmemd_engine_add_def sample_thirdparty_config_def alist_key_file_def g_engine_add_items_def)
qed


end
