(* ===== verification/Etmemd_Main.thy ===== *)
theory Etmemd_Main
  imports Etmemd_Rpc
begin

text \<open>
  The start of the daemon: its command line (\<open>etmemd_common.c\<close>, \<open>etmemd_log.c\<close>), the socket and the hand-shake with the parent in
  systemctl mode (\<open>etmemd_rpc.c\<close>), and \<open>main\<close> (\<open>etmemd.c\<close>). The options \<open>getopt_long\<close> delivers and what the system calls return
  are parameters.

  In systemctl mode the daemon is a child process; its parent writes the process number to a file and waits until the child reports over
  a socket pair that it is listening. The two processes are interleaved in a step relation. The loop of the server is the subject of
  \<open>Etmemd_Rpc\<close>.
\<close>

section \<open>The command line\<close>

text \<open>The static variables that are set: \<open>g_sock_name\<close>, \<open>g_log_level\<close> and \<open>g_use_systemctl\<close>.\<close>

record etmemd_args =
  da_sock :: "string option"
  da_level :: int
  da_systemctl :: bool

abbreviation (input) ETMEMD_LOG_INVAL :: int where "ETMEMD_LOG_INVAL \<equiv> 4"

definition etmemd_init_log_level :: "int \<Rightarrow> etmemd_args \<Rightarrow> int \<times> etmemd_args" where
  "etmemd_init_log_level level st = (if level < 0 \<or> level \<ge> ETMEMD_LOG_INVAL then (-1, st) else (0, st\<lparr>da_level := level\<rparr>))"

definition etmemd_deal_systemctl :: "etmemd_args \<Rightarrow> int \<times> etmemd_args" where
  "etmemd_deal_systemctl st = (0, st\<lparr>da_systemctl := True\<rparr>)"

definition etmemd_sock_name_set :: "etmemd_args \<Rightarrow> bool" where
  "etmemd_sock_name_set st = (da_sock st \<noteq> None)"

definition etmemd_sock_name_free :: "etmemd_args \<Rightarrow> etmemd_args" where
  "etmemd_sock_name_free st = st\<lparr>da_sock := None\<rparr>"

text \<open>The return value, \<open>is_help\<close> and the variables.\<close>

definition etmemd_parse_opts_valid :: "securec \<Rightarrow> alloc \<Rightarrow> char \<Rightarrow> string \<Rightarrow> etmemd_args \<Rightarrow> int \<times> bool \<times> etmemd_args" where
  "etmemd_parse_opts_valid S al opt optarg st =
     (if opt = CHR ''s'' then
        if etmemd_sock_name_set st then (-1, False, st)
        else (case etmemd_parse_sock_name S (Some optarg) al of (ret, name) \<Rightarrow> (ret, False, st\<lparr>da_sock := name\<rparr>))
      else if opt = CHR ''l'' then
        (case get_int_value optarg of
           None \<Rightarrow> (-1, False, st)
         | Some param \<Rightarrow> (case etmemd_init_log_level param st of (ret, st') \<Rightarrow> (ret, False, st')))
      else if opt = CHR ''h'' then (0, True, st)
      else if opt = CHR ''m'' then (case etmemd_deal_systemctl st of (ret, st') \<Rightarrow> (ret, False, st'))
      else (-1, False, st))"

definition etmemd_parse_check_result :: "nat \<Rightarrow> nat \<Rightarrow> bool \<Rightarrow> etmemd_args \<Rightarrow> int" where
  "etmemd_parse_check_result params_cnt argc is_help st =
     (if (params_cnt = 0 \<and> argc > 1) \<or> (is_help \<and> argc > 2) \<or> (params_cnt > 0 \<and> \<not> is_help \<and> argc - 1 > params_cnt * 2) then -1
      else if \<not> etmemd_sock_name_set st \<and> \<not> is_help then -1
      else 0)"

text \<open>The loop over the options: None when an option was refused, else their number, \<open>is_help\<close> and the variables.\<close>

fun parse_opts_loop ::
  "securec \<Rightarrow> alloc \<Rightarrow> (char \<times> string) list \<Rightarrow> nat \<Rightarrow> bool \<Rightarrow> etmemd_args \<Rightarrow> (nat \<times> bool \<times> etmemd_args) option" where
  "parse_opts_loop S al [] params_cnt is_help st = Some (params_cnt, is_help, st)"
| "parse_opts_loop S al ((opt, optarg) # opts) params_cnt is_help st =
     (case etmemd_parse_opts_valid S al opt optarg st of
        (ret, is_help', st') \<Rightarrow>
          if ret \<noteq> 0 then None
          else if is_help' then Some (Suc params_cnt, True, st')
          else parse_opts_loop S al opts (Suc params_cnt) False st')"

abbreviation (input) ETMEMD_MAX_PARAMETER_NUM :: nat where "ETMEMD_MAX_PARAMETER_NUM \<equiv> 6"

definition etmemd_parse_cmdline ::
  "securec \<Rightarrow> alloc \<Rightarrow> nat \<Rightarrow> (char \<times> string) list \<Rightarrow> etmemd_args \<Rightarrow> int \<times> bool \<times> etmemd_args" where
  "etmemd_parse_cmdline S al argc opts st =
     (if argc > ETMEMD_MAX_PARAMETER_NUM then (-1, False, st)
      else case parse_opts_loop S al opts 0 False st of
        None \<Rightarrow> (-1, False, st)
      | Some (params_cnt, is_help, st') \<Rightarrow>
          if etmemd_parse_check_result params_cnt argc is_help st' \<noteq> 0 then (-1, is_help, etmemd_sock_name_free st')
          else (0, is_help, st'))"

definition initial_args :: etmemd_args where
  "initial_args = \<lparr>da_sock = None, da_level = 3, da_systemctl = False\<rparr>"

section \<open>The socket\<close>

text \<open>The descriptor of \<open>socket\<close> or a negative number, the outcomes of the three options, and whether an address could be bound.\<close>

record rpc_calls =
  ec_fd :: int
  ec_opts :: "bool list"
  ec_bind :: "string \<Rightarrow> bool"

definition etmemd_rpc_set :: "bool list \<Rightarrow> int" where
  "etmemd_rpc_set oks = (if list_all id oks then 0 else -1)"

text \<open>\<open>memcpy_s\<close> refuses a name that is longer than the address; its first byte is replaced by 0.\<close>

definition etmemd_rpc_init :: "rpc_calls \<Rightarrow> string \<Rightarrow> int" where
  "etmemd_rpc_init c sock_name =
     (if ec_fd c < 0 then -1
      else if length sock_name > 108 then -1
      else if etmemd_rpc_set (ec_opts c) \<noteq> 0 then -1
      else if \<not> ec_bind c (c_nul # tl sock_name) then -1
      else ec_fd c)"

section \<open>The hand-shake\<close>

text \<open>Where the parent stands in \<open>rpc_deal_parent\<close> behind \<open>fork\<close>, and the child in \<open>etmemd_rpc_server\<close>.\<close>

datatype parent_pc = P_open | P_print | P_write string | P_read | P_exit int

datatype child_pc = C_absent | C_name | C_init | C_listen | C_notify | C_serve | C_ended

text \<open>\<open>bt_fork\<close> is what \<open>fork\<close> has returned to the parent, \<open>bt_pipe\<close> the number of reports in the socket pair; the ghost field
  \<open>bt_ready\<close> tells whether the child has been listening.\<close>

record boot =
  bt_parent :: parent_pc
  bt_child :: child_pc
  bt_fork :: int
  bt_pidfile :: "string option"
  bt_pipe :: nat
  bt_ready :: bool

record boot_input =
  bi_open :: bool
  bi_write :: bool
  bi_calls :: rpc_calls
  bi_listen :: bool
  bi_report :: bool

text \<open>A step of the parent. \<open>read\<close> waits for a report and ends without one when the child is gone.\<close>

definition rpc_deal_parent :: "securec \<Rightarrow> boot_input \<Rightarrow> boot \<Rightarrow> boot" where
  "rpc_deal_parent S i s =
     (case bt_parent s of
        P_open \<Rightarrow> s\<lparr>bt_parent := (if \<not> bi_open i then P_exit 1 else P_print)\<rparr>
      | P_print \<Rightarrow>
          (case sec_sprintf_s S PID_STR_MAX_LEN (int_text (bt_fork s)) of
             (len, pid_s) \<Rightarrow> s\<lparr>bt_parent := (if len \<le> 0 then P_exit 1 else P_write pid_s)\<rparr>)
      | P_write pid_s \<Rightarrow>
          if \<not> bi_write i then s\<lparr>bt_parent := P_exit 1\<rparr> else s\<lparr>bt_pidfile := Some pid_s, bt_parent := P_read\<rparr>
      | P_read \<Rightarrow>
          if bt_pipe s > 0 then s\<lparr>bt_parent := P_exit 0\<rparr>
          else if bt_child s = C_absent \<or> bt_child s = C_ended then s\<lparr>bt_parent := P_exit 1\<rparr>
          else s
      | P_exit c \<Rightarrow> s)"

definition rpc_deal_child :: "boot_input \<Rightarrow> boot \<Rightarrow> boot" where
  "rpc_deal_child i s = (if \<not> bi_report i then s\<lparr>bt_child := C_ended\<rparr> else s\<lparr>bt_pipe := Suc (bt_pipe s), bt_child := C_serve\<rparr>)"

text \<open>A step of the child, up to the loop over the connections.\<close>

definition etmemd_rpc_server :: "etmemd_args \<Rightarrow> boot_input \<Rightarrow> boot \<Rightarrow> boot" where
  "etmemd_rpc_server st i s =
     (case bt_child s of
        C_name \<Rightarrow> s\<lparr>bt_child := (if \<not> etmemd_sock_name_set st then C_ended else C_init)\<rparr>
      | C_init \<Rightarrow> s\<lparr>bt_child := (if etmemd_rpc_init (bi_calls i) (the (da_sock st)) < 0 then C_ended else C_listen)\<rparr>
      | C_listen \<Rightarrow> if \<not> bi_listen i then s\<lparr>bt_child := C_ended\<rparr> else s\<lparr>bt_ready := True, bt_child := C_notify\<rparr>
      | C_notify \<Rightarrow> rpc_deal_child i s
      | _ \<Rightarrow> s)"

text \<open>The child may also be ended by a signal.\<close>

inductive boot_step :: "securec \<Rightarrow> etmemd_args \<Rightarrow> boot \<Rightarrow> boot \<Rightarrow> bool" for S st where
  parent: "boot_step S st s (rpc_deal_parent S i s)"
| child: "boot_step S st s (etmemd_rpc_server st i s)"
| killed: "bt_child s \<noteq> C_absent \<Longrightarrow> boot_step S st s (s\<lparr>bt_child := C_ended\<rparr>)"

text \<open>After \<open>fork\<close>: it has failed or returned the number of the child.\<close>

definition forked :: "int \<Rightarrow> boot" where
  "forked pid = \<lparr>bt_parent = P_open, bt_child = (if pid < 0 then C_absent else C_name), bt_fork = pid, bt_pidfile = None, bt_pipe = 0,
     bt_ready = False\<rparr>"

inductive boot_reach :: "securec \<Rightarrow> etmemd_args \<Rightarrow> boot \<Rightarrow> bool" for S st where
  start: "pid = -1 \<or> 0 < pid \<and> pid < 2 ^ 22 \<Longrightarrow> boot_reach S st (forked pid)"
| step: "boot_reach S st s \<Longrightarrow> boot_step S st s s' \<Longrightarrow> boot_reach S st s'"

text \<open>\<open>main\<close>: the exit code, and whether the server was run and all projects stopped afterwards. \<open>pagesize\<close> is the result of
  \<open>init_g_page_size\<close>.\<close>

definition etmemd_main :: "securec \<Rightarrow> alloc \<Rightarrow> nat \<Rightarrow> (char \<times> string) list \<Rightarrow> int \<Rightarrow> int \<times> bool" where
  "etmemd_main S al argc opts pagesize =
     (case etmemd_parse_cmdline S al argc opts initial_args of
        (ret, is_help, st) \<Rightarrow>
          if ret \<noteq> 0 then (-1, False)
          else if is_help then (0, False)
          else if pagesize = -1 then (-1, False)
          else (0, True))"

section \<open>Lemmas\<close>

lemma sock_name_text: "securec_ok S \<Longrightarrow> etmemd_parse_sock_name S (Some name) al = (0, n) \<Longrightarrow>
   n = Some (CHR ''@'' # name) \<and> 0 < length name \<and> length name < 107"
  by (auto simp: etmemd_parse_sock_name_def securec_ok_def split: if_splits prod.splits)

text \<open>What holds of the variables after some of the options: one socket name at most, and a level of the table.\<close>

definition args_ok :: "(char \<times> string) list \<Rightarrow> etmemd_args \<Rightarrow> bool" where
  "args_ok opts st \<longleftrightarrow> 0 \<le> da_level st \<and> da_level st \<le> 3 \<and>
     (case da_sock st of
        None \<Rightarrow> filter (\<lambda>x. fst x = CHR ''s'') opts = []
      | Some n \<Rightarrow> \<exists>name. filter (\<lambda>x. fst x = CHR ''s'') opts = [(CHR ''s'', name)] \<and> n = CHR ''@'' # name \<and>
          0 < length name \<and> length name < 107)"

lemma opt_args_ok:
  assumes "securec_ok S" "args_ok seen st" "etmemd_parse_opts_valid S al opt optarg st = (0, h, st')"
  shows "args_ok (seen @ [(opt, optarg)]) st'"
  using assms sock_name_text [OF assms(1), of optarg al]
  by (auto simp: etmemd_parse_opts_valid_def args_ok_def etmemd_sock_name_set_def etmemd_init_log_level_def etmemd_deal_systemctl_def
      split: if_splits option.splits prod.splits)

lemma loop_args_ok:
  assumes "securec_ok S"
  shows "args_ok seen st \<Longrightarrow> parse_opts_loop S al opts n h st = Some (m, False, st') \<Longrightarrow> args_ok (seen @ opts) st'"
proof (induction opts arbitrary: seen n h st)
  case (Cons x opts)
  obtain opt optarg where x: "x = (opt, optarg)" by (cases x)
  obtain r h' s1 where v: "etmemd_parse_opts_valid S al opt optarg st = (r, h', s1)" by (cases "etmemd_parse_opts_valid S al opt optarg st")
  with Cons.prems(2) x have "r = 0" "\<not> h'" "parse_opts_loop S al opts (Suc n) False s1 = Some (m, False, st')" by (auto split: if_splits)
  with Cons.IH [of "seen @ [x]" s1] opt_args_ok [OF assms Cons.prems(1)] v x show ?case by simp
qed simp

text \<open>The invariant of the hand-shake.\<close>

definition boot_inv :: "securec \<Rightarrow> boot \<Rightarrow> bool" where
  "boot_inv S s \<longleftrightarrow> (bt_fork s = -1 \<and> bt_child s = C_absent \<or> 0 < bt_fork s \<and> bt_fork s < 2 ^ 22) \<and>
     (bt_pipe s > 0 \<longrightarrow> bt_ready s \<and> 0 < bt_fork s) \<and> (bt_child s = C_notify \<or> bt_child s = C_serve \<longrightarrow> bt_ready s) \<and>
     (bt_child s = C_serve \<longrightarrow> bt_pipe s > 0) \<and>
     (case bt_parent s of
        P_write t \<Rightarrow> t = int_text (bt_fork s)
      | P_read \<Rightarrow> bt_pidfile s = Some (int_text (bt_fork s))
      | P_exit c \<Rightarrow> c = 0 \<longrightarrow> bt_pidfile s = Some (int_text (bt_fork s)) \<and> bt_pipe s > 0
      | _ \<Rightarrow> True)"

lemma pid_text_fits:
  assumes "bt_fork s = -1 \<or> 0 < bt_fork s \<and> bt_fork s < 2 ^ 22"
  shows "0 < length (int_text (bt_fork s)) \<and> length (int_text (bt_fork s)) < 10"
proof -
  have "length (nat_to_base 10 (nat (bt_fork s))) \<le> 7" "length (nat_to_base 10 (nat (- bt_fork s))) \<le> 7"
    using assms by (intro nat_to_base_length; auto)+
  then show ?thesis by (auto simp: int_text_def nat_to_base_nonempty)
qed

lemma parent_inv: "securec_ok S \<Longrightarrow> boot_inv S s \<Longrightarrow> boot_inv S (rpc_deal_parent S i s)"
proof (cases "bt_parent s")
  case P_print
  assume a: "securec_ok S" "boot_inv S s"
  then have "bt_fork s = -1 \<or> 0 < bt_fork s \<and> bt_fork s < 2 ^ 22" by (auto simp: boot_inv_def)
  from pid_text_fits [OF this] a(1) have "sec_sprintf_s S 10 (int_text (bt_fork s)) = (int (length (int_text (bt_fork s))), int_text (bt_fork s))"
    by (simp add: securec_ok_def)
  with a(2) P_print show ?thesis by (simp add: rpc_deal_parent_def boot_inv_def)
qed (auto simp: rpc_deal_parent_def boot_inv_def)

lemma child_inv: "boot_inv S s \<Longrightarrow> boot_inv S (etmemd_rpc_server st i s)"
  by (cases "bt_child s"; cases "bt_parent s") (auto simp: etmemd_rpc_server_def rpc_deal_child_def boot_inv_def)

lemma killed_inv: "boot_inv S s \<Longrightarrow> bt_child s \<noteq> C_absent \<Longrightarrow> boot_inv S (s\<lparr>bt_child := C_ended\<rparr>)"
  by (cases "bt_parent s") (auto simp: boot_inv_def)

lemma reach_boot_inv: "boot_reach S st s \<Longrightarrow> securec_ok S \<Longrightarrow> boot_inv S s"
proof (induction rule: boot_reach.induct)
  case (start pid)
  then show ?case by (auto simp: boot_inv_def forked_def)
next
  case (step s s')
  from step.hyps(2) show ?case
  proof cases
    case (parent i)
    with step parent_inv show ?thesis by simp
  next
    case (child i)
    with step child_inv show ?thesis by simp
  next
    case killed
    with step killed_inv show ?thesis by simp
  qed
qed

text \<open>The steps the parent has still to do when the child has reported or is gone.\<close>

definition settled :: "boot \<Rightarrow> bool" where
  "settled s \<longleftrightarrow> bt_child s = C_absent \<or> bt_child s = C_ended \<or> bt_pipe s > 0"

fun parent_rank :: "parent_pc \<Rightarrow> nat" where
  "parent_rank P_open = 4"
| "parent_rank P_print = 3"
| "parent_rank (P_write t) = 2"
| "parent_rank P_read = 1"
| "parent_rank (P_exit c) = 0"

lemma parent_progress:
  "settled s \<Longrightarrow> settled (rpc_deal_parent S i s) \<and> parent_rank (bt_parent (rpc_deal_parent S i s)) \<le> parent_rank (bt_parent s) - 1"
  by (cases "bt_parent s") (auto simp: settled_def rpc_deal_parent_def split: prod.splits)

lemma parent_runs:
  "settled s \<Longrightarrow> parent_rank (bt_parent (fold (rpc_deal_parent S) is s)) \<le> parent_rank (bt_parent s) - length is"
proof (induction "is" arbitrary: s)
  case (Cons i "is")
  from parent_progress [OF Cons.prems, of S i] Cons.IH [of "rpc_deal_parent S i s"] show ?case
    by (auto intro: order_trans)
qed simp

lemma parent_ends: "settled s \<Longrightarrow> 4 \<le> length is \<Longrightarrow> \<exists>c. bt_parent (fold (rpc_deal_parent S) is s) = P_exit c"
proof -
  assume "settled s" "4 \<le> length is"
  moreover have "parent_rank (bt_parent s) \<le> 4" by (cases "bt_parent s") simp_all
  ultimately have "parent_rank (bt_parent (fold (rpc_deal_parent S) is s)) = 0" using parent_runs [of s S "is"] by linarith
  then show ?thesis by (cases "bt_parent (fold (rpc_deal_parent S) is s)") simp_all
qed

section \<open>Properties\<close>

text \<open>What the command line of the daemon accepts. When it is accepted and does not ask for help, exactly one socket name was given, which
  is not empty and shorter than 107 characters and is kept with a leading \<open>@\<close>, and the log level is one of the table.\<close>

theorem etmemd_cmdline_accepted:
  assumes "securec_ok S" "etmemd_parse_cmdline S al argc opts initial_args = (0, False, st)"
  shows "argc \<le> 6 \<and> 0 \<le> da_level st \<and> da_level st \<le> 3 \<and>
    (\<exists>name. filter (\<lambda>x. fst x = CHR ''s'') opts = [(CHR ''s'', name)] \<and> da_sock st = Some (CHR ''@'' # name) \<and>
       0 < length name \<and> length name < 107)"
proof -
  obtain n where l: "parse_opts_loop S al opts 0 False initial_args = Some (n, False, st)" and c: "argc \<le> 6" "etmemd_sock_name_set st"
    using assms(2) by (auto simp: etmemd_parse_cmdline_def etmemd_parse_check_result_def split: if_splits option.splits)
  have "args_ok [] initial_args" by (simp add: args_ok_def initial_args_def)
  from loop_args_ok [OF assms(1) this l] c show ?thesis by (auto simp: args_ok_def etmemd_sock_name_set_def split: option.splits)
qed


section \<open>A start on concrete values\<close>

lemma etmemd_cmdline_accepted_witness:
  "\<exists>st. etmemd_parse_cmdline securec_ref [] 5 [(CHR ''s'', ''sock''), (CHR ''l'', ''1'')] initial_args = (0, False, st) \<and> da_sock st = Some ''@sock''"
proof -
  let ?args = "\<lparr>da_sock = Some ''@sock'', da_level = 1, da_systemctl = False\<rparr>"
  have "get_int_value ''1'' = Some 1" by code_simp
  then have e: "etmemd_parse_cmdline securec_ref [] 5 [(CHR ''s'', ''sock''), (CHR ''l'', ''1'')] initial_args = (0, False, ?args)"
    by (simp add: etmemd_parse_cmdline_def etmemd_parse_opts_valid_def etmemd_parse_sock_name_def initial_args_def etmemd_sock_name_set_def
        etmemd_init_log_level_def etmemd_parse_check_result_def securec_ref_def)
  with etmemd_cmdline_accepted [OF securec_ref_ok e] show ?thesis by simp
qed

definition sample_boot_input :: boot_input where
  "sample_boot_input = \<lparr>bi_open = True, bi_write = True, bi_calls = \<lparr>ec_fd = 3, ec_opts = [True], ec_bind = (\<lambda>_. True)\<rparr>,
     bi_listen = True, bi_report = True\<rparr>"

definition sample_args :: etmemd_args where
  "sample_args = \<lparr>da_sock = Some ''@sock'', da_level = 3, da_systemctl = True\<rparr>"

definition boot_serving :: boot where
  "boot_serving = (forked 42)\<lparr>bt_child := C_serve, bt_pipe := 1, bt_ready := True\<rparr>"

lemma boot_serving_reach: "boot_reach securec_ref sample_args boot_serving"
proof -
  note step = boot_reach.step [OF _ boot_step.child [where i = sample_boot_input]]
  have "boot_reach securec_ref sample_args (forked 42)" by (rule boot_reach.start) simp
  from step [OF step [OF step [OF step [OF this]]]] show ?thesis
    by (simp add: etmemd_rpc_server_def forked_def sample_boot_input_def sample_args_def etmemd_sock_name_set_def etmemd_rpc_init_def
        etmemd_rpc_set_def rpc_deal_child_def boot_serving_def)
qed


end
