(* ===== verification/Etmemd_Stop.thy ===== *)
theory Etmemd_Stop
  imports Etmemd_Main
begin

text \<open>
  The end of the daemon: the signal handler (\<open>etmemd_rpc.c\<close>), the loop over the connections it ends, and the release of all projects
  in \<open>main\<close> (\<open>etmemd.c\<close>). The loop runs in turns between which a signal may arrive: before its test, and before \<open>accept\<close>. A signal
  while a connection is handled has the effect of one right after it, since the handler only touches \<open>g_exit\<close> and \<open>g_sock_fd\<close>.
\<close>

datatype server_pc = S_test | S_accept | S_stop | S_done

record ('q, 'p, 'e) server =
  sv_pc :: server_pc
  sv_exit :: bool
  sv_fd :: int
  sv_reg :: "('q, 'p, 'e) reg_state"
  sv_outs :: "string list"

definition etmemd_set_flag :: "('q, 'p, 'e) server \<Rightarrow> ('q, 'p, 'e) server" where
  "etmemd_set_flag s = s\<lparr>sv_exit := True, sv_fd := -1\<rparr>"

text \<open>A turn of the server; \<open>conn\<close> is what it meets when it accepts. Nothing is accepted on a closed socket.\<close>

definition server_turn :: "('q, 'p, 'e) rpc_env \<Rightarrow> rpc_conn \<Rightarrow> ('q, 'p, 'e) server \<Rightarrow> ('q, 'p, 'e) server c_res" where
  "server_turn E conn s =
     (case sv_pc s of
        S_test \<Rightarrow> Inr (s\<lparr>sv_pc := (if sv_exit s then S_stop else S_accept)\<rparr>)
      | S_accept \<Rightarrow>
          c_bind (etmemd_rpc_accept E (conn\<lparr>co_accept := co_accept conn \<and> 0 \<le> sv_fd s\<rparr>) (sv_reg s)) (\<lambda>(ret, reg, out).
            Inr (s\<lparr>sv_pc := S_test, sv_reg := reg, sv_outs := sv_outs s @ [out]\<rparr>))
      | S_stop \<Rightarrow>
          (case etmemd_stop_all_projects (re_ops E) (fst (sv_reg s)) of (projs, released) \<Rightarrow>
             Inr (s\<lparr>sv_pc := S_done, sv_reg := (projs, snd (sv_reg s) @ released)\<rparr>))
      | S_done \<Rightarrow> Inr s)"

datatype server_event = Turn rpc_conn | Signal

fun server_run :: "('q, 'p, 'e) rpc_env \<Rightarrow> server_event list \<Rightarrow> ('q, 'p, 'e) server \<Rightarrow> ('q, 'p, 'e) server c_res" where
  "server_run E [] s = Inr s"
| "server_run E (Turn conn # es) s = c_bind (server_turn E conn s) (server_run E es)"
| "server_run E (Signal # es) s = server_run E es (etmemd_set_flag s)"

section \<open>After a signal\<close>

fun turns_left :: "server_pc \<Rightarrow> nat" where
  "turns_left S_accept = 3"
| "turns_left S_test = 2"
| "turns_left S_stop = 1"
| "turns_left S_done = 0"

definition turns :: "server_event list \<Rightarrow> nat" where
  "turns es = length (filter (\<lambda>e. e \<noteq> Signal) es)"

lemma turns_simps [simp]: "turns [] = 0" "turns (Turn c # es) = Suc (turns es)" "turns (Signal # es) = turns es"
  by (simp_all add: turns_def)

text \<open>A server that was told to exit: its registry is still the one it had, or all projects are released.\<close>

definition stopping :: "('q, 'p, 'e) rpc_env \<Rightarrow> ('q, 'p, 'e) reg_state \<Rightarrow> ('q, 'p, 'e) server \<Rightarrow> bool" where
  "stopping E reg s \<longleftrightarrow> sv_exit s \<and> sv_fd s < 0 \<and>
     sv_reg s = (if sv_pc s = S_done
       then (fst (etmemd_stop_all_projects (re_ops E) (fst reg)), snd reg @ snd (etmemd_stop_all_projects (re_ops E) (fst reg)))
       else reg)"

lemma accept_closed:
  "\<exists>ret. etmemd_rpc_accept E (conn\<lparr>co_accept := False\<rparr>) st = Inr (ret, st, [])"
  by (simp add: etmemd_rpc_accept_def split: prod.split bool.split)

lemma stopping_turn:
  assumes "stopping E reg s"
  shows "\<exists>s'. server_turn E conn s = Inr s' \<and> stopping E reg s' \<and> turns_left (sv_pc s') \<le> turns_left (sv_pc s) - 1 \<and>
    concat (sv_outs s') = concat (sv_outs s)"
proof (cases "sv_pc s")
  case S_accept
  obtain ret where "etmemd_rpc_accept E (conn\<lparr>co_accept := False\<rparr>) (sv_reg s) = Inr (ret, sv_reg s, [])"
    using accept_closed by blast
  with S_accept assms show ?thesis by (simp add: server_turn_def stopping_def)
qed (use assms in \<open>auto simp: server_turn_def stopping_def split: prod.split\<close>)

lemma stopping_run:
  "stopping E reg s \<Longrightarrow> turns_left (sv_pc s) \<le> turns es \<Longrightarrow>
   \<exists>s'. server_run E es s = Inr s' \<and> stopping E reg s' \<and> sv_pc s' = S_done \<and> concat (sv_outs s') = concat (sv_outs s)"
proof (induction es arbitrary: s)
  case Nil
  then show ?case by (cases "sv_pc s") auto
next
  case (Cons e es)
  show ?case
  proof (cases e)
    case (Turn conn)
    from stopping_turn [OF Cons.prems(1), of conn] obtain s1 where
      s1: "server_turn E conn s = Inr s1" "stopping E reg s1" "turns_left (sv_pc s1) \<le> turns_left (sv_pc s) - 1"
      "concat (sv_outs s1) = concat (sv_outs s)" by blast
    with Cons.IH [of s1] Cons.prems(2) show ?thesis by (auto simp: Turn)
  next
    case Signal
    have "stopping E reg (etmemd_set_flag s)" "sv_pc (etmemd_set_flag s) = sv_pc s" "sv_outs (etmemd_set_flag s) = sv_outs s"
      using Cons.prems(1) by (simp_all add: stopping_def etmemd_set_flag_def)
    with Cons.IH [of "etmemd_set_flag s"] Cons.prems(2) show ?thesis by (simp add: Signal)
  qed
qed

section \<open>Properties\<close>


definition slide_server :: "(unit, slide_params, unit) rpc_env" where
  "slide_server = \<lparr>re_S = securec_ref, re_ops = (\<lambda>eng. g_slide_eng_ops (\<lambda>_. all_start)), re_core = 1, re_thirdparty = (\<lambda>_. False),
     re_damon = 0, re_realpath = Some, re_stat = (\<lambda>_. None), re_new = True, re_config = (\<lambda>_. None), re_alloc = (\<lambda>_. []),
     re_writes = []\<rparr>"

definition waiting_server :: "(unit, slide_params, unit) server" where
  "waiting_server = \<lparr>sv_pc = S_accept, sv_exit = False, sv_fd = 3, sv_reg = ([sample_project], []), sv_outs = []\<rparr>"

definition late_conn :: rpc_conn where
  "late_conn = \<lparr>co_accept = True, co_cred = Some (0, 0), co_recv = Some ''proj_name p'', co_sends = (\<lambda>_. 1, \<lambda>_. 1), co_alloc = []\<rparr>"


end
