(* ===== verification/Userswap_Session.thy ===== *)
theory Userswap_Session
  imports Memdcd_Policy Userswap
begin

text \<open>
  memRouter and the userswap library of a process together. The library listens on an abstract socket named after the
  process (\<open>uswap_server.c\<close>); memRouter connects to it once per batch of pages (\<open>memdcd_migrate.c\<close>); the thread
  \<open>swapout_thread\<close> (\<open>lib_uswap.c\<close>) receives the request into a buffer it keeps, swaps the merged ranges out and answers.
\<close>

unbundle bit_operations_syntax

section \<open>The socket\<close>

text \<open>The text \<open>snprintf\<close> leaves in a buffer of \<open>n\<close> bytes.\<close>

definition uswap_path :: "nat \<Rightarrow> int \<Rightarrow> string" where
  "uswap_path n pid = take (n - 1) (''userswap'' @ show_int pid @ ''.sock'')"

text \<open>The result and the address bound; its length leaves out the NUL behind the name, and it begins with a NUL.\<close>

definition init_socket :: "int \<Rightarrow> int \<Rightarrow> (string \<Rightarrow> int) \<Rightarrow> int \<times> string option" where
  "init_socket pid socket_fd bind =
     (if socket_fd < 0 then (-22, None)
      else
        let abstract_path = uswap_path 127 pid;
            addr = take (length abstract_path + 1) (c_nul # abstract_path)
        in if bind addr < 0 then (-22, None) else (socket_fd, Some addr))"

definition swapout_source_init :: "int \<Rightarrow> int \<Rightarrow> (string \<Rightarrow> int) \<Rightarrow> int \<times> string option" where
  "swapout_source_init pid socket_fd bind =
     (case init_socket pid socket_fd bind of (fd, addr) \<Rightarrow> if fd < 0 then (USWAP_ERROR, None) else (fd, addr))"

text \<open>The other end: the results of \<open>socket\<close> and \<open>setsockopt\<close>, and of \<open>connect\<close> to an address. The result is the
  descriptor and what was closed.\<close>

record conn_env =
  ce_socket :: int
  ce_setsockopt :: int
  ce_connect :: "string \<Rightarrow> int"

definition uswap_init_connection :: "conn_env \<Rightarrow> int \<Rightarrow> int \<times> int list" where
  "uswap_init_connection e server_pid =
     (let socket_fd = ce_socket e in
      if socket_fd < 0 then (-1, [])
      else if ce_setsockopt e \<noteq> 0 then (-1, [socket_fd])
      else if length (''userswap'' @ show_int server_pid @ ''.sock'') \<le> 0 then (-1, [socket_fd])
      else
        let name = uswap_path 64 server_pid;
            addr = take (length name + 1) (c_nul # name)
        in if ce_connect e addr < 0 then (-1, [socket_fd]) else (socket_fd, []))"

section \<open>The swap-out thread\<close>

text \<open>One connection as the thread meets it: the result of \<open>accept\<close>, the credentials of both ends, the result of
  \<open>read\<close> with the request it was reading, and whether the answer is written completely.\<close>

record uswap_client =
  cl_accept :: int
  cl_local :: "(u32 \<times> u32) option"
  cl_peer :: "(u32 \<times> u32) option"
  cl_read :: int
  cl_msg :: swap_request
  cl_write :: bool

definition sock_handle_rec :: "uswap_client \<Rightarrow> swap_request \<Rightarrow> int \<times> swap_request" where
  "sock_handle_rec c src =
     (if cl_accept c < 0 then (-22, src)
      else if check_socket_permission (cl_local c) (cl_peer c) < 0 then (-1, src)
      else if cl_read c \<le> 0 then (-22, src)
      else (cl_accept c,
            \<lparr>sr_length = upd_field (nat (cl_read c)) 8 (sr_length (cl_msg c)) (sr_length src),
             sr_vma_addrs = recv_entries (nat (cl_read c)) (sr_vma_addrs (cl_msg c)) (sr_vma_addrs src)\<rparr>))"

text \<open>The loop of \<open>swapout_thread\<close> over the connections so far: the answers, with the descriptor each was written to, and
  the ranges swapped out. \<open>ops k i\<close> are the callbacks as the \<open>i\<close>-th range of the \<open>k\<close>-th connection meets them.\<close>

type_synonym swap_env = "nat \<Rightarrow> nat \<Rightarrow> nat \<Rightarrow> u64 \<Rightarrow> u64 \<Rightarrow> (u8 list \<times> bool) option"

fun swapout_serve ::
  "(nat \<Rightarrow> nat \<Rightarrow> uswap_operations option) \<Rightarrow> swap_env \<Rightarrow> swap_data \<Rightarrow> u64 \<Rightarrow> nat \<Rightarrow> uswap_client list \<Rightarrow> swap_request \<Rightarrow>
   (int \<times> string) list \<Rightarrow> (u64 \<times> u64) list \<Rightarrow> ((int \<times> string) list \<times> (u64 \<times> u64) list) c_res option" where
  "swapout_serve ops tmpva sd page_size k [] src answers done = Some (Inr (answers, done))"
| "swapout_serve ops tmpva sd page_size k (c # cs) src answers done =
     (case sock_handle_rec c src of (client_fd, src') \<Rightarrow>
        if client_fd \<le> 0 then swapout_serve ops tmpva sd page_size (Suc k) cs src' answers done
        else case swapout_round (ops k) (tmpva k) sd page_size (sr_length src') (sr_vma_addrs src') of
          None \<Rightarrow> None
        | Some (Inl f) \<Rightarrow> Some (Inl f)
        | Some (Inr (ret, segs)) \<Rightarrow>
            swapout_serve ops tmpva sd page_size (Suc k) cs src'
              (answers @ [(client_fd, snd (sock_handle_respond client_fd ret (cl_write c)))]) (done @ segs))"

text \<open>\<open>swapout_thread\<close> ends at once when the socket cannot be made.\<close>

definition swapout_thread ::
  "(nat \<Rightarrow> nat \<Rightarrow> uswap_operations option) \<Rightarrow> swap_env \<Rightarrow> swap_data \<Rightarrow> u64 \<Rightarrow> int \<times> string option \<Rightarrow> uswap_client list \<Rightarrow>
   swap_request \<Rightarrow> ((int \<times> string) list \<times> (u64 \<times> u64) list) c_res option" where
  "swapout_thread ops tmpva sd page_size source clients src =
     (if fst source < 0 then Some (Inr ([], [])) else swapout_serve ops tmpva sd page_size 0 clients src [] [])"

section \<open>The address\<close>

lemma show_int_length: "- (2 ^ 31) \<le> pid \<Longrightarrow> pid < 2 ^ 31 \<Longrightarrow> length (show_int pid) \<le> 11"
proof -
  assume "- (2 ^ 31) \<le> pid" "pid < 2 ^ 31"
  then have "nat pid < 10 ^ 10" "nat (- pid) < 10 ^ 10" by simp_all
  then have "length (nat_to_base 10 (nat pid)) \<le> 10" "length (nat_to_base 10 (nat (- pid))) \<le> 10"
    by (simp_all only: nat_to_base_length)
  then show ?thesis by (simp add: show_int_def)
qed

lemma uswap_path_uncut:
  assumes "- (2 ^ 31) \<le> pid" "pid < 2 ^ 31" "25 \<le> n"
  shows "uswap_path n pid = ''userswap'' @ show_int pid @ ''.sock''"
  using show_int_length [OF assms(1,2)] assms(3) by (simp add: uswap_path_def)

text \<open>memRouter connects to the address the library of that process has bound.\<close>

lemma connection_made:
  assumes "- (2 ^ 31) \<le> pid" "pid < 2 ^ 31" "init_socket pid fd bind = (fd, Some addr)"
    and "0 \<le> ce_socket e" "ce_setsockopt e = 0" "0 \<le> ce_connect e addr"
  shows "uswap_init_connection e pid = (ce_socket e, [])"
  using assms uswap_path_uncut [OF assms(1,2), of 127] uswap_path_uncut [OF assms(1,2), of 64]
  by (auto simp: uswap_init_connection_def init_socket_def Let_def split: if_splits)

section \<open>Ranges\<close>

lemma runs_ok_append: "runs_ok p (xs @ ys) \<Longrightarrow> runs_ok p xs \<and> runs_ok p ys"
proof (induction xs)
  case (Cons x xs)
  from Cons.prems have "runs_ok p (xs @ ys)" by (auto intro: runs_ok_tl)
  with Cons show ?case by (cases xs; cases x) auto
qed simp

lemma runs_ok_concat: "runs_ok p (concat xss) \<Longrightarrow> xs \<in> set xss \<Longrightarrow> runs_ok p xs"
  by (induction xss) (auto dest: runs_ok_append)

lemma cover_append [simp]: "cover (xs @ ys) = cover xs \<union> cover ys"
  by (auto simp: cover_def)

lemma tiles_cover:
  "tiles start len segs \<Longrightarrow> unat start + unat len < 2 ^ 64 \<Longrightarrow> cover segs = addr_range (start, len)"
proof (induction start len segs rule: tiles.induct)
  case (2 start len s l rs)
  then have l: "s = start" "unat l \<le> unat len" by (simp_all add: word_le_nat_alt)
  have u: "unat (start + l) = unat start + unat l" "unat (len - l) = unat len - unat l"
    using 2 l by (simp_all add: unat_add_lt unat_sub)
  with 2 l have "cover rs = addr_range (start + l, len - l)" by simp
  with l u show ?case by (auto simp: addr_range_def)
qed (simp add: addr_range_def)

lemma tiles_last: "tiles start len segs \<Longrightarrow> segs \<noteq> [] \<Longrightarrow> 0 < snd (last segs) \<and> snd (last segs) \<le> len"
proof (induction start len segs rule: tiles.induct)
  case (2 start len s l rs)
  have "len - l \<le> len" if "l \<le> len" using that by (simp add: word_le_nat_alt unat_sub)
  with 2 show ?case by (cases "rs = []") (auto intro: order_trans)
qed simp

lemma merge_run_suffix: "merge_run p s len r = (len', r') \<Longrightarrow> \<exists>xs. r = xs @ r'"
  by (induction p s len r rule: merge_run.induct) (auto split: if_splits)

text \<open>A run ends where the last page it consumed ends, and is as long as the pages it consumed.\<close>

lemma merge_run_bound:
  assumes "merge_run p s len r = (len', r')" "runs_ok p ((s, p) # r)" "in_space ((s, p) # r)"
    and "unat a + unat len = unat s + unat p" "unat len + unat p * length r \<le> B"
  shows "unat a + unat len' < 2 ^ 64 \<and> unat len \<le> unat len' \<and> unat len' + unat p * length r' \<le> B"
  using assms
proof (induction r arbitrary: s len)
  case (Cons e r)
  obtain s' l' where e: "e = (s', l')" by (cases e)
  show ?case
  proof (cases "s + p = s'")
    case True
    with Cons.prems(2) e have l': "l' = p" by simp
    have us: "unat s' = unat s + unat p" using True Cons.prems(3) unat_add_lt [of s p] by simp
    have sp: "unat s' + unat p < 2 ^ 64" using Cons.prems(3) by (simp add: e l')
    then have ul: "unat (len + p) = unat len + unat p" using Cons.prems(4) us by (intro unat_add_lt) linarith
    have "merge_run p s' (len + p) r = (len', r')" using Cons.prems(1) True by (simp add: e)
    moreover have "runs_ok p ((s', p) # r)" using Cons.prems(2) by (simp add: e l')
    moreover have "in_space ((s', p) # r)" using Cons.prems(3) by (simp add: e l')
    ultimately show ?thesis using Cons.IH [of s' "len + p"] Cons.prems(4,5) us ul by simp
  next
    case False
    with Cons.prems show ?thesis by (auto simp: e)
  qed
qed auto

text \<open>The ranges after merging are not empty, inside the address space, and not longer than the bound.\<close>

definition range_ok :: "nat \<Rightarrow> u64 \<times> u64 \<Rightarrow> bool" where
  "range_ok B r \<longleftrightarrow> 0 < snd r \<and> unat (snd r) \<le> B \<and> unat (fst r) + unat (snd r) < 2 ^ 64"

lemma merge_loop_ranges:
  "runs_ok p rs \<Longrightarrow> \<forall>r\<in>set rs. range_ok B r \<Longrightarrow> unat p * length rs \<le> B \<Longrightarrow> r \<in> set (merge_loop p rs) \<Longrightarrow> range_ok B r"
proof (induction p rs arbitrary: r rule: merge_loop.induct)
  case (2 p s l rest)
  have rest: "runs_ok p rest" "\<forall>r\<in>set rest. range_ok B r" "unat p * length rest \<le> B"
    using 2(4-6) runs_ok_tl [OF 2(4)] by auto
  consider "l = 0 \<or> l > SSIZE_MAX" | "\<not> (l = 0 \<or> l > SSIZE_MAX)" "l = p" | "\<not> (l = 0 \<or> l > SSIZE_MAX)" "l \<noteq> p"
    by blast
  then show ?case
  proof cases
    case 1
    then have "merge_loop p ((s, l) # rest) = merge_loop p rest" by simp
    with 2(1) [OF 1 rest] 2(7) show ?thesis by simp
  next
    case c: 2
    obtain len r' where m: "merge_run p s p rest = (len, r')" by (cases "merge_run p s p rest")
    have sp: "in_space ((s, p) # rest)" using 2(5) c by (auto simp: in_space_def range_ok_def)
    have b: "unat s + unat len < 2 ^ 64 \<and> unat p \<le> unat len \<and> unat len + unat p * length r' \<le> B"
      using 2(4,6) c by (intro merge_run_bound [OF m _ sp]) simp_all
    have "0 < unat p" using c by (simp add: word_neq_0_conv unat_gt_0)
    with b have first: "range_ok B (s, len)" by (simp add: range_ok_def word_less_nat_alt)
    have "runs_ok p r' \<and> (\<forall>r\<in>set r'. range_ok B r)"
      using merge_run_suffix [OF m] rest(1,2) by (auto dest: runs_ok_append)
    with 2(2) [OF c m [symmetric]] b 2(7) c m first show ?thesis by (cases r) auto
  next
    case 3
    then have "merge_loop p ((s, l) # rest) = (s, l) # merge_loop p rest" by simp
    with 2(3) [OF 3 rest] 2(5,7) show ?thesis by (cases r) auto
  qed
qed simp

section \<open>A request\<close>

text \<open>Lengths below 4 GB: the half of a length that is not transferred is 0.\<close>

definition lengths_32 :: "(u64 \<times> u64) list \<Rightarrow> bool" where
  "lengths_32 rs \<longleftrightarrow> (\<forall>r\<in>set rs. unat (snd r) < 2 ^ 32)"

lemma high_half_0:
  fixes x :: u64
  assumes "unat x < 2 ^ 32"
  shows "x AND 0xFFFFFFFF00000000 = 0"
proof -
  have "\<not> bit x n" if "32 \<le> n" for n
  proof -
    have "unat x < 2 ^ n" using assms that by (meson less_le_trans one_le_numeral power_increasing)
    then have "\<not> bit (unat x) n" by (simp add: bit_iff_odd)
    then show ?thesis by (auto simp: bit_unsigned_iff bit_simps dest: bit_imp_le_length)
  qed
  then show ?thesis unfolding high_half by (auto simp: bit_eq_iff bit_simps not_less)
qed

lemma recv_entries_append:
  assumes "n = 12 + 16 * length new" "length new \<le> length old" "new \<noteq> []" "lengths_32 new" "lengths_32 old"
  shows "recv_entries n new old = new @ drop (length new) old"
proof -
  let ?m = "length new"
  have "old ! (?m - 1) \<in> set old" using assms(2,3) by (cases new) auto
  with assms(3-5) have "snd (old ! (?m - 1)) AND 0xFFFFFFFF00000000 = 0" "snd (last new) AND 0xFFFFFFFF00000000 = 0"
    by (simp_all add: lengths_32_def high_half_0)
  then have "take ?m (recv_entries n new old) = new" by (simp add: recv_entries_exact [OF assms(1-3)])
  moreover have "drop ?m (recv_entries n new old) = drop ?m old"
    by (rule nth_equalityI) (auto simp: recv_entries_def)
  ultimately show ?thesis by (metis append_take_drop_id)
qed

text \<open>A request as it arrives: the connection is accepted, both ends belong to the same user, and what memRouter wrote is
  read at once.\<close>

definition arriving :: "int \<Rightarrow> u32 \<times> u32 \<Rightarrow> swap_request \<Rightarrow> uswap_client" where
  "arriving fd cred req = \<lparr>cl_accept = fd, cl_local = Some cred, cl_peer = Some cred,
     cl_read = 12 + 16 * int (length (sr_vma_addrs req)), cl_msg = req, cl_write = True\<rparr>"

lemma request_arrives:
  assumes "0 < fd" "ps \<noteq> []" "length ps \<le> length (sr_vma_addrs src)"
    and "lengths_32 (map page_key ps)" "lengths_32 (sr_vma_addrs src)"
  shows "sock_handle_rec (arriving fd cred (request ps)) src =
    (fd, \<lparr>sr_length = of_nat (length ps) * 16, sr_vma_addrs = map page_key ps @ drop (length ps) (sr_vma_addrs src)\<rparr>)"
proof -
  let ?n = "nat (12 + 16 * int (length ps))"
  have n: "?n = 12 + 16 * length (map page_key ps)" by simp
  have "8 + 8 \<le> ?n" using assms(2) by (cases ps) auto
  then have "upd_field ?n 8 a b = a" for a b by (rule upd_field_all)
  with recv_entries_append [OF n] assms show ?thesis
    by (simp add: sock_handle_rec_def arriving_def request_def check_socket_permission_def)
qed

section \<open>Swapping out\<close>

lemma do_swapout_range:
  assumes "progressing ops" "range_ok (2 ^ 31) (start, len)"
  shows "\<exists>n segs. do_swapout (Some ops) tmpva sd start len = Some (Inr (n, segs)) \<and> 0 \<le> n \<and>
    cover segs = addr_range (start, len)"
proof -
  from assms(2) have r: "0 < len" "unat len \<le> 2 ^ 31" "unat start + unat len < 2 ^ 64" by (simp_all add: range_ok_def)
  from swapout_loop_tiles [OF assms(1) r(1), of tmpva start 0 sd "[]"] obtain segs where
    s: "do_swapout (Some ops) tmpva sd start len = Some (Inr (cast_int (uint (len - snd (last segs))), segs))"
    "segs \<noteq> []" "tiles start len segs" by (auto simp: do_swapout_def)
  from tiles_last [OF s(3,2)] have l: "0 < unat (snd (last segs))" "snd (last segs) \<le> len"
    by (simp_all add: word_less_nat_alt)
  then have "unat (len - snd (last segs)) < 2 ^ 31" using r(2) by (simp add: unat_sub)
  then have "int (unat (len - snd (last segs))) < 2 ^ 31" by (metis of_nat_less_iff of_nat_numeral of_nat_power)
  then have "uint (len - snd (last segs)) < 2 ^ 31" by simp
  moreover have u0: "0 \<le> uint (len - snd (last segs))" by simp
  ultimately have "cast_int (uint (len - snd (last segs))) = uint (len - snd (last segs))"
    by (intro cast_int_id) linarith+
  with u0 have "0 \<le> cast_int (uint (len - snd (last segs)))" by simp
  with s tiles_cover [OF s(3) r(3)] show ?thesis by blast
qed

lemma swapout_ranges_cover:
  assumes "\<And>i. \<exists>o1. ops i = Some o1 \<and> progressing o1"
  shows "\<forall>r\<in>set rs. range_ok (2 ^ 31) r \<Longrightarrow>
    \<exists>segs. swapout_ranges ops tmpva sd i rs ret acc = Some (Inr (ret, acc @ segs)) \<and> cover segs = cover rs"
proof (induction rs arbitrary: i acc)
  case (Cons r rs)
  obtain start len where r: "r = (start, len)" by (cases r)
  obtain o1 where o1: "ops i = Some o1" "progressing o1" using assms by blast
  from Cons.prems have "range_ok (2 ^ 31) (start, len)" by (simp add: r)
  from do_swapout_range [OF o1(2) this, of "tmpva i" sd] obtain n segs where
    s: "do_swapout (Some o1) (tmpva i) sd start len = Some (Inr (n, segs))" "0 \<le> n" "cover segs = addr_range (start, len)"
    by blast
  from Cons.IH [of "Suc i" "acc @ segs"] Cons.prems obtain segs' where
    "swapout_ranges ops tmpva sd (Suc i) rs ret (acc @ segs) = Some (Inr (ret, (acc @ segs) @ segs'))"
    "cover segs' = cover rs" by auto
  with s o1 show ?case by (intro exI [of _ "segs @ segs'"]) (simp add: r)
qed (auto intro: exI [of _ "[]"])

lemma filter_swappable: "\<forall>r\<in>set rs. range_ok (2 ^ 31) r \<Longrightarrow> filter swappable rs = rs"
  by (auto simp: filter_id_conv swappable_def range_ok_def word_le_nat_alt word_neq_0_conv)

lemma swapout_round_cover:
  assumes ops: "\<And>i. \<exists>o1. ops i = Some o1 \<and> progressing o1" and p: "0 < page_size" "unat page_size \<le> 2 ^ 22"
    and rs: "length rs \<le> USWAP_MAX_VMA_NUM" "runs_ok page_size rs" "\<forall>r\<in>set rs. range_ok (2 ^ 31) r"
  shows "\<exists>segs. swapout_round ops tmpva sd page_size (of_nat (length rs) * 16) (rs @ old) = Some (Inr (0, segs)) \<and>
    cover segs = cover rs"
proof -
  have "unat page_size * length rs \<le> 2 ^ 22 * 512" using p(2) rs(1) by (intro mult_mono) simp_all
  then have "\<forall>r\<in>set (merge_loop page_size rs). range_ok (2 ^ 31) r"
    using merge_loop_ranges [OF rs(2,3)] by simp
  from swapout_ranges_cover [where ops = ops and tmpva = tmpva and sd = sd and i = 0 and ret = 0 and acc = "[]", OF ops this] obtain segs where
    s: "swapout_ranges ops tmpva sd 0 (merge_loop page_size rs) 0 [] = Some (Inr (0, segs))"
    "cover segs = cover (merge_loop page_size rs)" by auto
  have "in_space rs" using rs(3) by (auto simp: in_space_def range_ok_def)
  moreover have "page_size \<noteq> 0" "page_size \<le> SSIZE_MAX"
    using p by (auto simp: word_le_nat_alt)
  ultimately have "cover (merge_loop page_size rs) = cover rs"
    using merge_loop_cover [OF rs(2)] filter_swappable [OF rs(3)] by simp
  with s vma_merge_eq [OF rs(1), of page_size "rs @ old"] show ?thesis by (simp add: swapout_round_def)
qed

text \<open>The batches of one list of pages, served one after the other.\<close>

lemma swapout_serve_batches:
  assumes ops: "\<And>k i. \<exists>o1. ops k i = Some o1 \<and> progressing o1" and p: "0 < page_size" "unat page_size \<le> 2 ^ 22"
    and fd: "0 < fd"
  shows "\<forall>ps\<in>set pss. ps \<noteq> [] \<and> length ps \<le> USWAP_MAX_VMA_NUM \<and> runs_ok page_size (map page_key ps) \<and>
      (\<forall>r\<in>set (map page_key ps). range_ok (2 ^ 31) r) \<Longrightarrow>
    length (sr_vma_addrs src) = USWAP_MAX_VMA_NUM \<Longrightarrow> lengths_32 (sr_vma_addrs src) \<Longrightarrow>
    \<exists>segs. swapout_serve ops tmpva sd page_size k (map (\<lambda>ps. arriving fd cred (request ps)) pss) src answers done =
      Some (Inr (answers @ replicate (length pss) (fd, ''success''), done @ segs)) \<and>
      cover segs = cover (map page_key (concat pss))"
proof (induction pss arbitrary: k src answers "done")
  case (Cons ps pss)
  let ?rs = "map page_key ps"
  let ?src = "\<lparr>sr_length = of_nat (length ps) * 16, sr_vma_addrs = ?rs @ drop (length ps) (sr_vma_addrs src)\<rparr>"
  from Cons.prems(1) have ps: "ps \<noteq> []" "length ps \<le> USWAP_MAX_VMA_NUM" "runs_ok page_size ?rs" "\<forall>r\<in>set ?rs. range_ok (2 ^ 31) r"
    by simp_all
  have l32: "lengths_32 ?rs" using ps(4) by (fastforce simp: lengths_32_def range_ok_def)
  have arr: "sock_handle_rec (arriving fd cred (request ps)) src = (fd, ?src)"
    using ps(2) Cons.prems(2) by (intro request_arrives fd ps(1) l32 Cons.prems(3)) simp
  from swapout_round_cover [where ops = "ops k" and tmpva = "tmpva k" and sd = sd and old = "drop (length ps) (sr_vma_addrs src)",
      OF ops p _ ps(3,4)] ps(2)
  obtain segs where s: "swapout_round (ops k) (tmpva k) sd page_size (sr_length ?src) (sr_vma_addrs ?src) = Some (Inr (0, segs))"
    "cover segs = cover ?rs" by auto
  have "length (sr_vma_addrs ?src) = USWAP_MAX_VMA_NUM" using ps(2) Cons.prems(2) by simp
  moreover have "lengths_32 (sr_vma_addrs ?src)"
    using l32 Cons.prems(3) by (auto simp: lengths_32_def dest: in_set_dropD)
  ultimately obtain segs' where
    "swapout_serve ops tmpva sd page_size (Suc k) (map (\<lambda>ps. arriving fd cred (request ps)) pss) ?src
      (answers @ [(fd, ''success'')]) (done @ segs) =
      Some (Inr ((answers @ [(fd, ''success'')]) @ replicate (length pss) (fd, ''success''), (done @ segs) @ segs'))"
    "cover segs' = cover (map page_key (concat pss))"
    using Cons.IH [of ?src "Suc k" "answers @ [(fd, ''success'')]" "done @ segs"] Cons.prems(1) by auto
  with arr s fd show ?case
    by (intro exI [of _ "segs @ segs'"]) (simp add: sock_handle_respond_def Let_def arriving_def)
qed (auto intro: exI [of _ "[]"])

section \<open>The sending side\<close>

lemma userswap_loop_answers:
  "rest \<le> length pages \<Longrightarrow> rest < 2 ^ 31 \<Longrightarrow> bs = chunks MAX_VMA_NUM (drop (length pages - rest) pages) \<Longrightarrow>
   (\<And>j. k \<le> j \<Longrightarrow> j < k + length bs \<Longrightarrow> 0 \<le> uc_fd (conn j) \<and> uswap_send_data (conn j) = 0) \<Longrightarrow>
   userswap_loop conn pages rest k ret sent = Some (Inr (ret, sent @ map request bs))"
proof (induction rest arbitrary: k sent bs rule: less_induct)
  case (less rest)
  let ?rest = "rest - min rest MAX_VMA_NUM" and ?d = "drop (length pages - rest) pages"
  show ?case
  proof (cases "rest = 0")
    case True
    with less.prems(3) show ?thesis by (subst userswap_loop.simps) simp
  next
    case False
    then have "?d \<noteq> []" using less.prems(1) by simp
    moreover have "drop MAX_VMA_NUM ?d = drop (length pages - ?rest) pages" using less.prems(1) by (auto simp: min_def add.commute)
    ultimately have bs: "bs = take MAX_VMA_NUM ?d # chunks MAX_VMA_NUM (drop (length pages - ?rest) pages)"
      by (simp only: less.prems(3)) (subst chunks_step, simp_all)
    have c: "0 \<le> uc_fd (conn k)" "uswap_send_data (conn k) = 0" using less.prems(4) [of k] bs by simp_all
    have "userswap_loop conn pages ?rest (k + 1) ret (sent @ [request (take MAX_VMA_NUM ?d)]) =
        Some (Inr (ret, (sent @ [request (take MAX_VMA_NUM ?d)]) @
          map request (chunks MAX_VMA_NUM (drop (length pages - ?rest) pages))))"
      using False less.prems(1,2,4) bs by (intro less.IH refl) auto
    with userswap_loop_step [of rest pages conn k ret sent] False less.prems(1,2) c show ?thesis by (simp add: bs)
  qed
qed

section \<open>Properties\<close>

text \<open>What memRouter meets: the connection to the address of the process, and the answer the library wrote, with its NUL.\<close>

definition session_conn :: "(nat \<Rightarrow> conn_env) \<Rightarrow> int \<Rightarrow> (int \<times> string) list \<Rightarrow> nat \<Rightarrow> uswap_conn" where
  "session_conn env pid answers k =
     \<lparr>uc_fd = fst (uswap_init_connection (env k) pid), uc_write = 12, uc_read = snd (answers ! k) @ [c_nul]\<rparr>"


definition cold_pages_42 :: "migrate_page list" where
  "cold_pages_42 = [\<lparr>mg_addr = 0x1000, mg_length = 0x1000, mg_visit_count = 0, mg_numanode = None\<rparr>,
     \<lparr>mg_addr = 0x2000, mg_length = 0x1000, mg_visit_count = 0, mg_numanode = None\<rparr>,
     \<lparr>mg_addr = 0x200000, mg_length = 0x200000, mg_visit_count = 0, mg_numanode = None\<rparr>]"

definition zero_request :: swap_request where
  "zero_request = \<lparr>sr_length = 0, sr_vma_addrs = replicate USWAP_MAX_VMA_NUM (0, 0)\<rparr>"


end
