(* ===== verification/Spec2Isabelle.thy ===== *)
theory Spec2Isabelle
  imports Project Page_Statistics Memdcd_Policy Memdcd_Engine Userswap Cslide_Result Cslide_Effect Rpc_Session Thread_Pool Damon Memdcd_Daemon Thirdparty Etmemd_Main Etmemd_Stop Userswap_Session
begin

text \<open>
  Verification of etmem, a memory extension for Linux: a daemon that finds out which pages of chosen processes are cold and moves
  them to slower memory.

  \<^bold>\<open>The program.\<close> The client \<open>etmem\<close> sends one command per connection to the daemon
  \<open>etmemd\<close>. The daemon keeps a registry of projects; a project has engines, an engine has tasks, a task has processes.
  A command creates or deletes one of these from a section of a configuration file, starts or stops a project, or asks for a table.
  A started task is run by the engine it belongs to:

  \<^item> slide: a timer pushes the processes of the task to a thread pool, whose workers scan each process and swap its cold
    pages out;
  \<^item> cslide: one worker thread per engine scans all processes, then promotes hot and demotes cold pages between the two
    NUMA nodes of each configured pair, within a quota;
  \<^item> memdcd: the scanned pages are sent to the daemon \<open>memRouter\<close>, which collects them per process, chooses
    the pages to swap by a policy and asks the process itself, linked with the userswap library, to swap them out;
  \<^item> damon: the kernel is told what to do;
  \<^item> third-party engines are loaded from a library.

  \<^bold>\<open>Conventions\<close> (\<open>Etmem_Prelude\<close>). A C \<open>int\<close> is an \<open>int\<close> with its
  narrowing conversions written out, an unsigned integer is a word of its width, a structure is a record, a linked list is the list
  of its nodes. Undefined behaviour (NULL, out of bounds, use after free, division by zero, uninitialised read) is the value
  \<open>Inl\<close> of a \<open>c_fault\<close>; absence of faults is thus part of the statements. Allocation failures are chosen
  by an oracle over which every theorem is quantified. System calls, callbacks, GKeyFile, json-c, the bounds-checked string library,
  \<open>qsort\<close>, floating point and the dynamic linker are not part of the repository: they are parameters of the
  definitions, and what is relied on is a named hypothesis (\<open>securec_ok\<close>, \<open>fp_literals_ok\<close> and others),
  with a witness that instantiates it. \<open>C_Library\<close> has the functions of the C library on strings and files that the
  sources use.

  \<^bold>\<open>Theories and sources\<close> (below \<open>etmem/src/etmemd_src\<close> unless another directory is given).

  \<^item> \<open>Common\<close> (\<open>etmemd_common.c\<close>), \<open>Config_File\<close> (\<open>etmemd_file.c\<close>):
    conversions, file checks, the table driven configuration reader. The locale \<open>config_fillers\<close> states the contract
    of a table: each filler keeps a property of the object; it is interpreted on the tables of projects, tasks and the slide
    engine.
  \<^item> \<open>Scan_Pages\<close>, \<open>Scan_Vma\<close>, \<open>Scan_Process\<close>, \<open>Page_Statistics\<close>
    (\<open>etmemd_scan.c\<close>): the decoder of \<open>idle_pages\<close>, the sorted page list and its walk, which refine an
    update of a map from addresses to pages; the parser of \<open>maps\<close> and \<open>smaps\<close>, a round trip with the
    format of the kernel; the passes of a scan, the statistics of each page over exact arithmetic, and sorting into buckets. The
    locale \<open>page_property\<close> lifts a property kept by one observation to a whole scan.
  \<^item> \<open>Migrate\<close> (\<open>etmemd_migrate.c\<close>), \<open>Slide\<close> (\<open>etmemd_slide.c\<close>): which
    pages are cold, and that each is written to \<open>swap_pages\<close> exactly once.
  \<^item> \<open>Task\<close> (\<open>etmemd_task.c\<close>), \<open>Project_Config\<close>, \<open>Project\<close>
    (\<open>etmemd_project.c\<close>, \<open>etmemd_engine.c\<close>): the registry. The locale \<open>engine_contract\<close> is
    the interface between the registry and an engine; it is interpreted on the slide, memdcd and damon engines.
    \<open>reg_step\<close> is one request, \<open>reg_reach\<close> all histories of requests.
  \<^item> \<open>Thread_Pool\<close> (\<open>etmemd_threadpool.c\<close>, \<open>etmemd_threadtimer.c\<close>,
    \<open>etmemd_pool_adapter.c\<close>): \<open>pool_step\<close> interleaves the timer and the workers; a step is what a thread
    does under the lock.
  \<^item> \<open>Cslide_Config\<close>, \<open>Cslide_Pages\<close>, \<open>Cslide_Flow\<close>, \<open>Cslide_Engine\<close>
    (\<open>etmemd_cslide.c\<close>): configuration, page lists, policy, and the worker with the operations on tasks as the step
    relation \<open>cslide_step\<close>. \<open>Cslide_Policy\<close>, \<open>Cslide_Balance\<close>, \<open>Cslide_Result\<close>
    prove the policy correct: the locale \<open>flow_stage\<close> has what the three stages (promote, prefetch, demote) have in
    common and is interpreted on each. \<open>Cslide_Worker\<close> proves the worker safe over all interleavings, and
    \<open>Cslide_Effect\<close> what it achieves as a whole.
  \<^item> \<open>Damon\<close> (\<open>etmemd_damon.c\<close>), \<open>Thirdparty\<close> (\<open>etmemd_thirdparty.c\<close>):
    the texts the kernel gets, and who may own a library that is loaded.
  \<^item> \<open>Etmemd_Rpc\<close>, \<open>Status_Show\<close>, \<open>Etmemd_Main\<close>, \<open>Etmemd_Stop\<close>
    (\<open>etmemd_rpc.c\<close>, \<open>etmemd.c\<close>) and \<open>Etmem_Client\<close> (\<open>etmem_src\<close>): server,
    tables, start and end of the daemon, and client. \<open>Rpc_Session\<close> composes client, server and registry;
    \<open>boot_step\<close> interleaves the two processes of the start in systemctl mode.
  \<^item> \<open>Memdcd_Client\<close>, \<open>Memdcd_Engine\<close> (\<open>etmemd_memdcd.c\<close>): the sending side of
    memdcd. \<open>Memdcd_Collect\<close>, \<open>Memdcd_Policy\<close>, \<open>Memdcd_Daemon\<close>
    (\<open>memRouter/src\<close>): the receiving side, with the locale \<open>swap_policy\<close> for the contract of a policy,
    interpreted on the threshold policy, and \<open>daemon_step\<close> for the connections, signals and worker threads of the
    daemon.
  \<^item> \<open>Userswap\<close> (\<open>userswap/src\<close>): registration, requests, merging, swap-out and page faults.
    \<open>Userswap_Session\<close> adds the sockets on both sides and the threads, and composes memRouter with the library.

  \<^bold>\<open>What the theorems show.\<close>

  \<^item> Scanning: the page list refines a map and stays sorted, the areas read are those the kernel printed, the statistics
    are the mean and a bound of the deviation.
  \<^item> Policies: slide writes exactly the cold pages, cslide keeps its quota and the room on each node, takes hottest and
    coldest pages first and loses no page, the threshold policy in place equals its specification.
  \<^item> Concurrency: the pool executes every pushed process exactly once before the timer goes on, nothing of the cslide
    engine is used after it was released, the worker and both daemons end when they are told to.
  \<^item> Registry: names are distinct, a stopped project has no running task, a running task is never released, over all
    histories.
  \<^item> Messages: client to daemon, etmemd to memRouter and memRouter to userswap arrive as they were sent, and the exit code
    of the client tells the outcome.
  \<^item> Trust: only root clients and root-owned libraries take effect.

  \<^bold>\<open>Loops and fuel.\<close> Loops are structural where the source counts down a list.
  \<open>get_page_shift_loop\<close>, \<open>swapout_loop\<close>, \<open>copy_pages_loop\<close> and \<open>userswap_loop\<close>
  are partial functions into \<open>option\<close>, and the theorems about them state that they return. Reads and waits of a daemon
  take their outcomes from a list, one per call; what holds for every list holds however long the daemon runs. No theorem depends on
  a choice of fuel.

  \<^bold>\<open>What the proofs found\<close> on the way is where the code does less than it means to: the cslide engine never moves
  a page, since its scan calls the walk as if every pass were the last (\<open>Cslide_Effect\<close>); the decoder of the server can
  read one byte behind its buffer, and \<open>Rpc_Session\<close> has the exact bound.

  \<^bold>\<open>Not modelled.\<close>

  \<^item> The output of log messages and usage texts, which nothing depends on.
  \<^item> The memory of whole structures that are released at the end of their life, where no later use is possible; releases
    that matter (processes, tasks, cslide parameters, libraries) are explicit.
  \<^item> Locks as such: a step of the interleaved models is what is done under the lock.
  \<^item> The child process that runs \<open>pgrep\<close>: system calls only, its output is a parameter.
  \<^item> A signal during the start of etmemd, which forgets it.
  \<^item> The files CMake generates to identify the compiler, and the tests.
\<close>

end
